(* ===== verification/Prelude.thy ===== *)
theory Prelude
  imports Main "HOL-Library.Word"
begin

text \<open>
  What every component of the model shares.

  \<^item> \<open>esp_err\<close>: the ESP-IDF result codes the sources return.
  \<^item> \<open>os_log_level\<close>: the log levels of \<^verbatim>\<open>os_logging.h\<close>, ordered as the enum is.
  \<^item> \<open>eff\<close>: one entry of the trace an operation leaves: taking and giving the component's
    mutex, a log line (its level and its format string), or a call into FreeRTOS or ESP-IDF.
    \<open>lock_ok\<close> says that such a trace follows the discipline of a non-recursive mutex.
  \<^item> \<open>find_idx\<close>: the scan \<^verbatim>\<open>for (i = 0; i < N; i++) if (P(t[i])) return i;\<close> of every table.
  \<^item> \<open>cstr\<close>: the C string that \<^verbatim>\<open>strncpy\<close> with a forced terminator leaves in a
    buffer of \<open>n\<close> bytes.  A C string is the list of the characters before its terminator;
    a pointer that may be NULL is an option.
  \<^item> \<open>guarded\<close> and \<open>simulates\<close>: the two contracts of a component, as locales over one step
    of it.  \<open>guarded\<close>: every operation that meets its condition keeps the invariant, hence so
    does every sequence (\<open>run\<close>).  \<open>simulates\<close>: every operation answers what the specification
    answers on the abstract state, hence so does every sequence (\<open>answers\<close>).

  The collection \<open>lock_simps\<close> holds the rules that evaluate lock traces.
\<close>

named_theorems lock_simps \<open>evaluation of lock traces\<close>

section \<open>Result codes and log levels\<close>

datatype esp_err =
    ESP_OK | ESP_FAIL | ESP_ERR_NO_MEM | ESP_ERR_INVALID_ARG | ESP_ERR_INVALID_STATE
  | ESP_ERR_NOT_FOUND | ESP_ERR_TIMEOUT | ESP_ERR_NOT_SUPPORTED
  | ESP_ERR_OTHER int \<comment> \<open>any other code of ESP-IDF, passed through\<close>

datatype os_log_level = OS_LOG_DEBUG | OS_LOG_INFO | OS_LOG_WARN | OS_LOG_ERROR | OS_LOG_NONE

primrec level_code :: "os_log_level \<Rightarrow> nat" where
  "level_code OS_LOG_DEBUG = 0"
| "level_code OS_LOG_INFO = 1"
| "level_code OS_LOG_WARN = 2"
| "level_code OS_LOG_ERROR = 3"
| "level_code OS_LOG_NONE = 4"

lemma level_code_inj: "level_code a = level_code b \<longleftrightarrow> a = b"
  by (cases a; cases b) simp_all

text \<open>The C code compares levels as the integers of the enum.\<close>

instantiation os_log_level :: linorder
begin

definition less_eq_os_log_level :: "os_log_level \<Rightarrow> os_log_level \<Rightarrow> bool" where
  "less_eq_os_log_level a b \<longleftrightarrow> level_code a \<le> level_code b"

definition less_os_log_level :: "os_log_level \<Rightarrow> os_log_level \<Rightarrow> bool" where
  "less_os_log_level a b \<longleftrightarrow> level_code a < level_code b"

instance
  by standard (auto simp: less_eq_os_log_level_def less_os_log_level_def level_code_inj)

end

lemmas level_order = less_eq_os_log_level_def less_os_log_level_def

section \<open>Traces and the mutex discipline\<close>

datatype 'c eff =
    Take                      \<comment> \<open>\<^verbatim>\<open>xSemaphoreTake(lock, portMAX_DELAY)\<close>\<close>
  | Give                      \<comment> \<open>\<^verbatim>\<open>xSemaphoreGive(lock)\<close>\<close>
  | Log os_log_level string   \<comment> \<open>\<^verbatim>\<open>OS_LOGx(TAG, fmt, ...)\<close>: level and format string\<close>
  | Ext 'c                    \<comment> \<open>a call into FreeRTOS or ESP-IDF\<close>

text \<open>
  \<open>lock_ok held tr\<close>: starting with the mutex held or not, the trace never takes it twice,
  never gives it when it is not held, and ends with it released.
\<close>

fun lock_ok :: "bool \<Rightarrow> 'c eff list \<Rightarrow> bool" where
  "lock_ok held [] \<longleftrightarrow> \<not> held"
| "lock_ok held (Take # tr) \<longleftrightarrow> \<not> held \<and> lock_ok True tr"
| "lock_ok held (Give # tr) \<longleftrightarrow> held \<and> lock_ok False tr"
| "lock_ok held (Log l m # tr) \<longleftrightarrow> lock_ok held tr"
| "lock_ok held (Ext c # tr) \<longleftrightarrow> lock_ok held tr"

declare lock_ok.simps [lock_simps]

lemma lock_ok_append:
  "lock_ok h a \<Longrightarrow> lock_ok False b \<Longrightarrow> lock_ok h (a @ b)"
  by (induction h a rule: lock_ok.induct) simp_all

text \<open>A trace without mutex operations can run whether the mutex is held or not.\<close>

definition quiet :: "'c eff list \<Rightarrow> bool" where
  "quiet tr \<longleftrightarrow> Take \<notin> set tr \<and> Give \<notin> set tr"

lemma quiet_simps [simp]:
  "quiet []"
  "quiet (Log l m # tr) = quiet tr"
  "quiet (Ext c # tr) = quiet tr"
  "quiet (tr @ tr') \<longleftrightarrow> quiet tr \<and> quiet tr'"
  "quiet (concat trs) \<longleftrightarrow> (\<forall>tr \<in> set trs. quiet tr)"
  by (auto simp: quiet_def)

lemma quiet_map_Ext [simp]: "quiet (map (\<lambda>x. Ext (f x)) xs)"
  by (auto simp: quiet_def)

lemma lock_ok_quiet [lock_simps]: "quiet tr \<Longrightarrow> lock_ok h (tr @ tr') = lock_ok h tr'"
proof (induction tr arbitrary: h)
  case Nil
  then show ?case by simp
next
  case (Cons e tr)
  then show ?case by (cases e) (auto simp: quiet_def)
qed

text \<open>The calls of a trace into FreeRTOS and ESP-IDF, in order.\<close>

fun ext_calls :: "'c eff list \<Rightarrow> 'c list" where
  "ext_calls [] = []"
| "ext_calls (Ext c # tr) = c # ext_calls tr"
| "ext_calls (_ # tr) = ext_calls tr"

lemma ext_calls_append [simp]: "ext_calls (a @ b) = ext_calls a @ ext_calls b"
  by (induction a rule: ext_calls.induct) simp_all

lemma ext_calls_map_Ext [simp]: "ext_calls (map (\<lambda>x. Ext (f x)) xs) = map f xs"
  by (induction xs) simp_all

section \<open>C strings\<close>

definition nul :: char where "nul = CHR 0x00"

text \<open>
  \<^verbatim>\<open>strncpy(dst, s, n - 1); dst[n - 1] = '\0'\<close> into a buffer of \<open>n\<close> bytes.
  \<^verbatim>\<open>strncpy\<close> fills the rest with zeros, so the buffer then holds this string and no other.
\<close>

definition cstr :: "nat \<Rightarrow> string \<Rightarrow> string" where
  "cstr n s = take (n - 1) s"

lemma length_cstr [simp]: "length (cstr n s) = min (length s) (n - 1)"
  by (simp add: cstr_def)

lemma cstr_short [simp]: "length s < n \<Longrightarrow> cstr n s = s"
  by (simp add: cstr_def)

lemma cstr_cstr [simp]: "cstr n (cstr n s) = cstr n s"
  by (simp add: cstr_def)

lemma cstr_eq_Nil: "1 < n \<Longrightarrow> cstr n s = [] \<longleftrightarrow> s = []"
  by (auto simp: cstr_def)

lemma cstr_fits: "0 < n \<Longrightarrow> length (cstr n s) < n"
  by (simp add: min_less_iff_disj)

section \<open>Scanning a table\<close>

lemma list_all_update: "list_all P xs \<Longrightarrow> P y \<Longrightarrow> list_all P (xs[i := y])"
  by (auto simp: list_all_iff dest: set_update_subset_insert [THEN subsetD])

lemma list_all_nth: "list_all P xs \<Longrightarrow> i < length xs \<Longrightarrow> P (xs ! i)"
  by (simp add: list_all_length)

lemma list_all_update_at:
  assumes "list_all P xs" and "\<And>x. P x \<Longrightarrow> P (f x)"
  shows "list_all P (xs[i := f (xs ! i)])"
proof (cases "i < length xs")
  case True
  with assms show ?thesis by (intro list_all_update) (auto simp: list_all_length)
next
  case False
  with assms(1) show ?thesis by (simp add: list_update_beyond)
qed

lemma set_update_cases: "x \<in> set (xs[i := y]) \<Longrightarrow> x = y \<or> x \<in> set xs"
  using set_update_subset_insert [of xs i y] by blast


primrec find_idx :: "('a \<Rightarrow> bool) \<Rightarrow> 'a list \<Rightarrow> nat option" where
  "find_idx P [] = None"
| "find_idx P (x # xs) = (if P x then Some 0 else map_option Suc (find_idx P xs))"

lemma find_idx_None: "find_idx P xs = None \<longleftrightarrow> (\<forall>x \<in> set xs. \<not> P x)"
  by (induction xs) auto

lemma find_idx_SomeD:
  "find_idx P xs = Some i \<Longrightarrow> i < length xs \<and> P (xs ! i) \<and> (\<forall>j < i. \<not> P (xs ! j))"
proof (induction xs arbitrary: i)
  case Nil
  then show ?case by simp
next
  case (Cons x xs)
  then show ?case
    by (auto split: if_splits simp: less_Suc_eq_0_disj)
qed

lemma find_idx_SomeI:
  "i < length xs \<Longrightarrow> P (xs ! i) \<Longrightarrow> (\<And>j. j < i \<Longrightarrow> \<not> P (xs ! j)) \<Longrightarrow> find_idx P xs = Some i"
proof (induction xs arbitrary: i)
  case Nil
  then show ?case by simp
next
  case (Cons x xs)
  show ?case
  proof (cases i)
    case 0
    with Cons.prems show ?thesis by simp
  next
    case (Suc k)
    have "\<not> P x" using Cons.prems(3) [of 0] Suc by simp
    moreover have "\<And>j. j < k \<Longrightarrow> \<not> P (xs ! j)"
      using Cons.prems(3) [of "Suc _"] Suc by simp
    then have "find_idx P xs = Some k"
      using Cons.prems(1,2) Suc by (intro Cons.IH) simp_all
    ultimately show ?thesis using Suc by simp
  qed
qed

text \<open>When only one entry can satisfy the test, the scan finds it wherever it stands.\<close>

lemma find_idx_unique:
  assumes "i < length xs" and "P (xs ! i)"
    and "\<And>j. j < length xs \<Longrightarrow> P (xs ! j) \<Longrightarrow> j = i"
  shows "find_idx P xs = Some i"
proof (rule find_idx_SomeI)
  fix j
  assume "j < i"
  with assms(1) have "j < length xs" by simp
  with assms(3) [of j] \<open>j < i\<close> show "\<not> P (xs ! j)" by blast
qed (rule assms(1), rule assms(2))

lemma find_idx_ex: "find_idx P xs \<noteq> None \<longleftrightarrow> (\<exists>i < length xs. P (xs ! i))"
  by (simp add: find_idx_None) (auto simp: set_conv_nth)

section \<open>Counting used entries\<close>

definition count_if :: "('a \<Rightarrow> bool) \<Rightarrow> 'a list \<Rightarrow> nat" where
  "count_if P xs = length (filter P xs)"

lemma count_if_simps [simp]:
  "count_if P [] = 0"
  "count_if P (x # xs) = (if P x then 1 else 0) + count_if P xs"
  by (simp_all add: count_if_def)

lemma count_if_le: "count_if P xs \<le> length xs"
  by (simp add: count_if_def)

lemma count_if_pos: "i < length xs \<Longrightarrow> P (xs ! i) \<Longrightarrow> 0 < count_if P xs"
  by (auto simp: count_if_def filter_empty_conv intro: nth_mem)

lemma count_if_update:
  "i < length xs \<Longrightarrow>
   count_if P (xs[i := y]) + (if P (xs ! i) then 1 else 0) = count_if P xs + (if P y then 1 else 0)"
proof (induction xs arbitrary: i)
  case Nil
  then show ?case by simp
next
  case (Cons x xs)
  then show ?case by (cases i) auto
qed

lemma count_if_full: "count_if P xs = length xs \<longleftrightarrow> (\<forall>x \<in> set xs. P x)"
proof (induction xs)
  case Nil
  then show ?case by simp
next
  case (Cons x xs)
  have "count_if P xs \<le> length xs" by (rule count_if_le)
  with Cons show ?case by auto
qed

lemma count_if_free_slot: "find_idx (\<lambda>x. \<not> P x) xs = None \<longleftrightarrow> count_if P xs = length xs"
  by (simp add: find_idx_None count_if_full)

section \<open>Shared limits\<close>

text \<open>The longest line of the shell with its terminator (\<^verbatim>\<open>os_shell.h\<close>), also of a scheduled command.\<close>

definition SHELL_MAX_LINE_LEN :: nat where "SHELL_MAX_LINE_LEN = 256"

section \<open>Machine integers\<close>

lemma sint_small:
  assumes "unat (w :: 32 word) < 2 ^ 31"
  shows "sint w = int (unat w)"
proof -
  have m: "(int (unat w) + 2147483648) mod 4294967296 = int (unat w) + 2147483648"
  proof (rule mod_pos_pos_trivial)
    from assms have "unat w < 2147483648" by simp
    then show "int (unat w) + 2147483648 < 4294967296" by linarith
  qed linarith
  have "sint (word_of_int (int (unat w)) :: 32 word) = int (unat w)"
    unfolding int_word_sint using m by (simp del: of_nat_unat)
  then show ?thesis by simp
qed

section \<open>Sequences of operations\<close>

text \<open>
  A component's state under a sequence of calls: every call is one \<open>step\<close>.  The interface
  \<open>guarded\<close> is what a component promises its callers: its invariant holds again after
  every call that meets \<open>ok\<close>, the condition its callers keep (trivial for most components),
  so it holds after any sequence of such calls.
\<close>

definition run :: "('op \<Rightarrow> 's \<Rightarrow> 's) \<Rightarrow> 'op list \<Rightarrow> 's \<Rightarrow> 's" where
  "run step ops s = fold step ops s"

lemma run_simps [simp]:
  "run step [] s = s"
  "run step (x # ops) s = run step ops (step x s)"
  by (simp_all add: run_def)

lemma run_append: "run step (xs @ ys) s = run step ys (run step xs s)"
  by (simp add: run_def)

locale guarded =
  fixes step :: "'op \<Rightarrow> 's \<Rightarrow> 's" and ok :: "'op \<Rightarrow> bool" and inv :: "'s \<Rightarrow> bool"
  assumes step_inv: "ok x \<Longrightarrow> inv s \<Longrightarrow> inv (step x s)"
begin

lemma run_inv: "list_all ok ops \<Longrightarrow> inv s \<Longrightarrow> inv (run step ops s)"
  by (induction ops arbitrary: s) (auto intro: step_inv)

end

text \<open>
  The interface \<open>simulates\<close> is the stronger promise of a component with an abstract
  specification: in states that satisfy the invariant every call gives the answer of the
  specification and its abstract successor.  Then whole sequences of calls give the same answers.
\<close>

definition answers :: "('op \<Rightarrow> 's \<Rightarrow> 'r \<times> 's) \<Rightarrow> 'op list \<Rightarrow> 's \<Rightarrow> 'r list \<times> 's" where
  "answers f ops s = fold (\<lambda>x (rs, s). case f x s of (r, s') \<Rightarrow> (rs @ [r], s')) ops ([], s)"

lemma fold_answers:
  "fold (\<lambda>x (rs, s). case f x s of (r, s') \<Rightarrow> (rs @ [r], s')) ops (rs, s)
   = (rs @ fst (answers f ops s), snd (answers f ops s))"
proof (induction ops arbitrary: rs s)
  case Nil
  then show ?case by (simp add: answers_def)
next
  case (Cons x ops)
  obtain r s' where "f x s = (r, s')" by (cases "f x s")
  then show ?case
    using Cons [of "rs @ [r]" s'] Cons [of "[r]" s'] by (simp add: answers_def)
qed

lemma answers_simps [simp]:
  "answers f [] s = ([], s)"
  "answers f (x # ops) s =
    (fst (f x s) # fst (answers f ops (snd (f x s))), snd (answers f ops (snd (f x s))))"
  using fold_answers [of f ops "[fst (f x s)]" "snd (f x s)"]
  by (simp_all add: answers_def split_beta)

locale simulates = guarded "\<lambda>x s. snd (conc x s)" ok inv
  for conc :: "'op \<Rightarrow> 's \<Rightarrow> 'r \<times> 's" and ok :: "'op \<Rightarrow> bool" and inv :: "'s \<Rightarrow> bool" +
  fixes spec :: "'op \<Rightarrow> 'a \<Rightarrow> 'r \<times> 'a" and abs :: "'s \<Rightarrow> 'a"
  assumes step_sim: "ok x \<Longrightarrow> inv s \<Longrightarrow> spec x (abs s) = (fst (conc x s), abs (snd (conc x s)))"
begin

lemma answers_sim:
  "list_all ok ops \<Longrightarrow> inv s \<Longrightarrow>
   answers spec ops (abs s) = (fst (answers conc ops s), abs (snd (answers conc ops s)))"
  by (induction ops arbitrary: s) (simp_all add: step_sim step_inv)

end

end
