(* ===== verification/SlotTable.thy ===== *)
theory SlotTable
  imports Prelude
begin

text \<open>
  The table every service keeps: a fixed number of slots, each used or free, a used slot
  carrying a name (environment variables, message queues, event groups, shared memory,
  timers, scheduler jobs, MQTT subscriptions).  The sources scan such a table with the same
  two loops: the first used slot with a given name, and the first free slot.

  \<open>tab_find\<close>, \<open>tab_free\<close>, \<open>tab_uniq\<close> and \<open>tab_map\<close> are the two scans, the invariant that
  no two used slots carry the same name, and the finite map the table stands for.  The locale
  \<open>slot_table\<close> holds the laws of filling a slot and of clearing one, proved once; every
  component interprets it on its own entry type, its own "used" flag and its own way of
  clearing a slot.
\<close>

definition tab_find :: "('e \<Rightarrow> bool) \<Rightarrow> ('e \<Rightarrow> 'k) \<Rightarrow> 'k \<Rightarrow> 'e list \<Rightarrow> nat option" where
  "tab_find used key k es = find_idx (\<lambda>e. used e \<and> key e = k) es"

definition tab_free :: "('e \<Rightarrow> bool) \<Rightarrow> 'e list \<Rightarrow> nat option" where
  "tab_free used es = find_idx (\<lambda>e. \<not> used e) es"

definition tab_uniq :: "('e \<Rightarrow> bool) \<Rightarrow> ('e \<Rightarrow> 'k) \<Rightarrow> 'e list \<Rightarrow> bool" where
  "tab_uniq used key es \<longleftrightarrow>
     (\<forall>i < length es. \<forall>j < length es.
        used (es ! i) \<and> used (es ! j) \<and> key (es ! i) = key (es ! j) \<longrightarrow> i = j)"

definition tab_map :: "('e \<Rightarrow> bool) \<Rightarrow> ('e \<Rightarrow> 'k) \<Rightarrow> ('e \<Rightarrow> 'v) \<Rightarrow> 'e list \<Rightarrow> ('k \<rightharpoonup> 'v)" where
  "tab_map used key val es k = map_option (\<lambda>i. val (es ! i)) (tab_find used key k es)"

lemma tab_findD:
  assumes "tab_find used key k es = Some i"
  shows "i < length es" and "used (es ! i)" and "key (es ! i) = k"
  using find_idx_SomeD [OF assms [unfolded tab_find_def]] by auto

lemma tab_find_None: "tab_find used key k es = None \<longleftrightarrow> (\<forall>e \<in> set es. used e \<longrightarrow> key e \<noteq> k)"
  by (auto simp: tab_find_def find_idx_None)

lemma tab_find_None_nth:
  "tab_find used key k es = None \<Longrightarrow> i < length es \<Longrightarrow> used (es ! i) \<Longrightarrow> key (es ! i) \<noteq> k"
  by (auto simp: tab_find_None)

lemma tab_freeD:
  assumes "tab_free used es = Some i"
  shows "i < length es" and "\<not> used (es ! i)"
  using find_idx_SomeD [OF assms [unfolded tab_free_def]] by auto

lemma tab_free_None: "tab_free used es = None \<longleftrightarrow> count_if used es = length es"
  by (simp add: tab_free_def count_if_free_slot)

lemma tab_uniqD:
  "tab_uniq used key es \<Longrightarrow> i < length es \<Longrightarrow> j < length es \<Longrightarrow> used (es ! i) \<Longrightarrow> used (es ! j) \<Longrightarrow>
   key (es ! i) = key (es ! j) \<Longrightarrow> i = j"
  by (auto simp: tab_uniq_def)

lemma tab_uniq_none: "\<forall>e \<in> set es. \<not> used e \<Longrightarrow> tab_uniq used key es"
  by (auto simp: tab_uniq_def)

lemma tab_uniq_replicate: "\<not> used e \<Longrightarrow> tab_uniq used key (replicate n e)"
  by (rule tab_uniq_none) simp

lemma tab_find_replicate: "\<not> used e \<Longrightarrow> tab_find used key k (replicate n e) = None"
  by (simp add: tab_find_None)

lemma tab_find_uniq:
  "tab_uniq used key es \<Longrightarrow> i < length es \<Longrightarrow> used (es ! i) \<Longrightarrow>
   tab_find used key (key (es ! i)) es = Some i"
  unfolding tab_find_def by (rule find_idx_unique) (auto dest: tab_uniqD)

text \<open>Changing an entry in place keeps the invariant when its name stays and it does not become used.\<close>

lemma tab_uniq_keep:
  assumes "tab_uniq used key es" and "i < length es"
    and "key e = key (es ! i)" and "used e \<Longrightarrow> used (es ! i)"
  shows "tab_uniq used key (es[i := e])"
proof -
  have k: "key (es[i := e] ! a) = key (es ! a)" for a
    using assms(2,3) by (cases "a = i") simp_all
  have u: "used (es[i := e] ! a) \<Longrightarrow> used (es ! a)" for a
    using assms(2,4) by (cases "a = i") simp_all
  show ?thesis
    using tab_uniqD [OF assms(1)] u unfolding tab_uniq_def k length_list_update by blast
qed

text \<open>A slot that becomes unused never breaks it.\<close>

lemma tab_uniq_clear:
  assumes "tab_uniq used key es" and "\<not> used e"
  shows "tab_uniq used key (es[i := e])"
  unfolding tab_uniq_def
proof (intro allI impI)
  fix a b
  assume "a < length (es[i := e])" and "b < length (es[i := e])"
    and "used (es[i := e] ! a) \<and> used (es[i := e] ! b) \<and> key (es[i := e] ! a) = key (es[i := e] ! b)"
  moreover from this assms(2) have "a \<noteq> i" "b \<noteq> i" by auto
  ultimately show "a = b" using tab_uniqD [OF assms(1), of a b] by simp
qed

lemma tab_map_Some:
  "tab_map used key val es k = Some v \<longleftrightarrow>
   (\<exists>i. tab_find used key k es = Some i \<and> val (es ! i) = v)"
  by (auto simp: tab_map_def)

text \<open>The invariant and the map in terms of the list of names in use.\<close>

lemma tab_uniq_distinct: "tab_uniq used key es \<Longrightarrow> distinct (map key (filter used es))"
proof (induction es)
  case Nil
  then show ?case by simp
next
  case (Cons e es)
  have inj: "a = b" if "a < length es" "b < length es" "used (es ! a)" "used (es ! b)"
    "key (es ! a) = key (es ! b)" for a b
    using tab_uniqD [OF Cons.prems, of "Suc a" "Suc b"] that by simp
  then have "tab_uniq used key es" by (auto simp: tab_uniq_def)
  moreover have "key x \<noteq> key e" if "used e" "x \<in> set es" "used x" for x
  proof
    assume "key x = key e"
    from that obtain m where "m < length es" "es ! m = x" by (auto simp: in_set_conv_nth)
    then have "Suc m = 0" 
      using tab_uniqD [OF Cons.prems, of "Suc m" 0] that \<open>key x = key e\<close> by simp
    then show False by simp
  qed
  ultimately show ?case using Cons.IH by force
qed

lemma distinct_tab_uniq: "distinct (map key (filter used es)) \<Longrightarrow> tab_uniq used key es"
proof (induction es)
  case Nil
  then show ?case by (simp add: tab_uniq_def)
next
  case (Cons e es)
  then have u: "tab_uniq used key es" by (simp split: if_splits)
  have new: "key x \<noteq> key e" if "used e" "x \<in> set es" "used x" for x
    using Cons.prems that by (auto simp: image_iff eq_commute)
  show ?case
    unfolding tab_uniq_def
  proof (intro allI impI)
    fix a b
    assume "a < length (e # es)" "b < length (e # es)"
      "used ((e # es) ! a) \<and> used ((e # es) ! b) \<and> key ((e # es) ! a) = key ((e # es) ! b)"
    then show "a = b"
      using new nth_mem [of _ es]
      by (cases a; cases b) (auto intro: tab_uniqD [OF u] dest: sym)
  qed
qed

lemma dom_tab_map: "dom (tab_map used key val es) = key ` {e \<in> set es. used e}"
proof -
  have "k \<in> dom (tab_map used key val es) \<longleftrightarrow> tab_find used key k es \<noteq> None" for k
    by (auto simp: tab_map_def dom_def)
  also have "\<And>k. tab_find used key k es \<noteq> None \<longleftrightarrow> k \<in> key ` {e \<in> set es. used e}"
    by (auto simp: tab_find_None)
  finally show ?thesis by blast
qed

lemma card_dom_tab_map:
  assumes "tab_uniq used key es"
  shows "card (dom (tab_map used key val es)) = count_if used es"
proof -
  have "dom (tab_map used key val es) = set (map key (filter used es))"
    by (simp add: dom_tab_map)
  then show ?thesis
    using distinct_card [OF tab_uniq_distinct [OF assms]] by (simp add: count_if_def)
qed

text \<open>The two scans of a creation decide as the map does.\<close>

lemma tab_free_card:
  "tab_uniq used key es \<Longrightarrow> length es = cap \<Longrightarrow>
   tab_free used es = None \<longleftrightarrow> \<not> card (dom (tab_map used key val es)) < cap"
  using count_if_le [of used es] by (auto simp: tab_free_None card_dom_tab_map)

lemma tab_map_None_iff: "tab_map used key val es n = None \<longleftrightarrow> tab_find used key n es = None"
  by (simp add: tab_map_def)

text \<open>Compacting the table, or laying out its used entries anew, keeps the map.\<close>

lemma tab_map_filter: "tab_map used key val (filter used es) = tab_map used key val es"
proof
  fix k
  show "tab_map used key val (filter used es) k = tab_map used key val es k"
    by (induction es) (auto simp: tab_map_def tab_find_def option.map_comp comp_def)
qed

lemma tab_map_append_free:
  "(\<And>e. e \<in> set fs \<Longrightarrow> \<not> used e) \<Longrightarrow> tab_map used key val (es @ fs) = tab_map used key val es"
proof
  fix k
  assume f: "\<And>e. e \<in> set fs \<Longrightarrow> \<not> used e"
  then have "find_idx (\<lambda>e. used e \<and> key e = k) fs = None" by (auto simp: find_idx_None)
  then show "tab_map used key val (es @ fs) k = tab_map used key val es k"
    by (induction es) (auto simp: tab_map_def tab_find_def option.map_comp comp_def)
qed

lemma tab_uniq_filter_append:
  "tab_uniq used key es \<Longrightarrow> (\<And>e. e \<in> set fs \<Longrightarrow> \<not> used e) \<Longrightarrow> tab_uniq used key (filter used es @ fs)"
  by (rule distinct_tab_uniq) (use tab_uniq_distinct in \<open>simp add: filter_empty_conv [THEN iffD2]\<close>)

text \<open>
  The laws.  \<open>blank\<close> is how the component clears a slot: some zero the whole slot, some
  only reset its flag.
\<close>

locale slot_table =
  fixes used :: "'e \<Rightarrow> bool" and key :: "'e \<Rightarrow> 'k" and val :: "'e \<Rightarrow> 'v" and blank :: "'e \<Rightarrow> 'e"
  assumes blank_free: "\<not> used (blank e)"
begin

text \<open>Filling a slot: a free one with a name that is not in use, or the slot that has the name.\<close>

lemma uniq_fill:
  assumes "tab_uniq used key es" and "tab_find used key (key e) es \<in> {None, Some i}"
  shows "tab_uniq used key (es[i := e])"
  unfolding tab_uniq_def
proof (intro allI impI)
  fix a b
  assume "a < length (es[i := e])" and "b < length (es[i := e])"
    and h: "used (es[i := e] ! a) \<and> used (es[i := e] ! b) \<and> key (es[i := e] ! a) = key (es[i := e] ! b)"
  then have ab: "a < length es" "b < length es" by simp_all
  have other: "c < length es \<Longrightarrow> used (es ! c) \<Longrightarrow> key (es ! c) = key e \<Longrightarrow> c = i" for c
    using assms(2) tab_find_None_nth [of used key "key e" es c]
      tab_find_uniq [OF assms(1), of c] by auto
  consider "a = i" "b = i" | "a = i" "b \<noteq> i" | "a \<noteq> i" "b = i" | "a \<noteq> i" "b \<noteq> i" by blast
  then show "a = b"
  proof cases
    case 1 then show ?thesis by simp
  next
    case 2 then show ?thesis using h ab other [of b] by simp
  next
    case 3 then show ?thesis using h ab other [of a] by simp
  next
    case 4 then show ?thesis using h ab assms(1) tab_uniqD [of used key es a b] by simp
  qed
qed

lemma used_blank_nth:
  "a < length es \<Longrightarrow> used (es[i := blank e] ! a) \<longleftrightarrow> a \<noteq> i \<and> used (es ! a)"
  using blank_free [of e] by (cases "a = i") simp_all

lemma uniq_blank: "tab_uniq used key es \<Longrightarrow> tab_uniq used key (es[i := blank e])"
  by (erule tab_uniq_clear) (rule blank_free)

lemma find_fill:
  assumes "tab_uniq used key es" and "tab_find used key (key e) es \<in> {None, Some i}"
    and "i < length es" and "used e"
  shows "tab_find used key (key e) (es[i := e]) = Some i"
  using tab_find_uniq [OF uniq_fill [OF assms(1,2)], of i] assms(3,4) by simp

text \<open>Scans for another name are not disturbed by a slot that does not have it before or after.\<close>

lemma find_other:
  assumes "k \<noteq> key e \<or> \<not> used e" and "\<not> used (es ! i) \<or> key (es ! i) \<noteq> k"
  shows "tab_find used key k (es[i := e]) = tab_find used key k es"
proof (cases "tab_find used key k es")
  case None
  have "used x \<longrightarrow> key x \<noteq> k" if "x \<in> set (es[i := e])" for x
  proof -
    from that have "x = e \<or> x \<in> set es"
      using set_update_subset_insert [of es i e] by blast
    with assms(1) None show ?thesis by (auto simp: tab_find_None)
  qed
  then have "tab_find used key k (es[i := e]) = None" by (simp add: tab_find_None)
  with None show ?thesis by simp
next
  case (Some j)
  then have j: "j < length es" "used (es ! j)" "key (es ! j) = k"
    and first: "\<forall>m < j. \<not> (used (es ! m) \<and> key (es ! m) = k)"
    using find_idx_SomeD [of "\<lambda>e. used e \<and> key e = k" es j] by (auto simp: tab_find_def)
  from j assms(2) have "j \<noteq> i" by auto
  have before: "\<not> (used (es[i := e] ! m) \<and> key (es[i := e] ! m) = k)" if "m < j" for m
    using that j(1) first assms(1) by (cases "m = i") auto
  have "find_idx (\<lambda>e. used e \<and> key e = k) (es[i := e]) = Some j"
    using j \<open>j \<noteq> i\<close> before by (intro find_idx_SomeI) simp_all
  with Some show ?thesis by (simp add: tab_find_def)
qed

lemma map_fill:
  assumes "tab_uniq used key es" and "tab_find used key (key e) es \<in> {None, Some i}"
    and "i < length es" and "used e" and "used (es ! i) \<longrightarrow> key (es ! i) = key e"
  shows "tab_map used key val (es[i := e]) = (tab_map used key val es)(key e \<mapsto> val e)"
proof
  fix k
  show "tab_map used key val (es[i := e]) k = ((tab_map used key val es)(key e \<mapsto> val e)) k"
  proof (cases "k = key e")
    case True
    with find_fill [OF assms(1-4)] assms(3) show ?thesis by (simp add: tab_map_def)
  next
    case False
    then have f: "tab_find used key k (es[i := e]) = tab_find used key k es"
      using assms(5) by (intro find_other) auto
    have "tab_find used key k es \<noteq> Some i"
      using False assms(5) by (auto dest: tab_findD)
    with f False show ?thesis
      by (cases "tab_find used key k es") (auto simp: tab_map_def nth_list_update)
  qed
qed

lemma find_blank:
  assumes "tab_uniq used key es" and "tab_find used key k es = Some i"
  shows "tab_find used key k' (es[i := blank e]) = (if k' = k then None else tab_find used key k' es)"
proof (cases "k' = k")
  case True
  have "used x \<longrightarrow> key x \<noteq> k" if "x \<in> set (es[i := blank e])" for x
  proof -
    from that obtain j where j: "j < length es" "x = es[i := blank e] ! j"
      by (auto simp: in_set_conv_nth)
    with tab_findD [OF assms(2)] tab_uniqD [OF assms(1), of j i] show ?thesis
      by (auto simp: used_blank_nth)
  qed
  with True show ?thesis by (simp add: tab_find_None)
next
  case False
  with tab_findD [OF assms(2)] blank_free [of e] show ?thesis
    by (simp add: find_other)
qed

lemma map_blank:
  assumes "tab_uniq used key es" and "tab_find used key k es = Some i"
  shows "tab_map used key val (es[i := blank e]) = (tab_map used key val es)(k := None)"
proof
  fix k'
  have "k' \<noteq> k \<Longrightarrow> tab_find used key k' es \<noteq> Some i"
    using tab_findD [OF assms(2)] by (auto dest: tab_findD)
  then show "tab_map used key val (es[i := blank e]) k' = ((tab_map used key val es)(k := None)) k'"
    by (cases "tab_find used key k' es")
      (auto simp: tab_map_def find_blank [OF assms] nth_list_update)
qed

lemma map_all_free: "(\<And>e. e \<in> set es \<Longrightarrow> \<not> used e) \<Longrightarrow> tab_map used key val es = Map.empty"
  by (rule ext) (simp add: tab_map_def tab_find_None [THEN iffD2])

text \<open>
  Creating a new named object in the first free slot, and deleting the object of a slot: what
  the services that check for a duplicate name first rely on.
\<close>

lemma create_new:
  assumes "tab_uniq used key es" and "tab_find used key (key e) es = None"
    and "tab_free used es = Some i" and "used e"
  shows "tab_uniq used key (es[i := e])"
    and "tab_find used key (key e) (es[i := e]) = Some i"
    and "tab_map used key val (es[i := e]) = (tab_map used key val es)(key e \<mapsto> val e)"
    and "k \<noteq> key e \<Longrightarrow> tab_find used key k (es[i := e]) = tab_find used key k es"
  using assms tab_freeD [OF assms(3)]
  by (simp_all add: uniq_fill find_fill map_fill find_other)

lemma delete_slot:
  assumes "tab_uniq used key es" and "i < length es" and "used (es ! i)"
  shows "tab_uniq used key (es[i := blank e])"
    and "tab_find used key (key (es ! i)) (es[i := blank e]) = None"
    and "tab_map used key val (es[i := blank e]) = (tab_map used key val es)(key (es ! i) := None)"
    and "k \<noteq> key (es ! i) \<Longrightarrow> tab_find used key k (es[i := blank e]) = tab_find used key k es"
  using uniq_blank [OF assms(1), of i e] find_blank [OF assms(1) tab_find_uniq [OF assms], of _ e]
    map_blank [OF assms(1) tab_find_uniq [OF assms], of e]
  by simp_all

text \<open>Counting: a fill of a free slot adds one, clearing a used slot removes one.\<close>

lemma count_fill:
  "tab_free used es = Some i \<Longrightarrow> used e \<Longrightarrow> count_if used (es[i := e]) = Suc (count_if used es)"
  using tab_freeD [of used es i] count_if_update [of i es used e] by simp

lemma count_blank:
  "i < length es \<Longrightarrow> used (es ! i) \<Longrightarrow> Suc (count_if used (es[i := blank e])) = count_if used es"
  using count_if_update [of i es used "blank e"] blank_free [of e] by simp

end

end
