(* ===== verification/Fmt.thy ===== *)
theory Fmt
  imports Prelude
begin

text \<open>
  The few conversions of \<^verbatim>\<open>printf\<close> and \<^verbatim>\<open>atoi\<close> the sources use to print and to read
  numbers: decimal and padded columns, and the decimal reader of the C library
  (leading blanks, a sign, digits up to the first other character), with \<^verbatim>\<open>strtoul\<close> and \<^verbatim>\<open>strtol\<close> at the end.
\<close>

definition crlf :: string where
  "crlf = [CHR 0x0D, CHR 0x0A]"

text \<open>The single quote, where a format string ends in one; \<^verbatim>\<open>PRIu32\<close> is written \<open>u\<close>.\<close>

definition quote :: string where
  "quote = [CHR 0x27]"

definition digit :: "nat \<Rightarrow> char" where
  "digit d = char_of (48 + d)"

fun dec :: "nat \<Rightarrow> string" where
  "dec n = (if n < 10 then [digit n] else dec (n div 10) @ [digit (n mod 10)])"

declare dec.simps [simp del]

definition dec_int :: "int \<Rightarrow> string" where
  "dec_int i = (if i < 0 then CHR ''-'' # dec (nat (- i)) else dec (nat i))"

definition padr :: "nat \<Rightarrow> string \<Rightarrow> string" where
  "padr w s = s @ replicate (w - length s) CHR '' ''"

definition padl :: "nat \<Rightarrow> string \<Rightarrow> string" where
  "padl w s = replicate (w - length s) CHR '' '' @ s"

definition zpad :: "nat \<Rightarrow> string \<Rightarrow> string" where
  "zpad w s = replicate (w - length s) CHR ''0'' @ s"

definition is_digit :: "char \<Rightarrow> bool" where
  "is_digit c \<longleftrightarrow> 48 \<le> (of_char c :: nat) \<and> (of_char c :: nat) \<le> 57"

definition digit_val :: "char \<Rightarrow> nat" where
  "digit_val c = of_char c - 48"

definition is_space :: "char \<Rightarrow> bool" where
  "is_space c \<longleftrightarrow> c = CHR '' '' \<or> (9 \<le> (of_char c :: nat) \<and> (of_char c :: nat) \<le> 13)"

definition digits_val :: "string \<Rightarrow> nat" where
  "digits_val s = foldl (\<lambda>n c. 10 * n + digit_val c) 0 s"

text \<open>\<^verbatim>\<open>atoi\<close>, for values an \<^verbatim>\<open>int\<close> can hold; outside them C leaves the result open.\<close>

definition atoi :: "string \<Rightarrow> int" where
  "atoi s =
     (case dropWhile is_space s of
        [] \<Rightarrow> 0
      | c # cs \<Rightarrow>
          if c = CHR ''-'' then - int (digits_val (takeWhile is_digit cs))
          else if c = CHR ''+'' then int (digits_val (takeWhile is_digit cs))
          else int (digits_val (takeWhile is_digit (c # cs))))"

lemma digit_digit: "d < 10 \<Longrightarrow> is_digit (digit d)" "d < 10 \<Longrightarrow> digit_val (digit d) = d"
  by (simp_all add: is_digit_def digit_def digit_val_def)

lemma dec_digits: "list_all is_digit (dec n)"
proof (induction n rule: dec.induct)
  case (1 n)
  then show ?case by (subst dec.simps) (simp add: digit_digit)
qed

lemma dec_ne: "dec n \<noteq> []"
  by (subst dec.simps) simp

lemma digits_val_dec: "digits_val (dec n) = n"
proof (induction n rule: dec.induct)
  case (1 n)
  then show ?case
    by (subst dec.simps) (simp add: digits_val_def digit_digit)
qed

lemma is_digit_not: "is_digit c \<Longrightarrow> \<not> is_space c \<and> c \<noteq> CHR ''-'' \<and> c \<noteq> CHR ''+''"
  by (auto simp: is_digit_def is_space_def)

lemma takeWhile_all: "list_all P xs \<Longrightarrow> takeWhile P xs = xs"
  by (induction xs) simp_all

lemma takeWhile_dec: "takeWhile is_digit (dec n) = dec n"
  by (rule takeWhile_all [OF dec_digits])

lemma atoi_dec: "atoi (dec n) = int n"
proof -
  obtain c cs where d: "dec n = c # cs" using dec_ne by (cases "dec n") auto
  then have "is_digit c" using dec_digits [of n] by simp
  then have nd: "\<not> is_space c" "c \<noteq> CHR ''-''" "c \<noteq> CHR ''+''" by (auto dest: is_digit_not)
  have "takeWhile is_digit (c # cs) = dec n"
    using takeWhile_dec [of n] d by simp
  with d nd digits_val_dec [of n] show ?thesis by (simp add: atoi_def)
qed

lemma atoi_dec_int: "atoi (dec_int i) = i"
proof (cases "i < 0")
  case True
  then show ?thesis
    by (simp add: dec_int_def atoi_def is_space_def takeWhile_dec digits_val_dec)
next
  case False
  then show ?thesis by (simp add: dec_int_def atoi_dec)
qed

text \<open>A decimal of a number below \<open>10 ^ k\<close> has at most \<open>k\<close> characters.\<close>

lemma length_dec: "n < 10 ^ k \<Longrightarrow> 0 < k \<Longrightarrow> length (dec n) \<le> k"
proof (induction n arbitrary: k rule: dec.induct)
  case (1 n)
  show ?case
  proof (cases "n < 10")
    case True
    with "1.prems" show ?thesis by (subst dec.simps) simp
  next
    case False
    with "1.prems" have k: "1 < k" by (cases k; cases "k - 1") auto
    then have "n div 10 < 10 ^ (k - 1)" using "1.prems"(1)
      by (cases k) (auto simp: less_mult_imp_div_less mult.commute)
    with False k have "length (dec (n div 10)) \<le> k - 1" by (intro "1.IH") auto
    with False k show ?thesis by (subst dec.simps) simp
  qed
qed

text \<open>\<^verbatim>\<open>%02x\<close> of a byte.\<close>

definition hex_digit :: "nat \<Rightarrow> char" where
  "hex_digit n = ''0123456789abcdef'' ! n"

definition hex2 :: "8 word \<Rightarrow> string" where
  "hex2 b = [hex_digit (unat b div 16), hex_digit (unat b mod 16)]"

lemma length_hex2 [simp]: "length (hex2 b) = 2"
  by (simp add: hex2_def)

section \<open>Other numbers\<close>

text \<open>\<^verbatim>\<open>strtoul\<close> and \<^verbatim>\<open>strtol\<close> with base 10 or base 0 (decimal, or octal after \<open>0\<close>, or hexadecimal after
  \<open>0x\<close>), where a \<^verbatim>\<open>long\<close> has 32 bits; values out of range saturate.\<close>

definition digit_of :: "char \<Rightarrow> nat" where
  "digit_of c =
     (let n = of_char c in
      if 48 \<le> n \<and> n \<le> 57 then n - 48 else if 65 \<le> n \<and> n \<le> 90 then n - 55
      else if 97 \<le> n \<and> n \<le> 122 then n - 87 else 99)"

definition scan_digits :: "nat \<Rightarrow> string \<Rightarrow> nat" where
  "scan_digits b s = foldl (\<lambda>n c. b * n + digit_of c) 0 (takeWhile (\<lambda>c. digit_of c < b) s)"

definition scan_number :: "nat \<Rightarrow> string \<Rightarrow> nat" where
  "scan_number b s =
     (if b \<noteq> 0 then scan_digits b s
      else
        case s of
          z # x # d # r \<Rightarrow>
            if z = CHR ''0'' \<and> (x = CHR ''x'' \<or> x = CHR ''X'') \<and> digit_of d < 16 then scan_digits 16 (d # r)
            else if z = CHR ''0'' then scan_digits 8 s else scan_digits 10 s
        | z # r \<Rightarrow> if z = CHR ''0'' then scan_digits 8 s else scan_digits 10 s
        | [] \<Rightarrow> 0)"

definition scan_signed :: "nat \<Rightarrow> string \<Rightarrow> bool \<times> nat" where
  "scan_signed b s =
     (case dropWhile is_space s of
        [] \<Rightarrow> (False, 0)
      | c # cs \<Rightarrow>
          if c = CHR ''-'' then (True, scan_number b cs) else if c = CHR ''+'' then (False, scan_number b cs)
          else (False, scan_number b (c # cs)))"

definition strtoul :: "nat \<Rightarrow> string \<Rightarrow> 32 word" where
  "strtoul b s =
     (case scan_signed b s of (neg, n) \<Rightarrow>
        if 4294967295 < n then - 1 else if neg then - of_nat n else of_nat n)"

definition strtol :: "nat \<Rightarrow> string \<Rightarrow> int" where
  "strtol b s =
     (case scan_signed b s of (neg, n) \<Rightarrow>
        if neg then max (- int n) (- 2147483648) else min (int n) 2147483647)"

lemma digit_of_digit: "is_digit c \<Longrightarrow> digit_of c = digit_val c \<and> digit_of c < 10"
  by (auto simp: is_digit_def digit_of_def digit_val_def Let_def)

lemma digit_of_small: "digit_of c < 10 \<longleftrightarrow> is_digit c"
  by (auto simp: is_digit_def digit_of_def Let_def split: if_splits)

lemma scan_digits_10: "scan_digits 10 s = digits_val (takeWhile is_digit s)"
proof -
  have "list_all is_digit xs \<Longrightarrow> foldl (\<lambda>n c. 10 * n + digit_of c) a xs = foldl (\<lambda>n c. 10 * n + digit_val c) a xs"
    for xs :: string and a
    by (induction xs arbitrary: a) (simp_all add: digit_of_digit)
  moreover have "list_all is_digit (takeWhile is_digit s)" by (induction s) simp_all
  ultimately show ?thesis by (simp add: scan_digits_def digits_val_def digit_of_small)
qed

lemma takeWhile_dec_stop: "rest = [] \<or> \<not> is_digit (hd rest) \<Longrightarrow> takeWhile is_digit (dec n @ rest) = dec n"
  using dec_digits [of n] by (cases rest) (auto simp: takeWhile_append list_all_iff)

lemma strtoul_dec:
  assumes "n < 4294967296" and "rest = [] \<or> \<not> is_digit (hd rest)"
  shows "strtoul 10 (dec n @ rest) = of_nat n"
proof -
  obtain c cs where d: "dec n = c # cs" using dec_ne by (cases "dec n") auto
  then have "is_digit c" using dec_digits [of n] by simp
  then have nd: "\<not> is_space c" "c \<noteq> CHR ''-''" "c \<noteq> CHR ''+''" by (auto dest: is_digit_not)
  have "scan_signed 10 (dec n @ rest) = (False, scan_number 10 (dec n @ rest))"
    using nd by (simp add: scan_signed_def d)
  moreover have "scan_number 10 (dec n @ rest) = n"
    using takeWhile_dec_stop [OF assms(2)] digits_val_dec by (simp add: scan_number_def scan_digits_10)
  ultimately show ?thesis using assms(1) by (simp add: strtoul_def)
qed

end
