(* ===== verification/Env.thy ===== *)
theory Env
  imports SlotTable Fmt
begin

text \<open>
  The environment store, \<^verbatim>\<open>src/components/os_env/src/os_env.c\<close>: 16 named variables,
  kept in RAM and saved as one blob in non-volatile storage after every change.

  NVS is not part of the sources: its calls appear in the trace, and what they return
  (\<open>nvs_open\<close>, \<open>nvs_get_blob\<close>) are arguments of \<open>os_env_init\<close>.  \<open>spec_set\<close>,
  \<open>spec_get\<close> and \<open>spec_unset\<close> are the abstract store, a finite map with at most 16
  names, and \<open>env_map\<close> abstracts the table to it.  The expansion of variables in a command
  line is in \<open>EnvExpand\<close>.
\<close>

section \<open>State\<close>

definition OS_ENV_MAX_VARS :: nat where "OS_ENV_MAX_VARS = 16"
definition OS_ENV_NAME_LEN :: nat where "OS_ENV_NAME_LEN = 16"
definition OS_ENV_VALUE_LEN :: nat where "OS_ENV_VALUE_LEN = 128"

lemmas env_consts = OS_ENV_MAX_VARS_def OS_ENV_NAME_LEN_def OS_ENV_VALUE_LEN_def

record env_entry =
  e_name :: string
  e_value :: string
  e_used :: bool

record env_blob =
  blob_count :: "8 word"
  blob_entries :: "env_entry list"

record env_state =
  e_initialised :: bool
  e_lock :: "nat option"
  e_nvs :: nat
  e_entries :: "env_entry list"

definition env_zero :: env_entry where
  "env_zero = \<lparr>e_name = [], e_value = [], e_used = False\<rparr>"

definition env_boot :: env_state where
  "env_boot = \<lparr>e_initialised = False, e_lock = None, e_nvs = 0,
     e_entries = replicate OS_ENV_MAX_VARS env_zero\<rparr>"

text \<open>The size of the blob: a count byte and 16 entries of two arrays and a flag, all bytes.\<close>

definition sizeof_env_blob :: nat where
  "sizeof_env_blob = 1 + OS_ENV_MAX_VARS * (OS_ENV_NAME_LEN + OS_ENV_VALUE_LEN + 1)"

datatype env_call =
    NvsOpen string | NvsGetBlob string | NvsSetBlob string env_blob | NvsCommit | NvsClose
  | EnvLockCreate | EnvLockDelete | UartWrite string | SockSend int string

section \<open>Operations\<close>

definition env_find_slot :: "string \<Rightarrow> env_state \<Rightarrow> nat option" where
  "env_find_slot name s = tab_find e_used e_name name (e_entries s)"

definition env_find_free_slot :: "env_state \<Rightarrow> nat option" where
  "env_find_free_slot s = tab_free e_used (e_entries s)"

text \<open>The loop that copies the used entries to the front of a zeroed blob.\<close>

definition blob_add :: "env_blob \<Rightarrow> env_entry \<Rightarrow> env_blob" where
  "blob_add b e =
     (if e_used e \<and> unat (blob_count b) < OS_ENV_MAX_VARS
      then b\<lparr>blob_entries := (blob_entries b)[unat (blob_count b) := e],
             blob_count := blob_count b + 1\<rparr>
      else b)"

definition env_make_blob :: "env_entry list \<Rightarrow> env_blob" where
  "env_make_blob es =
     fold (\<lambda>e b. blob_add b e) es
       \<lparr>blob_count = 0, blob_entries = replicate OS_ENV_MAX_VARS env_zero\<rparr>"

definition env_save_locked :: "env_state \<Rightarrow> env_call eff list" where
  "env_save_locked s = [Ext (NvsSetBlob ''env_blob'' (env_make_blob (e_entries s))), Ext NvsCommit]"

text \<open>\<open>ret\<close>, \<open>blob\<close> and \<open>blob_sz\<close> are what \<^verbatim>\<open>nvs_get_blob\<close> returns and stores.\<close>

definition env_load_locked :: "esp_err \<Rightarrow> env_blob \<Rightarrow> nat \<Rightarrow> env_state \<Rightarrow> env_state \<times> env_call eff list" where
  "env_load_locked ret blob blob_sz s =
     (if ret \<noteq> ESP_OK \<or> blob_sz \<noteq> sizeof_env_blob
      then (s\<lparr>e_entries := replicate OS_ENV_MAX_VARS env_zero\<rparr>, [Ext (NvsGetBlob ''env_blob'')])
      else (s\<lparr>e_entries :=
                map (\<lambda>i. if i < unat (blob_count blob)
                         then (blob_entries blob ! i)\<lparr>e_used := True\<rparr>
                         else env_zero)
                    [0..<OS_ENV_MAX_VARS]\<rparr>, [Ext (NvsGetBlob ''env_blob'')]))"

text \<open>
  \<open>lk\<close> is the mutex \<^verbatim>\<open>xSemaphoreCreateMutex\<close> returns, \<open>(ret, h)\<close> the result and handle of
  \<^verbatim>\<open>nvs_open\<close>.
\<close>

definition os_env_init ::
  "nat option \<Rightarrow> esp_err \<times> nat \<Rightarrow> esp_err \<times> env_blob \<times> nat \<Rightarrow> env_state
   \<Rightarrow> esp_err \<times> env_state \<times> env_call eff list" where
  "os_env_init lk nvs_open_r nvs_get_r s =
     (if e_initialised s then (ESP_OK, s, [])
      else
        case lk of
          None \<Rightarrow> (ESP_ERR_NO_MEM, s\<lparr>e_lock := None\<rparr>, [Ext EnvLockCreate])
        | Some l \<Rightarrow>
            let (ret, h) = nvs_open_r; s1 = s\<lparr>e_lock := Some l, e_nvs := h\<rparr> in
            if ret \<noteq> ESP_OK
            then (ret, s1\<lparr>e_lock := None\<rparr>,
                  [Ext EnvLockCreate, Ext (NvsOpen ''esp32os_env''), Ext EnvLockDelete])
            else
              let (gret, blob, blob_sz) = nvs_get_r;
                  (s2, tr) = env_load_locked gret blob blob_sz s1
              in (ESP_OK, s2\<lparr>e_initialised := True\<rparr>,
                  [Ext EnvLockCreate, Ext (NvsOpen ''esp32os_env''), Take] @ tr @
                  [Give, Log OS_LOG_INFO ''Environment store initialized'']))"

definition os_env_deinit :: "env_state \<Rightarrow> env_state \<times> env_call eff list" where
  "os_env_deinit s =
     (if \<not> e_initialised s then (s, [])
      else (s\<lparr>e_nvs := 0, e_lock := None, e_initialised := False\<rparr>, [Ext NvsClose, Ext EnvLockDelete]))"

definition os_env_set ::
  "string option \<Rightarrow> string option \<Rightarrow> env_state \<Rightarrow> esp_err \<times> env_state \<times> env_call eff list" where
  "os_env_set name value s =
     (case (name, value) of
        (Some n, Some v) \<Rightarrow>
          if \<not> e_initialised s \<or> n = [] then (ESP_ERR_INVALID_ARG, s, [])
          else
            (case (case env_find_slot n s of None \<Rightarrow> env_find_free_slot s | Some i \<Rightarrow> Some i) of
               None \<Rightarrow> (ESP_ERR_NO_MEM, s, [Take, Give])
             | Some i \<Rightarrow>
                 let s' = s\<lparr>e_entries := (e_entries s)[i :=
                              \<lparr>e_name = cstr OS_ENV_NAME_LEN n, e_value = cstr OS_ENV_VALUE_LEN v,
                               e_used = True\<rparr>]\<rparr>
                 in (ESP_OK, s', Take # env_save_locked s' @ [Give]))
      | _ \<Rightarrow> (ESP_ERR_INVALID_ARG, s, []))"

text \<open>\<open>buf\<close> is false for a NULL buffer; the second result is the string left in the buffer.\<close>

definition os_env_get ::
  "string option \<Rightarrow> bool \<Rightarrow> nat \<Rightarrow> env_state \<Rightarrow> esp_err \<times> string option \<times> env_call eff list" where
  "os_env_get name buf buf_sz s =
     (case name of
        None \<Rightarrow> (ESP_ERR_INVALID_ARG, None, [])
      | Some n \<Rightarrow>
          if \<not> e_initialised s \<or> \<not> buf \<or> buf_sz = 0 then (ESP_ERR_INVALID_ARG, None, [])
          else
            (case env_find_slot n s of
               None \<Rightarrow> (ESP_ERR_NOT_FOUND, None, [Take, Give])
             | Some i \<Rightarrow> (ESP_OK, Some (cstr buf_sz (e_value (e_entries s ! i))), [Take, Give])))"

definition os_env_unset :: "string option \<Rightarrow> env_state \<Rightarrow> esp_err \<times> env_state \<times> env_call eff list" where
  "os_env_unset name s =
     (case name of
        None \<Rightarrow> (ESP_ERR_INVALID_ARG, s, [])
      | Some n \<Rightarrow>
          if \<not> e_initialised s \<or> n = [] then (ESP_ERR_INVALID_ARG, s, [])
          else
            (case env_find_slot n s of
               None \<Rightarrow> (ESP_ERR_NOT_FOUND, s, [Take, Give])
             | Some i \<Rightarrow>
                 let s' = s\<lparr>e_entries := (e_entries s)[i := env_zero]\<rparr>
                 in (ESP_OK, s', Take # env_save_locked s' @ [Give])))"

definition os_env_clear :: "env_state \<Rightarrow> esp_err \<times> env_state \<times> env_call eff list" where
  "os_env_clear s =
     (if \<not> e_initialised s then (ESP_ERR_INVALID_STATE, s, [])
      else
        let s' = s\<lparr>e_entries := replicate OS_ENV_MAX_VARS env_zero\<rparr>
        in (ESP_OK, s', Take # env_save_locked s' @ [Give]))"

text \<open>Output goes to the UART or to the socket; \<^verbatim>\<open>fd_printf\<close> formats into 256 bytes.\<close>

definition env_fd_write :: "int \<Rightarrow> string \<Rightarrow> env_call eff" where
  "env_fd_write fd str = (if fd < 0 then Ext (UartWrite str) else Ext (SockSend fd str))"

definition env_fd_printf :: "int \<Rightarrow> string \<Rightarrow> env_call eff" where
  "env_fd_printf fd formatted = env_fd_write fd (cstr 256 formatted)"

definition env_line :: "env_entry \<Rightarrow> string" where
  "env_line e = e_name e @ ''='' @ e_value e @ crlf"

definition os_env_list :: "int \<Rightarrow> env_state \<Rightarrow> nat \<times> env_call eff list" where
  "os_env_list fd s =
     (if \<not> e_initialised s
      then (0, [env_fd_printf fd (''Environment store not initialised'' @ crlf)])
      else
        let shown = filter e_used (e_entries s)
        in (length shown, Take # map (\<lambda>e. env_fd_printf fd (env_line e)) shown @ [Give]))"

section \<open>Invariant\<close>

definition env_entry_ok :: "env_entry \<Rightarrow> bool" where
  "env_entry_ok e \<longleftrightarrow> length (e_name e) < OS_ENV_NAME_LEN \<and> length (e_value e) < OS_ENV_VALUE_LEN"

text \<open>What every call keeps, and what is kept besides when no name is longer than its field.\<close>

definition env_wf :: "env_state \<Rightarrow> bool" where
  "env_wf s \<longleftrightarrow>
     length (e_entries s) = OS_ENV_MAX_VARS \<and> list_all env_entry_ok (e_entries s) \<and>
     (e_initialised s \<longleftrightarrow> e_lock s \<noteq> None)"

definition env_unique :: "env_state \<Rightarrow> bool" where
  "env_unique s \<longleftrightarrow> tab_uniq e_used e_name (e_entries s)"

definition env_map :: "env_state \<Rightarrow> (string \<rightharpoonup> string)" where
  "env_map s = tab_map e_used e_name e_value (e_entries s)"

interpretation env_tab: slot_table e_used e_name e_value "\<lambda>_. env_zero"
  by unfold_locales (simp add: env_zero_def)

lemma env_zero_simps [simp]:
  "e_name env_zero = []" "e_value env_zero = []" "e_used env_zero = False" "env_entry_ok env_zero"
  by (simp_all add: env_zero_def env_entry_ok_def env_consts)

lemma env_entry_ok_new:
  "env_entry_ok \<lparr>e_name = cstr OS_ENV_NAME_LEN n, e_value = cstr OS_ENV_VALUE_LEN v, e_used = u\<rparr>"
  by (simp add: env_entry_ok_def env_consts min_less_iff_disj)

lemma env_slot_bounds:
  "env_find_slot n s = Some i \<Longrightarrow> i < length (e_entries s)"
  "env_find_free_slot s = Some i \<Longrightarrow> i < length (e_entries s)"
  by (auto simp: env_find_slot_def env_find_free_slot_def dest: tab_findD tab_freeD)

section \<open>The blob\<close>

text \<open>The saving loop, once its bounds are out of the way: the used entries, then zeros.\<close>

lemma fold_blob_add:
  assumes "unat (blob_count b) + length (filter e_used es) \<le> OS_ENV_MAX_VARS"
    and "length (blob_entries b) = OS_ENV_MAX_VARS"
  shows "fold (\<lambda>e b. blob_add b e) es b =
    \<lparr>blob_count = blob_count b + of_nat (length (filter e_used es)),
     blob_entries = take (unat (blob_count b)) (blob_entries b) @ filter e_used es @
       drop (unat (blob_count b) + length (filter e_used es)) (blob_entries b)\<rparr>"
  using assms
proof (induction es arbitrary: b)
  case Nil
  then show ?case by simp
next
  case (Cons e es)
  show ?case
  proof (cases "e_used e")
    case False
    with Cons show ?thesis by (simp add: blob_add_def)
  next
    case True
    let ?n = "unat (blob_count b)"
    let ?b = "blob_add b e"
    have n: "?n < OS_ENV_MAX_VARS" using Cons.prems True by simp
    then have suc: "unat (blob_count b + 1) = Suc ?n"
      by (simp add: unat_word_ariths env_consts)
    have b: "blob_count ?b = blob_count b + 1" "blob_entries ?b = (blob_entries b)[?n := e]"
      using True n by (simp_all add: blob_add_def)
    have "fold (\<lambda>e b. blob_add b e) es ?b =
      \<lparr>blob_count = blob_count ?b + of_nat (length (filter e_used es)),
       blob_entries = take (Suc ?n) (blob_entries ?b) @ filter e_used es @
         drop (Suc ?n + length (filter e_used es)) (blob_entries ?b)\<rparr>"
      using Cons.IH [of ?b] Cons.prems True by (simp add: b suc)
    moreover have "take (Suc ?n) (blob_entries ?b) = take ?n (blob_entries b) @ [e]"
      using n Cons.prems(2) by (simp add: b take_Suc_conv_app_nth)
    ultimately show ?thesis using True by (simp add: b add.assoc)
  qed
qed

lemma env_make_blob_eq:
  assumes "length es = OS_ENV_MAX_VARS"
  shows "env_make_blob es =
    \<lparr>blob_count = of_nat (count_if e_used es),
     blob_entries = filter e_used es @ replicate (OS_ENV_MAX_VARS - count_if e_used es) env_zero\<rparr>"
proof -
  have "length (filter e_used es) \<le> OS_ENV_MAX_VARS"
    using assms length_filter_le [of e_used es] by simp
  then show ?thesis
    unfolding env_make_blob_def by (subst fold_blob_add) (simp_all add: count_if_def)
qed

lemma blob_count_unat:
  "length es = OS_ENV_MAX_VARS \<Longrightarrow> unat (of_nat (count_if e_used es) :: 8 word) = count_if e_used es"
  using count_if_le [of e_used es] by (simp add: unat_of_nat env_consts)

text \<open>Loading a saved blob rebuilds the table with the used entries first.\<close>

lemma env_load_saved:
  assumes "length es = OS_ENV_MAX_VARS"
  shows "e_entries (fst (env_load_locked ESP_OK (env_make_blob es) sizeof_env_blob s)) =
    filter e_used es @ replicate (OS_ENV_MAX_VARS - count_if e_used es) env_zero"
  (is "?l = ?r")
proof (rule nth_equalityI)
  have c: "length (filter e_used es) = count_if e_used es" by (simp add: count_if_def)
  have le: "count_if e_used es \<le> OS_ENV_MAX_VARS" using count_if_le assms by metis
  show len: "length ?l = length ?r" using le by (simp add: env_load_locked_def c)
  fix i
  assume "i < length ?l"
  then have i: "i < OS_ENV_MAX_VARS" by (simp add: env_load_locked_def)
  show "?l ! i = ?r ! i"
  proof (cases "i < count_if e_used es")
    case True
    then have "e_used (filter e_used es ! i)"
      using nth_mem [of i "filter e_used es"] by (simp add: c)
    then show ?thesis
      using True i assms
      by (simp add: env_load_locked_def blob_count_unat env_make_blob_eq nth_append c)
  next
    case False
    with i assms show ?thesis
      by (simp add: env_load_locked_def blob_count_unat env_make_blob_eq nth_append c)
  qed
qed

section \<open>Every call keeps the invariant\<close>

datatype env_op =
    EnvInit "nat option" "esp_err \<times> nat" "esp_err \<times> env_blob \<times> nat"
  | EnvDeinit | EnvSet "string option" "string option" | EnvUnset "string option" | EnvClear

primrec env_exec :: "env_op \<Rightarrow> env_state \<Rightarrow> env_state \<times> env_call eff list" where
  "env_exec (EnvInit lk no ng) s = snd (os_env_init lk no ng s)"
| "env_exec EnvDeinit s = os_env_deinit s"
| "env_exec (EnvSet n v) s = snd (os_env_set n v s)"
| "env_exec (EnvUnset n) s = snd (os_env_unset n s)"
| "env_exec EnvClear s = snd (os_env_clear s)"

text \<open>
  NVS gives back a blob whose arrays are terminated, as every blob the store saves is.  A call
  is \<open>short\<close> when besides its name fits the field, or its blob holds no name twice.
\<close>

definition blob_ok :: "env_blob \<Rightarrow> bool" where
  "blob_ok b \<longleftrightarrow> list_all env_entry_ok (blob_entries b) \<and> length (blob_entries b) = OS_ENV_MAX_VARS \<and>
     unat (blob_count b) \<le> OS_ENV_MAX_VARS"

primrec env_op_ok :: "env_op \<Rightarrow> bool" where
  "env_op_ok (EnvInit lk no ng) \<longleftrightarrow> blob_ok (fst (snd ng))"
| "env_op_ok EnvDeinit \<longleftrightarrow> True"
| "env_op_ok (EnvSet n v) \<longleftrightarrow> True"
| "env_op_ok (EnvUnset n) \<longleftrightarrow> True"
| "env_op_ok EnvClear \<longleftrightarrow> True"

lemma env_load_wf:
  assumes "blob_ok blob"
  shows "length (e_entries (fst (env_load_locked ret blob sz s))) = OS_ENV_MAX_VARS"
    and "list_all env_entry_ok (e_entries (fst (env_load_locked ret blob sz s)))"
    and "e_lock (fst (env_load_locked ret blob sz s)) = e_lock s"
    and "e_initialised (fst (env_load_locked ret blob sz s)) = e_initialised s"
proof -
  have "env_entry_ok ((blob_entries blob ! i)\<lparr>e_used := True\<rparr>)" if "i < unat (blob_count blob)" for i
    using assms that by (auto simp: blob_ok_def list_all_length env_entry_ok_def)
  then show "list_all env_entry_ok (e_entries (fst (env_load_locked ret blob sz s)))"
    by (auto simp: env_load_locked_def list_all_iff)
qed (simp_all add: env_load_locked_def)

lemma os_env_init_wf:
  assumes "env_wf s" and "blob_ok (fst (snd ng))"
  shows "env_wf (fst (snd (os_env_init lk no ng s)))"
proof -
  obtain gret blob sz where ng: "ng = (gret, blob, sz)" by (cases ng)
  obtain ret h where no: "no = (ret, h)" by (cases no)
  show ?thesis
    using assms env_load_wf [of blob gret sz]
    by (auto simp: os_env_init_def env_wf_def ng no Let_def split_beta split: option.splits)
qed

lemma env_step_wf:
  assumes "env_op_ok x" and "env_wf s"
  shows "env_wf (fst (env_exec x s))"
proof (cases x)
  case (EnvInit lk no ng)
  with assms show ?thesis by (simp add: os_env_init_wf)
next
  case EnvDeinit
  with assms show ?thesis by (simp add: os_env_deinit_def env_wf_def)
next
  case (EnvSet n v)
  with assms show ?thesis
    by (auto simp: os_env_set_def env_wf_def Let_def env_entry_ok_new intro: list_all_update
        split: option.splits)
next
  case (EnvUnset n)
  with assms show ?thesis
    by (auto simp: os_env_unset_def env_wf_def Let_def intro: list_all_update split: option.splits)
next
  case EnvClear
  with assms show ?thesis
    by (auto simp: os_env_clear_def env_wf_def Let_def list_all_iff)
qed

interpretation env_calls: guarded "\<lambda>x s. fst (env_exec x s)" env_op_ok env_wf
  by unfold_locales (rule env_step_wf)

lemma env_boot_wf: "env_wf env_boot"
  by (simp add: env_wf_def env_boot_def list_all_iff)

text \<open>Whatever sequence of calls is made after boot (initialisation and shutdown included, with
  arguments of any length), the table keeps its 16 entries, every stored name and value fits its array
  with its terminator, and the store is initialised exactly when its mutex exists.\<close>

theorem env_run_wf:
  "list_all env_op_ok ops \<Longrightarrow> env_wf (run (\<lambda>x s. fst (env_exec x s)) ops env_boot)"
  by (rule env_calls.run_inv) (simp_all add: env_boot_wf)

theorem env_run_wf_witness:
  "env_wf (run (\<lambda>x s. fst (env_exec x s))
     [EnvSet (Some ''A_NAME_LONGER_THAN_SIXTEEN'') (Some ''v''), EnvClear] env_boot)"
  by (rule env_run_wf) simp

lemma env_save_quiet [simp]: "quiet (env_save_locked s)"
  by (simp add: env_save_locked_def)

text \<open>No call takes the mutex twice or leaves it taken, on any path, errors included.\<close>

theorem env_lock_discipline:
  "lock_ok False (snd (env_exec x s)) \<and> lock_ok False (snd (snd (os_env_get n b sz s))) \<and>
   lock_ok False (snd (os_env_list fd s))"
proof (intro conjI)
  show "lock_ok False (snd (env_exec x s))"
  proof (cases x)
    case (EnvInit lk no ng)
    then show ?thesis
      by (auto simp: os_env_init_def env_load_locked_def Let_def split: option.splits prod.splits)
  qed (auto simp: os_env_deinit_def os_env_set_def os_env_unset_def os_env_clear_def Let_def lock_simps
        split: option.splits)
  show "lock_ok False (snd (snd (os_env_get n b sz s)))"
    by (auto simp: os_env_get_def split: option.splits)
  have "quiet (map (\<lambda>e. env_fd_printf fd (env_line e)) es)" for es
    by (induction es) (simp_all add: env_fd_printf_def env_fd_write_def)
  then show "lock_ok False (snd (os_env_list fd s))"
    by (auto simp: os_env_list_def Let_def env_fd_printf_def env_fd_write_def lock_simps)
qed

section \<open>The abstract store\<close>

definition spec_set :: "string \<Rightarrow> string \<Rightarrow> (string \<rightharpoonup> string) \<Rightarrow> esp_err \<times> (string \<rightharpoonup> string)" where
  "spec_set n v m =
     (if m n \<noteq> None \<or> card (dom m) < OS_ENV_MAX_VARS then (ESP_OK, m(n \<mapsto> cstr OS_ENV_VALUE_LEN v))
      else (ESP_ERR_NO_MEM, m))"

definition spec_get :: "string \<Rightarrow> nat \<Rightarrow> (string \<rightharpoonup> string) \<Rightarrow> esp_err \<times> string option" where
  "spec_get n sz m = (case m n of None \<Rightarrow> (ESP_ERR_NOT_FOUND, None) | Some v \<Rightarrow> (ESP_OK, Some (cstr sz v)))"

definition spec_unset :: "string \<Rightarrow> (string \<rightharpoonup> string) \<Rightarrow> esp_err \<times> (string \<rightharpoonup> string)" where
  "spec_unset n m = (if m n = None then (ESP_ERR_NOT_FOUND, m) else (ESP_OK, m(n := None)))"

datatype store_op = StoreSet string string | StoreGet string nat | StoreUnset string | StoreClear

primrec store_conc :: "store_op \<Rightarrow> env_state \<Rightarrow> (esp_err \<times> string option) \<times> env_state" where
  "store_conc (StoreSet n v) s = (let (r, s', _) = os_env_set (Some n) (Some v) s in ((r, None), s'))"
| "store_conc (StoreGet n sz) s = (let (r, v, _) = os_env_get (Some n) True sz s in ((r, v), s))"
| "store_conc (StoreUnset n) s = (let (r, s', _) = os_env_unset (Some n) s in ((r, None), s'))"
| "store_conc StoreClear s = (let (r, s', _) = os_env_clear s in ((r, None), s'))"

primrec store_spec :: "store_op \<Rightarrow> (string \<rightharpoonup> string) \<Rightarrow> (esp_err \<times> string option) \<times> (string \<rightharpoonup> string)" where
  "store_spec (StoreSet n v) m = (let (r, m') = spec_set n v m in ((r, None), m'))"
| "store_spec (StoreGet n sz) m = (spec_get n sz m, m)"
| "store_spec (StoreUnset n) m = (let (r, m') = spec_unset n m in ((r, None), m'))"
| "store_spec StoreClear m = ((ESP_OK, None), Map.empty)"

primrec store_ok :: "store_op \<Rightarrow> bool" where
  "store_ok (StoreSet n v) \<longleftrightarrow> n \<noteq> [] \<and> length n < OS_ENV_NAME_LEN"
| "store_ok (StoreGet n sz) \<longleftrightarrow> 0 < sz"
| "store_ok (StoreUnset n) \<longleftrightarrow> n \<noteq> []"
| "store_ok StoreClear \<longleftrightarrow> True"

definition env_inv :: "env_state \<Rightarrow> bool" where
  "env_inv s \<longleftrightarrow> env_wf s \<and> env_unique s \<and> e_initialised s"

lemma env_map_None: "env_find_slot n s = None \<longleftrightarrow> env_map s n = None"
  by (simp add: env_map_def tab_map_def env_find_slot_def)

lemma env_map_Some: "env_find_slot n s = Some i \<Longrightarrow> env_map s n = Some (e_value (e_entries s ! i))"
  by (simp add: env_map_def tab_map_def env_find_slot_def)

lemma env_full: "env_unique s \<Longrightarrow> env_wf s \<Longrightarrow>
  env_find_free_slot s = None \<longleftrightarrow> \<not> card (dom (env_map s)) < OS_ENV_MAX_VARS"
  using count_if_le [of e_used "e_entries s"]
  by (auto simp: env_find_free_slot_def tab_free_None env_map_def env_unique_def env_wf_def
      card_dom_tab_map)

lemma env_fill:
  assumes "env_unique s" and "env_find_slot n s \<in> {None, Some i}" and "i < length (e_entries s)"
    and "length n < OS_ENV_NAME_LEN"
    and "e_used (e_entries s ! i) \<longrightarrow> e_name (e_entries s ! i) = n"
    and "s' = s\<lparr>e_entries := (e_entries s)[i := \<lparr>e_name = n, e_value = v, e_used = True\<rparr>]\<rparr>"
  shows "env_unique s'" and "env_map s' = (env_map s)(n \<mapsto> v)"
  using assms env_tab.uniq_fill [of "e_entries s" "\<lparr>e_name = n, e_value = v, e_used = True\<rparr>" i]
    env_tab.map_fill [of "e_entries s" "\<lparr>e_name = n, e_value = v, e_used = True\<rparr>" i]
  by (simp_all add: env_unique_def env_map_def env_find_slot_def)

text \<open>Every call on the table is the call of the abstract store.\<close>

lemma env_set_sim:
  assumes "env_inv s" and "n \<noteq> []" and "length n < OS_ENV_NAME_LEN"
  shows "spec_set n v (env_map s) =
      (fst (os_env_set (Some n) (Some v) s), env_map (fst (snd (os_env_set (Some n) (Some v) s))))"
    and "env_unique (fst (snd (os_env_set (Some n) (Some v) s)))"
proof -
  have u: "env_unique s" and wf: "env_wf s" and init: "e_initialised s"
    using assms(1) by (simp_all add: env_inv_def)
  have goal: "spec_set n v (env_map s) =
      (fst (os_env_set (Some n) (Some v) s), env_map (fst (snd (os_env_set (Some n) (Some v) s)))) \<and>
    env_unique (fst (snd (os_env_set (Some n) (Some v) s)))"
  proof (cases "env_find_slot n s")
    case (Some i)
    then have "i < length (e_entries s)" "e_name (e_entries s ! i) = n"
      by (auto simp: env_find_slot_def dest: tab_findD)
    with Some env_fill [OF u, of n i _ "cstr OS_ENV_VALUE_LEN v"] assms init env_map_None [of n s]
    show ?thesis by (simp add: os_env_set_def spec_set_def Let_def)
  next
    case None
    show ?thesis
    proof (cases "env_find_free_slot s")
      case free: None
      with None init assms(2) env_full [OF u wf] env_map_None [of n s] u show ?thesis
        by (simp add: os_env_set_def spec_set_def)
    next
      case free: (Some i)
      then have "i < length (e_entries s)" "\<not> e_used (e_entries s ! i)"
        by (auto simp: env_find_free_slot_def dest: tab_freeD)
      with None free env_fill [OF u, of n i _ "cstr OS_ENV_VALUE_LEN v"] assms init env_full [OF u wf]
      show ?thesis by (simp add: os_env_set_def spec_set_def Let_def)
    qed
  qed
  show "spec_set n v (env_map s) =
      (fst (os_env_set (Some n) (Some v) s), env_map (fst (snd (os_env_set (Some n) (Some v) s))))"
    by (rule conjunct1 [OF goal])
  show "env_unique (fst (snd (os_env_set (Some n) (Some v) s)))"
    by (rule conjunct2 [OF goal])
qed

lemma env_unset_sim:
  assumes "env_inv s" and "n \<noteq> []"
  shows "spec_unset n (env_map s) =
      (fst (os_env_unset (Some n) s), env_map (fst (snd (os_env_unset (Some n) s)))) \<and>
    env_unique (fst (snd (os_env_unset (Some n) s)))"
proof (cases "env_find_slot n s")
  case None
  with assms env_map_None [of n s] show ?thesis
    by (simp add: os_env_unset_def spec_unset_def env_inv_def)
next
  case (Some i)
  then have f: "tab_find e_used e_name n (e_entries s) = Some i" by (simp add: env_find_slot_def)
  from Some have "env_map s n \<noteq> None" using env_map_None [of n s] by simp
  moreover have "env_map (s\<lparr>e_entries := (e_entries s)[i := env_zero]\<rparr>) = (env_map s)(n := None)"
    using env_tab.map_blank [OF _ f] assms(1) by (simp add: env_map_def env_inv_def env_unique_def)
  moreover have "env_unique (s\<lparr>e_entries := (e_entries s)[i := env_zero]\<rparr>)"
    using env_tab.uniq_blank assms(1) by (simp add: env_inv_def env_unique_def)
  ultimately show ?thesis
    using assms Some by (simp add: os_env_unset_def spec_unset_def env_inv_def Let_def)
qed

lemma env_clear_sim:
  assumes "env_inv s"
  shows "fst (os_env_clear s) = ESP_OK" "env_map (fst (snd (os_env_clear s))) = Map.empty"
    "env_unique (fst (snd (os_env_clear s)))"
  using assms env_tab.map_all_free [of "replicate OS_ENV_MAX_VARS env_zero"]
    tab_uniq_replicate [of e_used env_zero]
  by (simp_all add: os_env_clear_def env_inv_def env_map_def env_unique_def Let_def)

lemma env_get_sim:
  "env_inv s \<Longrightarrow> 0 < sz \<Longrightarrow>
   spec_get n sz (env_map s) = (fst (os_env_get (Some n) True sz s), fst (snd (os_env_get (Some n) True sz s)))"
  using env_map_None [of n s] env_map_Some [of n s]
  by (cases "env_find_slot n s") (auto simp: os_env_get_def spec_get_def env_inv_def)

lemma env_init_kept:
  "e_initialised (fst (snd (os_env_set n v s))) = e_initialised s"
  "e_initialised (fst (snd (os_env_unset n s))) = e_initialised s"
  "e_initialised (fst (snd (os_env_clear s))) = e_initialised s"
  by (auto simp: os_env_set_def os_env_unset_def os_env_clear_def Let_def split: option.splits)

lemma store_step_sim:
  assumes "store_ok x" and "env_inv s"
  shows "store_spec x (env_map s) = (fst (store_conc x s), env_map (snd (store_conc x s))) \<and>
    env_inv (snd (store_conc x s))"
proof -
  have wf: "env_wf s" and init: "e_initialised s" using assms(2) by (simp_all add: env_inv_def)
  show ?thesis
  proof (cases x)
    case (StoreSet n v)
    with assms env_set_sim [OF assms(2), of n v] env_step_wf [OF _ wf, of "EnvSet (Some n) (Some v)"]
      init env_init_kept(1) [of "Some n" "Some v" s]
    show ?thesis by (simp add: split_beta Let_def env_inv_def)
  next
    case (StoreGet n sz)
    with assms env_get_sim [OF assms(2), of sz n] show ?thesis by (simp add: split_beta Let_def)
  next
    case (StoreUnset n)
    with assms env_unset_sim [OF assms(2), of n] env_step_wf [OF _ wf, of "EnvUnset (Some n)"]
      init env_init_kept(2) [of "Some n" s]
    show ?thesis by (simp add: split_beta Let_def env_inv_def)
  next
    case StoreClear
    with assms env_clear_sim [OF assms(2)] env_step_wf [OF _ wf, of EnvClear]
      init env_init_kept(3) [of s]
    show ?thesis by (simp add: split_beta Let_def env_inv_def)
  qed
qed

interpretation env_store: simulates store_conc store_ok env_inv store_spec env_map
  using store_step_sim by unfold_locales blast+

definition env_started :: env_state where
  "env_started = fst (snd (os_env_init (Some 1) (ESP_OK, 7) (ESP_ERR_NOT_FOUND, env_make_blob [], 0) env_boot))"

lemma env_started_inv: "env_inv env_started"
  by (simp add: env_inv_def env_wf_def env_unique_def env_started_def os_env_init_def env_load_locked_def
      env_boot_def tab_uniq_replicate list_all_iff)

text \<open>Claim C3: the environment store refines a finite map of at most 16 names: for any sequence of
  set, get, unset and clear calls (names non-empty and at most 15 characters for set), started in a state of
  the invariant, the results and the values read are those of the map (set succeeds when the name is there or
  fewer than 16 are, and stores the value cut to 127 characters; get returns the value cut to the caller's
  buffer; NO_MEM and NOT_FOUND exactly where the map says so) and the final table stands for the final map.\<close>

theorem env_store_refines_map:
  assumes "list_all store_ok ops" and "env_inv s"
  shows "answers store_spec ops (env_map s) =
    (fst (answers store_conc ops s), env_map (snd (answers store_conc ops s)))"
  using assms by (rule env_store.answers_sim)

theorem env_store_refines_map_witness:
  "answers store_spec [StoreSet ''A'' ''1'', StoreGet ''A'' 8, StoreUnset ''A'', StoreGet ''A'' 8] (env_map env_started) =
   (fst (answers store_conc [StoreSet ''A'' ''1'', StoreGet ''A'' 8, StoreUnset ''A'', StoreGet ''A'' 8] env_started),
    env_map (snd (answers store_conc [StoreSet ''A'' ''1'', StoreGet ''A'' 8, StoreUnset ''A'', StoreGet ''A'' 8] env_started)))"
  by (rule env_store_refines_map) (simp_all add: env_started_inv OS_ENV_NAME_LEN_def)

text \<open>Claim C20: variables survive a restart: when NVS returns the blob the last save wrote, loading it
  rebuilds a table for the same map, with unique names.\<close>

theorem env_save_load_roundtrip:
  assumes "length (e_entries s) = OS_ENV_MAX_VARS" and "env_unique s"
    and "s'' = fst (env_load_locked ESP_OK (env_make_blob (e_entries s)) sizeof_env_blob s')"
  shows "env_map s'' = env_map s \<and> env_unique s'' \<and>
    set (env_save_locked s) = {Ext (NvsSetBlob ''env_blob'' (env_make_blob (e_entries s))), Ext NvsCommit}"
proof -
  let ?z = "replicate (OS_ENV_MAX_VARS - count_if e_used (e_entries s)) env_zero"
  have "e_entries s'' = filter e_used (e_entries s) @ ?z"
    using assms env_load_saved by simp
  moreover have "tab_map e_used e_name e_value (filter e_used (e_entries s) @ ?z) = env_map s"
    unfolding env_map_def by (subst tab_map_append_free) (auto simp: tab_map_filter)
  moreover have "tab_uniq e_used e_name (filter e_used (e_entries s) @ ?z)"
    using assms(2) unfolding env_unique_def by (rule tab_uniq_filter_append) auto
  ultimately show ?thesis by (simp add: env_map_def env_unique_def env_save_locked_def)
qed

theorem env_save_load_roundtrip_witness:
  "env_map (fst (env_load_locked ESP_OK (env_make_blob (e_entries env_started)) sizeof_env_blob env_boot)) =
    env_map env_started"
  using env_save_load_roundtrip [of env_started _ env_boot] env_started_inv
  by (simp add: env_inv_def env_wf_def)

text \<open>A name longer than 15 characters is stored cut to 15 but compared uncut: after
  a successful set, the variable cannot be read back under its name.\<close>

theorem env_long_name_lost:
  assumes "env_wf s" and "OS_ENV_NAME_LEN \<le> length n" and "0 < sz" 
    and "fst (os_env_set (Some n) (Some v) s) = ESP_OK" and "s' = fst (snd (os_env_set (Some n) (Some v) s))"
  shows "fst (os_env_get (Some n) True sz s') = ESP_ERR_NOT_FOUND"
proof -
  have init: "e_initialised s'" and entries: "\<exists>i. e_entries s' = (e_entries s)[i :=
      \<lparr>e_name = cstr OS_ENV_NAME_LEN n, e_value = cstr OS_ENV_VALUE_LEN v, e_used = True\<rparr>]"
    using assms(2,4,5) by (auto simp: os_env_set_def Let_def split: if_splits option.splits)
  have "list_all env_entry_ok (e_entries s')"
    using entries assms(1) by (auto simp: env_wf_def intro!: list_all_update env_entry_ok_new)
  then have "env_find_slot n s' = None"
    using assms(2) by (auto simp: env_find_slot_def tab_find_None list_all_iff env_entry_ok_def)
  with init assms(3) show ?thesis by (simp add: os_env_get_def)
qed

theorem env_long_name_lost_witness:
  "fst (os_env_get (Some ''SIXTEEN_CHARS_XX'') True 8
     (fst (snd (os_env_set (Some ''SIXTEEN_CHARS_XX'') (Some ''1'') env_started)))) = ESP_ERR_NOT_FOUND"
proof (rule env_long_name_lost [where v = "''1''" and s = env_started])
  show "fst (os_env_set (Some ''SIXTEEN_CHARS_XX'') (Some ''1'') env_started) = ESP_OK"
    by code_simp
qed (use env_started_inv in \<open>simp_all add: env_inv_def OS_ENV_NAME_LEN_def\<close>)

end
