(* ===== verification/EnvExpand.thy ===== *)
theory EnvExpand
  imports Env
begin

text \<open>
  \<^verbatim>\<open>os_env_expand\<close> of \<^verbatim>\<open>src/components/os_env/src/os_env.c\<close>: the expansion of
  \<^verbatim>\<open>$NAME\<close> and \<^verbatim>\<open>${NAME}\<close> in a command line.

  The input is a buffer with its terminator, read character by character: \<open>rd\<close> is \<open>None\<close>
  past its end, and so is the result of a loop that reads there.  The loops are total (their
  index grows towards the end of the buffer).  The loop is stated over any lookup function;
  \<open>os_env_expand\<close> passes the one of the store.  The reference is a line given as tokens
  (literal characters, references, lone dollars) with the value of each.
\<close>

section \<open>The loops\<close>

definition rd :: "string \<Rightarrow> nat \<Rightarrow> char option" where
  "rd buf i = (if i < length buf then Some (buf ! i) else None)"

definition ident_char :: "char \<Rightarrow> bool" where
  "ident_char c \<longleftrightarrow>
     (let k = (of_char c :: nat) in
        (65 \<le> k \<and> k \<le> 90) \<or> (97 \<le> k \<and> k \<le> 122) \<or> (48 \<le> k \<and> k \<le> 57)) \<or> c = CHR ''_''"

text \<open>The two scans of a name; both stop after 15 characters.\<close>

function brace_scan :: "string \<Rightarrow> nat \<Rightarrow> string \<Rightarrow> (nat \<times> string) option" where
  "brace_scan buf i name =
     (case rd buf i of
        None \<Rightarrow> None
      | Some c \<Rightarrow>
          if c \<noteq> nul \<and> c \<noteq> CHR ''}'' \<and> length name + 1 < OS_ENV_NAME_LEN
          then brace_scan buf (i + 1) (name @ [c])
          else Some (i, name))"
  by pat_completeness auto
termination
  by (relation "measure (\<lambda>(buf, i, name). length buf - i)") (auto simp: rd_def split: if_splits)

function ident_scan :: "string \<Rightarrow> nat \<Rightarrow> string \<Rightarrow> (nat \<times> string) option" where
  "ident_scan buf j name =
     (case rd buf j of
        None \<Rightarrow> None
      | Some c \<Rightarrow>
          if c \<noteq> nul \<and> ident_char c \<and> length name + 1 < OS_ENV_NAME_LEN
          then ident_scan buf (j + 1) (name @ [c])
          else Some (j, name))"
  by pat_completeness auto
termination
  by (relation "measure (\<lambda>(buf, j, name). length buf - j)") (auto simp: rd_def split: if_splits)

declare brace_scan.simps [simp del] ident_scan.simps [simp del]

text \<open>\<^verbatim>\<open>for (v = 0; value[v] != '\0' && out_len + 1 < out_sz; v++)\<close>\<close>

primrec put_value :: "nat \<Rightarrow> string \<Rightarrow> string \<Rightarrow> string" where
  "put_value out_sz out [] = out"
| "put_value out_sz out (c # cs) =
     (if length out + 1 < out_sz then put_value out_sz (out @ [c]) cs else out)"

text \<open>
  What one iteration does at the character \<open>$\<close> at index \<open>i\<close>: the index of the last
  character consumed and the name looked up, if any, or the character \<open>$\<close> itself.
\<close>

datatype dollar = Skip nat | Literal nat | Lookup nat string

definition dollar_at :: "string \<Rightarrow> nat \<Rightarrow> dollar option" where
  "dollar_at buf i =
     (case rd buf (i + 1) of
        None \<Rightarrow> None
      | Some c \<Rightarrow>
          if c = CHR ''{'' then
            (case brace_scan buf (i + 2) [] of
               None \<Rightarrow> None
             | Some (k, name) \<Rightarrow>
                 if rd buf k \<noteq> Some (CHR ''}'') then Some (Skip k) else Some (Lookup k name))
          else
            (case ident_scan buf (i + 1) [] of
               None \<Rightarrow> None
             | Some (j, name) \<Rightarrow>
                 if name = [] then Some (Literal i) else Some (Lookup (i + length name) name)))"

lemma brace_scan_ge: "brace_scan buf i name = Some (k, name') \<Longrightarrow> i \<le> k"
proof (induction buf i name rule: brace_scan.induct)
  case (1 buf i name)
  from "1.prems" show ?case
    by (subst (asm) brace_scan.simps) (auto split: option.splits if_splits dest: "1.IH")
qed

lemma dollar_at_ge:
  "dollar_at buf i = Some (Skip k) \<Longrightarrow> i \<le> k"
  "dollar_at buf i = Some (Literal k) \<Longrightarrow> i \<le> k"
  "dollar_at buf i = Some (Lookup k name) \<Longrightarrow> i \<le> k"
  by (auto simp: dollar_at_def split: option.splits if_splits dest: brace_scan_ge)

text \<open>
  The loop.  \<open>get\<close> stands for the call of \<^verbatim>\<open>os_env_get\<close> with a 128-byte buffer: the value,
  or \<open>None\<close> for any error.
\<close>

function expand_loop :: "(string \<Rightarrow> string option) \<Rightarrow> nat \<Rightarrow> string \<Rightarrow> nat \<Rightarrow> string \<Rightarrow> string option" where
  "expand_loop get out_sz buf i out =
     (case rd buf i of
        None \<Rightarrow> None
      | Some c \<Rightarrow>
          if c = nul \<or> \<not> length out + 1 < out_sz then Some out
          else if c \<noteq> CHR ''$'' then expand_loop get out_sz buf (i + 1) (out @ [c])
          else
            (case dollar_at buf i of
               None \<Rightarrow> None
             | Some (Skip k) \<Rightarrow> expand_loop get out_sz buf (k + 1) out
             | Some (Literal k) \<Rightarrow> expand_loop get out_sz buf (k + 1) (out @ ''$'')
             | Some (Lookup k name) \<Rightarrow>
                 expand_loop get out_sz buf (k + 1)
                   (case get name of None \<Rightarrow> out | Some v \<Rightarrow> put_value out_sz out v)))"
  by pat_completeness auto
termination
  by (relation "measure (\<lambda>(get, out_sz, buf, i, out). length buf - i)")
    (auto simp: rd_def split: if_splits dest!: dollar_at_ge)

declare expand_loop.simps [simp del]

definition env_value_of :: "env_state \<Rightarrow> string \<Rightarrow> string option" where
  "env_value_of s name =
     (case os_env_get (Some name) True OS_ENV_VALUE_LEN s of
        (r, v, _) \<Rightarrow> if r = ESP_OK then v else None)"

text \<open>NULL input or output, or no room: nothing is written and 0 is returned.\<close>

definition os_env_expand ::
  "string option \<Rightarrow> bool \<Rightarrow> nat \<Rightarrow> env_state \<Rightarrow> (nat \<times> string option) option" where
  "os_env_expand input output out_sz s =
     (case input of
        None \<Rightarrow> Some (0, None)
      | Some buf \<Rightarrow>
          if \<not> output \<or> out_sz = 0 then Some (0, None)
          else map_option (\<lambda>out. (length out, Some out)) (expand_loop (env_value_of s) out_sz buf 0 []))"

section \<open>Reading at an index\<close>

lemma rd_drop: "rd buf i = (case drop i buf of [] \<Rightarrow> None | c # _ \<Rightarrow> Some c)"
  by (cases "i < length buf") (simp_all add: rd_def Cons_nth_drop_Suc [symmetric])

lemma drop_at: "drop i buf = xs @ ys \<Longrightarrow> drop (i + length xs) buf = ys"
  by (metis append_eq_conv_conj drop_drop add.commute)

lemma drop_Suc_at: "drop i buf = c # ys \<Longrightarrow> drop (Suc i) buf = ys"
  using drop_at [of i buf "[c]" ys] by simp

lemma brace_scan_name:
  assumes "drop i buf = n @ CHR ''}'' # r" and "length name + length n < OS_ENV_NAME_LEN"
    and "nul \<notin> set n" and "CHR ''}'' \<notin> set n"
  shows "brace_scan buf i name = Some (i + length n, name @ n)"
  using assms
proof (induction n arbitrary: i name)
  case Nil
  then show ?case by (subst brace_scan.simps) (simp add: rd_drop)
next
  case (Cons c n)
  then have "brace_scan buf (i + 1) (name @ [c]) = Some (i + 1 + length n, (name @ [c]) @ n)"
    by (intro Cons.IH) (auto dest: drop_Suc_at)
  with Cons.prems show ?case by (subst brace_scan.simps) (auto simp: rd_drop)
qed

lemma ident_char_nul [simp]: "\<not> ident_char nul"
  by (simp add: ident_char_def nul_def)

lemma ident_scan_name:
  assumes "drop j buf = n @ c # r" and "length name + length n < OS_ENV_NAME_LEN"
    and "\<forall>x \<in> set n. ident_char x"
    and "\<not> ident_char c \<or> length name + length n + 1 = OS_ENV_NAME_LEN"
  shows "ident_scan buf j name = Some (j + length n, name @ n)"
  using assms
proof (induction n arbitrary: j name)
  case Nil
  then show ?case by (subst ident_scan.simps) (auto simp: rd_drop)
next
  case (Cons x n)
  then have "ident_scan buf (j + 1) (name @ [x]) = Some (j + 1 + length n, (name @ [x]) @ n)"
    by (intro Cons.IH) (auto dest: drop_Suc_at)
  with Cons.prems show ?case by (subst ident_scan.simps) (auto simp: rd_drop)
qed

lemma put_value_take: "length out + 1 \<le> sz \<Longrightarrow> put_value sz out v = take (sz - 1) (out @ v)"
  by (induction v arbitrary: out) (auto simp: take_Cons')

lemma take_take_append: "take n (take n a @ b) = take n (a @ b)"
  by (cases "n \<le> length a") simp_all

section \<open>The reference\<close>

datatype token = Lit char | Ref string | Braced string | Dollar

primrec token_text :: "token \<Rightarrow> string" where
  "token_text (Lit c) = [c]"
| "token_text (Ref n) = CHR ''$'' # n"
| "token_text (Braced n) = ''${'' @ n @ ''}''"
| "token_text Dollar = ''$''"

primrec token_value :: "(string \<Rightarrow> string option) \<Rightarrow> token \<Rightarrow> string" where
  "token_value get (Lit c) = [c]"
| "token_value get (Ref n) = (case get n of None \<Rightarrow> [] | Some v \<Rightarrow> v)"
| "token_value get (Braced n) = (case get n of None \<Rightarrow> [] | Some v \<Rightarrow> v)"
| "token_value get Dollar = ''$''"

text \<open>A token is well formed before the character \<open>c\<close> when the code can tell where it ends.\<close>

primrec token_ok :: "token \<Rightarrow> char \<Rightarrow> bool" where
  "token_ok (Lit x) c \<longleftrightarrow> x \<noteq> nul \<and> x \<noteq> CHR ''$''"
| "token_ok (Ref n) c \<longleftrightarrow> n \<noteq> [] \<and> length n < OS_ENV_NAME_LEN \<and> list_all ident_char n \<and>
     (\<not> ident_char c \<or> length n + 1 = OS_ENV_NAME_LEN)"
| "token_ok (Braced n) c \<longleftrightarrow> length n < OS_ENV_NAME_LEN \<and> nul \<notin> set n \<and> CHR ''}'' \<notin> set n"
| "token_ok Dollar c \<longleftrightarrow> \<not> ident_char c \<and> c \<noteq> CHR ''{''"

primrec line_text :: "token list \<Rightarrow> string" where
  "line_text [] = [nul]"
| "line_text (t # ts) = token_text t @ line_text ts"

primrec line_ok :: "token list \<Rightarrow> bool" where
  "line_ok [] \<longleftrightarrow> True"
| "line_ok (t # ts) \<longleftrightarrow> token_ok t (hd (line_text ts)) \<and> line_ok ts"

lemma line_text_ne: "line_text ts \<noteq> []"
  by (induction ts) simp_all

lemma line_text_Cons: "\<exists>r. line_text ts = hd (line_text ts) # r"
  by (metis line_text_ne list.collapse)

lemma ident_not_brace: "ident_char c \<Longrightarrow> c \<noteq> CHR ''{''"
  by (auto simp: ident_char_def)

lemma dollar_at_Ref:
  assumes "drop i buf = CHR ''$'' # n @ c # r" and "token_ok (Ref n) c"
  shows "dollar_at buf i = Some (Lookup (i + length n) n)"
proof -
  have d: "drop (i + 1) buf = n @ c # r" using drop_Suc_at [OF assms(1)] by simp
  obtain x xs where n: "n = x # xs" and x: "ident_char x" using assms(2) by (cases n) auto
  from d n have "rd buf (i + 1) = Some x" by (simp add: rd_drop)
  moreover have "ident_scan buf (i + 1) [] = Some (i + 1 + length n, [] @ n)"
    using assms(2) d by (intro ident_scan_name) (auto simp: list_all_iff)
  ultimately show ?thesis using n ident_not_brace [OF x] by (simp add: dollar_at_def)
qed

lemma dollar_at_Braced:
  assumes "drop i buf = ''${'' @ n @ CHR ''}'' # r" and "token_ok (Braced n) c"
  shows "dollar_at buf i = Some (Lookup (i + 2 + length n) n)"
proof -
  have d: "drop (i + 2) buf = n @ CHR ''}'' # r"
    using drop_at [of i buf "''${''" "n @ CHR ''}'' # r"] assms(1) by simp
  have "rd buf (i + 1) = Some (CHR ''{'')"
    using drop_Suc_at [of i buf] assms(1) by (simp add: rd_drop)
  moreover have "brace_scan buf (i + 2) [] = Some (i + 2 + length n, [] @ n)"
    using assms(2) by (intro brace_scan_name [OF d]) auto
  moreover have "rd buf (i + 2 + length n) = Some (CHR ''}'')"
    using drop_at [OF d] by (simp add: rd_drop)
  ultimately show ?thesis by (simp add: dollar_at_def)
qed

lemma dollar_at_Dollar:
  assumes "drop i buf = CHR ''$'' # c # r" and "token_ok Dollar c"
  shows "dollar_at buf i = Some (Literal i)"
proof -
  have d: "drop (i + 1) buf = [] @ c # r" using drop_Suc_at [OF assms(1)] by simp
  then have "ident_scan buf (i + 1) [] = Some (i + 1 + 0, [] @ [])"
    using ident_scan_name [of "i + 1" buf "[]" c r "[]"] assms(2) by (simp add: OS_ENV_NAME_LEN_def)
  with d assms(2) show ?thesis by (simp add: dollar_at_def rd_drop)
qed

text \<open>One iteration on a token.\<close>

lemma expand_token:
  assumes "drop i buf = token_text t @ c # r" and "token_ok t c" and "length out + 1 < sz"
  shows "expand_loop get sz buf i out =
    expand_loop get sz buf (i + length (token_text t)) (take (sz - 1) (out @ token_value get t))"
proof (cases t)
  case (Lit x)
  with assms show ?thesis by (subst expand_loop.simps) (simp add: rd_drop)
next
  case (Ref n)
  with assms dollar_at_Ref [of i buf n c r] show ?thesis
    by (subst expand_loop.simps) (simp add: rd_drop nul_def put_value_take split: option.splits)
next
  case (Braced n)
  with assms dollar_at_Braced [of i buf n "c # r" c] show ?thesis
    by (subst expand_loop.simps) (simp add: rd_drop nul_def put_value_take split: option.splits)
next
  case Dollar
  with assms dollar_at_Dollar [of i buf c r] show ?thesis
    by (subst expand_loop.simps) (simp add: rd_drop nul_def)
qed

lemma token_text_hd: "token_ok t c \<Longrightarrow> \<exists>x xs. token_text t = x # xs \<and> x \<noteq> nul"
  by (cases t) (auto simp: nul_def)

lemma expand_line_then:
  assumes "drop i buf = line_text ts @ ks" and "line_ok ts" and "length out + 1 \<le> sz"
  shows "expand_loop get sz buf i out = Some (take (sz - 1) (out @ concat (map (token_value get) ts)))"
  using assms
proof (induction ts arbitrary: i out)
  case Nil
  then show ?case by (subst expand_loop.simps) (simp add: rd_drop)
next
  case (Cons t ts)
  obtain r where r: "line_text ts = hd (line_text ts) # r" using line_text_Cons by blast
  show ?case
  proof (cases "length out + 1 < sz")
    case False
    then have "sz - 1 = length out" using Cons.prems(3) by simp
    moreover obtain x xs where "token_text t = x # xs"
      using Cons.prems(2) token_text_hd by fastforce
    ultimately show ?thesis
      using False Cons.prems(1) by (subst expand_loop.simps) (simp add: rd_drop)
  next
    case True
    let ?out = "take (sz - 1) (out @ token_value get t)"
    have "expand_loop get sz buf i out = expand_loop get sz buf (i + length (token_text t)) ?out"
      using Cons.prems r True by (intro expand_token [of _ _ _ "hd (line_text ts)" "r @ ks"]) auto
    also have "\<dots> = Some (take (sz - 1) (?out @ concat (map (token_value get) ts)))"
      using Cons.prems True by (intro Cons.IH) (auto intro: drop_at)
    also have "take (sz - 1) (?out @ concat (map (token_value get) ts)) =
      take (sz - 1) (out @ concat (map (token_value get) (t # ts)))"
      by (simp only: take_take_append) simp
    finally show ?thesis .
  qed
qed

lemmas expand_line = expand_line_then [where ks = "[]", simplified]

text \<open>Claim C4: on a line made of literal characters, \<^verbatim>\<open>$NAME\<close>, \<^verbatim>\<open>${NAME}\<close> (names of at most 15
  characters) and lone dollars, the expansion terminates without reading past the terminator and writes the
  concatenation of the characters and of the values of the variables, a variable that is not set giving
  nothing, cut to fit the output buffer; the length returned is that of the output.\<close>

theorem os_env_expand_correct:
  assumes "line_ok ts" and "0 < out_sz"
    and "result = take (out_sz - 1) (concat (map (token_value (env_value_of s)) ts))"
  shows "os_env_expand (Some (line_text ts)) True out_sz s = Some (length result, Some result)"
  using assms expand_line [of 0 "line_text ts" ts "[]" out_sz "env_value_of s"]
  by (simp add: os_env_expand_def)

theorem os_env_expand_correct_witness:
  "os_env_expand (Some (map id ''hi $A!'' @ [nul])) True 6 
     (fst (snd (os_env_set (Some ''A'') (Some ''xyz'') env_started))) = Some (5, Some ''hi xy'')"
proof -
  let ?ts = "[Lit CHR ''h'', Lit CHR ''i'', Lit CHR '' '', Ref ''A'', Lit CHR ''!'']"
  have "token_value (env_value_of (fst (snd (os_env_set (Some ''A'') (Some ''xyz'') env_started)))) (Ref ''A'') = ''xyz''"
    by code_simp
  moreover have "line_ok ?ts"
    by (simp add: nul_def ident_char_def OS_ENV_NAME_LEN_def)
  ultimately show ?thesis
    using os_env_expand_correct [of ?ts 6] by simp
qed

lemma expand_loop_bound:
  "expand_loop get sz buf i out = Some res \<Longrightarrow> length out + 1 \<le> sz \<Longrightarrow> length res + 1 \<le> sz"
proof (induction get sz buf i out rule: expand_loop.induct)
  case (1 get sz buf i out)
  note step = "1.prems"(1) [unfolded expand_loop.simps [of get sz buf i out]]
  from step obtain c where rd: "rd buf i = Some c" by (cases "rd buf i") auto
  show ?case
  proof (cases "c = nul \<or> \<not> length out + 1 < sz")
    case True
    with step rd "1.prems"(2) show ?thesis by simp
  next
    case go: False
    show ?thesis
    proof (cases "c = CHR ''$''")
      case False
      with step rd go show ?thesis by (intro "1.IH"(1) [OF rd go]) simp_all
    next
      case dollar: True
      then obtain d where d: "dollar_at buf i = Some d" using step rd go by (cases "dollar_at buf i") auto
      have *: "\<not> c \<noteq> CHR ''$''" using dollar by simp
      show ?thesis
      proof (cases d)
        case (Skip k)
        with step rd go dollar d "1.prems"(2) show ?thesis by (intro "1.IH"(2) [OF rd go * d]) simp_all
      next
        case (Literal k)
        with step rd go dollar d show ?thesis by (intro "1.IH"(3) [OF rd go * d]) simp_all
      next
        case (Lookup k name)
        with step rd go dollar d show ?thesis
          by (intro "1.IH"(4) [OF rd go * d]) (auto simp: put_value_take split: option.splits)
      qed
    qed
  qed
qed

text \<open>Whatever the input buffer, an expansion that returns has kept the output within its
  buffer, terminator included.\<close>

theorem os_env_expand_bounded:
  assumes "os_env_expand input output out_sz s = Some (n, Some out)"
  shows "n = length out \<and> n < out_sz"
  using assms by (auto simp: os_env_expand_def split: option.splits if_splits dest!: expand_loop_bound)

theorem os_env_expand_bounded_witness:
  "os_env_expand (Some (''abc'' @ [nul])) True 3 env_started = Some (2, Some ''ab'') \<and> (2::nat) < 3"
proof -
  have "os_env_expand (Some (''abc'' @ [nul])) True 3 env_started = Some (2, Some ''ab'')"
    by code_simp
  from this os_env_expand_bounded [OF this] show ?thesis by simp
qed

text \<open>An unterminated reference makes the loop step over the terminator: the next character
  read is the one after the end of the string, outside a buffer that ends there.\<close>

theorem os_env_expand_overread:
  assumes "length n < OS_ENV_NAME_LEN - 1" and "nul \<notin> set n" and "CHR ''}'' \<notin> set n" and "1 < out_sz"
  shows "os_env_expand (Some (''${'' @ n @ [nul])) True out_sz s = None"
proof -
  let ?buf = "''${'' @ n @ [nul]"
  have scan: "drop i buf = m @ [nul] \<Longrightarrow> length name + length m < OS_ENV_NAME_LEN - 1 \<Longrightarrow> nul \<notin> set m \<Longrightarrow>
      CHR ''}'' \<notin> set m \<Longrightarrow> brace_scan buf i name = Some (i + length m, name @ m)" for i buf m name
  proof (induction m arbitrary: i name)
    case Nil
    then show ?case by (subst brace_scan.simps) (simp add: rd_drop)
  next
    case (Cons c m)
    then have "brace_scan buf (i + 1) (name @ [c]) = Some (i + 1 + length m, (name @ [c]) @ m)"
      by (intro Cons.IH) (auto dest: drop_Suc_at)
    with Cons.prems show ?case by (subst brace_scan.simps) (auto simp: rd_drop)
  qed
  have "brace_scan ?buf 2 [] = Some (2 + length n, n)"
    using scan [of 2 ?buf n "[]"] assms by simp
  moreover have "rd ?buf (2 + length n) = Some nul" "rd ?buf 0 = Some CHR ''$''" "rd ?buf 1 = Some CHR ''{''"
    by (simp_all add: rd_def nth_append)
  moreover have "rd ?buf (2 + length n + 1) = None" by (simp add: rd_def)
  moreover from this have "expand_loop (env_value_of s) out_sz ?buf (2 + length n + 1) [] = None"
    by (subst expand_loop.simps) simp
  ultimately have "expand_loop (env_value_of s) out_sz ?buf 0 [] = None"
    using assms(4) by (subst expand_loop.simps) (simp add: dollar_at_def nul_def numeral_2_eq_2)
  then show ?thesis using assms(4) by (simp add: os_env_expand_def)
qed

theorem os_env_expand_overread_witness:
  "os_env_expand (Some (''${abc'' @ [nul])) True 64 env_started = None"
  using os_env_expand_overread [of "''abc''" 64 env_started] by (simp add: OS_ENV_NAME_LEN_def nul_def)

end
