(* ===== verification/Kernel.thy ===== *)
theory Kernel
  imports SlotTable Fmt
begin

text \<open>
  The process table, \<^verbatim>\<open>src/components/os_kernel/src/os_kernel.c\<close>: 20 descriptors over
  FreeRTOS tasks, named by 16-bit process ids.

  What FreeRTOS answers is passed in: the handle of a created task or its failure, the tick
  count, and \<open>probe\<close>, the state, stack mark and priority of a task by its handle.
\<close>

section \<open>State\<close>

definition OS_MAX_PROCESSES :: nat where "OS_MAX_PROCESSES = 20"
definition OS_PROC_NAME_LEN :: nat where "OS_PROC_NAME_LEN = 24"
definition OS_DEFAULT_STACK_SIZE :: "32 word" where "OS_DEFAULT_STACK_SIZE = 4096"
definition OS_DEFAULT_PRIORITY :: "32 word" where "OS_DEFAULT_PRIORITY = 5"

datatype proc_state =
    PROC_STATE_RUNNING | PROC_STATE_READY | PROC_STATE_BLOCKED | PROC_STATE_SUSPENDED
  | PROC_STATE_DELETED | PROC_STATE_INVALID

datatype etask_state = ERunning | EReady | EBlocked | ESuspended | EDeleted | EInvalid

datatype os_signal = OS_SIG_KILL | OS_SIG_SUSPEND | OS_SIG_CONT | OS_SIG_OTHER int

type_synonym os_pid = "16 word"

record process =
  p_pid :: os_pid
  p_name :: string
  p_handle :: "nat option"
  p_state :: proc_state
  p_priority :: "32 word"
  p_stack_size :: "32 word"
  p_stack_high_water :: "32 word"
  p_runtime_ticks :: "64 word"
  p_created_at :: "32 word"
  p_is_system :: bool

record kernel =
  k_table :: "process list"
  k_count :: "16 word"
  k_next_pid :: os_pid
  k_lock :: "nat option"
  k_initialised :: bool
  k_boot_us :: "64 word"

record kernel_stats =
  ks_free_heap :: "32 word"
  ks_min_free_heap :: "32 word"
  ks_total_heap :: "32 word"
  ks_largest_free :: "32 word"
  ks_uptime_ms :: "32 word"
  ks_cpu_load_pct :: "8 word"
  ks_process_count :: "16 word"

text \<open>\<^verbatim>\<open>memset(slot, 0, sizeof(*slot))\<close>: state 0 is \<^verbatim>\<open>PROC_STATE_RUNNING\<close>.\<close>

definition proc_zero :: process where
  "proc_zero = \<lparr>p_pid = 0, p_name = [], p_handle = None, p_state = PROC_STATE_RUNNING, p_priority = 0,
     p_stack_size = 0, p_stack_high_water = 0, p_runtime_ticks = 0, p_created_at = 0, p_is_system = False\<rparr>"

definition kernel_boot :: kernel where
  "kernel_boot = \<lparr>k_table = replicate OS_MAX_PROCESSES proc_zero, k_count = 0, k_next_pid = 1,
     k_lock = None, k_initialised = False, k_boot_us = 0\<rparr>"

datatype kernel_call =
    KLockCreate | KTimeUs
  | XTaskCreate nat string "32 word" nat "32 word"
  | VTaskDelete nat | VTaskSuspend nat | VTaskResume nat
  | KUart string | KSock int string

section \<open>Helpers\<close>

definition k_fd_printf :: "int \<Rightarrow> string \<Rightarrow> kernel_call eff" where
  "k_fd_printf fd formatted =
     (if fd < 0 then Ext (KUart (cstr 256 formatted)) else Ext (KSock fd (cstr 256 formatted)))"

primrec state_str :: "proc_state \<Rightarrow> string" where
  "state_str PROC_STATE_RUNNING = ''R''"
| "state_str PROC_STATE_READY = ''S''"
| "state_str PROC_STATE_BLOCKED = ''D''"
| "state_str PROC_STATE_SUSPENDED = ''T''"
| "state_str PROC_STATE_DELETED = ''Z''"
| "state_str PROC_STATE_INVALID = ''?''"

primrec freertos_state :: "etask_state \<Rightarrow> proc_state" where
  "freertos_state ERunning = PROC_STATE_RUNNING"
| "freertos_state EReady = PROC_STATE_READY"
| "freertos_state EBlocked = PROC_STATE_BLOCKED"
| "freertos_state ESuspended = PROC_STATE_SUSPENDED"
| "freertos_state EDeleted = PROC_STATE_DELETED"
| "freertos_state EInvalid = PROC_STATE_INVALID"

type_synonym probe = "nat \<Rightarrow> etask_state \<times> 32 word \<times> 32 word"

text \<open>\<open>stk\<close> is \<^verbatim>\<open>sizeof(StackType_t)\<close> of the FreeRTOS port.\<close>

definition refresh_entry :: "32 word \<Rightarrow> probe \<Rightarrow> process \<Rightarrow> process" where
  "refresh_entry stk probe p =
     (if p_state p = PROC_STATE_INVALID then p
      else if p_state p = PROC_STATE_DELETED then p
      else
        case p_handle p of
          None \<Rightarrow> p
        | Some h \<Rightarrow>
            let (ts, mark, prio) = probe h
            in p\<lparr>p_state := freertos_state ts, p_stack_high_water := mark * stk, p_priority := prio\<rparr>)"

definition refresh_entries_locked :: "32 word \<Rightarrow> probe \<Rightarrow> kernel \<Rightarrow> kernel" where
  "refresh_entries_locked stk probe k = k\<lparr>k_table := map (refresh_entry stk probe) (k_table k)\<rparr>"

definition proc_live :: "process \<Rightarrow> bool" where
  "proc_live p \<longleftrightarrow> p_state p \<noteq> PROC_STATE_INVALID \<and> p_state p \<noteq> PROC_STATE_DELETED"

definition proc_used :: "process \<Rightarrow> bool" where
  "proc_used p \<longleftrightarrow> p_state p \<noteq> PROC_STATE_INVALID"

definition k_find_slot :: "kernel \<Rightarrow> nat option" where
  "k_find_slot k = tab_free proc_live (k_table k)"

definition find_by_pid_locked :: "os_pid \<Rightarrow> kernel \<Rightarrow> nat option" where
  "find_by_pid_locked pid k = tab_find proc_used p_pid pid (k_table k)"

section \<open>Operations\<close>

definition os_kernel_init :: "nat option \<Rightarrow> 64 word \<Rightarrow> kernel \<Rightarrow> esp_err \<times> kernel \<times> kernel_call eff list" where
  "os_kernel_init lk now k =
     (if k_initialised k then (ESP_OK, k, [])
      else
        let k1 = k\<lparr>k_table := replicate OS_MAX_PROCESSES (proc_zero\<lparr>p_state := PROC_STATE_INVALID\<rparr>),
                   k_lock := lk\<rparr>
        in case lk of
             None \<Rightarrow> (ESP_ERR_NO_MEM, k1, [Ext KLockCreate])
           | Some l \<Rightarrow>
               (ESP_OK, k1\<lparr>k_boot_us := now, k_next_pid := 1, k_count := 0, k_initialised := True\<rparr>,
                [Ext KLockCreate, Ext KTimeUs, Log OS_LOG_INFO ''Kernel init OK  (max_procs=%d)'']))"

text \<open>
  \<open>func\<close> is the task function (NULL is \<open>None\<close>), \<open>tick\<close> the tick count, \<open>task\<close> what
  \<^verbatim>\<open>xTaskCreate\<close> does: the new handle, or failure, which leaves the handle NULL.
\<close>

definition os_process_create ::
  "32 word \<Rightarrow> 32 word \<Rightarrow> nat option \<Rightarrow> string option \<Rightarrow> nat option \<Rightarrow> nat \<Rightarrow> 32 word \<Rightarrow> 32 word \<Rightarrow> bool
   \<Rightarrow> kernel \<Rightarrow> os_pid \<times> kernel \<times> kernel_call eff list" where
  "os_process_create stk tick task name func arg stack_size priority is_system k =
     (case func of
        None \<Rightarrow> (0, k, [])
      | Some f \<Rightarrow>
          if \<not> k_initialised k then (0, k, [])
          else
            let stack = (if stack_size < 1024 then OS_DEFAULT_STACK_SIZE else stack_size) in
            (case k_find_slot k of
               None \<Rightarrow> (0, k, [Take, Give, Log OS_LOG_ERROR ''Process table full (max=%d)''])
             | Some i \<Rightarrow>
                 let p = proc_zero\<lparr>
                       p_pid := k_next_pid k,
                       p_priority := (if priority \<noteq> 0 then priority else OS_DEFAULT_PRIORITY),
                       p_stack_size := stack,
                       p_is_system := is_system,
                       p_created_at := tick,
                       p_state := PROC_STATE_READY,
                       p_name := cstr OS_PROC_NAME_LEN (case name of None \<Rightarrow> ''unnamed'' | Some n \<Rightarrow> n)\<rparr>;
                     k1 = k\<lparr>k_next_pid := k_next_pid k + 1\<rparr>;
                     call = Ext (XTaskCreate f (p_name p) (stack div stk) arg (p_priority p))
                 in
                 (case task of
                    None \<Rightarrow>
                      (0, k1\<lparr>k_table := (k_table k)[i := p\<lparr>p_state := PROC_STATE_INVALID\<rparr>]\<rparr>,
                       [Take, call, Give, Log OS_LOG_ERROR (''xTaskCreate failed for '%s'' @ quote)])
                  | Some h \<Rightarrow>
                      (p_pid p,
                       k1\<lparr>k_table := (k_table k)[i := p\<lparr>p_handle := Some h\<rparr>], k_count := k_count k + 1\<rparr>,
                       [Take, call, Give,
                        Log OS_LOG_DEBUG ''Created process '%s' pid=%d prio=%d stack=%u'']))))"

definition k_on_handle :: "(nat \<Rightarrow> kernel_call) \<Rightarrow> process \<Rightarrow> kernel_call eff list" where
  "k_on_handle call p = (case p_handle p of None \<Rightarrow> [] | Some h \<Rightarrow> [Ext (call h)])"

definition os_process_signal :: "os_pid \<Rightarrow> os_signal \<Rightarrow> kernel \<Rightarrow> esp_err \<times> kernel \<times> kernel_call eff list" where
  "os_process_signal pid sig k =
     (if \<not> k_initialised k then (ESP_ERR_INVALID_STATE, k, [])
      else
        (case find_by_pid_locked pid k of
           None \<Rightarrow> (ESP_ERR_NOT_FOUND, k, [Take, Give])
         | Some i \<Rightarrow>
             let p = k_table k ! i in
             (case sig of
                OS_SIG_KILL \<Rightarrow>
                  (ESP_OK,
                   k\<lparr>k_table := (k_table k)[i := p\<lparr>p_handle := None, p_state := PROC_STATE_DELETED\<rparr>],
                     k_count := (if 0 < k_count k then k_count k - 1 else 0)\<rparr>,
                   [Take] @ k_on_handle VTaskDelete p @ [Log OS_LOG_INFO ''Killed pid=%d ('%s')'', Give])
              | OS_SIG_SUSPEND \<Rightarrow>
                  (ESP_OK, k\<lparr>k_table := (k_table k)[i := p\<lparr>p_state := PROC_STATE_SUSPENDED\<rparr>]\<rparr>,
                   [Take] @ k_on_handle VTaskSuspend p @ [Log OS_LOG_DEBUG ''Suspended pid=%d'', Give])
              | OS_SIG_CONT \<Rightarrow>
                  (ESP_OK, k\<lparr>k_table := (k_table k)[i := p\<lparr>p_state := PROC_STATE_READY\<rparr>]\<rparr>,
                   [Take] @ k_on_handle VTaskResume p @ [Log OS_LOG_DEBUG ''Resumed pid=%d'', Give])
              | OS_SIG_OTHER _ \<Rightarrow> (ESP_ERR_INVALID_ARG, k, [Take, Give]))))"

definition os_process_kill :: "os_pid \<Rightarrow> kernel \<Rightarrow> esp_err \<times> kernel \<times> kernel_call eff list" where
  "os_process_kill pid = os_process_signal pid OS_SIG_KILL"

definition os_process_suspend :: "os_pid \<Rightarrow> kernel \<Rightarrow> esp_err \<times> kernel \<times> kernel_call eff list" where
  "os_process_suspend pid = os_process_signal pid OS_SIG_SUSPEND"

definition os_process_resume :: "os_pid \<Rightarrow> kernel \<Rightarrow> esp_err \<times> kernel \<times> kernel_call eff list" where
  "os_process_resume pid = os_process_signal pid OS_SIG_CONT"

text \<open>The copying loop of \<^verbatim>\<open>os_process_list\<close>: \<open>n\<close> entries are in the buffer already.\<close>

fun list_loop :: "nat \<Rightarrow> process list \<Rightarrow> process list \<Rightarrow> process list" where
  "list_loop max_count [] buf = buf"
| "list_loop max_count (p # ps) buf =
     (if \<not> length buf < max_count then buf
      else if p_state p \<noteq> PROC_STATE_INVALID then list_loop max_count ps (buf @ [p])
      else list_loop max_count ps buf)"

definition os_process_list ::
  "32 word \<Rightarrow> probe \<Rightarrow> bool \<Rightarrow> int \<Rightarrow> kernel \<Rightarrow> process list \<times> kernel \<times> kernel_call eff list" where
  "os_process_list stk probe buf max_count k =
     (if \<not> k_initialised k \<or> \<not> buf \<or> max_count \<le> 0 then ([], k, [])
      else
        let k' = refresh_entries_locked stk probe k
        in (list_loop (nat max_count) (k_table k') [], k', [Take, Give]))"

definition os_process_get :: "os_pid \<Rightarrow> bool \<Rightarrow> kernel \<Rightarrow> esp_err \<times> process option \<times> kernel_call eff list" where
  "os_process_get pid buf k =
     (if \<not> k_initialised k \<or> \<not> buf then (ESP_ERR_INVALID_ARG, None, [])
      else
        (case find_by_pid_locked pid k of
           Some i \<Rightarrow> (ESP_OK, Some (k_table k ! i), [Take, Give])
         | None \<Rightarrow> (ESP_ERR_NOT_FOUND, None, [Take, Give])))"

text \<open>\<^verbatim>\<open>strncmp(a, b, n) == 0\<close> for strings without their terminators.\<close>

definition strncmp_eq :: "nat \<Rightarrow> string \<Rightarrow> string \<Rightarrow> bool" where
  "strncmp_eq n a b \<longleftrightarrow> take n a = take n b"

definition os_process_find_by_name ::
  "string option \<Rightarrow> bool \<Rightarrow> kernel \<Rightarrow> esp_err \<times> process option \<times> kernel_call eff list" where
  "os_process_find_by_name name buf k =
     (case name of
        None \<Rightarrow> (ESP_ERR_INVALID_ARG, None, [])
      | Some n \<Rightarrow>
          if \<not> k_initialised k \<or> \<not> buf then (ESP_ERR_INVALID_ARG, None, [])
          else
            (case find_idx (\<lambda>p. p_state p \<noteq> PROC_STATE_INVALID \<and> strncmp_eq OS_PROC_NAME_LEN (p_name p) n)
                    (k_table k) of
               Some i \<Rightarrow> (ESP_OK, Some (k_table k ! i), [Take, Give])
             | None \<Rightarrow> (ESP_ERR_NOT_FOUND, None, [Take, Give])))"

definition os_process_self :: "nat \<Rightarrow> kernel \<Rightarrow> os_pid \<times> kernel_call eff list" where
  "os_process_self self k =
     (if \<not> k_initialised k then (0, [])
      else
        (case find_idx (\<lambda>p. p_handle p = Some self \<and> p_state p \<noteq> PROC_STATE_INVALID) (k_table k) of
           Some i \<Rightarrow> (p_pid (k_table k ! i), [Take, Give])
         | None \<Rightarrow> (0, [Take, Give])))"

definition os_kernel_get_stats ::
  "32 word \<Rightarrow> 32 word \<Rightarrow> 32 word \<Rightarrow> 32 word \<Rightarrow> 64 word \<Rightarrow> kernel \<Rightarrow> kernel_stats" where
  "os_kernel_get_stats free_b min_free_b total_b largest_b now k =
     \<lparr>ks_free_heap = free_b, ks_min_free_heap = min_free_b, ks_total_heap = total_b, ks_largest_free = largest_b,
      ks_uptime_ms = ucast ((now - k_boot_us k) div 1000), ks_cpu_load_pct = 0,
      ks_process_count = k_count k\<rparr>"

definition ps_row :: "process \<Rightarrow> string" where
  "ps_row p =
     padr 5 (dec (unat (p_pid p))) @ '' '' @ padr 24 (p_name p) @ '' '' @ padr 4 (state_str (p_state p)) @ '' '' @
     padr 5 (dec_int (sint (p_priority p))) @ '' '' @ padr 10 (dec (unat (p_stack_size p))) @ '' '' @
     padr 10 (dec (unat (p_stack_high_water p))) @ '' '' @
     padr 6 (if p_is_system p then ''yes'' else ''no'') @ crlf"

definition ps_head :: "string list \<Rightarrow> string" where
  "ps_head ws = padr 5 (ws ! 0) @ '' '' @ padr 24 (ws ! 1) @ '' '' @ padr 4 (ws ! 2) @ '' '' @
     padr 5 (ws ! 3) @ '' '' @ padr 10 (ws ! 4) @ '' '' @ padr 10 (ws ! 5) @ '' '' @ padr 6 (ws ! 6) @ crlf"

definition os_kernel_print_ps ::
  "32 word \<Rightarrow> probe \<Rightarrow> int \<Rightarrow> kernel \<Rightarrow> kernel \<times> kernel_call eff list" where
  "os_kernel_print_ps stk probe fd k =
     (let (ps, k', tr) = os_process_list stk probe True (int OS_MAX_PROCESSES) k
      in (k', tr @
          [k_fd_printf fd (crlf @ ps_head [''PID'', ''NAME'', ''ST'', ''PRIO'', ''STACK_SZ'', ''STK_LEFT'', ''SYS'']),
           k_fd_printf fd (ps_head [''---'', ''----'', ''--'', ''----'', ''--------'', ''--------'', ''---''])] @
          map (\<lambda>p. k_fd_printf fd (ps_row p)) ps @
          [k_fd_printf fd (crlf @ dec (length ps) @ '' processes'' @ crlf)]))"

text \<open>The two block characters of the memory bar, as their UTF-8 bytes.\<close>

definition bar_full :: string where "bar_full = [CHR 0xE2, CHR 0x96, CHR 0x88]"
definition bar_empty :: string where "bar_empty = [CHR 0xE2, CHR 0x96, CHR 0x91]"

definition top_pct :: "32 word \<Rightarrow> 32 word \<Rightarrow> 32 word" where
  "top_pct total_b free_b =
     (let used = total_b - free_b in if 0 < total_b then used * 100 div total_b else 0)"

definition os_kernel_print_top ::
  "32 word \<Rightarrow> probe \<Rightarrow> 32 word \<Rightarrow> 32 word \<Rightarrow> 32 word \<Rightarrow> 32 word \<Rightarrow> 64 word \<Rightarrow> int
   \<Rightarrow> kernel \<Rightarrow> kernel \<times> kernel_call eff list" where
  "os_kernel_print_top stk probe free_b min_free_b total_b largest_b now fd k =
     (let st = os_kernel_get_stats free_b min_free_b total_b largest_b now k;
          s = ks_uptime_ms st div 1000; m = s div 60; h = m div 60;
          pct = top_pct (ks_total_heap st) (ks_free_heap st);
          (k', tr) = os_kernel_print_ps stk probe fd k;
          num = (\<lambda>w :: 32 word. dec (unat w))
      in (k',
          [k_fd_printf fd (crlf @ [CHR 0x1B] @ ''[1m esp32os top'' @ [CHR 0x1B] @ ''[0m  up '' @ zpad 2 (num h) @ '':'' @
             zpad 2 (num (m mod 60)) @ '':'' @ zpad 2 (num (s mod 60)) @ ''  procs: '' @
             dec (unat (ks_process_count st)) @ crlf),
           k_fd_printf fd (''Heap: '' @ num (ks_free_heap st) @ '' / '' @ num (ks_total_heap st) @ '' bytes free  (min='' @
             num (ks_min_free_heap st) @ ''  largest='' @ num (ks_largest_free st) @ '')'' @ crlf),
           k_fd_printf fd ''Mem  [''] @
          map (\<lambda>i. k_fd_printf fd (if int i < sint (pct * 40 div 100) then bar_full else bar_empty)) [0..<40] @
          [k_fd_printf fd (''] '' @ num pct @ ''%'' @ crlf @ crlf)] @ tr))"

section \<open>Every call keeps the table well formed\<close>

datatype k_op =
    KInit "nat option" "64 word"
  | KCreate "32 word" "32 word" "nat option" "string option" "nat option" nat "32 word" "32 word" bool
  | KSignal os_pid os_signal
  | KList "32 word" probe bool int

primrec k_exec :: "k_op \<Rightarrow> kernel \<Rightarrow> kernel \<times> kernel_call eff list" where
  "k_exec (KInit lk now) k = snd (os_kernel_init lk now k)"
| "k_exec (KCreate stk tick task name func arg stack prio sys) k =
     snd (os_process_create stk tick task name func arg stack prio sys k)"
| "k_exec (KSignal pid sig) k = snd (os_process_signal pid sig k)"
| "k_exec (KList stk probe buf n) k = snd (os_process_list stk probe buf n k)"

definition kernel_wf :: "kernel \<Rightarrow> bool" where
  "kernel_wf k \<longleftrightarrow> length (k_table k) = OS_MAX_PROCESSES \<and>
     list_all (\<lambda>p. length (p_name p) < OS_PROC_NAME_LEN) (k_table k) \<and>
     (k_initialised k \<longrightarrow> k_lock k \<noteq> None)"

interpretation k_tab: slot_table proc_used p_pid id "\<lambda>p. p\<lparr>p_state := PROC_STATE_INVALID\<rparr>"
  by unfold_locales (simp add: proc_used_def)

interpretation k_live: slot_table proc_live p_pid id "\<lambda>p. p\<lparr>p_state := PROC_STATE_DELETED\<rparr>"
  by unfold_locales (simp add: proc_live_def)

lemma k_find_bounds:
  "find_by_pid_locked pid k = Some i \<Longrightarrow> i < length (k_table k)"
  "k_find_slot k = Some i \<Longrightarrow> i < length (k_table k)"
  by (auto simp: find_by_pid_locked_def k_find_slot_def dest: tab_findD tab_freeD)

lemma refresh_name [simp]: "p_name (refresh_entry stk probe p) = p_name p"
  by (simp add: refresh_entry_def split_beta split: option.split)

lemma refresh_pid [simp]: "p_pid (refresh_entry stk probe p) = p_pid p"
  by (simp add: refresh_entry_def split_beta split: option.split)

lemma k_step_wf:
  assumes "kernel_wf k"
  shows "kernel_wf (fst (k_exec x k))"
proof (cases x)
  case (KInit lk now)
  with assms show ?thesis
    by (auto simp: kernel_wf_def os_kernel_init_def Let_def proc_zero_def OS_PROC_NAME_LEN_def list_all_iff
        split: option.splits)
next
  case (KCreate stk tick task name func arg stack prio sys)
  have "length (cstr OS_PROC_NAME_LEN s) < OS_PROC_NAME_LEN" for s
    by (rule cstr_fits) (simp add: OS_PROC_NAME_LEN_def)
  with KCreate assms show ?thesis
    by (auto simp: kernel_wf_def os_process_create_def Let_def simp del: length_cstr
        intro!: list_all_update split: option.splits)
next
  case (KSignal pid sig)
  with assms show ?thesis
    by (auto simp: kernel_wf_def os_process_signal_def Let_def
        intro!: list_all_update dest: k_find_bounds list_all_nth split: option.splits os_signal.splits)
next
  case (KList stk probe buf n)
  with assms show ?thesis
    by (auto simp: kernel_wf_def os_process_list_def Let_def refresh_entries_locked_def list_all_iff)
qed

interpretation k_calls: guarded "\<lambda>x k. fst (k_exec x k)" "\<lambda>_. True" kernel_wf
  by unfold_locales (rule k_step_wf)

text \<open>Whatever sequence of kernel calls is made after boot, with any names and any answers of
  FreeRTOS, the process table keeps its 20 entries, every name fits its 24-byte array with its terminator, and
  an initialised kernel has its mutex; and no call takes the mutex twice or leaves it taken.\<close>

theorem kernel_run_wf:
  "kernel_wf (run (\<lambda>x k. fst (k_exec x k)) ops kernel_boot) \<and> lock_ok False (snd (k_exec x k))"
proof
  have "kernel_wf kernel_boot"
    by (simp add: kernel_wf_def kernel_boot_def proc_zero_def list_all_iff OS_PROC_NAME_LEN_def)
  then show "kernel_wf (run (\<lambda>x k. fst (k_exec x k)) ops kernel_boot)"
    by (intro k_calls.run_inv) (simp add: list_all_iff)
  show "lock_ok False (snd (k_exec x k))"
    by (cases x)
      (auto simp: os_kernel_init_def os_process_create_def os_process_signal_def os_process_list_def Let_def
        k_on_handle_def split: option.splits os_signal.splits)
qed

section \<open>Process ids\<close>

text \<open>While ids have not wrapped: the used entries carry distinct ids between 1 and the next one.\<close>

definition k_pids :: "kernel \<Rightarrow> bool" where
  "k_pids k \<longleftrightarrow> k_initialised k \<and> kernel_wf k \<and> tab_uniq proc_used p_pid (k_table k) \<and>
     0 < k_next_pid k \<and> (\<forall>p \<in> set (k_table k). proc_used p \<longrightarrow> 0 < p_pid p \<and> p_pid p < k_next_pid k)"

lemma k_pidsD:
  assumes "k_pids k"
  shows "k_initialised k" "kernel_wf k" "tab_uniq proc_used p_pid (k_table k)" "0 < k_next_pid k"
    "p \<in> set (k_table k) \<Longrightarrow> proc_used p \<Longrightarrow> 0 < p_pid p \<and> p_pid p < k_next_pid k"
  using assms by (auto simp: k_pids_def)

lemma k_next_unused: "k_pids k \<Longrightarrow> tab_find proc_used p_pid (k_next_pid k) (k_table k) = None"
  by (auto simp: tab_find_None k_pids_def)

lemma word_inc: "unat (w :: 16 word) < 65535 \<Longrightarrow> unat (w + 1) = Suc (unat w)"
  by (simp add: unat_word_ariths)

lemma k_pids_fill:
  assumes "k_pids k" and "unat (k_next_pid k) < 65535" and "p_pid p = k_next_pid k"
    and "length (p_name p) < OS_PROC_NAME_LEN"
    and "k_next_pid k' = k_next_pid k + 1" "k_table k' = (k_table k)[i := p]"
      "k_initialised k' = k_initialised k" "k_lock k' = k_lock k"
  shows "k_pids k'"
proof -
  have inc: "unat (k_next_pid k + 1) = Suc (unat (k_next_pid k))" by (rule word_inc [OF assms(2)])
  then have less: "q \<le> k_next_pid k \<Longrightarrow> q < k_next_pid k + 1" for q
    by (simp add: word_less_nat_alt word_le_nat_alt)
  have "tab_uniq proc_used p_pid ((k_table k)[i := p])"
    using k_tab.uniq_fill [of "k_table k" p i] k_next_unused [OF assms(1)] k_pidsD(3) [OF assms(1)] assms(3)
    by simp
  moreover have "0 < p_pid q \<and> p_pid q < k_next_pid k + 1" if "q \<in> set ((k_table k)[i := p])" "proc_used q" for q
    using set_update_cases [OF that(1)] that(2) k_pidsD(4,5) [OF assms(1)] assms(3) less
    by (auto intro: order.strict_implies_order)
  moreover have "0 < k_next_pid k + 1" using inc by (simp add: word_less_nat_alt)
  ultimately show ?thesis
    using assms k_pidsD(2) [OF assms(1)]
    by (auto simp: k_pids_def kernel_wf_def intro: list_all_update)
qed

lemma k_pids_same:
  assumes "k_pids k" and "i < length (k_table k)" and "k_table k' = (k_table k)[i := p]"
    and "p_pid p = p_pid (k_table k ! i)"
    and "p_name p = p_name (k_table k ! i)" and "proc_used p \<Longrightarrow> proc_used (k_table k ! i)"
    and "k_next_pid k' = k_next_pid k" "k_initialised k' = k_initialised k" "k_lock k' = k_lock k"
  shows "k_pids k'"
proof -
  have "tab_uniq proc_used p_pid ((k_table k)[i := p])"
    using k_pidsD(3) [OF assms(1)] assms(2,4,6) by (rule tab_uniq_keep)
  moreover have "0 < p_pid q \<and> p_pid q < k_next_pid k" if "q \<in> set ((k_table k)[i := p])" "proc_used q" for q
    using set_update_cases [OF that(1)] that(2) k_pidsD(5) [OF assms(1)] assms(2,4,6) nth_mem [OF assms(2)]
    by auto
  ultimately show ?thesis
    using assms k_pidsD(2,4) [OF assms(1)] list_all_nth [of _ "k_table k" i]
    by (auto simp: k_pids_def kernel_wf_def intro!: list_all_update)
qed

lemma k_pids_refresh:
  assumes "k_pids k"
  shows "k_pids (refresh_entries_locked stk probe k)"
proof -
  have used: "proc_used (refresh_entry stk probe p) \<Longrightarrow> proc_used p" for p
    by (auto simp: refresh_entry_def proc_used_def)
  have "tab_uniq proc_used p_pid (map (refresh_entry stk probe) (k_table k))"
    unfolding tab_uniq_def
  proof (intro allI impI)
    fix i j
    assume "i < length (map (refresh_entry stk probe) (k_table k))"
      "j < length (map (refresh_entry stk probe) (k_table k))"
      "proc_used (map (refresh_entry stk probe) (k_table k) ! i) \<and>
       proc_used (map (refresh_entry stk probe) (k_table k) ! j) \<and>
       p_pid (map (refresh_entry stk probe) (k_table k) ! i) =
       p_pid (map (refresh_entry stk probe) (k_table k) ! j)"
    then show "i = j" using used by (auto intro: tab_uniqD [OF k_pidsD(3) [OF assms]])
  qed
  then show ?thesis
    using assms used by (auto simp: k_pids_def kernel_wf_def refresh_entries_locked_def list_all_iff)
qed

primrec creates :: "k_op \<Rightarrow> nat" where
  "creates (KInit lk now) = 0"
| "creates (KCreate stk tick task name func arg stack prio sys) = 1"
| "creates (KSignal pid sig) = 0"
| "creates (KList stk probe buf n) = 0"

lemma create_next_pid:
  "k_next_pid (fst (snd (os_process_create stk tick task name func arg stack prio sys k))) = k_next_pid k \<and>
   fst (snd (os_process_create stk tick task name func arg stack prio sys k)) = k \<or>
   k_next_pid (fst (snd (os_process_create stk tick task name func arg stack prio sys k))) = k_next_pid k + 1"
  by (auto simp: os_process_create_def Let_def split: option.splits)

lemma k_pids_create:
  assumes "k_pids k" and "unat (k_next_pid k) < 65535"
  shows "k_pids (fst (snd (os_process_create stk tick task name func arg stack prio sys k)))"
proof -
  have fits: "length (cstr OS_PROC_NAME_LEN n) < OS_PROC_NAME_LEN" for n
    by (rule cstr_fits) (simp add: OS_PROC_NAME_LEN_def)
  show ?thesis
    using assms(1)
    by (auto simp: os_process_create_def Let_def simp del: length_cstr split: option.splits
        intro!: k_pids_fill [OF assms] fits)
qed

lemma k_pids_signal:
  assumes "k_pids k"
  shows "k_pids (fst (snd (os_process_signal pid sig k)))"
proof (cases "find_by_pid_locked pid k")
  case None
  with assms show ?thesis by (simp add: os_process_signal_def)
next
  case (Some i)
  then have i: "i < length (k_table k)" "proc_used (k_table k ! i)"
    by (auto simp: find_by_pid_locked_def dest: tab_findD)
  with Some assms show ?thesis
    by (auto simp: os_process_signal_def Let_def split: os_signal.split intro!: k_pids_same [OF assms i(1)])
qed

lemma k_pids_step:
  assumes "k_pids k" and "unat (k_next_pid k) + creates x \<le> 65535"
  shows "k_pids (fst (k_exec x k))" and "unat (k_next_pid (fst (k_exec x k))) \<le> unat (k_next_pid k) + creates x"
proof -
  have inc: "unat (k_next_pid k) < 65535 \<Longrightarrow> unat (k_next_pid k + 1) = Suc (unat (k_next_pid k))"
    by (rule word_inc)
  show "k_pids (fst (k_exec x k))"
    using assms k_pidsD(1) [OF assms(1)]
    by (cases x) (auto simp: os_kernel_init_def os_process_list_def Let_def
        intro: k_pids_create k_pids_signal k_pids_refresh)
  show "unat (k_next_pid (fst (k_exec x k))) \<le> unat (k_next_pid k) + creates x"
  proof (cases x)
    case (KCreate stk tick task name func arg stack prio sys)
    with assms(2) inc create_next_pid [of stk tick task name func arg stack prio sys k] show ?thesis by auto
  qed (use k_pidsD(1) [OF assms(1)] in \<open>auto simp: os_kernel_init_def os_process_signal_def
        os_process_list_def refresh_entries_locked_def Let_def split: option.splits os_signal.splits\<close>)
qed

text \<open>Claim C16: as long as fewer than 65535 processes are created after start-up, the ids in the table
  are distinct, never 0, and below the next id, whatever the calls are: a process id names one process.\<close>

theorem kernel_pids_unique:
  assumes "k_pids k" and "unat (k_next_pid k) + sum_list (map creates ops) \<le> 65535"
  shows "k_pids (run (\<lambda>x k. fst (k_exec x k)) ops k)"
  using assms
proof (induction ops arbitrary: k)
  case Nil
  then show ?case by simp
next
  case (Cons x ops)
  with k_pids_step [of k x] show ?case by (auto intro: Cons.IH)
qed

definition k_started :: kernel where
  "k_started = fst (snd (os_kernel_init (Some 1) 0 kernel_boot))"

lemma k_started_eq:
  "k_started = \<lparr>k_table = replicate OS_MAX_PROCESSES (proc_zero\<lparr>p_state := PROC_STATE_INVALID\<rparr>), k_count = 0,
     k_next_pid = 1, k_lock = Some 1, k_initialised = True, k_boot_us = 0\<rparr>"
  by (simp add: k_started_def os_kernel_init_def kernel_boot_def)

lemma k_started_pids: "k_pids k_started"
  by (auto simp: k_pids_def k_started_eq kernel_wf_def proc_zero_def proc_used_def OS_PROC_NAME_LEN_def
      list_all_iff intro: tab_uniq_replicate)

theorem kernel_pids_unique_witness:
  "k_pids (run (\<lambda>x k. fst (k_exec x k))
     [KCreate 1 0 (Some 5) (Some ''a'') (Some 9) 0 2048 0 False, KSignal 1 OS_SIG_KILL] k_started)"
  by (rule kernel_pids_unique [OF k_started_pids]) (simp add: k_started_eq)

text \<open>Claim C17: creating a process in a kernel with a free slot returns a new non-zero id under which
  the process is found, with its name cut to 23 characters, a stack below 1024 replaced by 4096 and priority 0
  by 5, in state ready with the task's handle; every live process is still found as it was, and the live count
  grows by one.\<close>

theorem os_process_create_get:
  assumes "k_pids k" and "unat (k_next_pid k) < 65535" and "k_find_slot k = Some i"
    and "os_process_create stk tick (Some h) name (Some f) arg stack prio sys k = (pid, k', tr)"
  shows "pid \<noteq> 0 \<and>
    fst (snd (os_process_get pid True k')) = Some
      \<lparr>p_pid = pid, p_name = cstr OS_PROC_NAME_LEN (case name of None \<Rightarrow> ''unnamed'' | Some n \<Rightarrow> n),
       p_handle = Some h, p_state = PROC_STATE_READY,
       p_priority = (if prio \<noteq> 0 then prio else OS_DEFAULT_PRIORITY),
       p_stack_size = (if stack < 1024 then OS_DEFAULT_STACK_SIZE else stack), p_stack_high_water = 0,
       p_runtime_ticks = 0, p_created_at = tick, p_is_system = sys\<rparr> \<and>
    (\<forall>q p. fst (snd (os_process_get q True k)) = Some p \<and> proc_live p \<longrightarrow>
       fst (snd (os_process_get q True k')) = Some p) \<and>
    count_if proc_live (k_table k') = Suc (count_if proc_live (k_table k))"
proof -
  define p where "p = \<lparr>p_pid = k_next_pid k,
    p_name = cstr OS_PROC_NAME_LEN (case name of None \<Rightarrow> ''unnamed'' | Some n \<Rightarrow> n),
    p_handle = Some h, p_state = PROC_STATE_READY,
    p_priority = (if prio \<noteq> 0 then prio else OS_DEFAULT_PRIORITY),
    p_stack_size = (if stack < 1024 then OS_DEFAULT_STACK_SIZE else stack), p_stack_high_water = 0,
    p_runtime_ticks = 0, p_created_at = tick, p_is_system = sys\<rparr>"
  have p: "proc_used p" "proc_live p" "p_pid p = k_next_pid k"
    by (simp_all add: p_def proc_used_def proc_live_def)
  have i: "i < length (k_table k)" "\<not> proc_live (k_table k ! i)"
    using tab_freeD [OF assms(3) [unfolded k_find_slot_def]] by simp_all
  note [simp] = k_pidsD(1) [OF assms(1)]
  have k': "pid = k_next_pid k" "k_table k' = (k_table k)[i := p]" "k_initialised k'"
    using assms(3,4) by (auto simp: os_process_create_def Let_def p_def proc_zero_def)
  have none: "tab_find proc_used p_pid (p_pid p) (k_table k) = None"
    using k_next_unused [OF assms(1)] p(3) by simp
  have "find_by_pid_locked pid k' = Some i"
    using k_tab.find_fill [OF k_pidsD(3) [OF assms(1)], of p i] none i(1) p k'
    by (simp add: find_by_pid_locked_def)
  then have get: "fst (snd (os_process_get pid True k')) = Some p"
    using k' i by (simp add: os_process_get_def)
  have other: "fst (snd (os_process_get q True k')) = Some x"
    if "fst (snd (os_process_get q True k)) = Some x" "proc_live x" for q x
  proof -
    from that obtain j where j: "find_by_pid_locked q k = Some j" "k_table k ! j = x"
      by (auto simp: os_process_get_def split: option.splits)
    then have jt: "j < length (k_table k)" "proc_used (k_table k ! j)" "p_pid (k_table k ! j) = q"
      by (auto simp: find_by_pid_locked_def dest: tab_findD)
    have "j \<noteq> i" using i(2) j(2) that(2) by auto
    have "q \<noteq> p_pid p" using none j(1) by (auto simp: find_by_pid_locked_def)
    moreover have "\<not> proc_used (k_table k ! i) \<or> p_pid (k_table k ! i) \<noteq> q"
      using \<open>j \<noteq> i\<close> jt i(1) tab_uniqD [OF k_pidsD(3) [OF assms(1)], of i j] by auto
    ultimately have "find_by_pid_locked q k' = Some j"
      using j(1) k'(2) k_tab.find_other [of q p "k_table k" i] by (simp add: find_by_pid_locked_def)
    with k' j \<open>j \<noteq> i\<close> show ?thesis by (simp add: os_process_get_def)
  qed
  have "count_if proc_live (k_table k') = Suc (count_if proc_live (k_table k))"
    using k_live.count_fill [of "k_table k" i p] assms(3) p k' by (simp add: k_find_slot_def)
  moreover have "pid \<noteq> 0" using k_pidsD(4) [OF assms(1)] k'(1) by auto
  ultimately show ?thesis using get other k'(1) unfolding p_def by blast
qed

theorem os_process_create_get_witness:
  "map_option p_name (fst (snd (os_process_get 1 True
     (fst (snd (os_process_create 1 0 (Some 5) (Some ''logger'') (Some 9) 0 100 0 False k_started)))))) =
   Some ''logger''"
proof -
  have slot: "k_find_slot k_started = Some 0" and pid: "fst (os_process_create 1 0 (Some 5) (Some ''logger'') (Some 9) 0 100 0 False k_started) = 1"
    by code_simp+
  obtain k' tr where c: "os_process_create 1 0 (Some 5) (Some ''logger'') (Some 9) 0 100 0 False k_started = (1, k', tr)"
    using pid by (metis prod.collapse)
  have "unat (k_next_pid k_started) < 65535" by (simp add: k_started_eq)
  from os_process_create_get [OF k_started_pids this slot c] show ?thesis
    by (simp add: c OS_PROC_NAME_LEN_def)
qed

section \<open>The live count\<close>

definition k_count_ok :: "kernel \<Rightarrow> bool" where
  "k_count_ok k \<longleftrightarrow> unat (k_count k) = count_if proc_live (k_table k) \<and> length (k_table k) = OS_MAX_PROCESSES"

text \<open>
  Calls that keep the count: any creation, signals to live processes (or to ids that name
  none, or with an unknown signal), and listings in which FreeRTOS reports no task deleted.
\<close>

definition k_count_safe :: "k_op \<Rightarrow> kernel \<Rightarrow> bool" where
  "k_count_safe x k \<longleftrightarrow>
     (case x of
        KInit lk now \<Rightarrow> k_initialised k \<or> lk \<noteq> None
      | KCreate _ _ _ _ _ _ _ _ _ \<Rightarrow> True
      | KSignal pid sig \<Rightarrow>
          (case find_by_pid_locked pid k of None \<Rightarrow> True | Some i \<Rightarrow> proc_live (k_table k ! i))
      | KList stk probe buf n \<Rightarrow> (\<forall>p \<in> set (k_table k). \<forall>h. p_handle p = Some h \<longrightarrow>
          fst (probe h) \<noteq> EDeleted \<and> fst (probe h) \<noteq> EInvalid))"

lemma live_refresh:
  assumes "\<forall>h. p_handle p = Some h \<longrightarrow> fst (probe h) \<noteq> EDeleted \<and> fst (probe h) \<noteq> EInvalid"
  shows "proc_live (refresh_entry stk probe p) = proc_live p"
proof (cases "p_handle p")
  case None
  then show ?thesis by (simp add: refresh_entry_def)
next
  case (Some h)
  with assms show ?thesis
    by (cases "fst (probe h)") (auto simp: refresh_entry_def proc_live_def split_beta)
qed

lemma count_if_map_same: "(\<And>p. p \<in> set ps \<Longrightarrow> P (f p) = P p) \<Longrightarrow> count_if P (map f ps) = count_if P ps"
  by (induction ps) simp_all

lemma k_count_bound: "k_count_ok k \<Longrightarrow> unat (k_count k) \<le> OS_MAX_PROCESSES"
  using count_if_le [of proc_live "k_table k"] by (simp add: k_count_ok_def)

lemma k_count_create:
  assumes "k_count_ok k"
  shows "k_count_ok (fst (snd (os_process_create stk tick task name func arg stack prio sys k)))"
proof (cases "k_find_slot k")
  case None
  with assms show ?thesis by (auto simp: os_process_create_def Let_def split: option.split)
next
  case (Some i)
  then have i: "tab_free proc_live (k_table k) = Some i" by (simp add: k_find_slot_def)
  have dead: "count_if proc_live ((k_table k)[i := p]) = count_if proc_live (k_table k)" if "\<not> proc_live p" for p
    using count_if_update [of i "k_table k" proc_live p] tab_freeD [OF i] that by simp
  have live: "count_if proc_live ((k_table k)[i := p]) = Suc (count_if proc_live (k_table k))" if "proc_live p" for p
    by (rule k_live.count_fill [OF i that])
  have "unat (k_count k + 1) = Suc (unat (k_count k))"
    using k_count_bound [OF assms] by (intro word_inc) (simp add: OS_MAX_PROCESSES_def)
  with Some assms show ?thesis
    by (auto simp: os_process_create_def Let_def k_count_ok_def dead live proc_live_def split: option.split)
qed

lemma unat_dec: "0 < (w :: 16 word) \<Longrightarrow> unat (w - 1) = unat w - 1"
  by (simp add: unat_minus_one word_neq_0_conv)

lemma k_count_signal:
  assumes "k_count_ok k" and "k_count_safe (KSignal pid sig) k"
  shows "k_count_ok (fst (snd (os_process_signal pid sig k)))"
proof (cases "find_by_pid_locked pid k")
  case None
  with assms show ?thesis by (simp add: os_process_signal_def)
next
  case (Some i)
  then have i: "i < length (k_table k)" and live: "proc_live (k_table k ! i)"
    using assms(2) by (auto simp: k_count_safe_def dest: k_find_bounds)
  have pos: "0 < count_if proc_live (k_table k)" using i live by (rule count_if_pos)
  then have "0 < k_count k" using assms(1) by (simp add: k_count_ok_def word_less_nat_alt)
  then have dec: "unat (k_count k - 1) = count_if proc_live (k_table k) - 1"
    using assms(1) by (simp add: unat_dec k_count_ok_def)
  have upd: "count_if proc_live ((k_table k)[i := p]) = count_if proc_live (k_table k) - (if proc_live p then 0 else 1)"
    for p using count_if_update [OF i, of proc_live p] live by auto
  show ?thesis
    using Some assms(1) dec upd pos \<open>0 < k_count k\<close>
    by (auto simp: os_process_signal_def Let_def k_count_ok_def proc_live_def split: os_signal.split)
qed

primrec k_all_safe :: "k_op list \<Rightarrow> kernel \<Rightarrow> bool" where
  "k_all_safe [] k \<longleftrightarrow> True"
| "k_all_safe (x # xs) k \<longleftrightarrow> k_count_safe x k \<and> k_all_safe xs (fst (k_exec x k))"

lemma k_count_step: "k_count_ok k \<Longrightarrow> k_count_safe x k \<Longrightarrow> k_count_ok (fst (k_exec x k))"
proof (cases x)
  case (KInit lk now)
  assume "k_count_ok k" "k_count_safe x k"
  with KInit show ?thesis
    by (auto simp: os_kernel_init_def Let_def k_count_safe_def k_count_ok_def proc_live_def count_if_def
        split: option.split)
next
  case (KList stk probe buf n)
  assume "k_count_ok k" "k_count_safe x k"
  moreover from this KList have "count_if proc_live (map (refresh_entry stk probe) (k_table k)) =
      count_if proc_live (k_table k)"
    by (intro count_if_map_same live_refresh) (auto simp: k_count_safe_def)
  ultimately show ?thesis
    using KList by (auto simp: os_process_list_def Let_def k_count_ok_def refresh_entries_locked_def)
qed (auto intro: k_count_create k_count_signal)

text \<open>The process count of the statistics is the number of live table entries after any
  sequence of creations, signals to live processes and listings without dead tasks.\<close>

theorem kernel_count_live:
  assumes "k_count_ok k" and "k_all_safe ops k"
  shows "unat (ks_process_count (os_kernel_get_stats a b c d now (run (\<lambda>x k. fst (k_exec x k)) ops k)))
    = count_if proc_live (k_table (run (\<lambda>x k. fst (k_exec x k)) ops k))"
proof -
  have "k_count_ok (run (\<lambda>x k. fst (k_exec x k)) ops k)"
    using assms by (induction ops arbitrary: k) (auto intro: k_count_step)
  then show ?thesis by (simp add: k_count_ok_def os_kernel_get_stats_def)
qed

theorem kernel_count_live_witness:
  "unat (ks_process_count (os_kernel_get_stats 0 0 0 0 0 (run (\<lambda>x k. fst (k_exec x k))
     [KCreate 1 0 (Some 5) (Some ''a'') (Some 9) 0 2048 0 False, KSignal 1 OS_SIG_KILL] k_started)))
    = count_if proc_live (k_table (run (\<lambda>x k. fst (k_exec x k))
     [KCreate 1 0 (Some 5) (Some ''a'') (Some 9) 0 2048 0 False, KSignal 1 OS_SIG_KILL] k_started))"
proof (rule kernel_count_live)
  show "k_count_ok k_started"
    by (simp add: k_count_ok_def k_started_eq count_if_def proc_live_def)
  have "case find_by_pid_locked 1 (fst (snd (os_process_create 1 0 (Some 5) (Some ''a'') (Some 9) 0 2048 0 False k_started))) of
      None \<Rightarrow> True | Some i \<Rightarrow> proc_live (k_table (fst (snd (os_process_create 1 0 (Some 5) (Some ''a'') (Some 9) 0 2048 0 False k_started))) ! i)"
    by code_simp
  then show "k_all_safe [KCreate 1 0 (Some 5) (Some ''a'') (Some 9) 0 2048 0 False, KSignal 1 OS_SIG_KILL] k_started"
    by (simp add: k_count_safe_def)
qed

text \<open>A killed process can be signalled again: resuming it makes its slot live without a task,
  so the slot is not free any more and the count is one below the live entries.\<close>

theorem kill_resume_leaks_slot:
  assumes "k_count_ok k" and "k_initialised k" and "find_by_pid_locked pid k = Some i"
    and "proc_live (k_table k ! i)"
    and "k1 = fst (snd (os_process_kill pid k))" and "k2 = fst (snd (os_process_resume pid k1))"
  shows "p_handle (k_table k2 ! i) = None \<and> p_state (k_table k2 ! i) = PROC_STATE_READY \<and>
    k_find_slot k2 \<noteq> Some i \<and> unat (k_count k2) + 1 = count_if proc_live (k_table k2)"
proof -
  let ?p = "(k_table k ! i)\<lparr>p_handle := None, p_state := PROC_STATE_DELETED\<rparr>"
  have i: "i < length (k_table k)" "p_pid (k_table k ! i) = pid"
    using assms(3) by (auto simp: find_by_pid_locked_def dest: tab_findD)
  have first: "j < i \<Longrightarrow> \<not> (proc_used (k_table k ! j) \<and> p_pid (k_table k ! j) = pid)" for j
    using find_idx_SomeD assms(3) by (fastforce simp: find_by_pid_locked_def tab_find_def)
  have pos: "0 < count_if proc_live (k_table k)" using i(1) assms(4) by (rule count_if_pos)
  then have cnt: "0 < k_count k" using assms(1) by (simp add: k_count_ok_def word_less_nat_alt)
  have k1: "k_table k1 = (k_table k)[i := ?p]" "k_count k1 = k_count k - 1" "k_initialised k1"
    using assms(2,3,5) cnt by (simp_all add: os_process_kill_def os_process_signal_def Let_def)
  have "find_by_pid_locked pid k1 = Some i"
    unfolding find_by_pid_locked_def tab_find_def k1
    using i first by (intro find_idx_SomeI) (simp_all add: proc_used_def nth_list_update)
  then have k2: "k_table k2 = (k_table k)[i := ?p\<lparr>p_state := PROC_STATE_READY\<rparr>]" "k_count k2 = k_count k - 1"
    using assms(6) k1 i by (simp_all add: os_process_resume_def os_process_signal_def Let_def)
  have "k_find_slot k2 \<noteq> Some i"
    using i by (auto simp: k_find_slot_def k2 proc_live_def dest!: tab_freeD(2))
  moreover have "count_if proc_live (k_table k2) = count_if proc_live (k_table k)"
    using count_if_update [OF i(1), of proc_live "?p\<lparr>p_state := PROC_STATE_READY\<rparr>"] assms(4)
    by (simp add: k2 proc_live_def)
  moreover have "unat (k_count k2) + 1 = count_if proc_live (k_table k)"
    using assms(1) cnt pos by (simp add: k2 unat_dec k_count_ok_def)
  ultimately show ?thesis using i by (simp add: k2)
qed

definition k_one :: kernel where
  "k_one = fst (k_exec (KCreate 1 0 (Some 5) (Some ''a'') (Some 9) 0 2048 0 False) k_started)"

definition k_leaked :: kernel where
  "k_leaked = fst (snd (os_process_resume 1 (fst (snd (os_process_kill 1 k_one)))))"

theorem kill_resume_leaks_slot_witness:
  "unat (k_count k_leaked) = 0 \<and> count_if proc_live (k_table k_leaked) = 1"
proof -
  have "k_count_ok k_one" "k_initialised k_one" "find_by_pid_locked 1 k_one = Some 0"
    "proc_live (k_table k_one ! 0)"
    by code_simp+
  from kill_resume_leaks_slot [OF this refl refl]
  have "unat (k_count k_leaked) + 1 = count_if proc_live (k_table k_leaked)"
    by (simp add: k_leaked_def)
  moreover have "unat (k_count k_leaked) = 0" by code_simp
  ultimately show ?thesis by simp
qed

section \<open>Listings\<close>

lemma list_loop_filter:
  "length buf \<le> m \<Longrightarrow> list_loop m ps buf = take m (buf @ filter proc_used ps)"
  by (induction m ps buf rule: list_loop.induct) (auto simp: proc_used_def take_Cons')

text \<open>A listing returns the first \<open>max_count\<close> entries of the refreshed table that are not
  invalid, in table order (killed processes included until their slot is used again), and nothing when the
  kernel is not initialised, the buffer is NULL or the count is not positive.\<close>

theorem os_process_list_spec:
  "fst (os_process_list stk probe buf max_count k) =
    (if k_initialised k \<and> buf
     then take (nat max_count) (filter proc_used (map (refresh_entry stk probe) (k_table k)))
     else [])"
  by (auto simp: os_process_list_def Let_def list_loop_filter refresh_entries_locked_def)

text \<open>Ids wrap: once 65535 ids have been given out, creating a process returns 0, the value
  for failure, although its task runs and its entry is live.\<close>

theorem os_process_create_wraps:
  assumes "k_initialised k" and "k_next_pid k = 0" and "k_find_slot k = Some i"
    and "os_process_create stk tick (Some h) name (Some f) arg stack prio sys k = (pid, k', tr)"
  shows "pid = 0 \<and> p_handle (k_table k' ! i) = Some h \<and>
    count_if proc_live (k_table k') = Suc (count_if proc_live (k_table k))"
proof -
  have i: "i < length (k_table k)" using tab_freeD [OF assms(3) [unfolded k_find_slot_def]] by simp
  obtain p where p: "k_table k' = (k_table k)[i := p]" "proc_live p" "p_handle p = Some h" "pid = 0"
    using assms by (auto simp: os_process_create_def Let_def proc_live_def)
  with i k_live.count_fill [of "k_table k" i p] assms(3) show ?thesis by (simp add: k_find_slot_def)
qed

theorem os_process_create_wraps_witness:
  "fst (os_process_create 1 0 (Some 5) (Some ''a'') (Some 9) 0 2048 0 False (k_started\<lparr>k_next_pid := 0\<rparr>)) = 0"
proof -
  let ?k = "k_started\<lparr>k_next_pid := 0\<rparr>"
  obtain pid k' tr where c: "os_process_create 1 0 (Some 5) (Some ''a'') (Some 9) 0 2048 0 False ?k = (pid, k', tr)"
    by (metis prod.collapse)
  have "k_find_slot ?k = Some 0" by code_simp
  moreover have "k_initialised ?k" "k_next_pid ?k = 0" by (simp_all add: k_started_eq)
  ultimately have "pid = 0" using os_process_create_wraps [OF _ _ _ c] by blast
  with c show ?thesis by simp
qed

section \<open>The platform's readings together\<close>

text \<open>What the kernel reads from the platform when it is asked.\<close>

record readings =
  rd_free :: "32 word"
  rd_min_free :: "32 word"
  rd_total :: "32 word"
  rd_largest :: "32 word"
  rd_now :: "64 word"
  rd_stack_unit :: "32 word"
  rd_probe :: probe

definition stats_at :: "readings \<Rightarrow> kernel \<Rightarrow> kernel_stats" where
  "stats_at r = os_kernel_get_stats (rd_free r) (rd_min_free r) (rd_total r) (rd_largest r) (rd_now r)"

definition list_at :: "readings \<Rightarrow> kernel \<Rightarrow> process list \<times> kernel \<times> kernel_call eff list" where
  "list_at r = os_process_list (rd_stack_unit r) (rd_probe r) True (int OS_MAX_PROCESSES)"

end
