(* ===== verification/Ipc.thy ===== *)
theory Ipc
  imports SlotTable
begin

text \<open>
  Inter-process communication, \<^verbatim>\<open>src/components/os_ipc/src/os_ipc.c\<close>: three tables of named
  objects under one mutex, over FreeRTOS queues and event groups and heap memory.

  A handle is a pointer to an entry of a static table, here the index of the entry (\<open>None\<close> is
  NULL).  What FreeRTOS and the heap return (a new queue, event group or block, or NULL; the
  outcome of a send, receive or wait) is an argument; \<open>ms\<close> is \<^verbatim>\<open>pdMS_TO_TICKS\<close>.
\<close>

section \<open>State\<close>

definition OS_IPC_MAX_QUEUES :: nat where "OS_IPC_MAX_QUEUES = 8"
definition OS_IPC_MAX_EVENT_GROUPS :: nat where "OS_IPC_MAX_EVENT_GROUPS = 8"
definition OS_IPC_MAX_SHM :: nat where "OS_IPC_MAX_SHM = 4"
definition OS_IPC_NAME_LEN :: nat where "OS_IPC_NAME_LEN = 16"
definition OS_IPC_QUEUE_DEFAULT_SIZE :: "8 word" where "OS_IPC_QUEUE_DEFAULT_SIZE = 10"
definition OS_IPC_MAX_MSG_SIZE :: nat where "OS_IPC_MAX_MSG_SIZE = 256"
definition OS_IPC_MAX_SHM_SIZE :: nat where "OS_IPC_MAX_SHM_SIZE = 4096"

lemmas ipc_consts = OS_IPC_MAX_QUEUES_def OS_IPC_MAX_EVENT_GROUPS_def OS_IPC_MAX_SHM_def
  OS_IPC_NAME_LEN_def OS_IPC_QUEUE_DEFAULT_SIZE_def OS_IPC_MAX_MSG_SIZE_def OS_IPC_MAX_SHM_SIZE_def

record msgq =
  q_name :: string
  q_handle :: "nat option"
  q_msg_size :: nat
  q_max_msgs :: "8 word"
  q_active :: bool

record event =
  ev_name :: string
  ev_handle :: "nat option"
  ev_active :: bool

record shm =
  sh_name :: string
  sh_buffer :: "nat option"
  sh_size :: nat
  sh_active :: bool

record ipc =
  i_queues :: "msgq list"
  i_events :: "event list"
  i_shm :: "shm list"
  i_mutex :: "nat option"
  i_initialized :: bool

definition q_zero :: msgq where
  "q_zero = \<lparr>q_name = [], q_handle = None, q_msg_size = 0, q_max_msgs = 0, q_active = False\<rparr>"

definition ev_zero :: event where
  "ev_zero = \<lparr>ev_name = [], ev_handle = None, ev_active = False\<rparr>"

definition sh_zero :: shm where
  "sh_zero = \<lparr>sh_name = [], sh_buffer = None, sh_size = 0, sh_active = False\<rparr>"

definition ipc_boot :: ipc where
  "ipc_boot = \<lparr>i_queues = replicate OS_IPC_MAX_QUEUES q_zero,
     i_events = replicate OS_IPC_MAX_EVENT_GROUPS ev_zero,
     i_shm = replicate OS_IPC_MAX_SHM sh_zero, i_mutex = None, i_initialized = False\<rparr>"

datatype ipc_call =
    IMutexCreate | IMutexDelete
  | QueueCreate "8 word" nat | QueueDelete "nat option"
  | QueueSend "nat option" nat "32 word" | QueueReceive "nat option" "32 word"
  | EventCreate | EventDelete "nat option"
  | EventSet "nat option" "32 word" | EventClear "nat option" "32 word"
  | EventWait "nat option" "32 word" bool bool "32 word"
  | Calloc nat | Free "nat option"

section \<open>Helpers\<close>

definition find_free_queue_slot :: "ipc \<Rightarrow> nat option" where
  "find_free_queue_slot s = tab_free q_active (i_queues s)"

definition find_free_event_slot :: "ipc \<Rightarrow> nat option" where
  "find_free_event_slot s = tab_free ev_active (i_events s)"

definition find_free_shm_slot :: "ipc \<Rightarrow> nat option" where
  "find_free_shm_slot s = tab_free sh_active (i_shm s)"

definition is_valid_queue :: "nat option \<Rightarrow> ipc \<Rightarrow> bool" where
  "is_valid_queue q s \<longleftrightarrow>
     (case q of None \<Rightarrow> False | Some i \<Rightarrow> i < length (i_queues s) \<and> q_active (i_queues s ! i))"

definition is_valid_event :: "nat option \<Rightarrow> ipc \<Rightarrow> bool" where
  "is_valid_event ev s \<longleftrightarrow>
     (case ev of None \<Rightarrow> False | Some i \<Rightarrow> i < length (i_events s) \<and> ev_active (i_events s ! i))"

definition is_valid_shm :: "nat option \<Rightarrow> ipc \<Rightarrow> bool" where
  "is_valid_shm h s \<longleftrightarrow>
     (case h of None \<Rightarrow> False | Some i \<Rightarrow> i < length (i_shm s) \<and> sh_active (i_shm s ! i))"

definition portMAX_DELAY :: "32 word" where
  "portMAX_DELAY = 0xFFFFFFFF"

definition ipc_ticks :: "(32 word \<Rightarrow> 32 word) \<Rightarrow> 32 word \<Rightarrow> 32 word" where
  "ipc_ticks ms timeout_ms = (if timeout_ms = portMAX_DELAY then portMAX_DELAY else ms timeout_ms)"

section \<open>Starting and stopping\<close>

definition os_ipc_init :: "nat option \<Rightarrow> ipc \<Rightarrow> esp_err \<times> ipc \<times> ipc_call eff list" where
  "os_ipc_init lk s =
     (if i_initialized s then (ESP_OK, s, [])
      else
        case lk of
          None \<Rightarrow> (ESP_ERR_NO_MEM, s\<lparr>i_mutex := None\<rparr>,
                   [Ext IMutexCreate, Log OS_LOG_ERROR ''Failed to create IPC mutex''])
        | Some l \<Rightarrow>
            (ESP_OK,
             s\<lparr>i_mutex := Some l, i_queues := replicate OS_IPC_MAX_QUEUES q_zero,
               i_events := replicate OS_IPC_MAX_EVENT_GROUPS ev_zero,
               i_shm := replicate OS_IPC_MAX_SHM sh_zero, i_initialized := True\<rparr>,
             [Ext IMutexCreate, Log OS_LOG_INFO ''IPC initialized: %d queues, %d events, %d shm'']))"

definition deinit_queue :: "msgq \<Rightarrow> msgq \<times> ipc_call eff list" where
  "deinit_queue q =
     (if q_active q \<and> q_handle q \<noteq> None then (q\<lparr>q_active := False\<rparr>, [Ext (QueueDelete (q_handle q))])
      else (q, []))"

definition deinit_event :: "event \<Rightarrow> event \<times> ipc_call eff list" where
  "deinit_event e =
     (if ev_active e \<and> ev_handle e \<noteq> None then (e\<lparr>ev_active := False\<rparr>, [Ext (EventDelete (ev_handle e))])
      else (e, []))"

definition deinit_shm :: "shm \<Rightarrow> shm \<times> ipc_call eff list" where
  "deinit_shm h = (h\<lparr>sh_buffer := None, sh_size := 0, sh_active := False\<rparr>, [Ext (Free (sh_buffer h))])"

definition os_ipc_deinit :: "ipc \<Rightarrow> ipc \<times> ipc_call eff list" where
  "os_ipc_deinit s =
     (if \<not> i_initialized s then (s, [])
      else
        let qs = map deinit_queue (i_queues s);
            evs = map deinit_event (i_events s);
            shs = map deinit_shm (i_shm s)
        in (s\<lparr>i_initialized := False, i_queues := map fst qs, i_events := map fst evs,
              i_shm := map fst shs, i_mutex := None\<rparr>,
            [Take] @ concat (map snd qs) @ concat (map snd evs) @ concat (map snd shs) @
            [Give, Ext IMutexDelete, Log OS_LOG_INFO ''IPC deinitialized'']))"

section \<open>Message queues\<close>

text \<open>The duplicate check and the lookup run the same loop.\<close>

definition queue_named :: "string \<Rightarrow> ipc \<Rightarrow> nat option" where
  "queue_named name s = tab_find q_active q_name name (i_queues s)"

definition os_msgq_create ::
  "nat option \<Rightarrow> string option \<Rightarrow> nat \<Rightarrow> 8 word \<Rightarrow> ipc \<Rightarrow> nat option \<times> ipc \<times> ipc_call eff list" where
  "os_msgq_create q name msg_size max_msgs s =
     (case name of
        None \<Rightarrow> (None, s, [Log OS_LOG_ERROR ''Invalid msgq create params''])
      | Some n \<Rightarrow>
          if \<not> i_initialized s \<or> msg_size = 0 \<or> OS_IPC_MAX_MSG_SIZE < msg_size
          then (None, s, [Log OS_LOG_ERROR ''Invalid msgq create params''])
          else
            let mm = (if max_msgs = 0 then OS_IPC_QUEUE_DEFAULT_SIZE else max_msgs) in
            if queue_named n s \<noteq> None
            then (None, s, [Take, Log OS_LOG_WARN ''Queue '%s' already exists'', Give])
            else
              (case find_free_queue_slot s of
                 None \<Rightarrow> (None, s, [Take, Log OS_LOG_ERROR ''No free queue slots'', Give])
               | Some idx \<Rightarrow>
                   (case q of
                      None \<Rightarrow> (None, s, [Take, Ext (QueueCreate mm msg_size),
                                         Log OS_LOG_ERROR ''xQueueCreate failed'', Give])
                    | Some h \<Rightarrow>
                        (Some idx,
                         s\<lparr>i_queues := (i_queues s)[idx :=
                             \<lparr>q_name = cstr OS_IPC_NAME_LEN n, q_handle = Some h, q_msg_size = msg_size,
                              q_max_msgs = mm, q_active = True\<rparr>]\<rparr>,
                         [Take, Ext (QueueCreate mm msg_size), Give,
                          Log OS_LOG_INFO ''Queue '%s' created: size=%u, msg=%zu bytes'']))))"

definition os_msgq_delete :: "nat option \<Rightarrow> ipc \<Rightarrow> esp_err \<times> ipc \<times> ipc_call eff list" where
  "os_msgq_delete q s =
     (if \<not> i_initialized s then (ESP_ERR_INVALID_STATE, s, [])
      else if \<not> is_valid_queue q s then (ESP_ERR_INVALID_ARG, s, [Take, Give])
      else
        let i = the q; e = i_queues s ! i
        in (ESP_OK, s\<lparr>i_queues := (i_queues s)[i := e\<lparr>q_active := False\<rparr>]\<rparr>,
            [Take, Ext (QueueDelete (q_handle e)), Give, Log OS_LOG_INFO ''Queue '%s' deleted'']))"

text \<open>\<open>msg\<close> is the address of the message, \<open>r\<close> whether FreeRTOS returns \<^verbatim>\<open>pdTRUE\<close>.\<close>

definition os_msgq_send ::
  "(32 word \<Rightarrow> 32 word) \<Rightarrow> bool \<Rightarrow> nat option \<Rightarrow> nat option \<Rightarrow> 32 word \<Rightarrow> ipc \<Rightarrow> esp_err \<times> ipc_call eff list" where
  "os_msgq_send ms r q msg timeout_ms s =
     (case msg of
        None \<Rightarrow> (ESP_ERR_INVALID_ARG, [])
      | Some m \<Rightarrow>
          if \<not> is_valid_queue q s then (ESP_ERR_INVALID_ARG, [])
          else (if r then ESP_OK else ESP_ERR_TIMEOUT,
                [Ext (QueueSend (q_handle (i_queues s ! the q)) m (ipc_ticks ms timeout_ms))]))"

definition os_msgq_receive ::
  "(32 word \<Rightarrow> 32 word) \<Rightarrow> bool \<Rightarrow> nat option \<Rightarrow> bool \<Rightarrow> 32 word \<Rightarrow> ipc \<Rightarrow> esp_err \<times> ipc_call eff list" where
  "os_msgq_receive ms r q buf timeout_ms s =
     (if \<not> is_valid_queue q s \<or> \<not> buf then (ESP_ERR_INVALID_ARG, [])
      else (if r then ESP_OK else ESP_ERR_TIMEOUT,
            [Ext (QueueReceive (q_handle (i_queues s ! the q)) (ipc_ticks ms timeout_ms))]))"

text \<open>\<open>waiting\<close>, \<open>spaces\<close> and \<open>full\<close> are what FreeRTOS reports of the queue with a handle.\<close>

definition os_msgq_count :: "(nat option \<Rightarrow> 32 word) \<Rightarrow> nat option \<Rightarrow> ipc \<Rightarrow> 8 word" where
  "os_msgq_count waiting q s =
     (if \<not> is_valid_queue q s then 0 else ucast (waiting (q_handle (i_queues s ! the q))))"

definition os_msgq_spaces_available :: "(nat option \<Rightarrow> 32 word) \<Rightarrow> nat option \<Rightarrow> ipc \<Rightarrow> 8 word" where
  "os_msgq_spaces_available spaces q s =
     (if \<not> is_valid_queue q s then 0 else ucast (spaces (q_handle (i_queues s ! the q))))"

definition os_msgq_is_full :: "(nat option \<Rightarrow> bool) \<Rightarrow> nat option \<Rightarrow> ipc \<Rightarrow> bool" where
  "os_msgq_is_full full q s =
     (if \<not> is_valid_queue q s then False else full (q_handle (i_queues s ! the q)))"

definition os_msgq_find :: "string option \<Rightarrow> ipc \<Rightarrow> nat option \<times> ipc_call eff list" where
  "os_msgq_find name s =
     (case name of
        None \<Rightarrow> (None, [])
      | Some n \<Rightarrow> if \<not> i_initialized s then (None, []) else (queue_named n s, [Take, Give]))"

definition os_msgq_list :: "ipc \<Rightarrow> ipc_call eff list" where
  "os_msgq_list s =
     (if \<not> i_initialized s then []
      else [Take, Log OS_LOG_INFO ''Active message queues:''] @
           map (\<lambda>q. Log OS_LOG_INFO ''  [%d] '%s': %u/%u messages, %zu bytes/msg'')
             (filter q_active (i_queues s)) @ [Give])"

section \<open>Event groups\<close>

definition event_named :: "string \<Rightarrow> ipc \<Rightarrow> nat option" where
  "event_named name s = tab_find ev_active ev_name name (i_events s)"

definition os_event_create ::
  "nat option \<Rightarrow> string option \<Rightarrow> ipc \<Rightarrow> nat option \<times> ipc \<times> ipc_call eff list" where
  "os_event_create eg name s =
     (case name of
        None \<Rightarrow> (None, s, [])
      | Some n \<Rightarrow>
          if \<not> i_initialized s then (None, s, [])
          else if event_named n s \<noteq> None then (None, s, [Take, Give])
          else
            (case find_free_event_slot s of
               None \<Rightarrow> (None, s, [Take, Give])
             | Some idx \<Rightarrow>
                 (case eg of
                    None \<Rightarrow> (None, s, [Take, Ext EventCreate, Give])
                  | Some h \<Rightarrow>
                      (Some idx,
                       s\<lparr>i_events := (i_events s)[idx :=
                           \<lparr>ev_name = cstr OS_IPC_NAME_LEN n, ev_handle = Some h, ev_active = True\<rparr>]\<rparr>,
                       [Take, Ext EventCreate, Give, Log OS_LOG_INFO ''Event group '%s' created'']))))"

definition os_event_delete :: "nat option \<Rightarrow> ipc \<Rightarrow> esp_err \<times> ipc \<times> ipc_call eff list" where
  "os_event_delete ev s =
     (if \<not> i_initialized s then (ESP_ERR_INVALID_STATE, s, [])
      else if \<not> is_valid_event ev s then (ESP_ERR_INVALID_ARG, s, [Take, Give])
      else
        let i = the ev; e = i_events s ! i
        in (ESP_OK, s\<lparr>i_events := (i_events s)[i := e\<lparr>ev_active := False\<rparr>]\<rparr>,
            [Take, Ext (EventDelete (ev_handle e)), Give, Log OS_LOG_INFO ''Event group '%s' deleted'']))"

definition os_event_set :: "nat option \<Rightarrow> 32 word \<Rightarrow> ipc \<Rightarrow> esp_err \<times> ipc_call eff list" where
  "os_event_set ev bits s =
     (if \<not> is_valid_event ev s then (ESP_ERR_INVALID_ARG, [])
      else (ESP_OK, [Ext (EventSet (ev_handle (i_events s ! the ev)) bits)]))"

definition os_event_clear :: "nat option \<Rightarrow> 32 word \<Rightarrow> ipc \<Rightarrow> esp_err \<times> ipc_call eff list" where
  "os_event_clear ev bits s =
     (if \<not> is_valid_event ev s then (ESP_ERR_INVALID_ARG, [])
      else (ESP_OK, [Ext (EventClear (ev_handle (i_events s ! the ev)) bits)]))"

definition os_event_get :: "(nat option \<Rightarrow> 32 word) \<Rightarrow> nat option \<Rightarrow> ipc \<Rightarrow> 32 word" where
  "os_event_get getbits ev s =
     (if \<not> is_valid_event ev s then 0 else getbits (ev_handle (i_events s ! the ev)))"

definition os_event_wait ::
  "(32 word \<Rightarrow> 32 word) \<Rightarrow> 32 word \<Rightarrow> nat option \<Rightarrow> 32 word \<Rightarrow> bool \<Rightarrow> bool \<Rightarrow> 32 word \<Rightarrow> ipc
   \<Rightarrow> 32 word \<times> ipc_call eff list" where
  "os_event_wait ms r ev bits clear_on_exit wait_for_all timeout_ms s =
     (if \<not> is_valid_event ev s \<or> bits = 0 then (0, [])
      else (r, [Ext (EventWait (ev_handle (i_events s ! the ev)) bits clear_on_exit wait_for_all
                       (ipc_ticks ms timeout_ms))]))"

definition os_event_find :: "string option \<Rightarrow> ipc \<Rightarrow> nat option \<times> ipc_call eff list" where
  "os_event_find name s =
     (case name of
        None \<Rightarrow> (None, [])
      | Some n \<Rightarrow> if \<not> i_initialized s then (None, []) else (event_named n s, [Take, Give]))"

definition os_event_list :: "ipc \<Rightarrow> ipc_call eff list" where
  "os_event_list s =
     (if \<not> i_initialized s then []
      else [Take, Log OS_LOG_INFO ''Active event groups:''] @
           map (\<lambda>e. Log OS_LOG_INFO ''  [%d] '%s': bits=0x%08X'') (filter ev_active (i_events s)) @ [Give])"

section \<open>Shared memory\<close>

definition shm_named :: "string \<Rightarrow> ipc \<Rightarrow> nat option" where
  "shm_named name s = tab_find sh_active sh_name name (i_shm s)"

text \<open>\<open>buf\<close> is the block \<^verbatim>\<open>calloc\<close> returns.\<close>

definition os_shm_create ::
  "nat option \<Rightarrow> string option \<Rightarrow> nat \<Rightarrow> ipc \<Rightarrow> nat option \<times> ipc \<times> ipc_call eff list" where
  "os_shm_create buf name size_b s =
     (case name of
        None \<Rightarrow> (None, s, [])
      | Some n \<Rightarrow>
          if \<not> i_initialized s \<or> size_b = 0 \<or> OS_IPC_MAX_SHM_SIZE < size_b then (None, s, [])
          else if shm_named n s \<noteq> None then (None, s, [Take, Give])
          else
            (case find_free_shm_slot s of
               None \<Rightarrow> (None, s, [Take, Give])
             | Some idx \<Rightarrow>
                 (case buf of
                    None \<Rightarrow> (None, s, [Take, Ext (Calloc size_b), Give])
                  | Some b \<Rightarrow>
                      (Some idx,
                       s\<lparr>i_shm := (i_shm s)[idx :=
                           \<lparr>sh_name = cstr OS_IPC_NAME_LEN n, sh_buffer = Some b, sh_size = size_b,
                            sh_active = True\<rparr>]\<rparr>,
                       [Take, Ext (Calloc size_b), Give,
                        Log OS_LOG_INFO ''Shared memory '%s' created: %zu bytes'']))))"

definition os_shm_delete :: "nat option \<Rightarrow> ipc \<Rightarrow> esp_err \<times> ipc \<times> ipc_call eff list" where
  "os_shm_delete h s =
     (if \<not> i_initialized s then (ESP_ERR_INVALID_STATE, s, [])
      else if \<not> is_valid_shm h s then (ESP_ERR_INVALID_ARG, s, [Take, Give])
      else
        let i = the h; e = i_shm s ! i
        in (ESP_OK,
            s\<lparr>i_shm := (i_shm s)[i := e\<lparr>sh_buffer := None, sh_size := 0, sh_active := False\<rparr>]\<rparr>,
            [Take, Ext (Free (sh_buffer e)), Give, Log OS_LOG_INFO ''Shared memory '%s' deleted'']))"

definition os_shm_get_ptr :: "nat option \<Rightarrow> ipc \<Rightarrow> nat option \<times> ipc_call eff list" where
  "os_shm_get_ptr h s =
     (if \<not> i_initialized s \<or> i_mutex s = None then (None, [])
      else (if is_valid_shm h s then sh_buffer (i_shm s ! the h) else None, [Take, Give]))"

definition os_shm_get_size :: "nat option \<Rightarrow> ipc \<Rightarrow> nat \<times> ipc_call eff list" where
  "os_shm_get_size h s =
     (if \<not> i_initialized s \<or> i_mutex s = None then (0, [])
      else (if is_valid_shm h s then sh_size (i_shm s ! the h) else 0, [Take, Give]))"

definition os_shm_find :: "string option \<Rightarrow> ipc \<Rightarrow> nat option \<times> ipc_call eff list" where
  "os_shm_find name s =
     (case name of
        None \<Rightarrow> (None, [])
      | Some n \<Rightarrow> if \<not> i_initialized s then (None, []) else (shm_named n s, [Take, Give]))"

definition os_shm_list :: "ipc \<Rightarrow> ipc_call eff list" where
  "os_shm_list s =
     (if \<not> i_initialized s then []
      else [Take, Log OS_LOG_INFO ''Active shared memory regions:''] @
           map (\<lambda>h. Log OS_LOG_INFO ''  [%d] '%s': %zu bytes'') (filter sh_active (i_shm s)) @ [Give])"

text \<open>The counts of the status line, each an 8-bit counter, and the trace.\<close>

definition os_ipc_print_status :: "ipc \<Rightarrow> (8 word \<times> 8 word \<times> 8 word) option \<times> ipc_call eff list" where
  "os_ipc_print_status s =
     (if \<not> i_initialized s then (None, [Log OS_LOG_INFO ''IPC not initialized''])
      else (Some (of_nat (count_if q_active (i_queues s)), of_nat (count_if ev_active (i_events s)),
                  of_nat (count_if sh_active (i_shm s))),
            [Take, Give, Log OS_LOG_INFO ''IPC Status: %d/%d queues, %d/%d events, %d/%d shm'']))"

section \<open>Invariant\<close>

interpretation ipc_q: slot_table q_active q_name "\<lambda>q. (q_handle q, q_msg_size q, q_max_msgs q)"
  "\<lambda>q. q\<lparr>q_active := False\<rparr>"
  by unfold_locales simp

interpretation ipc_ev: slot_table ev_active ev_name ev_handle "\<lambda>e. e\<lparr>ev_active := False\<rparr>"
  by unfold_locales simp

interpretation ipc_sh: slot_table sh_active sh_name "\<lambda>h. (sh_buffer h, sh_size h)"
  "\<lambda>h. h\<lparr>sh_buffer := None, sh_size := 0, sh_active := False\<rparr>"
  by unfold_locales simp

definition msgq_ok :: "msgq \<Rightarrow> bool" where
  "msgq_ok q \<longleftrightarrow> length (q_name q) < OS_IPC_NAME_LEN \<and>
     (q_active q \<longrightarrow> q_handle q \<noteq> None \<and> 0 < q_msg_size q \<and> q_msg_size q \<le> OS_IPC_MAX_MSG_SIZE \<and> q_max_msgs q \<noteq> 0)"

definition event_ok :: "event \<Rightarrow> bool" where
  "event_ok e \<longleftrightarrow> length (ev_name e) < OS_IPC_NAME_LEN \<and> (ev_active e \<longrightarrow> ev_handle e \<noteq> None)"

text \<open>A shared block has memory exactly while it is active.\<close>

definition shm_ok :: "shm \<Rightarrow> bool" where
  "shm_ok h \<longleftrightarrow> length (sh_name h) < OS_IPC_NAME_LEN \<and> (sh_active h \<longleftrightarrow> sh_buffer h \<noteq> None) \<and>
     (sh_active h \<longrightarrow> 0 < sh_size h \<and> sh_size h \<le> OS_IPC_MAX_SHM_SIZE)"

definition ipc_wf :: "ipc \<Rightarrow> bool" where
  "ipc_wf s \<longleftrightarrow>
     length (i_queues s) = OS_IPC_MAX_QUEUES \<and> list_all msgq_ok (i_queues s) \<and>
     length (i_events s) = OS_IPC_MAX_EVENT_GROUPS \<and> list_all event_ok (i_events s) \<and>
     length (i_shm s) = OS_IPC_MAX_SHM \<and> list_all shm_ok (i_shm s) \<and>
     (i_initialized s \<longleftrightarrow> i_mutex s \<noteq> None)"

definition ipc_unique :: "ipc \<Rightarrow> bool" where
  "ipc_unique s \<longleftrightarrow> tab_uniq q_active q_name (i_queues s) \<and> tab_uniq ev_active ev_name (i_events s) \<and>
     tab_uniq sh_active sh_name (i_shm s)"

datatype ipc_op =
    IpcInit "nat option" | IpcDeinit
  | QCreate "nat option" "string option" nat "8 word" | QDelete "nat option"
  | ECreate "nat option" "string option" | EDelete "nat option"
  | SCreate "nat option" "string option" nat | SDelete "nat option"

primrec ipc_exec :: "ipc_op \<Rightarrow> ipc \<Rightarrow> ipc \<times> ipc_call eff list" where
  "ipc_exec (IpcInit lk) s = snd (os_ipc_init lk s)"
| "ipc_exec IpcDeinit s = os_ipc_deinit s"
| "ipc_exec (QCreate q n sz m) s = snd (os_msgq_create q n sz m s)"
| "ipc_exec (QDelete q) s = snd (os_msgq_delete q s)"
| "ipc_exec (ECreate e n) s = snd (os_event_create e n s)"
| "ipc_exec (EDelete e) s = snd (os_event_delete e s)"
| "ipc_exec (SCreate b n sz) s = snd (os_shm_create b n sz s)"
| "ipc_exec (SDelete h) s = snd (os_shm_delete h s)"

lemmas ipc_op_defs = os_ipc_init_def os_ipc_deinit_def os_msgq_create_def os_msgq_delete_def
  os_event_create_def os_event_delete_def os_shm_create_def os_shm_delete_def

lemma ipc_name_fits: "length (cstr OS_IPC_NAME_LEN n) < OS_IPC_NAME_LEN"
  by (rule cstr_fits) (simp add: ipc_consts)

lemma is_validD:
  "is_valid_queue q s \<Longrightarrow> \<exists>i. q = Some i \<and> i < length (i_queues s) \<and> q_active (i_queues s ! i)"
  "is_valid_event e s \<Longrightarrow> \<exists>i. e = Some i \<and> i < length (i_events s) \<and> ev_active (i_events s ! i)"
  "is_valid_shm h s \<Longrightarrow> \<exists>i. h = Some i \<and> i < length (i_shm s) \<and> sh_active (i_shm s ! i)"
  by (auto simp: is_valid_queue_def is_valid_event_def is_valid_shm_def split: option.splits)

lemma ipc_zero_ok [simp]: "msgq_ok q_zero" "event_ok ev_zero" "shm_ok sh_zero"
  by (simp_all add: msgq_ok_def event_ok_def shm_ok_def q_zero_def ev_zero_def sh_zero_def ipc_consts)

lemma ipc_new_ok:
  "0 < sz \<Longrightarrow> sz \<le> OS_IPC_MAX_MSG_SIZE \<Longrightarrow> m \<noteq> 0 \<Longrightarrow>
    msgq_ok \<lparr>q_name = cstr OS_IPC_NAME_LEN n, q_handle = Some h, q_msg_size = sz, q_max_msgs = m, q_active = True\<rparr>"
  "event_ok \<lparr>ev_name = cstr OS_IPC_NAME_LEN n, ev_handle = Some h, ev_active = True\<rparr>"
  "0 < sz \<Longrightarrow> sz \<le> OS_IPC_MAX_SHM_SIZE \<Longrightarrow>
    shm_ok \<lparr>sh_name = cstr OS_IPC_NAME_LEN n, sh_buffer = Some b, sh_size = sz, sh_active = True\<rparr>"
  using ipc_name_fits by (simp_all add: msgq_ok_def event_ok_def shm_ok_def)

lemma ipc_cleared_ok:
  "msgq_ok q \<Longrightarrow> msgq_ok (q\<lparr>q_active := False\<rparr>)"
  "event_ok e \<Longrightarrow> event_ok (e\<lparr>ev_active := False\<rparr>)"
  "shm_ok h \<Longrightarrow> shm_ok (h\<lparr>sh_buffer := None, sh_size := 0, sh_active := False\<rparr>)"
  by (simp_all add: msgq_ok_def event_ok_def shm_ok_def)

lemma ipc_cleared_at:
  "list_all msgq_ok qs \<Longrightarrow> list_all msgq_ok (qs[i := (qs ! i)\<lparr>q_active := False\<rparr>])"
  "list_all event_ok es \<Longrightarrow> list_all event_ok (es[i := (es ! i)\<lparr>ev_active := False\<rparr>])"
  "list_all shm_ok hs \<Longrightarrow>
    list_all shm_ok (hs[i := (hs ! i)\<lparr>sh_buffer := None, sh_size := 0, sh_active := False\<rparr>])"
  using list_all_update_at [where P = msgq_ok and f = "\<lambda>q. q\<lparr>q_active := False\<rparr>"]
    list_all_update_at [where P = event_ok and f = "\<lambda>e. e\<lparr>ev_active := False\<rparr>"]
    list_all_update_at [where P = shm_ok and f = "\<lambda>h. h\<lparr>sh_buffer := None, sh_size := 0, sh_active := False\<rparr>"]
  by (simp_all add: ipc_cleared_ok)

lemma ipc_deinit_ok:
  "msgq_ok q \<Longrightarrow> msgq_ok (fst (deinit_queue q))"
  "event_ok e \<Longrightarrow> event_ok (fst (deinit_event e))"
  "shm_ok h \<Longrightarrow> shm_ok (fst (deinit_shm h))"
  by (simp_all add: deinit_queue_def deinit_event_def deinit_shm_def ipc_cleared_ok)

lemma ipc_step_wf: "ipc_wf s \<Longrightarrow> ipc_wf (fst (ipc_exec x s))"
proof (cases x)
  case (IpcInit lk)
  assume "ipc_wf s"
  with IpcInit show ?thesis by (auto simp: os_ipc_init_def ipc_wf_def list_all_iff split: option.split)
next
  case IpcDeinit
  assume "ipc_wf s"
  with IpcDeinit show ?thesis
    by (auto simp: os_ipc_deinit_def ipc_wf_def list_all_iff Let_def ipc_deinit_ok)
next
  case (QCreate q n sz m)
  assume "ipc_wf s"
  with QCreate show ?thesis
    by (auto simp: os_msgq_create_def ipc_wf_def Let_def OS_IPC_QUEUE_DEFAULT_SIZE_def split: option.split
        intro!: list_all_update ipc_new_ok)
next
  case (QDelete q)
  assume "ipc_wf s"
  with QDelete show ?thesis
    by (auto simp: os_msgq_delete_def ipc_wf_def Let_def dest!: is_validD
        intro!: ipc_cleared_at)
next
  case (ECreate e n)
  assume "ipc_wf s"
  with ECreate show ?thesis
    by (auto simp: os_event_create_def ipc_wf_def Let_def split: option.split intro!: list_all_update ipc_new_ok)
next
  case (EDelete e)
  assume "ipc_wf s"
  with EDelete show ?thesis
    by (auto simp: os_event_delete_def ipc_wf_def Let_def dest!: is_validD
        intro!: ipc_cleared_at)
next
  case (SCreate b n sz)
  assume "ipc_wf s"
  with SCreate show ?thesis
    by (auto simp: os_shm_create_def ipc_wf_def Let_def split: option.split intro!: list_all_update ipc_new_ok)
next
  case (SDelete h)
  assume "ipc_wf s"
  with SDelete show ?thesis
    by (auto simp: os_shm_delete_def ipc_wf_def Let_def dest!: is_validD
        intro!: ipc_cleared_at)
qed

interpretation ipc_calls: guarded "\<lambda>x s. fst (ipc_exec x s)" "\<lambda>_. True" ipc_wf
  by unfold_locales (rule ipc_step_wf)

lemma ipc_boot_wf: "ipc_wf ipc_boot"
  by (simp add: ipc_wf_def ipc_boot_def list_all_iff)

text \<open>After any sequence of IPC calls from boot the three tables keep their sizes, names fit
  their arrays, an active queue has a FreeRTOS handle, a message size of 1 to 256 bytes and a non-zero length,
  an active event group has a handle, and a shared block has memory (of 1 to 4096 bytes) exactly while it is
  active: nothing is used after it is freed, nothing inactive keeps memory.\<close>

theorem ipc_run_wf: "ipc_wf (run (\<lambda>x s. fst (ipc_exec x s)) ops ipc_boot)"
  by (rule ipc_calls.run_inv) (simp_all add: list_all_iff ipc_boot_wf)

lemma quiet_map_Log [simp]: "quiet (map (\<lambda>x. Log l (f x)) xs)"
  by (auto simp: quiet_def)

lemma ipc_deinit_quiet [simp]:
  "quiet (snd (deinit_queue q))" "quiet (snd (deinit_event e))" "quiet (snd (deinit_shm h))"
  by (simp_all add: deinit_queue_def deinit_event_def deinit_shm_def)

text \<open>Every IPC call, the queries included, follows the mutex discipline on every path.\<close>

theorem ipc_lock_discipline:
  "lock_ok False (snd (ipc_exec x s)) \<and> lock_ok False (snd (os_msgq_find n s)) \<and>
   lock_ok False (snd (os_event_find n s)) \<and> lock_ok False (snd (os_shm_find n s)) \<and>
   lock_ok False (snd (os_shm_get_ptr h s)) \<and> lock_ok False (snd (os_shm_get_size h s)) \<and>
   lock_ok False (os_msgq_list s) \<and> lock_ok False (os_event_list s) \<and> lock_ok False (os_shm_list s) \<and>
   lock_ok False (snd (os_ipc_print_status s))"
proof (intro conjI)
  show "lock_ok False (snd (ipc_exec x s))"
  proof (cases x)
    case IpcDeinit
    then show ?thesis by (simp add: os_ipc_deinit_def Let_def lock_simps)
  qed (auto simp: ipc_op_defs Let_def split: option.split)
  show "lock_ok False (os_msgq_list s)" "lock_ok False (os_event_list s)" "lock_ok False (os_shm_list s)"
    by (simp_all add: os_msgq_list_def os_event_list_def os_shm_list_def lock_simps)
qed (auto simp: os_msgq_find_def os_event_find_def os_shm_find_def os_shm_get_ptr_def os_shm_get_size_def
    os_ipc_print_status_def split: option.split)

section \<open>The named objects as maps\<close>

record ipc_abs =
  a_queues :: "string \<rightharpoonup> nat option \<times> nat \<times> 8 word"
  a_events :: "string \<rightharpoonup> nat option"
  a_shm :: "string \<rightharpoonup> nat option \<times> nat"

definition ipc_abs :: "ipc \<Rightarrow> ipc_abs" where
  "ipc_abs s = \<lparr>a_queues = tab_map q_active q_name (\<lambda>q. (q_handle q, q_msg_size q, q_max_msgs q)) (i_queues s),
     a_events = tab_map ev_active ev_name ev_handle (i_events s),
     a_shm = tab_map sh_active sh_name (\<lambda>h. (sh_buffer h, sh_size h)) (i_shm s)\<rparr>"

definition spec_new :: "nat \<Rightarrow> string \<Rightarrow> 'v \<Rightarrow> (string \<rightharpoonup> 'v) \<Rightarrow> bool \<times> (string \<rightharpoonup> 'v)" where
  "spec_new cap n v m = (if m n = None \<and> card (dom m) < cap then (True, m(n \<mapsto> v)) else (False, m))"

definition spec_del :: "string \<Rightarrow> (string \<rightharpoonup> 'v) \<Rightarrow> bool \<times> (string \<rightharpoonup> 'v)" where
  "spec_del n m = (m n \<noteq> None, m(n := None))"

text \<open>
  Requests of a client: create an object FreeRTOS or the heap can provide, delete the object
  found under a name, or look one up; the answer is success, or the FreeRTOS handle or block.
\<close>

datatype ipc_req =
    QNew nat string nat "8 word" | QDel string | QGet string
  | ENew nat string | EDel string | EGet string
  | SNew nat string nat | SDel string | SGet string

datatype ipc_ans = Done bool | Found "nat option"

primrec ipc_conc :: "ipc_req \<Rightarrow> ipc \<Rightarrow> ipc_ans \<times> ipc" where
  "ipc_conc (QNew h n sz m) s =
     (let (r, s', _) = os_msgq_create (Some h) (Some n) sz m s in (Done (r \<noteq> None), s'))"
| "ipc_conc (QDel n) s =
     (let (r, s', _) = os_msgq_delete (fst (os_msgq_find (Some n) s)) s in (Done (r = ESP_OK), s'))"
| "ipc_conc (QGet n) s =
     (case fst (os_msgq_find (Some n) s) of
        None \<Rightarrow> (Found None, s) | Some i \<Rightarrow> (Found (q_handle (i_queues s ! i)), s))"
| "ipc_conc (ENew h n) s =
     (let (r, s', _) = os_event_create (Some h) (Some n) s in (Done (r \<noteq> None), s'))"
| "ipc_conc (EDel n) s =
     (let (r, s', _) = os_event_delete (fst (os_event_find (Some n) s)) s in (Done (r = ESP_OK), s'))"
| "ipc_conc (EGet n) s =
     (case fst (os_event_find (Some n) s) of
        None \<Rightarrow> (Found None, s) | Some i \<Rightarrow> (Found (ev_handle (i_events s ! i)), s))"
| "ipc_conc (SNew b n sz) s =
     (let (r, s', _) = os_shm_create (Some b) (Some n) sz s in (Done (r \<noteq> None), s'))"
| "ipc_conc (SDel n) s =
     (let (r, s', _) = os_shm_delete (fst (os_shm_find (Some n) s)) s in (Done (r = ESP_OK), s'))"
| "ipc_conc (SGet n) s = (Found (fst (os_shm_get_ptr (fst (os_shm_find (Some n) s)) s)), s)"

primrec ipc_spec :: "ipc_req \<Rightarrow> ipc_abs \<Rightarrow> ipc_ans \<times> ipc_abs" where
  "ipc_spec (QNew h n sz m) a =
     (let (ok, qs) = spec_new OS_IPC_MAX_QUEUES n (Some h, sz, if m = 0 then OS_IPC_QUEUE_DEFAULT_SIZE else m) (a_queues a)
      in (Done ok, a\<lparr>a_queues := qs\<rparr>))"
| "ipc_spec (QDel n) a = (let (ok, qs) = spec_del n (a_queues a) in (Done ok, a\<lparr>a_queues := qs\<rparr>))"
| "ipc_spec (QGet n) a = (Found (case a_queues a n of None \<Rightarrow> None | Some v \<Rightarrow> fst v), a)"
| "ipc_spec (ENew h n) a =
     (let (ok, es) = spec_new OS_IPC_MAX_EVENT_GROUPS n (Some h) (a_events a) in (Done ok, a\<lparr>a_events := es\<rparr>))"
| "ipc_spec (EDel n) a = (let (ok, es) = spec_del n (a_events a) in (Done ok, a\<lparr>a_events := es\<rparr>))"
| "ipc_spec (EGet n) a = (Found (case a_events a n of None \<Rightarrow> None | Some v \<Rightarrow> v), a)"
| "ipc_spec (SNew b n sz) a =
     (let (ok, hs) = spec_new OS_IPC_MAX_SHM n (Some b, sz) (a_shm a) in (Done ok, a\<lparr>a_shm := hs\<rparr>))"
| "ipc_spec (SDel n) a = (let (ok, hs) = spec_del n (a_shm a) in (Done ok, a\<lparr>a_shm := hs\<rparr>))"
| "ipc_spec (SGet n) a = (Found (case a_shm a n of None \<Rightarrow> None | Some v \<Rightarrow> fst v), a)"

primrec ipc_req_ok :: "ipc_req \<Rightarrow> bool" where
  "ipc_req_ok (QNew h n sz m) \<longleftrightarrow> length n < OS_IPC_NAME_LEN \<and> 0 < sz \<and> sz \<le> OS_IPC_MAX_MSG_SIZE"
| "ipc_req_ok (QDel n) \<longleftrightarrow> True"
| "ipc_req_ok (QGet n) \<longleftrightarrow> True"
| "ipc_req_ok (ENew h n) \<longleftrightarrow> length n < OS_IPC_NAME_LEN"
| "ipc_req_ok (EDel n) \<longleftrightarrow> True"
| "ipc_req_ok (EGet n) \<longleftrightarrow> True"
| "ipc_req_ok (SNew b n sz) \<longleftrightarrow> length n < OS_IPC_NAME_LEN \<and> 0 < sz \<and> sz \<le> OS_IPC_MAX_SHM_SIZE"
| "ipc_req_ok (SDel n) \<longleftrightarrow> True"
| "ipc_req_ok (SGet n) \<longleftrightarrow> True"

definition ipc_inv :: "ipc \<Rightarrow> bool" where
  "ipc_inv s \<longleftrightarrow> ipc_wf s \<and> ipc_unique s \<and> i_initialized s"

lemmas ipc_sim_defs = os_msgq_create_def os_msgq_delete_def os_msgq_find_def os_event_create_def
  os_event_delete_def os_event_find_def os_shm_create_def os_shm_delete_def os_shm_find_def
  os_shm_get_ptr_def queue_named_def event_named_def shm_named_def
  find_free_queue_slot_def find_free_event_slot_def find_free_shm_slot_def Let_def

lemma ipc_sim_queue:
  assumes "ipc_inv s" and "ipc_req_ok x" and "x = QNew h n sz m \<or> x = QDel n \<or> x = QGet n"
  shows "ipc_spec x (ipc_abs s) = (fst (ipc_conc x s), ipc_abs (snd (ipc_conc x s))) \<and>
    ipc_unique (snd (ipc_conc x s)) \<and> i_initialized (snd (ipc_conc x s))"
proof -
  let ?qs = "i_queues s" and ?val = "\<lambda>q. (q_handle q, q_msg_size q, q_max_msgs q)"
  have inv: "tab_uniq q_active q_name ?qs" "length ?qs = OS_IPC_MAX_QUEUES" "i_initialized s"
    "tab_uniq ev_active ev_name (i_events s)" "tab_uniq sh_active sh_name (i_shm s)"
    using assms(1) by (auto simp: ipc_inv_def ipc_unique_def ipc_wf_def)
  note free = tab_free_card [OF inv(1,2), of ?val]
  consider "x = QNew h n sz m" | "x = QDel n" | "x = QGet n" using assms(3) by blast
  then show ?thesis
  proof cases
    case 1
    let ?e = "\<lparr>q_name = n, q_handle = Some h, q_msg_size = sz,
      q_max_msgs = if m = 0 then OS_IPC_QUEUE_DEFAULT_SIZE else m, q_active = True\<rparr>"
    show ?thesis
    proof (cases "tab_find q_active q_name n ?qs")
      case (Some i)
      with 1 assms(2) inv show ?thesis
        by (simp add: ipc_sim_defs ipc_abs_def spec_new_def tab_map_None_iff ipc_unique_def)
    next
      case None
      show ?thesis
      proof (cases "tab_free q_active ?qs")
        case full: None
        with 1 assms(2) inv free None show ?thesis
          by (simp add: ipc_sim_defs ipc_abs_def spec_new_def tab_map_None_iff ipc_unique_def)
      next
        case (Some i)
        with 1 assms(2) inv free None ipc_q.create_new [of ?qs ?e i] show ?thesis
          by (simp add: ipc_sim_defs ipc_abs_def spec_new_def tab_map_None_iff ipc_unique_def)
      qed
    qed
  next
    case 2
    show ?thesis
    proof (cases "tab_find q_active q_name n ?qs")
      case None
      with 2 inv show ?thesis
        by (simp add: ipc_sim_defs ipc_abs_def spec_del_def tab_map_None_iff ipc_unique_def is_valid_queue_def)
          (simp add: tab_map_def fun_upd_idem)
    next
      case (Some i)
      with 2 inv tab_findD [OF Some] ipc_q.delete_slot [OF inv(1), of i] show ?thesis
        by (simp add: ipc_sim_defs ipc_abs_def spec_del_def tab_map_None_iff ipc_unique_def is_valid_queue_def)
    qed
  next
    case 3
    with inv show ?thesis
      by (cases "tab_find q_active q_name n ?qs")
        (simp_all add: ipc_sim_defs ipc_abs_def tab_map_def ipc_unique_def)
  qed
qed

lemma ipc_sim_event:
  assumes "ipc_inv s" and "ipc_req_ok x" and "x = ENew h n \<or> x = EDel n \<or> x = EGet n"
  shows "ipc_spec x (ipc_abs s) = (fst (ipc_conc x s), ipc_abs (snd (ipc_conc x s))) \<and>
    ipc_unique (snd (ipc_conc x s)) \<and> i_initialized (snd (ipc_conc x s))"
proof -
  let ?es = "i_events s"
  have inv: "tab_uniq ev_active ev_name ?es" "length ?es = OS_IPC_MAX_EVENT_GROUPS" "i_initialized s"
    "tab_uniq q_active q_name (i_queues s)" "tab_uniq sh_active sh_name (i_shm s)"
    using assms(1) by (auto simp: ipc_inv_def ipc_unique_def ipc_wf_def)
  note free = tab_free_card [OF inv(1,2), of ev_handle]
  consider "x = ENew h n" | "x = EDel n" | "x = EGet n" using assms(3) by blast
  then show ?thesis
  proof cases
    case 1
    let ?e = "\<lparr>ev_name = n, ev_handle = Some h, ev_active = True\<rparr>"
    show ?thesis
    proof (cases "tab_find ev_active ev_name n ?es")
      case (Some i)
      with 1 assms(2) inv show ?thesis
        by (simp add: ipc_sim_defs ipc_abs_def spec_new_def tab_map_None_iff ipc_unique_def)
    next
      case None
      show ?thesis
      proof (cases "tab_free ev_active ?es")
        case full: None
        with 1 assms(2) inv free None show ?thesis
          by (simp add: ipc_sim_defs ipc_abs_def spec_new_def tab_map_None_iff ipc_unique_def)
      next
        case (Some i)
        with 1 assms(2) inv free None ipc_ev.create_new [of ?es ?e i] show ?thesis
          by (simp add: ipc_sim_defs ipc_abs_def spec_new_def tab_map_None_iff ipc_unique_def)
      qed
    qed
  next
    case 2
    show ?thesis
    proof (cases "tab_find ev_active ev_name n ?es")
      case None
      with 2 inv show ?thesis
        by (simp add: ipc_sim_defs ipc_abs_def spec_del_def tab_map_None_iff ipc_unique_def is_valid_event_def)
          (simp add: tab_map_def fun_upd_idem)
    next
      case (Some i)
      with 2 inv tab_findD [OF Some] ipc_ev.delete_slot [OF inv(1), of i] show ?thesis
        by (simp add: ipc_sim_defs ipc_abs_def spec_del_def tab_map_None_iff ipc_unique_def is_valid_event_def)
    qed
  next
    case 3
    with inv show ?thesis
      by (cases "tab_find ev_active ev_name n ?es")
        (simp_all add: ipc_sim_defs ipc_abs_def tab_map_def ipc_unique_def)
  qed
qed

lemma ipc_sim_shm:
  assumes "ipc_inv s" and "ipc_req_ok x" and "x = SNew b n sz \<or> x = SDel n \<or> x = SGet n"
  shows "ipc_spec x (ipc_abs s) = (fst (ipc_conc x s), ipc_abs (snd (ipc_conc x s))) \<and>
    ipc_unique (snd (ipc_conc x s)) \<and> i_initialized (snd (ipc_conc x s))"
proof -
  let ?hs = "i_shm s" and ?val = "\<lambda>h. (sh_buffer h, sh_size h)"
  have inv: "tab_uniq sh_active sh_name ?hs" "length ?hs = OS_IPC_MAX_SHM" "i_initialized s" "i_mutex s \<noteq> None"
    "tab_uniq q_active q_name (i_queues s)" "tab_uniq ev_active ev_name (i_events s)"
    using assms(1) by (auto simp: ipc_inv_def ipc_unique_def ipc_wf_def)
  note free = tab_free_card [OF inv(1,2), of ?val]
  consider "x = SNew b n sz" | "x = SDel n" | "x = SGet n" using assms(3) by blast
  then show ?thesis
  proof cases
    case 1
    let ?e = "\<lparr>sh_name = n, sh_buffer = Some b, sh_size = sz, sh_active = True\<rparr>"
    show ?thesis
    proof (cases "tab_find sh_active sh_name n ?hs")
      case (Some i)
      with 1 assms(2) inv show ?thesis
        by (simp add: ipc_sim_defs ipc_abs_def spec_new_def tab_map_None_iff ipc_unique_def)
    next
      case None
      show ?thesis
      proof (cases "tab_free sh_active ?hs")
        case full: None
        with 1 assms(2) inv free None show ?thesis
          by (simp add: ipc_sim_defs ipc_abs_def spec_new_def tab_map_None_iff ipc_unique_def)
      next
        case (Some i)
        with 1 assms(2) inv free None ipc_sh.create_new [of ?hs ?e i] show ?thesis
          by (simp add: ipc_sim_defs ipc_abs_def spec_new_def tab_map_None_iff ipc_unique_def)
      qed
    qed
  next
    case 2
    show ?thesis
    proof (cases "tab_find sh_active sh_name n ?hs")
      case None
      with 2 inv show ?thesis
        by (simp add: ipc_sim_defs ipc_abs_def spec_del_def tab_map_None_iff ipc_unique_def is_valid_shm_def)
          (simp add: tab_map_def fun_upd_idem)
    next
      case (Some i)
      with 2 inv tab_findD [OF Some] ipc_sh.delete_slot [OF inv(1), of i] show ?thesis
        by (simp add: ipc_sim_defs ipc_abs_def spec_del_def tab_map_None_iff ipc_unique_def is_valid_shm_def)
    qed
  next
    case 3
    with inv show ?thesis
      by (cases "tab_find sh_active sh_name n ?hs")
        (auto simp: ipc_sim_defs ipc_abs_def tab_map_def ipc_unique_def is_valid_shm_def dest: tab_findD)
  qed
qed

lemma ipc_conc_wf:
  assumes "ipc_wf s"
  shows "ipc_wf (snd (ipc_conc x s))"
proof (cases x)
  case (QNew h n sz m)
  with ipc_step_wf [OF assms, of "QCreate (Some h) (Some n) sz m"] show ?thesis by (simp add: split_beta)
next
  case (QDel n)
  with ipc_step_wf [OF assms, of "QDelete (fst (os_msgq_find (Some n) s))"] show ?thesis
    by (simp add: split_beta)
next
  case (ENew h n)
  with ipc_step_wf [OF assms, of "ECreate (Some h) (Some n)"] show ?thesis by (simp add: split_beta)
next
  case (EDel n)
  with ipc_step_wf [OF assms, of "EDelete (fst (os_event_find (Some n) s))"] show ?thesis
    by (simp add: split_beta)
next
  case (SNew b n sz)
  with ipc_step_wf [OF assms, of "SCreate (Some b) (Some n) sz"] show ?thesis by (simp add: split_beta)
next
  case (SDel n)
  with ipc_step_wf [OF assms, of "SDelete (fst (os_shm_find (Some n) s))"] show ?thesis
    by (simp add: split_beta)
qed (use assms in \<open>auto split: option.split\<close>)

lemma ipc_step_sim:
  assumes "ipc_req_ok x" and "ipc_inv s"
  shows "ipc_spec x (ipc_abs s) = (fst (ipc_conc x s), ipc_abs (snd (ipc_conc x s))) \<and>
    ipc_inv (snd (ipc_conc x s))"
proof -
  have "ipc_spec x (ipc_abs s) = (fst (ipc_conc x s), ipc_abs (snd (ipc_conc x s))) \<and>
    ipc_unique (snd (ipc_conc x s)) \<and> i_initialized (snd (ipc_conc x s))"
    using ipc_sim_queue [OF assms(2,1)] ipc_sim_event [OF assms(2,1)] ipc_sim_shm [OF assms(2,1)]
    by (cases x) blast+
  moreover have "ipc_wf (snd (ipc_conc x s))"
    using assms(2) by (intro ipc_conc_wf) (simp add: ipc_inv_def)
  ultimately show ?thesis by (simp add: ipc_inv_def)
qed

interpretation ipc_objects: simulates ipc_conc ipc_req_ok ipc_inv ipc_spec ipc_abs
  using ipc_step_sim by unfold_locales blast+

definition ipc_started :: ipc where
  "ipc_started = fst (snd (os_ipc_init (Some 1) ipc_boot))"

lemma ipc_started_inv: "ipc_inv ipc_started"
proof -
  have "\<not> q_active q_zero" "\<not> ev_active ev_zero" "\<not> sh_active sh_zero"
    by (simp_all add: q_zero_def ev_zero_def sh_zero_def)
  then show ?thesis
    using ipc_step_wf [OF ipc_boot_wf, of "IpcInit (Some 1)"]
    by (simp add: ipc_inv_def ipc_started_def ipc_unique_def os_ipc_init_def ipc_boot_def tab_uniq_replicate)
qed

text \<open>Claim C5: the three services refine three finite maps from names to objects (at most 8, 8 and 4 of them):
  for any sequence of creations (names of at most 15 characters, sizes within the limits), deletions of the
  object found under a name, and lookups, the answers are those of the maps: a creation succeeds exactly when
  the name is new and there is room, a lookup yields the handle or block the object was created with.\<close>

theorem ipc_refines_maps:
  assumes "list_all ipc_req_ok reqs" and "ipc_inv s"
  shows "answers ipc_spec reqs (ipc_abs s) =
    (fst (answers ipc_conc reqs s), ipc_abs (snd (answers ipc_conc reqs s)))"
  using assms by (rule ipc_objects.answers_sim)

theorem ipc_refines_maps_witness:
  "answers ipc_spec [QNew 5 ''jobs'' 32 0, QNew 6 ''jobs'' 32 4, QGet ''jobs'', QDel ''jobs'', SGet ''m''] (ipc_abs ipc_started) =
   (fst (answers ipc_conc [QNew 5 ''jobs'' 32 0, QNew 6 ''jobs'' 32 4, QGet ''jobs'', QDel ''jobs'', SGet ''m''] ipc_started),
    ipc_abs (snd (answers ipc_conc [QNew 5 ''jobs'' 32 0, QNew 6 ''jobs'' 32 4, QGet ''jobs'', QDel ''jobs'', SGet ''m''] ipc_started)))"
  by (rule ipc_refines_maps) (simp_all add: ipc_started_inv ipc_consts)

section \<open>Teardown, handles, names\<close>

text \<open>The FreeRTOS and heap objects a list of calls releases.\<close>

fun ipc_released :: "ipc_call list \<Rightarrow> nat option list" where
  "ipc_released [] = []"
| "ipc_released (QueueDelete h # cs) = h # ipc_released cs"
| "ipc_released (EventDelete h # cs) = h # ipc_released cs"
| "ipc_released (Free (Some b) # cs) = Some b # ipc_released cs"
| "ipc_released (_ # cs) = ipc_released cs"

lemma ipc_released_append [simp]: "ipc_released (a @ b) = ipc_released a @ ipc_released b"
  by (induction a rule: ipc_released.induct) simp_all

lemma released_queues:
  "list_all msgq_ok qs \<Longrightarrow>
   ipc_released (ext_calls (concat (map (snd \<circ> deinit_queue) qs))) = map q_handle (filter q_active qs)"
  by (induction qs) (auto simp: deinit_queue_def msgq_ok_def)

lemma released_events:
  "list_all event_ok es \<Longrightarrow>
   ipc_released (ext_calls (concat (map (snd \<circ> deinit_event) es))) = map ev_handle (filter ev_active es)"
  by (induction es) (auto simp: deinit_event_def event_ok_def)

lemma released_shm:
  "list_all shm_ok hs \<Longrightarrow>
   ipc_released (ext_calls (concat (map (snd \<circ> deinit_shm) hs))) = map sh_buffer (filter sh_active hs)"
proof (induction hs)
  case (Cons h hs)
  then show ?case by (cases "sh_buffer h") (auto simp: deinit_shm_def shm_ok_def)
qed simp

lemma ipc_deinit_inactive:
  "msgq_ok q \<Longrightarrow> \<not> q_active (fst (deinit_queue q))"
  "event_ok e \<Longrightarrow> \<not> ev_active (fst (deinit_event e))"
  "\<not> sh_active (fst (deinit_shm h))"
  by (auto simp: deinit_queue_def deinit_event_def deinit_shm_def msgq_ok_def event_ok_def)

text \<open>Claim C31: shutting down releases exactly the handles and blocks of the active objects, each once, in
  table order, leaves no object active and the mutex deleted, and every later creation or lookup fails.\<close>

theorem os_ipc_deinit_releases_all:
  assumes "ipc_wf s" and "i_initialized s" and "os_ipc_deinit s = (s', tr)"
  shows "ipc_released (ext_calls tr) = map q_handle (filter q_active (i_queues s)) @
      map ev_handle (filter ev_active (i_events s)) @ map sh_buffer (filter sh_active (i_shm s)) \<and>
    filter q_active (i_queues s') = [] \<and> filter ev_active (i_events s') = [] \<and>
    filter sh_active (i_shm s') = [] \<and> i_mutex s' = None \<and>
    fst (os_msgq_create q n sz m s') = None \<and> fst (os_msgq_find n s') = None"
proof -
  have ok: "list_all msgq_ok (i_queues s)" "list_all event_ok (i_events s)" "list_all shm_ok (i_shm s)"
    using assms(1) by (simp_all add: ipc_wf_def)
  have tr: "ipc_released (ext_calls tr) = map q_handle (filter q_active (i_queues s)) @
      map ev_handle (filter ev_active (i_events s)) @ map sh_buffer (filter sh_active (i_shm s))"
    using assms(2,3) ok by (auto simp: os_ipc_deinit_def Let_def released_queues released_events released_shm)
  have "filter q_active (i_queues s') = []" "filter ev_active (i_events s') = []" "filter sh_active (i_shm s') = []"
    "i_mutex s' = None" "\<not> i_initialized s'"
    using assms(2,3) ok
    by (auto simp: os_ipc_deinit_def Let_def filter_empty_conv list_all_iff ipc_deinit_inactive)
  with tr show ?thesis
    by (auto simp: os_msgq_create_def os_msgq_find_def split: option.split)
qed

theorem os_ipc_deinit_releases_all_witness:
  "ipc_released (ext_calls (snd (os_ipc_deinit (snd (ipc_conc (QNew 5 ''jobs'' 32 0) ipc_started))))) = [Some 5]"
proof -
  let ?s = "snd (ipc_conc (QNew 5 ''jobs'' 32 0) ipc_started)"
  have "ipc_inv ?s"
    using ipc_step_sim [of "QNew 5 ''jobs'' 32 0" ipc_started] ipc_started_inv by (simp add: ipc_consts)
  then have "ipc_wf ?s" "i_initialized ?s" by (simp_all add: ipc_inv_def)
  from os_ipc_deinit_releases_all [OF this prod.collapse [symmetric]]
  have "ipc_released (ext_calls (snd (os_ipc_deinit ?s))) = map q_handle (filter q_active (i_queues ?s)) @
      map ev_handle (filter ev_active (i_events ?s)) @ map sh_buffer (filter sh_active (i_shm ?s))"
    by blast
  also have "\<dots> = [Some 5]" by code_simp
  finally show ?thesis .
qed

text \<open>A name of 16 or more characters is never seen as a duplicate and never found, because the
  stored name is cut: creating twice under it gives two objects with the same stored name.\<close>

theorem ipc_long_names_collide:
  assumes "ipc_inv s" and "OS_IPC_NAME_LEN \<le> length n" and "0 < sz" and "sz \<le> OS_IPC_MAX_MSG_SIZE"
    and "os_msgq_create (Some h) (Some n) sz m s = (Some i, s1, tr1)"
    and "os_msgq_create (Some h') (Some n) sz m s1 = (Some j, s2, tr2)"
  shows "i \<noteq> j \<and> q_active (i_queues s2 ! i) \<and> q_active (i_queues s2 ! j) \<and>
    q_name (i_queues s2 ! i) = q_name (i_queues s2 ! j) \<and> fst (os_msgq_find (Some n) s2) = None"
proof -
  have i: "find_free_queue_slot s = Some i" "\<exists>e. i_queues s1 = (i_queues s)[i := e] \<and> q_active e \<and>
      q_name e = cstr OS_IPC_NAME_LEN n"
    using assms(5) by (auto simp: os_msgq_create_def Let_def split: if_splits option.splits)
  have j: "find_free_queue_slot s1 = Some j" "\<exists>e. i_queues s2 = (i_queues s1)[j := e] \<and> q_active e \<and>
      q_name e = cstr OS_IPC_NAME_LEN n"
    using assms(6) by (auto simp: os_msgq_create_def Let_def split: if_splits option.splits)
  have "ipc_wf s1" using ipc_step_wf [of s "QCreate (Some h) (Some n) sz m"] assms(1,5) by (simp add: ipc_inv_def)
  then have "ipc_wf s2" using ipc_step_wf [of s1 "QCreate (Some h') (Some n) sz m"] assms(6) by simp
  then have "queue_named n s2 = None"
    using assms(2) by (auto simp: ipc_wf_def queue_named_def tab_find_None list_all_iff msgq_ok_def)
  moreover have "i < length (i_queues s)" "j < length (i_queues s1)" "\<not> q_active (i_queues s1 ! j)"
    using i(1) j(1) by (auto simp: find_free_queue_slot_def dest: tab_freeD)
  moreover from this i j have "j \<noteq> i" by auto
  ultimately show ?thesis using i j by (auto simp: os_msgq_find_def)
qed

theorem ipc_long_names_collide_witness:
  "fst (os_msgq_find (Some ''sixteen_chars_xx'') (fst (snd (os_msgq_create (Some 6) (Some ''sixteen_chars_xx'') 4 1
     (fst (snd (os_msgq_create (Some 5) (Some ''sixteen_chars_xx'') 4 1 ipc_started))))))) = None"
proof -
  obtain s1 tr1 where 1: "os_msgq_create (Some 5) (Some ''sixteen_chars_xx'') 4 1 ipc_started = (Some 0, s1, tr1)"
  proof -
    have "fst (os_msgq_create (Some 5) (Some ''sixteen_chars_xx'') 4 1 ipc_started) = Some 0" by code_simp
    then show ?thesis using that by (metis prod.collapse)
  qed
  have "fst (os_msgq_create (Some 6) (Some ''sixteen_chars_xx'') 4 1
      (fst (snd (os_msgq_create (Some 5) (Some ''sixteen_chars_xx'') 4 1 ipc_started)))) = Some 1"
    by code_simp
  then obtain s2 tr2 where 2: "os_msgq_create (Some 6) (Some ''sixteen_chars_xx'') 4 1 s1 = (Some 1, s2, tr2)"
    using 1 by (metis fst_conv snd_conv prod.collapse)
  from ipc_long_names_collide [OF ipc_started_inv _ _ _ 1 2] show ?thesis
    by (simp add: 1 2 ipc_consts)
qed

text \<open>A handle is the address of a table entry, and it is only checked for the entry being active:
  once its queue is deleted and the first free slot is taken by a new queue, sending to the old handle reaches the
  new queue.\<close>

theorem stale_handle_reaches_new_queue:
  assumes "os_msgq_delete (Some i) s0 = (ESP_OK, s, tr0)"
    and "os_msgq_create (Some h) (Some n) sz m s = (Some i, s', tr)"
  shows "os_msgq_send ms r (Some i) (Some msg) t s' =
    (if r then ESP_OK else ESP_ERR_TIMEOUT, [Ext (QueueSend (Some h) msg (ipc_ticks ms t))])"
proof -
  have "i < length (i_queues s)"
    using assms(1) by (auto simp: os_msgq_delete_def Let_def is_valid_queue_def split: if_splits)
  then show ?thesis
    using assms(2)
    by (auto simp: os_msgq_create_def os_msgq_send_def is_valid_queue_def Let_def split: if_splits option.splits)
qed

definition ipc_one :: ipc where
  "ipc_one = fst (snd (os_msgq_create (Some 5) (Some ''a'') 4 1 ipc_started))"

definition ipc_freed :: ipc where
  "ipc_freed = fst (snd (os_msgq_delete (Some 0) ipc_one))"

theorem stale_handle_reaches_new_queue_witness:
  "fst (os_msgq_send id True (Some 0) (Some 77) 5
     (fst (snd (os_msgq_create (Some 6) (Some ''b'') 4 1 ipc_freed)))) = ESP_OK"
proof -
  have "fst (os_msgq_delete (Some 0) ipc_one) = ESP_OK" by code_simp
  then have d: "os_msgq_delete (Some 0) ipc_one = (ESP_OK, ipc_freed, snd (snd (os_msgq_delete (Some 0) ipc_one)))"
    by (simp add: ipc_freed_def prod_eq_iff)
  have "fst (os_msgq_create (Some 6) (Some ''b'') 4 1 ipc_freed) = Some 0" by code_simp
  then obtain s' tr where c: "os_msgq_create (Some 6) (Some ''b'') 4 1 ipc_freed = (Some 0, s', tr)"
    by (metis prod.collapse)
  from stale_handle_reaches_new_queue [OF d c, of id True 77 5] show ?thesis by (simp add: c)
qed

end
