(* ===== verification/Timer.thy ===== *)
theory Timer
  imports SlotTable Fmt
begin

text \<open>
  Software timers, \<^verbatim>\<open>src/components/os_timer/src/os_timer.c\<close>: 8 named timers over FreeRTOS
  timers.

  A timer handle of the API is the index of its entry.  The calls of FreeRTOS appear in the trace
  with the results they had (\<open>rc\<close> is whether \<^verbatim>\<open>pdPASS\<close> was returned); \<open>ms\<close> is
  \<^verbatim>\<open>pdMS_TO_TICKS\<close>.  The last part runs the component against what FreeRTOS documents of a
  timer (dormant when created, running after a start or a change of period, dormant after a stop,
  and after expiry when it does not reload) as the step relation \<open>tstep\<close>.
\<close>

section \<open>State\<close>

definition OS_TIMER_MAX_TIMERS :: nat where "OS_TIMER_MAX_TIMERS = 8"
definition OS_TIMER_NAME_LEN :: nat where "OS_TIMER_NAME_LEN = 24"

record timer_obj =
  t_handle :: "nat option"
  t_name :: string
  t_period_ms :: "32 word"
  t_reload :: bool
  t_active :: bool
  t_fire_count :: "32 word"
  t_callback :: "nat option"
  t_arg :: nat

record timer_config =
  tc_name :: "string option"
  tc_period_ms :: "32 word"
  tc_reload :: bool
  tc_callback :: "nat option"
  tc_arg :: nat

record timer_state =
  ts_initialised :: bool
  ts_lock :: "nat option"
  ts_timers :: "timer_obj list"

definition timer_zero :: timer_obj where
  "timer_zero = \<lparr>t_handle = None, t_name = [], t_period_ms = 0, t_reload = False, t_active = False,
     t_fire_count = 0, t_callback = None, t_arg = 0\<rparr>"

definition timer_boot :: timer_state where
  "timer_boot = \<lparr>ts_initialised = False, ts_lock = None, ts_timers = replicate OS_TIMER_MAX_TIMERS timer_zero\<rparr>"

datatype timer_call =
    TLockCreate | TLockDelete
  | XTimerCreate string "32 word" bool nat "nat option"
  | XTimerStart nat bool | XTimerStop nat bool | XTimerDelete nat | XTimerChangePeriod nat "32 word" bool
  | TCallback nat nat | TUart string | TSend int string

section \<open>Operations\<close>

definition t_fd_write :: "int \<Rightarrow> string \<Rightarrow> timer_call eff" where
  "t_fd_write fd s = (if fd < 0 then Ext (TUart s) else Ext (TSend fd s))"

definition t_fd_printf :: "int \<Rightarrow> string \<Rightarrow> timer_call eff" where
  "t_fd_printf fd formatted = t_fd_write fd (cstr 256 formatted)"

definition timer_used :: "timer_obj \<Rightarrow> bool" where
  "timer_used t \<longleftrightarrow> t_handle t \<noteq> None"

definition timer_find_slot :: "timer_state \<Rightarrow> nat option" where
  "timer_find_slot s = find_idx (\<lambda>t. t_handle t = None \<and> t_name t = []) (ts_timers s)"

definition timer_find_by_name_locked :: "string \<Rightarrow> timer_state \<Rightarrow> nat option" where
  "timer_find_by_name_locked name s = tab_find timer_used t_name name (ts_timers s)"

text \<open>The FreeRTOS callback; \<open>tid\<close> is \<^verbatim>\<open>pvTimerGetTimerID\<close>, the entry the timer was created with.\<close>

definition timer_callback :: "nat option \<Rightarrow> timer_state \<Rightarrow> timer_state \<times> timer_call eff list" where
  "timer_callback tid s =
     (case tid of
        None \<Rightarrow> (s, [])
      | Some i \<Rightarrow>
          let t = ts_timers s ! i
          in (s\<lparr>ts_timers := (ts_timers s)[i := t\<lparr>t_fire_count := t_fire_count t + 1\<rparr>]\<rparr>,
              case t_callback t of
                Some cb \<Rightarrow> [Ext (TCallback cb (t_arg t))]
              | None \<Rightarrow> [Log OS_LOG_INFO ''timer '%s' fired (%u)'']))"

definition os_timer_init :: "nat option \<Rightarrow> timer_state \<Rightarrow> esp_err \<times> timer_state \<times> timer_call eff list" where
  "os_timer_init lk s =
     (if ts_initialised s then (ESP_OK, s, [])
      else
        case lk of
          None \<Rightarrow> (ESP_ERR_NO_MEM, s\<lparr>ts_lock := None\<rparr>, [Ext TLockCreate])
        | Some l \<Rightarrow>
            (ESP_OK, s\<lparr>ts_lock := Some l, ts_timers := replicate OS_TIMER_MAX_TIMERS timer_zero, ts_initialised := True\<rparr>,
             [Ext TLockCreate, Log OS_LOG_INFO ''Timer subsystem initialized (%d slots)'']))"

definition timer_release :: "timer_obj \<Rightarrow> timer_call eff list" where
  "timer_release t =
     (case t_handle t of None \<Rightarrow> [] | Some h \<Rightarrow> [Ext (XTimerStop h True), Ext (XTimerDelete h)])"

definition os_timer_deinit :: "timer_state \<Rightarrow> timer_state \<times> timer_call eff list" where
  "os_timer_deinit s =
     (if \<not> ts_initialised s then (s, [])
      else (s\<lparr>ts_timers := map (\<lambda>_. timer_zero) (ts_timers s), ts_lock := None, ts_initialised := False\<rparr>,
            [Take] @ concat (map timer_release (ts_timers s)) @ [Give, Ext TLockDelete]))"

text \<open>\<open>h\<close> is the FreeRTOS timer \<^verbatim>\<open>xTimerCreate\<close> returns, NULL when it has no memory.\<close>

definition os_timer_create ::
  "(32 word \<Rightarrow> 32 word) \<Rightarrow> nat option \<Rightarrow> timer_config option \<Rightarrow> timer_state
   \<Rightarrow> nat option \<times> timer_state \<times> timer_call eff list" where
  "os_timer_create ms h config s =
     (case config of
        None \<Rightarrow> (None, s, [])
      | Some c \<Rightarrow>
          (case tc_name c of
             None \<Rightarrow> (None, s, [])
           | Some n \<Rightarrow>
               if \<not> ts_initialised s \<or> n = [] \<or> tc_period_ms c = 0 then (None, s, [])
               else if timer_find_by_name_locked n s \<noteq> None then (None, s, [Take, Give])
               else
                 (case timer_find_slot s of
                    None \<Rightarrow> (None, s, [Take, Give])
                  | Some i \<Rightarrow>
                      let t = timer_zero\<lparr>t_name := cstr OS_TIMER_NAME_LEN n, t_period_ms := tc_period_ms c,
                            t_reload := tc_reload c, t_callback := tc_callback c, t_arg := tc_arg c\<rparr>;
                          call = Ext (XTimerCreate (t_name t) (ms (t_period_ms t)) (t_reload t) i h)
                      in (case h of
                            None \<Rightarrow> (None, s\<lparr>ts_timers := (ts_timers s)[i := timer_zero]\<rparr>, [Take, call, Give])
                          | Some th \<Rightarrow>
                              (Some i,
                               s\<lparr>ts_timers := (ts_timers s)[i := t\<lparr>t_handle := Some th, t_active := False\<rparr>]\<rparr>,
                               [Take, call, Give])))))"

text \<open>The FreeRTOS timer behind a handle of the API, where the checks of the calls let it through.\<close>

definition timer_handle :: "nat option \<Rightarrow> timer_state \<Rightarrow> nat option" where
  "timer_handle timer s =
     (case timer of
        None \<Rightarrow> None
      | Some i \<Rightarrow> if ts_initialised s \<and> i < length (ts_timers s) then t_handle (ts_timers s ! i) else None)"

definition os_timer_delete :: "nat option \<Rightarrow> timer_state \<Rightarrow> esp_err \<times> timer_state \<times> timer_call eff list" where
  "os_timer_delete timer s =
     (case timer_handle timer s of
        None \<Rightarrow> (ESP_ERR_INVALID_ARG, s, [])
      | Some h \<Rightarrow>
          (ESP_OK, s\<lparr>ts_timers := (ts_timers s)[the timer := timer_zero]\<rparr>,
           [Take, Ext (XTimerStop h True), Ext (XTimerDelete h), Give]))"

definition timer_set :: "nat \<Rightarrow> (timer_obj \<Rightarrow> timer_obj) \<Rightarrow> timer_state \<Rightarrow> timer_state" where
  "timer_set i f s = s\<lparr>ts_timers := (ts_timers s)[i := f (ts_timers s ! i)]\<rparr>"

definition os_timer_start :: "bool \<Rightarrow> nat option \<Rightarrow> timer_state \<Rightarrow> esp_err \<times> timer_state \<times> timer_call eff list" where
  "os_timer_start rc timer s =
     (case timer_handle timer s of
        None \<Rightarrow> (ESP_ERR_INVALID_ARG, s, [])
      | Some h \<Rightarrow>
          if \<not> rc then (ESP_FAIL, s, [Ext (XTimerStart h rc)])
          else (ESP_OK, timer_set (the timer) (\<lambda>t. t\<lparr>t_active := True\<rparr>) s, [Ext (XTimerStart h rc), Take, Give]))"

definition os_timer_stop :: "bool \<Rightarrow> nat option \<Rightarrow> timer_state \<Rightarrow> esp_err \<times> timer_state \<times> timer_call eff list" where
  "os_timer_stop rc timer s =
     (case timer_handle timer s of
        None \<Rightarrow> (ESP_ERR_INVALID_ARG, s, [])
      | Some h \<Rightarrow>
          if \<not> rc then (ESP_FAIL, s, [Ext (XTimerStop h rc)])
          else (ESP_OK, timer_set (the timer) (\<lambda>t. t\<lparr>t_active := False\<rparr>) s, [Ext (XTimerStop h rc), Take, Give]))"

definition os_timer_restart ::
  "(32 word \<Rightarrow> 32 word) \<Rightarrow> bool \<Rightarrow> nat option \<Rightarrow> 32 word \<Rightarrow> timer_state
   \<Rightarrow> esp_err \<times> timer_state \<times> timer_call eff list" where
  "os_timer_restart ms rc timer new_period_ms s =
     (case timer_handle timer s of
        None \<Rightarrow> (ESP_ERR_INVALID_ARG, s, [])
      | Some h \<Rightarrow>
          if new_period_ms = 0 then (ESP_ERR_INVALID_ARG, s, [])
          else if \<not> rc then (ESP_FAIL, s, [Ext (XTimerChangePeriod h (ms new_period_ms) rc)])
          else (ESP_OK, timer_set (the timer) (\<lambda>t. t\<lparr>t_period_ms := new_period_ms, t_active := True\<rparr>) s,
                [Ext (XTimerChangePeriod h (ms new_period_ms) rc), Take, Give]))"

definition os_timer_find :: "string option \<Rightarrow> timer_state \<Rightarrow> nat option \<times> timer_call eff list" where
  "os_timer_find name s =
     (case name of
        None \<Rightarrow> (None, [])
      | Some n \<Rightarrow> if \<not> ts_initialised s then (None, []) else (timer_find_by_name_locked n s, [Take, Give]))"

definition os_timer_is_active :: "nat option \<Rightarrow> timer_state \<Rightarrow> bool" where
  "os_timer_is_active timer s =
     (case timer of
        None \<Rightarrow> False
      | Some i \<Rightarrow> t_handle (ts_timers s ! i) \<noteq> None \<and> t_active (ts_timers s ! i))"

definition os_timer_get_fire_count :: "nat option \<Rightarrow> timer_state \<Rightarrow> 32 word" where
  "os_timer_get_fire_count timer s = (case timer of None \<Rightarrow> 0 | Some i \<Rightarrow> t_fire_count (ts_timers s ! i))"

definition os_timer_get_name :: "nat option \<Rightarrow> timer_state \<Rightarrow> string option" where
  "os_timer_get_name timer s = map_option (\<lambda>i. t_name (ts_timers s ! i)) timer"

definition timer_row :: "string \<Rightarrow> string \<Rightarrow> string \<Rightarrow> string \<Rightarrow> string \<Rightarrow> string" where
  "timer_row a b c d e = padr 24 a @ '' '' @ padr 10 b @ '' '' @ padr 8 c @ '' '' @ padr 10 d @ '' '' @ e @ crlf"

definition os_timer_list :: "int \<Rightarrow> timer_state \<Rightarrow> timer_call eff list" where
  "os_timer_list fd s =
     (if \<not> ts_initialised s then [t_fd_printf fd (''Timer subsystem not initialised'' @ crlf)]
      else
        [t_fd_printf fd (crlf @ timer_row ''Name'' ''Period(ms)'' ''Mode'' ''State'' ''Fires''),
         t_fd_printf fd (timer_row ''----'' ''----------'' ''----'' ''-----'' ''-----''), Take] @
        map (\<lambda>t. t_fd_printf fd (timer_row (t_name t) (dec (unat (t_period_ms t)))
                   (if t_reload t then ''auto'' else ''oneshot'')
                   (if t_active t then ''running'' else ''stopped'') (dec (unat (t_fire_count t)))))
          (filter timer_used (ts_timers s)) @
        [Give, t_fd_write fd crlf])"

section \<open>Names\<close>

interpretation timer_tab: slot_table timer_used t_name id "\<lambda>_. timer_zero"
  by unfold_locales (simp add: timer_used_def timer_zero_def)

text \<open>
  A slot without a FreeRTOS timer has no name and is not active (a late expiry may still count
  on it), a used one has a name, and every name fits its array.
\<close>

definition timer_entry_ok :: "timer_obj \<Rightarrow> bool" where
  "timer_entry_ok t \<longleftrightarrow> (t_handle t = None \<longrightarrow> t_name t = [] \<and> \<not> t_active t) \<and>
     (t_handle t \<noteq> None \<longrightarrow> t_name t \<noteq> []) \<and> length (t_name t) < OS_TIMER_NAME_LEN"

definition timer_slots_ok :: "timer_state \<Rightarrow> bool" where
  "timer_slots_ok s \<longleftrightarrow> length (ts_timers s) = OS_TIMER_MAX_TIMERS \<and> list_all timer_entry_ok (ts_timers s)"

lemma timer_zero_simps [simp]:
  "t_handle timer_zero = None" "t_name timer_zero = []" "t_active timer_zero = False"
  by (simp_all add: timer_zero_def)

lemma timer_slot_free: "timer_slots_ok s \<Longrightarrow> timer_find_slot s = tab_free timer_used (ts_timers s)"
proof -
  assume "timer_slots_ok s"
  then have "\<forall>t \<in> set (ts_timers s). (t_handle t = None \<and> t_name t = []) = (\<not> timer_used t)"
    by (auto simp: timer_slots_ok_def list_all_iff timer_used_def timer_entry_ok_def)
  moreover have "(\<forall>t \<in> set ts. P t = Q t) \<Longrightarrow> find_idx P ts = find_idx Q ts" for P Q and ts :: "timer_obj list"
    by (induction ts) simp_all
  ultimately show ?thesis by (simp add: timer_find_slot_def tab_free_def)
qed

datatype timer_op =
    TInit "nat option" | TDeinit
  | TCreate "32 word \<Rightarrow> 32 word" "nat option" "timer_config option"
  | TDelete "nat option" | TStart bool "nat option" | TStop bool "nat option"
  | TRestart "32 word \<Rightarrow> 32 word" bool "nat option" "32 word" | TFire "nat option"

primrec timer_exec :: "timer_op \<Rightarrow> timer_state \<Rightarrow> timer_state \<times> timer_call eff list" where
  "timer_exec (TInit lk) s = snd (os_timer_init lk s)"
| "timer_exec TDeinit s = os_timer_deinit s"
| "timer_exec (TCreate ms h c) s = snd (os_timer_create ms h c s)"
| "timer_exec (TDelete t) s = snd (os_timer_delete t s)"
| "timer_exec (TStart rc t) s = snd (os_timer_start rc t s)"
| "timer_exec (TStop rc t) s = snd (os_timer_stop rc t s)"
| "timer_exec (TRestart ms rc t p) s = snd (os_timer_restart ms rc t p s)"
| "timer_exec (TFire i) s = timer_callback i s"

lemmas timer_op_defs = os_timer_init_def os_timer_deinit_def os_timer_create_def os_timer_delete_def
  os_timer_start_def os_timer_stop_def os_timer_restart_def timer_callback_def

lemma timer_entry_zero [simp]: "timer_entry_ok timer_zero"
  by (simp add: timer_entry_ok_def OS_TIMER_NAME_LEN_def)

lemma timer_handleD:
  "timer_handle timer s = Some h \<Longrightarrow>
   \<exists>i. timer = Some i \<and> ts_initialised s \<and> i < length (ts_timers s) \<and> t_handle (ts_timers s ! i) = Some h"
  by (auto simp: timer_handle_def split: option.splits if_splits)

lemma timer_set_ok:
  assumes "timer_slots_ok s" and "i < length (ts_timers s)"
    and "timer_entry_ok (ts_timers s ! i) \<Longrightarrow> timer_entry_ok (f (ts_timers s ! i))"
  shows "timer_slots_ok (timer_set i f s)"
proof -
  have "timer_entry_ok (ts_timers s ! i)"
    using assms(1,2) by (auto simp: timer_slots_ok_def list_all_length)
  with assms show ?thesis by (simp add: timer_slots_ok_def timer_set_def list_all_update)
qed

lemma timer_new_ok:
  assumes "n \<noteq> []"
  shows "timer_entry_ok (timer_zero\<lparr>t_name := cstr OS_TIMER_NAME_LEN n, t_period_ms := p, t_reload := r,
      t_callback := cb, t_arg := a, t_handle := Some th, t_active := False\<rparr>)"
  using assms cstr_fits [of OS_TIMER_NAME_LEN n]
  by (simp add: timer_entry_ok_def cstr_eq_Nil OS_TIMER_NAME_LEN_def del: length_cstr)

lemma timer_step_ok:
  assumes "timer_slots_ok s"
  shows "timer_slots_ok (fst (timer_exec x s))"
proof (cases x)
  case (TInit lk)
  with assms show ?thesis
    by (auto simp: os_timer_init_def timer_slots_ok_def list_all_iff split: option.split)
next
  case TDeinit
  with assms show ?thesis by (simp add: os_timer_deinit_def timer_slots_ok_def list_all_iff)
next
  case (TCreate ms h c)
  with assms timer_new_ok show ?thesis
    by (auto simp: os_timer_create_def timer_slots_ok_def Let_def split: option.split intro!: list_all_update)
next
  case (TDelete t)
  with assms show ?thesis
    by (auto simp: os_timer_delete_def timer_slots_ok_def split: option.split intro!: list_all_update)
next
  case (TStart rc t)
  with assms show ?thesis
    by (auto simp: os_timer_start_def timer_entry_ok_def split: option.split dest!: timer_handleD
        intro!: timer_set_ok)
next
  case (TStop rc t)
  with assms show ?thesis
    by (auto simp: os_timer_stop_def timer_entry_ok_def split: option.split dest!: timer_handleD
        intro!: timer_set_ok)
next
  case (TRestart ms rc t p)
  with assms show ?thesis
    by (auto simp: os_timer_restart_def timer_entry_ok_def split: option.split dest!: timer_handleD
        intro!: timer_set_ok)
next
  case (TFire i)
  show ?thesis
  proof (cases i)
    case None
    with TFire assms show ?thesis by (simp add: timer_callback_def)
  next
    case (Some j)
    have "list_all timer_entry_ok ((ts_timers s)[j := (ts_timers s ! j)\<lparr>t_fire_count := t_fire_count (ts_timers s ! j) + 1\<rparr>])"
      using assms list_all_update_at [where P = timer_entry_ok and i = j and
          f = "\<lambda>t. t\<lparr>t_fire_count := t_fire_count t + 1\<rparr>"]
      by (simp add: timer_slots_ok_def timer_entry_ok_def)
    with TFire Some assms show ?thesis by (simp add: timer_callback_def timer_slots_ok_def Let_def)
  qed
qed

interpretation timer_calls: guarded "\<lambda>x s. fst (timer_exec x s)" "\<lambda>_. True" timer_slots_ok
  by unfold_locales (rule timer_step_ok)

text \<open>After any sequence of timer calls and expiries from boot the table has 8 entries, an entry
  without a FreeRTOS timer has no name and is not active, an entry with one has a non-empty name that fits its
  array; and every call follows the mutex discipline.\<close>

theorem timer_run_ok:
  "timer_slots_ok (run (\<lambda>x s. fst (timer_exec x s)) ops timer_boot) \<and> lock_ok False (snd (timer_exec x s))"
proof
  have "timer_slots_ok timer_boot" by (simp add: timer_slots_ok_def timer_boot_def list_all_iff)
  then show "timer_slots_ok (run (\<lambda>x s. fst (timer_exec x s)) ops timer_boot)"
    by (intro timer_calls.run_inv) (simp add: list_all_iff)
  have "quiet (timer_release t)" for t by (simp add: timer_release_def split: option.split)
  then show "lock_ok False (snd (timer_exec x s))"
    by (cases x) (auto simp: timer_op_defs Let_def lock_simps split: option.split)
qed

text \<open>Creating a timer under a new name of at most 23 characters, with room in the table, returns
  a handle under which lookups by that name find it, stopped, with its configuration and count 0, leaves every
  lookup of another name alone; creating it again under the same name returns NULL.\<close>

theorem os_timer_create_find:
  assumes "timer_slots_ok s" and "ts_initialised s" and "tab_uniq timer_used t_name (ts_timers s)"
    and "tc_name c = Some n" and "n \<noteq> []" and "length n < OS_TIMER_NAME_LEN" and "tc_period_ms c \<noteq> 0"
    and "timer_find_by_name_locked n s = None" and "count_if timer_used (ts_timers s) < OS_TIMER_MAX_TIMERS"
    and "os_timer_create ms (Some h) (Some c) s = (r, s', tr)"
  shows "fst (os_timer_find (Some n) s') = r \<and> r \<noteq> None \<and>
    ts_timers s' ! the r = \<lparr>t_handle = Some h, t_name = n, t_period_ms = tc_period_ms c,
      t_reload = tc_reload c, t_active = False, t_fire_count = 0, t_callback = tc_callback c, t_arg = tc_arg c\<rparr> \<and>
    (\<forall>m. m \<noteq> n \<longrightarrow> fst (os_timer_find (Some m) s') = fst (os_timer_find (Some m) s)) \<and>
    fst (os_timer_create ms (Some h') (Some c) s') = None \<and> tab_uniq timer_used t_name (ts_timers s')"
proof -
  obtain i where i: "tab_free timer_used (ts_timers s) = Some i"
    using assms(1,9) tab_free_None [of timer_used "ts_timers s"]
    by (cases "tab_free timer_used (ts_timers s)") (auto simp: timer_slots_ok_def)
  let ?t = "\<lparr>t_handle = Some h, t_name = n, t_period_ms = tc_period_ms c,
      t_reload = tc_reload c, t_active = False, t_fire_count = 0, t_callback = tc_callback c, t_arg = tc_arg c\<rparr>"
  have s': "r = Some i" "ts_timers s' = (ts_timers s)[i := ?t]" "ts_initialised s'"
    using assms i timer_slot_free [OF assms(1)]
    by (auto simp: os_timer_create_def Let_def timer_zero_def)
  have none: "tab_find timer_used t_name (t_name ?t) (ts_timers s) = None"
    using assms(8) by (simp add: timer_find_by_name_locked_def)
  note new = timer_tab.create_new [OF assms(3) none i]
  have "timer_used ?t" by (simp add: timer_used_def)
  with s' new tab_freeD(1) [OF i] assms(2,4-7)
  show ?thesis
    by (simp add: os_timer_find_def timer_find_by_name_locked_def os_timer_create_def)
qed

definition timer_started :: timer_state where
  "timer_started = fst (snd (os_timer_init (Some 1) timer_boot))"

lemma timer_started_eq:
  "timer_started = \<lparr>ts_initialised = True, ts_lock = Some 1, ts_timers = replicate OS_TIMER_MAX_TIMERS timer_zero\<rparr>"
  by (simp add: timer_started_def os_timer_init_def timer_boot_def)

definition timer_conf :: "string \<Rightarrow> bool \<Rightarrow> timer_config" where
  "timer_conf n rl = \<lparr>tc_name = Some n, tc_period_ms = 100, tc_reload = rl, tc_callback = None, tc_arg = 0\<rparr>"

theorem os_timer_create_find_witness:
  "fst (os_timer_find (Some ''tick'') (fst (snd (os_timer_create id (Some 9) (Some (timer_conf ''tick'' True)) timer_started)))) = Some 0"
proof -
  have "fst (os_timer_create id (Some 9) (Some (timer_conf ''tick'' True)) timer_started) = Some 0" by code_simp
  then obtain s' tr where c: "os_timer_create id (Some 9) (Some (timer_conf ''tick'' True)) timer_started = (Some 0, s', tr)"
    by (metis prod.collapse)
  have "timer_slots_ok timer_started" "tab_uniq timer_used t_name (ts_timers timer_started)"
    "timer_find_by_name_locked ''tick'' timer_started = None" "count_if timer_used (ts_timers timer_started) < OS_TIMER_MAX_TIMERS"
    by (simp_all add: timer_started_eq timer_slots_ok_def list_all_iff timer_used_def count_if_def
        timer_find_by_name_locked_def tab_find_replicate tab_uniq_replicate OS_TIMER_MAX_TIMERS_def)
  from os_timer_create_find [OF this(1) _ this(2) _ _ _ _ this(3,4) c]
  have "fst (os_timer_find (Some ''tick'') s') = Some 0"
    by (simp add: timer_conf_def timer_started_eq OS_TIMER_NAME_LEN_def)
  then show ?thesis by (simp add: c)
qed

section \<open>Against the timers of FreeRTOS\<close>

text \<open>What the calls do to the set of running FreeRTOS timers, as FreeRTOS documents them.\<close>

fun rt_call :: "timer_call \<Rightarrow> (nat \<Rightarrow> bool) \<Rightarrow> (nat \<Rightarrow> bool)" where
  "rt_call (XTimerStart h rc) rt = (if rc then rt(h := True) else rt)"
| "rt_call (XTimerStop h rc) rt = (if rc then rt(h := False) else rt)"
| "rt_call (XTimerDelete h) rt = rt(h := False)"
| "rt_call (XTimerChangePeriod h p rc) rt = (if rc then rt(h := True) else rt)"
| "rt_call (XTimerCreate n p rl i (Some h)) rt = rt(h := False)"
| "rt_call _ rt = rt"

definition rt_calls :: "timer_call eff list \<Rightarrow> (nat \<Rightarrow> bool) \<Rightarrow> (nat \<Rightarrow> bool)" where
  "rt_calls tr rt = fold rt_call (ext_calls tr) rt"

text \<open>
  One step of the system: a call of the API (a new FreeRTOS timer is none of those in use), or
  the expiry of a running timer, which stops it unless it reloads.
\<close>

inductive tstep :: "timer_state \<times> (nat \<Rightarrow> bool) \<Rightarrow> timer_state \<times> (nat \<Rightarrow> bool) \<Rightarrow> bool" where
  create: "os_timer_create ms h c s = (r, s', tr) \<Longrightarrow>
    (\<And>th. h = Some th \<Longrightarrow> Some th \<notin> t_handle ` set (ts_timers s)) \<Longrightarrow> tstep (s, rt) (s', rt_calls tr rt)"
| delete: "os_timer_delete t s = (r, s', tr) \<Longrightarrow> tstep (s, rt) (s', rt_calls tr rt)"
| start: "os_timer_start rc t s = (r, s', tr) \<Longrightarrow> tstep (s, rt) (s', rt_calls tr rt)"
| stop: "os_timer_stop rc t s = (r, s', tr) \<Longrightarrow> tstep (s, rt) (s', rt_calls tr rt)"
| restart: "os_timer_restart ms rc t p s = (r, s', tr) \<Longrightarrow> tstep (s, rt) (s', rt_calls tr rt)"
| expire: "i < length (ts_timers s) \<Longrightarrow> t_handle (ts_timers s ! i) = Some h \<Longrightarrow> rt h \<Longrightarrow>
    timer_callback (Some i) s = (s', tr) \<Longrightarrow>
    tstep (s, rt) (s', if t_reload (ts_timers s ! i) then rt else rt(h := False))"

inductive_cases tstepE: "tstep (s, rt) x"

definition t_inv :: "timer_state \<times> (nat \<Rightarrow> bool) \<Rightarrow> bool" where
  "t_inv x \<longleftrightarrow> (case x of (s, rt) \<Rightarrow>
     ts_initialised s \<and> timer_slots_ok s \<and> tab_uniq timer_used t_handle (ts_timers s) \<and>
     (\<forall>t \<in> set (ts_timers s). \<forall>h. t_handle t = Some h \<longrightarrow>
        (rt h \<longrightarrow> t_active t) \<and> (t_reload t \<longrightarrow> t_active t = rt h)))"

text \<open>One entry changes, and FreeRTOS at most the timer of that entry.\<close>

lemma t_inv_set:
  assumes "t_inv (s, rt)" and "i < length (ts_timers s)" and "t_handle (ts_timers s ! i) = Some h"
    and "timer_entry_ok t" and "t_handle t = None \<or> t_handle t = Some h"
    and "t_handle t = Some h \<Longrightarrow> (b \<longrightarrow> t_active t) \<and> (t_reload t \<longrightarrow> t_active t = b)"
  shows "t_inv (s\<lparr>ts_timers := (ts_timers s)[i := t]\<rparr>, rt(h := b))"
proof -
  have inv: "ts_initialised s" "timer_slots_ok s" "tab_uniq timer_used t_handle (ts_timers s)"
    "t_handle x = Some k \<Longrightarrow> x \<in> set (ts_timers s) \<Longrightarrow> (rt k \<longrightarrow> t_active x) \<and> (t_reload x \<longrightarrow> t_active x = rt k)"
    for x k using assms(1) by (auto simp: t_inv_def)
  have other: "t_handle (ts_timers s ! j) \<noteq> Some h" if "j < length (ts_timers s)" "j \<noteq> i" for j
    using tab_uniqD [OF inv(3), of j i] that assms(2,3) by (auto simp: timer_used_def)
  have "(rt(h := b)) k \<longrightarrow> t_active x" "t_reload x \<longrightarrow> t_active x = (rt(h := b)) k"
    if "x \<in> set ((ts_timers s)[i := t])" "t_handle x = Some k" for x k
  proof -
    obtain j where j: "j < length (ts_timers s)" "x = (ts_timers s)[i := t] ! j"
      using \<open>x \<in> set ((ts_timers s)[i := t])\<close> by (auto simp: in_set_conv_nth)
    have "((rt(h := b)) k \<longrightarrow> t_active x) \<and> (t_reload x \<longrightarrow> t_active x = (rt(h := b)) k)"
    proof (cases "j = i")
      case True
      with j assms(5,6) that(2) show ?thesis by auto
    next
      case False
      with j have x: "x = ts_timers s ! j" by simp
      with other [OF j(1) False] that(2) have "k \<noteq> h" by auto
      with inv(4) [OF that(2)] x j(1) show ?thesis by simp
    qed
    then show "(rt(h := b)) k \<longrightarrow> t_active x" "t_reload x \<longrightarrow> t_active x = (rt(h := b)) k" by blast+
  qed
  moreover have "tab_uniq timer_used t_handle ((ts_timers s)[i := t])"
  proof (cases "t_handle t")
    case None
    then show ?thesis by (intro tab_uniq_clear inv(3)) (simp add: timer_used_def)
  next
    case (Some k)
    with assms(3,5) show ?thesis by (intro tab_uniq_keep inv(3) assms(2)) (auto simp: timer_used_def)
  qed
  ultimately show ?thesis
    using inv(1,2) assms(4) by (simp add: t_inv_def timer_slots_ok_def list_all_update)
qed

lemma os_timer_create_cases:
  assumes "os_timer_create ms h config s = (r, s', tr)"
  obtains (none) "s' = s" "ext_calls tr = []"
  | (slot) i t where "timer_find_slot s = Some i" "s' = s\<lparr>ts_timers := (ts_timers s)[i := t]\<rparr>" "t_handle t = h"
      "\<not> t_active t" "\<And>rt. rt_calls tr rt = (case h of None \<Rightarrow> rt | Some th \<Rightarrow> rt(th := False))"
proof (cases config)
  case None
  with assms none show ?thesis by (simp add: os_timer_create_def)
next
  case (Some c)
  show ?thesis
  proof (cases "tc_name c")
    case None
    with assms none Some show ?thesis by (simp add: os_timer_create_def)
  next
    case n: (Some n)
    show ?thesis
    proof (cases "\<not> ts_initialised s \<or> n = [] \<or> tc_period_ms c = 0 \<or> timer_find_by_name_locked n s \<noteq> None \<or>
        timer_find_slot s = None")
      case True
      with assms Some n none show ?thesis by (auto simp: os_timer_create_def split: if_splits)
    next
      case False
      then obtain i where i: "timer_find_slot s = Some i" by auto
      with False assms Some n slot [OF i] show ?thesis
        by (cases h) (auto simp: os_timer_create_def Let_def rt_calls_def)
    qed
  qed
qed

lemma t_inv_create:
  assumes "t_inv (s, rt)" and "os_timer_create ms h c s = (r, s', tr)"
    and "\<And>th. h = Some th \<Longrightarrow> Some th \<notin> t_handle ` set (ts_timers s)"
  shows "t_inv (s', rt_calls tr rt)"
  using assms(2)
proof (cases rule: os_timer_create_cases)
  case none
  with assms(1) show ?thesis by (simp add: rt_calls_def)
next
  case (slot i t)
  note s' = slot(2) and t = slot(3,4) and rt = slot(5) [of rt]
  have ok: "timer_slots_ok s" using assms(1) by (simp add: t_inv_def)
  have ok': "timer_slots_ok s'" using timer_step_ok [OF ok, of "TCreate ms h c"] assms(2) by simp
  have free: "i < length (ts_timers s)" "\<not> timer_used (ts_timers s ! i)"
    using slot(1) timer_slot_free [OF ok] by (auto dest: tab_freeD)
  have old: "x \<in> set (ts_timers s) \<Longrightarrow> t_handle x = Some k \<Longrightarrow> rt_calls tr rt k = rt k" for x k
    using assms(3) by (cases h) (auto simp: rt image_iff)
  have "tab_uniq timer_used t_handle (ts_timers s')"
  proof (cases h)
    case None
    then show ?thesis
      using assms(1) t(1) by (simp add: s' t_inv_def tab_uniq_clear timer_used_def)
  next
    case (Some th)
    have "tab_find timer_used t_handle (t_handle t) (ts_timers s) = None"
      using assms(3) Some t(1) by (auto simp: tab_find_None image_iff)
    moreover have "slot_table timer_used (\<lambda>_. timer_zero)" by unfold_locales (simp add: timer_used_def)
    ultimately show ?thesis
      using assms(1) slot_table.uniq_fill [of timer_used "\<lambda>_. timer_zero" t_handle "ts_timers s" t i]
      by (simp add: s' t_inv_def)
  qed
  moreover have "(rt_calls tr rt k \<longrightarrow> t_active x) \<and> (t_reload x \<longrightarrow> t_active x = rt_calls tr rt k)"
    if "x \<in> set (ts_timers s')" "t_handle x = Some k" for x k
    using set_update_cases [of x "ts_timers s" i t] that t rt old assms(1)
    by (auto simp: s' t_inv_def)
  moreover have "ts_initialised s'" using assms(1) by (simp add: s' t_inv_def)
  ultimately show ?thesis using ok' by (simp add: t_inv_def)
qed

lemma t_inv_entry:
  assumes "t_inv (s, rt)" and "i < length (ts_timers s)"
  shows "timer_entry_ok (ts_timers s ! i)"
    and "t_handle (ts_timers s ! i) = Some h \<Longrightarrow> (rt h \<longrightarrow> t_active (ts_timers s ! i)) \<and>
      (t_reload (ts_timers s ! i) \<longrightarrow> t_active (ts_timers s ! i) = rt h)"
  using assms by (auto simp: t_inv_def timer_slots_ok_def list_all_length)

text \<open>A successful start, stop or restart.\<close>

lemma t_inv_flag:
  assumes "t_inv (s, rt)" and "i < length (ts_timers s)" and "t_handle (ts_timers s ! i) = Some h"
    and "\<And>t. t_handle (f t) = t_handle t \<and> t_name (f t) = t_name t \<and> t_active (f t) = b"
  shows "t_inv (timer_set i f s, rt(h := b))"
  unfolding timer_set_def
proof (rule t_inv_set [OF assms(1-3)])
  show "timer_entry_ok (f (ts_timers s ! i))"
    using t_inv_entry(1) [OF assms(1,2)] assms(3,4) by (simp add: timer_entry_ok_def)
qed (use assms(3,4) in simp_all)

lemma t_inv_step: "tstep x y \<Longrightarrow> t_inv x \<Longrightarrow> t_inv y"
proof (induction rule: tstep.induct)
  case (create ms h c s r s' tr rt)
  then show ?case using t_inv_create by blast
next
  case (delete t s r s' tr rt)
  then show ?case
    by (auto simp: os_timer_delete_def rt_calls_def split: option.splits dest!: timer_handleD intro!: t_inv_set)
next
  case (start rc t s r s' tr rt)
  then show ?case
    by (auto simp: os_timer_start_def rt_calls_def split: option.splits if_splits
        dest!: timer_handleD intro!: t_inv_flag)
next
  case (stop rc t s r s' tr rt)
  then show ?case
    by (auto simp: os_timer_stop_def rt_calls_def split: option.splits if_splits
        dest!: timer_handleD intro!: t_inv_flag)
next
  case (restart ms rc t p s r s' tr rt)
  then show ?case
    by (auto simp: os_timer_restart_def rt_calls_def split: option.splits if_splits
        dest!: timer_handleD intro!: t_inv_flag)
next
  case (expire i s h rt s' tr)
  let ?t = "(ts_timers s ! i)\<lparr>t_fire_count := t_fire_count (ts_timers s ! i) + 1\<rparr>"
  have s': "s' = s\<lparr>ts_timers := (ts_timers s)[i := ?t]\<rparr>"
    using expire.hyps(4) by (simp add: timer_callback_def Let_def)
  have e: "timer_entry_ok ?t" using t_inv_entry(1) [OF expire.prems expire.hyps(1)] by (simp add: timer_entry_ok_def)
  note a = t_inv_entry(2) [OF expire.prems expire.hyps(1,2)]
  show ?case
  proof (cases "t_reload (ts_timers s ! i)")
    case True
    have "t_inv (s', rt(h := True))"
      unfolding s' using expire e a True by (intro t_inv_set) auto
    with True expire.hyps(3) show ?thesis by (simp add: fun_upd_idem)
  next
    case False
    then show ?thesis unfolding s' using expire e a by (auto intro!: t_inv_set)
  qed
qed

lemma t_inv_reach: "tstep\<^sup>*\<^sup>* x y \<Longrightarrow> t_inv x \<Longrightarrow> t_inv y"
  by (induction rule: rtranclp_induct) (auto intro: t_inv_step)



text \<open>A timer that does not reload keeps reporting itself active after it has expired, although
  FreeRTOS has stopped it.\<close>

theorem one_shot_stays_active:
  assumes "tstep\<^sup>*\<^sup>* (timer_started, \<lambda>_. False) (s, rt)"
    and "i < length (ts_timers s)" and "t_handle (ts_timers s ! i) = Some h" and "rt h"
    and "\<not> t_reload (ts_timers s ! i)" and "s' = fst (timer_callback (Some i) s)"
  shows "tstep (s, rt) (s', rt(h := False)) \<and> os_timer_is_active (Some i) s'"
proof
  have "timer_callback (Some i) s = (s', snd (timer_callback (Some i) s))"
    using assms(6) by simp
  from tstep.expire [where rt = rt, OF assms(2-4) this] assms(5) show "tstep (s, rt) (s', rt(h := False))" by simp
  have "t_inv (timer_started, \<lambda>_. False)"
    by (simp add: t_inv_def timer_started_eq timer_slots_ok_def list_all_iff tab_uniq_replicate timer_used_def)
  then have "t_inv (s, rt)" using t_inv_reach assms(1) by blast
  from t_inv_entry(2) [OF this assms(2,3)] assms(2-4,6)
  show "os_timer_is_active (Some i) s'" by (simp add: os_timer_is_active_def timer_callback_def Let_def)
qed

definition timer_shot :: timer_state where
  "timer_shot = fst (snd (os_timer_create id (Some 9) (Some (timer_conf ''once'' False)) timer_started))"

definition timer_shot_on :: timer_state where
  "timer_shot_on = fst (snd (os_timer_start True (Some 0) timer_shot))"

theorem one_shot_stays_active_witness:
  "os_timer_is_active (Some 0) (fst (timer_callback (Some 0) timer_shot_on))"
proof -
  let ?tr1 = "snd (snd (os_timer_create id (Some 9) (Some (timer_conf ''once'' False)) timer_started))"
  let ?tr2 = "snd (snd (os_timer_start True (Some 0) timer_shot))"
  have "tstep (timer_started, \<lambda>_. False) (timer_shot, rt_calls ?tr1 (\<lambda>_. False))"
    by (rule tstep.create [where h = "Some 9"]) (auto simp: timer_started_eq timer_shot_def prod_eq_iff)
  moreover have "tstep (timer_shot, rt_calls ?tr1 (\<lambda>_. False)) (timer_shot_on, rt_calls ?tr2 (rt_calls ?tr1 (\<lambda>_. False)))"
    by (rule tstep.start) (auto simp: timer_shot_on_def prod_eq_iff)
  ultimately have r: "tstep\<^sup>*\<^sup>* (timer_started, \<lambda>_. False) (timer_shot_on, rt_calls ?tr2 (rt_calls ?tr1 (\<lambda>_. False)))"
    by (meson rtranclp.rtrancl_into_rtrancl rtranclp.rtrancl_refl)
  have "ext_calls ?tr2 = [XTimerStart 9 True]" "0 < length (ts_timers timer_shot_on)"
    "t_handle (ts_timers timer_shot_on ! 0) = Some 9" "\<not> t_reload (ts_timers timer_shot_on ! 0)"
    by code_simp+
  then show ?thesis using one_shot_stays_active [OF r, of 0 9] by (simp add: rt_calls_def)
qed

end
