(* ===== verification/Scheduler.thy ===== *)
theory Scheduler
  imports Kernel
begin

text \<open>
  Delayed, repeated and background commands, \<^verbatim>\<open>src/components/os_scheduler/src/os_scheduler.c\<close>.

  A job is an entry of a table of 8; its FreeRTOS timer expires into \<open>sched_timer_callback\<close>, which
  queues the address of the entry (here its index); one worker task takes indices from the queue,
  runs the command of the entry without holding the mutex, then marks a one-shot entry completed.
  The interleavings of callers, timers and worker are the step relation \<open>sstep\<close>, one step per
  section that the code runs without interruption by the others.  \<open>ms\<close> is \<^verbatim>\<open>pdMS_TO_TICKS\<close>;
  the results of FreeRTOS calls are arguments.
\<close>

section \<open>State\<close>

definition OS_SCHED_MAX_JOBS :: nat where "OS_SCHED_MAX_JOBS = 8"
definition OS_SCHED_NAME_LEN :: nat where "OS_SCHED_NAME_LEN = 24"

record sched_job =
  j_name :: string
  j_command :: string
  j_fd :: int
  j_delay_ms :: "32 word"
  j_repeat :: bool
  j_running :: bool
  j_completed :: bool
  j_fire_count :: "32 word"
  j_timer :: "nat option"

record sched_state =
  s_initialised :: bool
  s_lock :: "nat option"
  s_queue :: "nat option"
  s_worker :: "nat option"
  s_jobs :: "sched_job list"

definition job_zero :: sched_job where
  "job_zero = \<lparr>j_name = [], j_command = [], j_fd = 0, j_delay_ms = 0, j_repeat = False, j_running = False,
     j_completed = False, j_fire_count = 0, j_timer = None\<rparr>"

definition sched_boot :: sched_state where
  "sched_boot = \<lparr>s_initialised = False, s_lock = None, s_queue = None, s_worker = None,
     s_jobs = replicate OS_SCHED_MAX_JOBS job_zero\<rparr>"

datatype sched_call =
    SLockCreate | SLockDelete | SQueueCreate nat | SQueueDelete | SWorkerCreate string "32 word" "32 word"
  | SWorkerDelete | SQueueSend nat
  | STimerCreate string "32 word" bool nat | STimerStart nat | STimerStop nat | STimerDelete nat
  | SShellExecute int string | SCalloc | SFree nat | SKernel "kernel_call eff list"
  | STaskDeleteSelf | SUart string | SSock int string

section \<open>Helpers\<close>

definition s_fd_write :: "int \<Rightarrow> string \<Rightarrow> sched_call eff" where
  "s_fd_write fd s = (if fd < 0 then Ext (SUart s) else Ext (SSock fd s))"

definition s_fd_printf :: "int \<Rightarrow> string \<Rightarrow> sched_call eff" where
  "s_fd_printf fd formatted = s_fd_write fd (cstr 256 formatted)"

definition job_used :: "sched_job \<Rightarrow> bool" where
  "job_used j \<longleftrightarrow> j_running j \<or> j_completed j \<or> j_timer j \<noteq> None"

definition sched_find_free_slot :: "sched_state \<Rightarrow> nat option" where
  "sched_find_free_slot s = tab_free job_used (s_jobs s)"

definition find_job_locked :: "string \<Rightarrow> sched_state \<Rightarrow> nat option" where
  "find_job_locked name s = tab_find job_used j_name name (s_jobs s)"

section \<open>The worker, the timer callback and background tasks\<close>

text \<open>What the worker does with a queued job: run its command, and then the locked section.\<close>

definition worker_run :: "nat \<Rightarrow> sched_state \<Rightarrow> sched_call eff list" where
  "worker_run i s = [Ext (SShellExecute (j_fd (s_jobs s ! i)) (j_command (s_jobs s ! i)))]"

definition worker_done :: "nat \<Rightarrow> sched_state \<Rightarrow> sched_state \<times> sched_call eff list" where
  "worker_done i s =
     (let j = s_jobs s ! i
      in (if \<not> j_repeat j
          then s\<lparr>s_jobs := (s_jobs s)[i := j\<lparr>j_completed := True, j_running := False\<rparr>]\<rparr> else s,
          [Take, Give]))"

text \<open>The timer callback: counts, then queues without waiting (a full queue drops the job).\<close>

definition sched_timer_callback :: "nat option \<Rightarrow> sched_state \<Rightarrow> sched_state \<times> sched_call eff list" where
  "sched_timer_callback job s =
     (case job of
        None \<Rightarrow> (s, [])
      | Some i \<Rightarrow>
          if s_queue s = None then (s, [])
          else
            let j = s_jobs s ! i
            in (s\<lparr>s_jobs := (s_jobs s)[i := j\<lparr>j_fire_count := j_fire_count j + 1\<rparr>]\<rparr>, [Ext (SQueueSend i)]))"

text \<open>The background task; \<open>a\<close> is the address of its argument block.\<close>

definition bg_task :: "nat \<Rightarrow> int \<Rightarrow> string \<Rightarrow> sched_call eff list" where
  "bg_task a fd command = [Ext (SShellExecute fd command), Ext (SFree a), Ext STaskDeleteSelf]"

section \<open>Starting and stopping\<close>

definition os_scheduler_init ::
  "nat option \<Rightarrow> nat option \<Rightarrow> nat option \<Rightarrow> sched_state \<Rightarrow> esp_err \<times> sched_state \<times> sched_call eff list" where
  "os_scheduler_init lk q worker s =
     (if s_initialised s then (ESP_OK, s, [])
      else
        let s1 = s\<lparr>s_lock := lk, s_queue := q\<rparr>;
            created = [Ext SLockCreate, Ext (SQueueCreate OS_SCHED_MAX_JOBS)]
        in if lk = None \<or> q = None
           then (ESP_ERR_NO_MEM, s1\<lparr>s_lock := None, s_queue := None\<rparr>,
                 created @ (if lk \<noteq> None then [Ext SLockDelete] else []) @
                 (if q \<noteq> None then [Ext SQueueDelete] else []))
           else
             let s2 = s1\<lparr>s_jobs := replicate OS_SCHED_MAX_JOBS job_zero\<rparr>;
                 task = [Ext (SWorkerCreate ''sched_worker'' 3072 4)]
             in case worker of
                  None \<Rightarrow> (ESP_ERR_NO_MEM, s2\<lparr>s_lock := None, s_queue := None\<rparr>,
                           created @ task @ [Ext SLockDelete, Ext SQueueDelete])
                | Some w \<Rightarrow> (ESP_OK, s2\<lparr>s_worker := Some w, s_initialised := True\<rparr>,
                             created @ task @ [Log OS_LOG_INFO ''Scheduler initialized'']))"

definition job_release :: "sched_job \<Rightarrow> sched_call eff list" where
  "job_release j =
     (case j_timer j of None \<Rightarrow> [] | Some h \<Rightarrow> [Ext (STimerStop h), Ext (STimerDelete h)])"

definition os_scheduler_deinit :: "sched_state \<Rightarrow> sched_state \<times> sched_call eff list" where
  "os_scheduler_deinit s =
     (if \<not> s_initialised s then (s, [])
      else
        (s\<lparr>s_jobs := map (\<lambda>_. job_zero) (s_jobs s), s_worker := None, s_queue := None, s_lock := None,
           s_initialised := False\<rparr>,
         [Take] @ concat (map job_release (s_jobs s)) @ [Give] @
         (if s_worker s \<noteq> None then [Ext SWorkerDelete] else []) @
         (if s_queue s \<noteq> None then [Ext SQueueDelete] else []) @
         (if s_lock s \<noteq> None then [Ext SLockDelete] else [])))"

section \<open>Calls\<close>

text \<open>
  \<open>a\<close> is the block \<^verbatim>\<open>calloc\<close> returns, \<open>fn\<close> the address of \<open>bg_task\<close>; the rest are the
  answers of FreeRTOS to \<^verbatim>\<open>os_process_create\<close>.
\<close>

definition os_scheduler_run_background ::
  "32 word \<Rightarrow> 32 word \<Rightarrow> nat option \<Rightarrow> nat option \<Rightarrow> nat \<Rightarrow> string option \<Rightarrow> string option \<Rightarrow> int
   \<Rightarrow> sched_state \<Rightarrow> kernel \<Rightarrow> esp_err \<times> kernel \<times> sched_call eff list" where
  "os_scheduler_run_background stk tick task a fn name command fd s k =
     (case command of
        None \<Rightarrow> (ESP_ERR_INVALID_ARG, k, [])
      | Some c \<Rightarrow>
          if \<not> s_initialised s \<or> c = [] then (ESP_ERR_INVALID_ARG, k, [])
          else
            (case a of
               None \<Rightarrow> (ESP_ERR_NO_MEM, k, [Ext SCalloc])
             | Some b \<Rightarrow>
                 let n = cstr OS_SCHED_NAME_LEN (case name of None \<Rightarrow> ''run'' | Some x \<Rightarrow> x);
                     (pid, k', tr) = os_process_create stk tick task (Some n) (Some fn) b 4096 4 False k
                 in if pid = 0 then (ESP_ERR_NO_MEM, k', [Ext SCalloc, Ext (SKernel tr), Ext (SFree b)])
                    else (ESP_OK, k', [Ext SCalloc, Ext (SKernel tr)])))"

text \<open>\<open>h\<close> is the timer \<^verbatim>\<open>xTimerCreate\<close> returns, \<open>rc\<close> whether starting it succeeds.\<close>

definition os_scheduler_schedule ::
  "(32 word \<Rightarrow> 32 word) \<Rightarrow> nat option \<Rightarrow> bool \<Rightarrow> string option \<Rightarrow> string option \<Rightarrow> 32 word \<Rightarrow> bool \<Rightarrow> int
   \<Rightarrow> sched_state \<Rightarrow> esp_err \<times> sched_state \<times> sched_call eff list" where
  "os_scheduler_schedule ms h rc name command delay_ms repeat fd s =
     (case (name, command) of
        (Some n, Some c) \<Rightarrow>
          if \<not> s_initialised s \<or> n = [] \<or> c = [] \<or> delay_ms = 0 then (ESP_ERR_INVALID_ARG, s, [])
          else if find_job_locked n s \<noteq> None then (ESP_ERR_INVALID_STATE, s, [Take, Give])
          else
            (case sched_find_free_slot s of
               None \<Rightarrow> (ESP_ERR_NO_MEM, s, [Take, Give])
             | Some i \<Rightarrow>
                 let j = job_zero\<lparr>j_name := cstr OS_SCHED_NAME_LEN n, j_command := cstr SHELL_MAX_LINE_LEN c,
                       j_fd := fd, j_delay_ms := delay_ms, j_repeat := repeat, j_running := True\<rparr>;
                     create = Ext (STimerCreate (j_name j) (ms delay_ms) repeat i);
                     cleared = s\<lparr>s_jobs := (s_jobs s)[i := job_zero]\<rparr>
                 in (case h of
                       None \<Rightarrow> (ESP_ERR_NO_MEM, cleared, [Take, create, Give])
                     | Some t \<Rightarrow>
                         if \<not> rc
                         then (ESP_FAIL, cleared, [Take, create, Ext (STimerStart t), Ext (STimerDelete t), Give])
                         else (ESP_OK, s\<lparr>s_jobs := (s_jobs s)[i := j\<lparr>j_timer := Some t\<rparr>]\<rparr>,
                               [Take, create, Ext (STimerStart t), Give])))
      | _ \<Rightarrow> (ESP_ERR_INVALID_ARG, s, []))"

definition os_scheduler_cancel :: "string option \<Rightarrow> sched_state \<Rightarrow> esp_err \<times> sched_state \<times> sched_call eff list" where
  "os_scheduler_cancel name s =
     (case name of
        None \<Rightarrow> (ESP_ERR_INVALID_ARG, s, [])
      | Some n \<Rightarrow>
          if \<not> s_initialised s then (ESP_ERR_INVALID_ARG, s, [])
          else
            (case find_job_locked n s of
               None \<Rightarrow> (ESP_ERR_NOT_FOUND, s, [Take, Give])
             | Some i \<Rightarrow>
                 (ESP_OK, s\<lparr>s_jobs := (s_jobs s)[i := job_zero]\<rparr>,
                  [Take] @ job_release (s_jobs s ! i) @ [Give])))"

definition sched_row :: "string \<Rightarrow> string \<Rightarrow> string \<Rightarrow> string \<Rightarrow> string \<Rightarrow> string" where
  "sched_row a b c d e = padr 24 a @ '' '' @ padr 8 b @ '' '' @ padr 8 c @ '' '' @ padr 10 d @ '' '' @ e @ crlf"

definition os_scheduler_list :: "int \<Rightarrow> sched_state \<Rightarrow> sched_call eff list" where
  "os_scheduler_list fd s =
     (if \<not> s_initialised s then [s_fd_printf fd (''Scheduler not initialised'' @ crlf)]
      else
        [s_fd_printf fd (crlf @ sched_row ''Name'' ''Delay'' ''Mode'' ''State'' ''Fires''),
         s_fd_printf fd (sched_row ''----'' ''-----'' ''----'' ''-----'' ''-----''), Take] @
        map (\<lambda>j. s_fd_printf fd (sched_row (j_name j) (dec (unat (j_delay_ms j)))
                   (if j_repeat j then ''repeat'' else ''once'')
                   (if j_completed j then ''done'' else ''running'') (dec (unat (j_fire_count j)))))
          (filter job_used (s_jobs s)) @
        [Give, s_fd_write fd crlf])"

definition os_scheduler_is_running :: "string option \<Rightarrow> sched_state \<Rightarrow> bool \<times> sched_call eff list" where
  "os_scheduler_is_running name s =
     (case name of
        None \<Rightarrow> (False, [])
      | Some n \<Rightarrow>
          if \<not> s_initialised s then (False, [])
          else (case find_job_locked n s of None \<Rightarrow> False | Some i \<Rightarrow> j_running (s_jobs s ! i), [Take, Give]))"

section \<open>Invariant of the table\<close>

interpretation job_tab: slot_table job_used j_name "\<lambda>j. (j_fd j, j_command j, j_repeat j)" "\<lambda>_. job_zero"
  by unfold_locales (simp add: job_used_def job_zero_def)

definition job_ok :: "sched_job \<Rightarrow> bool" where
  "job_ok j \<longleftrightarrow> length (j_name j) < OS_SCHED_NAME_LEN \<and> length (j_command j) < SHELL_MAX_LINE_LEN \<and>
     \<not> (j_running j \<and> j_completed j) \<and> (j_running j \<longrightarrow> j_timer j \<noteq> None)"

definition sched_wf :: "sched_state \<Rightarrow> bool" where
  "sched_wf s \<longleftrightarrow> length (s_jobs s) = OS_SCHED_MAX_JOBS \<and> list_all job_ok (s_jobs s) \<and>
     (s_initialised s \<longrightarrow> s_lock s \<noteq> None \<and> s_queue s \<noteq> None \<and> s_worker s \<noteq> None)"

datatype sched_op =
    SInit "nat option" "nat option" "nat option" | SDeinit
  | SSchedule "32 word \<Rightarrow> 32 word" "nat option" bool "string option" "string option" "32 word" bool int
  | SCancel "string option" | SFire "nat option" | SDone nat

primrec sched_exec :: "sched_op \<Rightarrow> sched_state \<Rightarrow> sched_state \<times> sched_call eff list" where
  "sched_exec (SInit lk q w) s = snd (os_scheduler_init lk q w s)"
| "sched_exec SDeinit s = os_scheduler_deinit s"
| "sched_exec (SSchedule ms h rc n c d r fd) s = snd (os_scheduler_schedule ms h rc n c d r fd s)"
| "sched_exec (SCancel n) s = snd (os_scheduler_cancel n s)"
| "sched_exec (SFire i) s = sched_timer_callback i s"
| "sched_exec (SDone i) s = worker_done i s"

lemma job_zero_ok [simp]: "job_ok job_zero"
  by (simp add: job_ok_def job_zero_def OS_SCHED_NAME_LEN_def SHELL_MAX_LINE_LEN_def)

lemma job_zero_unused [simp]: "\<not> job_used job_zero"
  by (simp add: job_used_def job_zero_def)

lemma job_new_ok:
  "job_ok (job_zero\<lparr>j_name := cstr OS_SCHED_NAME_LEN n, j_command := cstr SHELL_MAX_LINE_LEN c, j_fd := fd,
     j_delay_ms := d, j_repeat := r, j_running := True, j_timer := Some t\<rparr>)"
  using cstr_fits [of OS_SCHED_NAME_LEN n] cstr_fits [of SHELL_MAX_LINE_LEN c]
  by (simp add: job_ok_def job_zero_def OS_SCHED_NAME_LEN_def SHELL_MAX_LINE_LEN_def del: length_cstr)

lemma sched_step_wf:
  assumes "sched_wf s"
  shows "sched_wf (fst (sched_exec x s))"
proof (cases x)
  case (SInit lk q w)
  with assms show ?thesis
    by (auto simp: os_scheduler_init_def sched_wf_def Let_def list_all_iff split: option.split)
next
  case SDeinit
  with assms show ?thesis by (simp add: os_scheduler_deinit_def sched_wf_def list_all_iff)
next
  case (SSchedule ms h rc n c d r fd)
  with assms job_new_ok show ?thesis
    by (auto simp: os_scheduler_schedule_def sched_wf_def Let_def split: option.split intro!: list_all_update)
next
  case (SCancel n)
  with assms show ?thesis
    by (auto simp: os_scheduler_cancel_def sched_wf_def split: option.split intro!: list_all_update)
next
  case (SFire i)
  have "list_all job_ok ((s_jobs s)[k := (s_jobs s ! k)\<lparr>j_fire_count := j_fire_count (s_jobs s ! k) + 1\<rparr>])" for k
    using assms list_all_update_at [where P = job_ok and i = k and f = "\<lambda>j. j\<lparr>j_fire_count := j_fire_count j + 1\<rparr>"]
    by (simp add: sched_wf_def job_ok_def)
  with SFire assms show ?thesis
    by (auto simp: sched_timer_callback_def sched_wf_def Let_def split: option.split)
next
  case (SDone i)
  have "list_all job_ok ((s_jobs s)[i := (s_jobs s ! i)\<lparr>j_completed := True, j_running := False\<rparr>])"
    using assms list_all_update_at [where P = job_ok and i = i and
        f = "\<lambda>j. j\<lparr>j_completed := True, j_running := False\<rparr>"]
    by (simp add: sched_wf_def job_ok_def)
  with SDone assms show ?thesis by (simp add: worker_done_def sched_wf_def Let_def)
qed

interpretation sched_calls: guarded "\<lambda>x s. fst (sched_exec x s)" "\<lambda>_. True" sched_wf
  by unfold_locales (rule sched_step_wf)

text \<open>After any sequence of scheduler calls, timer expiries and worker completions from boot, names
  and commands fit their arrays, no job is both running and completed, a running job has a timer, and an
  initialised scheduler has its mutex, queue and worker; and every call follows the mutex discipline.\<close>

theorem scheduler_run_wf:
  "sched_wf (run (\<lambda>x s. fst (sched_exec x s)) ops sched_boot) \<and> lock_ok False (snd (sched_exec x s))"
proof
  have "sched_wf sched_boot" by (simp add: sched_wf_def sched_boot_def list_all_iff)
  then show "sched_wf (run (\<lambda>x s. fst (sched_exec x s)) ops sched_boot)"
    by (intro sched_calls.run_inv) (simp add: list_all_iff)
  have "quiet (job_release j)" for j by (simp add: job_release_def split: option.split)
  then show "lock_ok False (snd (sched_exec x s))"
    by (cases x)
      (auto simp: os_scheduler_init_def os_scheduler_deinit_def os_scheduler_schedule_def os_scheduler_cancel_def
        sched_timer_callback_def worker_done_def Let_def lock_simps split: option.split)
qed

section \<open>Callers, timers and worker together\<close>

text \<open>
  \<open>w_queue\<close> is the FreeRTOS queue (8 entries, first in first out), \<open>w_busy\<close> the entry whose
  command the worker is running, \<open>w_asked\<close> the outputs and commands of the successful
  calls of \<^verbatim>\<open>os_scheduler_schedule\<close> and \<open>w_ran\<close> those the worker has run.
\<close>

record world =
  w_sched :: sched_state
  w_queue :: "nat list"
  w_busy :: "nat option"
  w_asked :: "(int \<times> string) list"
  w_ran :: "(int \<times> string) list"

text \<open>\<open>cancels\<close> says whether callers may cancel jobs.\<close>

inductive sstep :: "bool \<Rightarrow> world \<Rightarrow> world \<Rightarrow> bool" for cancels :: bool where
  schedule: "os_scheduler_schedule ms h rc (Some n) (Some c) d r fd (w_sched w) = (res, s', tr) \<Longrightarrow>
    sstep cancels w (w\<lparr>w_sched := s', w_asked :=
      (if res = ESP_OK then w_asked w @ [(fd, cstr SHELL_MAX_LINE_LEN c)] else w_asked w)\<rparr>)"
| cancel: "cancels \<Longrightarrow> os_scheduler_cancel n (w_sched w) = (res, s', tr) \<Longrightarrow> sstep cancels w (w\<lparr>w_sched := s'\<rparr>)"
| fire: "i < length (s_jobs (w_sched w)) \<Longrightarrow> j_timer (s_jobs (w_sched w) ! i) \<noteq> None \<Longrightarrow>
    sched_timer_callback (Some i) (w_sched w) = (s', tr) \<Longrightarrow>
    sstep cancels w (w\<lparr>w_sched := s', w_queue :=
      (if length (w_queue w) < OS_SCHED_MAX_JOBS then w_queue w @ [i] else w_queue w)\<rparr>)"
| take: "w_busy w = None \<Longrightarrow> w_queue w = i # q \<Longrightarrow>
    worker_run i (w_sched w) = [Ext (SShellExecute fd c)] \<Longrightarrow>
    sstep cancels w (w\<lparr>w_queue := q, w_busy := Some i, w_ran := w_ran w @ [(fd, c)]\<rparr>)"
| finish: "w_busy w = Some i \<Longrightarrow> worker_done i (w_sched w) = (s', tr) \<Longrightarrow>
    sstep cancels w (w\<lparr>w_sched := s', w_busy := None\<rparr>)"

inductive_cases sstepE: "sstep cancels w w'"

definition sched_started :: sched_state where
  "sched_started = fst (snd (os_scheduler_init (Some 1) (Some 2) (Some 3) sched_boot))"

lemma sched_started_eq:
  "sched_started = \<lparr>s_initialised = True, s_lock = Some 1, s_queue = Some 2, s_worker = Some 3,
     s_jobs = replicate OS_SCHED_MAX_JOBS job_zero\<rparr>"
  by (simp add: sched_started_def os_scheduler_init_def sched_boot_def)

definition world_start :: world where
  "world_start = \<lparr>w_sched = sched_started, w_queue = [], w_busy = None, w_asked = [], w_ran = []\<rparr>"

text \<open>A table entry is cleared or holds a job that was asked for.\<close>

definition job_asked :: "(int \<times> string) list \<Rightarrow> sched_job \<Rightarrow> bool" where
  "job_asked asked j \<longleftrightarrow> (j_fd j, j_command j) \<in> set asked \<union> {(0, [])}"

definition world_inv :: "world \<Rightarrow> bool" where
  "world_inv w \<longleftrightarrow> length (s_jobs (w_sched w)) = OS_SCHED_MAX_JOBS \<and>
     list_all (job_asked (w_asked w)) (s_jobs (w_sched w)) \<and>
     list_all (\<lambda>i. i < OS_SCHED_MAX_JOBS) (w_queue w) \<and> length (w_queue w) \<le> OS_SCHED_MAX_JOBS \<and>
     (\<forall>i. w_busy w = Some i \<longrightarrow> i < OS_SCHED_MAX_JOBS) \<and>
     set (w_ran w) \<subseteq> set (w_asked w) \<union> {(0, [])}"

lemma job_asked_zero [simp]: "job_asked asked job_zero"
  by (simp add: job_asked_def job_zero_def)

lemma job_asked_mono: "job_asked a j \<Longrightarrow> job_asked (a @ b) j"
  by (auto simp: job_asked_def)

lemma schedule_cases:
  assumes "os_scheduler_schedule ms h rc (Some n) (Some c) d r fd s = (res, s', tr)"
  obtains (same) "res \<noteq> ESP_OK" "s' = s"
  | (cleared) i where "res \<noteq> ESP_OK" "sched_find_free_slot s = Some i"
      "s' = s\<lparr>s_jobs := (s_jobs s)[i := job_zero]\<rparr>"
  | (added) i t where "res = ESP_OK" "sched_find_free_slot s = Some i" "find_job_locked n s = None" "n \<noteq> []" "c \<noteq> []"
      "s' = s\<lparr>s_jobs := (s_jobs s)[i := job_zero\<lparr>j_name := cstr OS_SCHED_NAME_LEN n,
         j_command := cstr SHELL_MAX_LINE_LEN c, j_fd := fd, j_delay_ms := d, j_repeat := r, j_running := True,
         j_timer := Some t\<rparr>]\<rparr>"
proof (cases "\<not> s_initialised s \<or> n = [] \<or> c = [] \<or> d = 0 \<or> find_job_locked n s \<noteq> None \<or> sched_find_free_slot s = None")
  case True
  with assms same show ?thesis by (auto simp: os_scheduler_schedule_def split: if_splits)
next
  case False
  then obtain i where i: "sched_find_free_slot s = Some i" by auto
  show ?thesis
  proof (cases h)
    case None
    with False i assms cleared [OF _ i] show ?thesis by (auto simp: os_scheduler_schedule_def Let_def)
  next
    case (Some t)
    with False i assms cleared [OF _ i] added [OF _ i, of t] show ?thesis
      by (cases rc) (auto simp: os_scheduler_schedule_def Let_def)
  qed
qed

lemma world_inv_step: "sstep cancels w w' \<Longrightarrow> world_inv w \<Longrightarrow> world_inv w'"
proof (induction rule: sstep.induct)
  case (schedule ms h rc n c d r fd w res s' tr)
  from schedule.hyps show ?case
  proof (cases rule: schedule_cases)
    case same
    with schedule.prems show ?thesis by (simp add: world_inv_def)
  next
    case (cleared i)
    with schedule.prems show ?thesis by (simp add: world_inv_def list_all_update)
  next
    case (added i t)
    have "list_all (job_asked (w_asked w @ [(fd, cstr SHELL_MAX_LINE_LEN c)])) (s_jobs (w_sched w))"
      using schedule.prems by (auto simp: world_inv_def list_all_iff job_asked_mono)
    with added schedule.prems show ?thesis
      by (auto simp: world_inv_def job_asked_def intro!: list_all_update)
  qed
next
  case (cancel n w res s' tr)
  then show ?case
    by (auto simp: os_scheduler_cancel_def world_inv_def split: option.splits if_splits intro!: list_all_update)
next
  case (fire i w s' tr)
  have "list_all (job_asked a) ((s_jobs s)[i := (s_jobs s ! i)\<lparr>j_fire_count := f\<rparr>])"
    if "list_all (job_asked a) (s_jobs s)" for a s f
    using that list_all_update_at [where P = "job_asked a" and f = "\<lambda>j. j\<lparr>j_fire_count := f\<rparr>"]
    by (simp add: job_asked_def)
  with fire show ?case
    by (auto simp: sched_timer_callback_def Let_def world_inv_def split: if_splits)
next
  case (take w i q fd c)
  have "job_asked (w_asked w) (s_jobs (w_sched w) ! i)"
    using take by (auto simp: world_inv_def list_all_length)
  with take show ?case by (auto simp: worker_run_def world_inv_def job_asked_def)
next
  case (finish w i s' tr)
  have "list_all (job_asked a) ((s_jobs s)[i := (s_jobs s ! i)\<lparr>j_completed := True, j_running := False\<rparr>])"
    if "list_all (job_asked a) (s_jobs s)" for a s
    using that list_all_update_at [where P = "job_asked a" and f = "\<lambda>j. j\<lparr>j_completed := True, j_running := False\<rparr>"]
    by (simp add: job_asked_def)
  with finish show ?case by (auto simp: worker_done_def Let_def world_inv_def split: if_splits)
qed

lemma world_start_inv: "world_inv world_start"
  by (simp add: world_inv_def world_start_def sched_started_eq list_all_iff)

lemma world_inv_reach: "(sstep cancels)\<^sup>*\<^sup>* w w' \<Longrightarrow> world_inv w \<Longrightarrow> world_inv w'"
  by (induction rule: rtranclp_induct) (auto intro: world_inv_step)

text \<open>Under any interleaving of callers (cancelling included), timers and worker, the queue holds at
  most 8 entries, all of them table indices, and everything the worker ever runs is a command that was
  scheduled, on the output it was scheduled for, or the empty command of a cleared entry.\<close>

theorem worker_runs_scheduled:
  assumes "(sstep cancels)\<^sup>*\<^sup>* world_start w"
  shows "length (w_queue w) \<le> OS_SCHED_MAX_JOBS \<and> list_all (\<lambda>i. i < OS_SCHED_MAX_JOBS) (w_queue w) \<and>
    set (w_ran w) \<subseteq> set (w_asked w) \<union> {(0, [])}"
  using world_inv_reach [OF assms world_start_inv] by (simp add: world_inv_def)

text \<open>Without cancelling, an entry in the queue is a live job, so the empty command is never run.\<close>

definition job_live :: "(int \<times> string) list \<Rightarrow> sched_job \<Rightarrow> bool" where
  "job_live asked j \<longleftrightarrow> j_timer j \<noteq> None \<and> j_name j \<noteq> [] \<and> (j_fd j, j_command j) \<in> set asked \<and>
     (j_completed j \<longrightarrow> \<not> j_repeat j)"

definition steady_inv :: "world \<Rightarrow> bool" where
  "steady_inv w \<longleftrightarrow>
     list_all (\<lambda>j. j = job_zero \<or> job_live (w_asked w) j) (s_jobs (w_sched w)) \<and>
     list_all (\<lambda>i. i < length (s_jobs (w_sched w)) \<and> s_jobs (w_sched w) ! i \<noteq> job_zero) (w_queue w) \<and>
     (\<forall>i. w_busy w = Some i \<longrightarrow> i < length (s_jobs (w_sched w)) \<and> s_jobs (w_sched w) ! i \<noteq> job_zero) \<and>
     set (w_ran w) \<subseteq> set (w_asked w)"

lemma job_live_used: "job_live a j \<Longrightarrow> job_used j"
  by (auto simp: job_live_def job_used_def)

lemma job_live_not_zero: "job_live a j \<Longrightarrow> j \<noteq> job_zero"
  by (auto simp: job_live_def job_zero_def)

lemma steady_inv_jobs:
  assumes "steady_inv w" and "i < length (s_jobs (w_sched w))" and "s_jobs (w_sched w) ! i \<noteq> job_zero"
  shows "job_live (w_asked w) (s_jobs (w_sched w) ! i)"
  using assms by (auto simp: steady_inv_def list_all_length)

text \<open>Changing a live entry into another live one.\<close>

lemma steady_inv_set:
  assumes "steady_inv w" and "i < length (s_jobs (w_sched w))" and "job_live (w_asked w) j"
    and "s_jobs s' = (s_jobs (w_sched w))[i := j]"
  shows "steady_inv (w\<lparr>w_sched := s'\<rparr>)"
proof -
  have "j \<noteq> job_zero" using assms(3) by (rule job_live_not_zero)
  with assms show ?thesis
    by (auto simp: steady_inv_def list_all_iff nth_list_update dest: set_update_cases)
qed

lemma steady_inv_step: "sstep False w w' \<Longrightarrow> steady_inv w \<Longrightarrow> steady_inv w'"
proof (induction rule: sstep.induct)
  case (schedule ms h rc n c d r fd w res s' tr)
  have free: "s_jobs (w_sched w) ! i = job_zero" "i < length (s_jobs (w_sched w))"
    if "sched_find_free_slot (w_sched w) = Some i" for i
    using that tab_freeD [of job_used "s_jobs (w_sched w)" i] steady_inv_jobs [OF schedule.prems, of i] job_live_used
    by (auto simp: sched_find_free_slot_def)
  from schedule.hyps show ?case
  proof (cases rule: schedule_cases)
    case same
    with schedule.prems show ?thesis by (simp add: steady_inv_def)
  next
    case (cleared i)
    have "(s_jobs (w_sched w))[i := job_zero] = s_jobs (w_sched w)"
      using free [OF cleared(2)] list_update_id [of "s_jobs (w_sched w)" i] by simp
    with cleared schedule.prems show ?thesis by (simp add: steady_inv_def)
  next
    case (added i t)
    let ?j = "job_zero\<lparr>j_name := cstr OS_SCHED_NAME_LEN n, j_command := cstr SHELL_MAX_LINE_LEN c, j_fd := fd,
      j_delay_ms := d, j_repeat := r, j_running := True, j_timer := Some t\<rparr>"
    let ?w = "w\<lparr>w_asked := w_asked w @ [(fd, cstr SHELL_MAX_LINE_LEN c)]\<rparr>"
    have live: "job_live (w_asked ?w) ?j"
      using added by (simp add: job_live_def job_zero_def cstr_eq_Nil OS_SCHED_NAME_LEN_def)
    have "steady_inv ?w" using schedule.prems by (auto simp: steady_inv_def list_all_iff job_live_def)
    then have "steady_inv (?w\<lparr>w_sched := s'\<rparr>)"
      using free [OF added(2)] live added(6) by (intro steady_inv_set [of ?w i ?j]) auto
    then show ?thesis using added(1) by (simp add: steady_inv_def)
  qed
next
  case (cancel n w res s' tr)
  then show ?case by simp
next
  case (fire i w s' tr)
  let ?j = "s_jobs (w_sched w) ! i"
  have nz: "?j \<noteq> job_zero" using fire.hyps(2) by (auto simp: job_zero_def)
  note live = steady_inv_jobs [OF fire.prems fire.hyps(1) nz]
  have "steady_inv (w\<lparr>w_sched := s'\<rparr>)"
  proof (cases "s_queue (w_sched w) = None")
    case True
    with fire show ?thesis by (auto simp: sched_timer_callback_def steady_inv_def)
  next
    case False
    have "job_live (w_asked w) (?j\<lparr>j_fire_count := j_fire_count ?j + 1\<rparr>)" using live by (simp add: job_live_def)
    from steady_inv_set [OF fire.prems fire.hyps(1) this] fire.hyps(3) False show ?thesis
      by (auto simp: sched_timer_callback_def Let_def)
  qed
  moreover have "i < length (s_jobs s') \<and> j_timer (s_jobs s' ! i) \<noteq> None"
    using fire.hyps by (auto simp: sched_timer_callback_def Let_def split: if_splits)
  moreover from this have "s_jobs s' ! i \<noteq> job_zero" by (auto simp: job_zero_def)
  ultimately show ?case by (auto simp: steady_inv_def)
next
  case (take w i q fd c)
  then have i: "i < length (s_jobs (w_sched w))" "s_jobs (w_sched w) ! i \<noteq> job_zero"
    by (auto simp: steady_inv_def)
  from steady_inv_jobs [OF take.prems i] take show ?case
    by (auto simp: steady_inv_def worker_run_def job_live_def)
next
  case (finish w i s' tr)
  then have i: "i < length (s_jobs (w_sched w))" "s_jobs (w_sched w) ! i \<noteq> job_zero"
    by (auto simp: steady_inv_def)
  have "steady_inv (w\<lparr>w_sched := s'\<rparr>)"
  proof (cases "j_repeat (s_jobs (w_sched w) ! i)")
    case True
    with finish show ?thesis by (auto simp: worker_done_def Let_def steady_inv_def)
  next
    case False
    then have "job_live (w_asked w) ((s_jobs (w_sched w) ! i)\<lparr>j_completed := True, j_running := False\<rparr>)"
      using steady_inv_jobs [OF finish.prems i] by (simp add: job_live_def)
    from steady_inv_set [OF finish.prems i(1) this] finish.hyps(2) False show ?thesis
      by (auto simp: worker_done_def Let_def)
  qed
  then show ?case by (simp add: steady_inv_def)
qed


theorem worker_runs_scheduled_witness:
  "\<exists>w. (sstep True)\<^sup>*\<^sup>* world_start w \<and> w_queue w = [0] \<and> length (w_queue w) \<le> OS_SCHED_MAX_JOBS"
proof -
  let ?f = "os_scheduler_schedule id (Some 9) True (Some ''a'') (Some ''ps'') 100 False 5 sched_started"
  let ?w = "world_start\<lparr>w_sched := fst (snd ?f), w_asked := [(5, ''ps'')]\<rparr>"
  have "fst ?f = ESP_OK" by code_simp
  then have 1: "sstep True world_start ?w"
    using sstep.schedule [of id "Some 9" True "''a''" "''ps''" 100 False 5 world_start ESP_OK "fst (snd ?f)" "snd (snd ?f)" True]
    by (simp add: world_start_def prod_eq_iff SHELL_MAX_LINE_LEN_def)
  let ?g = "sched_timer_callback (Some 0) (fst (snd ?f))"
  have "0 < length (s_jobs (fst (snd ?f)))" "j_timer (s_jobs (fst (snd ?f)) ! 0) \<noteq> None" by code_simp+
  then have 2: "sstep True ?w (?w\<lparr>w_sched := fst ?g, w_queue := [0]\<rparr>)"
    using sstep.fire [of 0 ?w "fst ?g" "snd ?g" True] by (simp add: world_start_def OS_SCHED_MAX_JOBS_def)
  from 1 2 have r: "(sstep True)\<^sup>*\<^sup>* world_start (?w\<lparr>w_sched := fst ?g, w_queue := [0]\<rparr>)"
    by (meson rtranclp.rtrancl_into_rtrancl rtranclp.rtrancl_refl)
  from worker_runs_scheduled [OF r] r show ?thesis by (intro exI conjI) (assumption, simp_all)
qed


section \<open>Progress of the worker\<close>

definition job_cmd :: "sched_state \<Rightarrow> nat \<Rightarrow> int \<times> string" where
  "job_cmd s i = (j_fd (s_jobs s ! i), j_command (s_jobs s ! i))"

lemma worker_done_cmd: "job_cmd (fst (worker_done i s)) k = job_cmd s k"
proof (cases "k < length (s_jobs s)")
  case True
  then show ?thesis by (cases "i = k") (simp_all add: worker_done_def job_cmd_def Let_def)
next
  case False
  then show ?thesis
    by (cases "i = k") (auto simp: worker_done_def job_cmd_def Let_def list_update_beyond)
qed



section \<open>Cancelling a job that is queued\<close>

text \<open>When a job is cancelled after its timer has queued it, the worker still runs its cleared entry
  (the empty command, on output 0) and marks it completed: the entry has no name, is not free any more, and no
  cancel with a non-empty name finds it.\<close>

theorem cancel_queued_job_leaks_slot:
  assumes "w_busy w = None" and "w_queue w = i # q" and "i < length (s_jobs (w_sched w))"
    and "find_job_locked n (w_sched w) = Some i" 
    and "fst (os_scheduler_cancel (Some n) (w_sched w)) = ESP_OK"
    and "n' \<noteq> []"
  shows "\<exists>w'. (sstep True)\<^sup>*\<^sup>* w w' \<and> w_ran w' = w_ran w @ [(0, [])] \<and>
    j_completed (s_jobs (w_sched w') ! i) \<and> sched_find_free_slot (w_sched w') \<noteq> Some i \<and>
    find_job_locked n' (w_sched w') \<noteq> Some i"
proof -
  let ?c = "os_scheduler_cancel (Some n) (w_sched w)"
  let ?s = "(w_sched w)\<lparr>s_jobs := (s_jobs (w_sched w))[i := job_zero]\<rparr>"
  let ?w1 = "w\<lparr>w_sched := ?s\<rparr>"
  let ?w2 = "?w1\<lparr>w_queue := q, w_busy := Some i, w_ran := w_ran w @ [(0, [])]\<rparr>"
  let ?s3 = "fst (worker_done i ?s)"
  let ?w3 = "?w2\<lparr>w_sched := ?s3, w_busy := None\<rparr>"
  have "os_scheduler_cancel (Some n) (w_sched w) = (ESP_OK, ?s, snd (snd ?c))"
    using assms(4,5) by (auto simp: os_scheduler_cancel_def split: if_splits)
  then have 1: "sstep True w ?w1" by (intro sstep.cancel) simp_all
  have 2: "sstep True ?w1 ?w2"
    using sstep.take [of ?w1 i q 0 "[]" True] assms(1-3) by (simp add: worker_run_def job_zero_def)
  have 3: "sstep True ?w2 ?w3"
    using sstep.finish [of ?w2 i ?s3 "snd (worker_done i ?s)" True] by simp
  have "(sstep True)\<^sup>*\<^sup>* w ?w3" using 1 2 3 by (meson converse_rtranclp_into_rtranclp rtranclp.rtrancl_refl)
  moreover have job: "s_jobs ?s3 ! i = job_zero\<lparr>j_completed := True\<rparr>"
    using assms(3) by (simp add: worker_done_def Let_def job_zero_def)
  moreover have "sched_find_free_slot ?s3 \<noteq> Some i" "find_job_locked n' ?s3 \<noteq> Some i"
    using job assms(6) tab_freeD(2) [of job_used "s_jobs ?s3" i] tab_findD(3) [of job_used j_name n' "s_jobs ?s3" i]
    by (auto simp: sched_find_free_slot_def find_job_locked_def job_used_def job_zero_def)
  ultimately show ?thesis by (intro exI [of _ ?w3]) simp
qed

definition sched_two :: sched_state where
  "sched_two = fst (sched_timer_callback (Some 0)
     (fst (snd (os_scheduler_schedule id (Some 9) True (Some ''a'') (Some ''ps'') 100 False 5 sched_started))))"

theorem cancel_queued_job_leaks_slot_witness:
  "\<exists>w'. (sstep True)\<^sup>*\<^sup>* (world_start\<lparr>w_sched := sched_two, w_queue := [0]\<rparr>) w' \<and>
     sched_find_free_slot (w_sched w') \<noteq> Some 0"
proof -
  have h: "find_job_locked ''a'' sched_two = Some 0" "fst (os_scheduler_cancel (Some ''a'') sched_two) = ESP_OK"
    "0 < length (s_jobs sched_two)"
    by code_simp+
  show ?thesis
    using cancel_queued_job_leaks_slot [of "world_start\<lparr>w_sched := sched_two, w_queue := [0]\<rparr>" 0 "[]" "''a''" "''b''"] h
    by (auto simp: world_start_def)
qed

section \<open>Background commands and the process table\<close>

text \<open>
  The task of a background command ends by deleting itself (\<open>bg_task\<close>), without a call into the
  kernel, so the kernel's table is the one the calls of \<open>os_scheduler_run_background\<close> left.
\<close>

lemma create_live:
  assumes "k_initialised k" and "k_find_slot k = Some i"
  shows "\<exists>p. k_table (fst (snd (os_process_create stk tick (Some h) name (Some f) a st pr sys k))) = (k_table k)[i := p] \<and>
    proc_live p \<and> k_initialised (fst (snd (os_process_create stk tick (Some h) name (Some f) a st pr sys k)))"
  using assms
  by (simp add: os_process_create_def Let_def)
    (intro conjI impI; rule exI, rule conjI, rule refl, simp add: proc_live_def)

lemma background_kernel:
  assumes "s_initialised s" and "c \<noteq> []"
  shows "fst (snd (os_scheduler_run_background stk tick task (Some a) fn name (Some c) fd s k)) =
    fst (snd (os_process_create stk tick task
      (Some (cstr OS_SCHED_NAME_LEN (case name of None \<Rightarrow> ''run'' | Some x \<Rightarrow> x))) (Some fn) a 4096 4 False k))"
  using assms by (simp add: os_scheduler_run_background_def Let_def split_beta)

lemma background_live:
  assumes "s_initialised s" and "c \<noteq> []" and "k_initialised k" and "length (k_table k) = OS_MAX_PROCESSES"
    and "k' = fst (snd (os_scheduler_run_background stk tick (Some h) (Some a) fn name (Some c) fd s k))"
  shows "count_if proc_live (k_table k') = min OS_MAX_PROCESSES (Suc (count_if proc_live (k_table k)))"
    and "k_initialised k'" and "length (k_table k') = OS_MAX_PROCESSES"
proof -
  have "count_if proc_live (k_table k') = min OS_MAX_PROCESSES (Suc (count_if proc_live (k_table k))) \<and>
    k_initialised k' \<and> length (k_table k') = OS_MAX_PROCESSES"
  proof (cases "k_find_slot k")
    case None
    with assms have "k' = k" by (simp add: os_scheduler_run_background_def os_process_create_def Let_def)
    moreover have "count_if proc_live (k_table k) = OS_MAX_PROCESSES"
      using None assms(4) by (simp add: k_find_slot_def tab_free_None)
    ultimately have "k' = k" "count_if proc_live (k_table k) = OS_MAX_PROCESSES" by blast+
    with assms show ?thesis by simp
  next
    case (Some i)
    then have i: "tab_free proc_live (k_table k) = Some i" by (simp add: k_find_slot_def)
    have "\<exists>p. k_table k' = (k_table k)[i := p] \<and> proc_live p \<and> k_initialised k'"
      unfolding assms(5) background_kernel [OF assms(1,2)] by (rule create_live [OF assms(3) Some])
    then obtain p where "k_table k' = (k_table k)[i := p]" "proc_live p" "k_initialised k'" by blast
    moreover have "count_if proc_live (k_table k) < OS_MAX_PROCESSES"
      using count_if_le [of proc_live "k_table k"] tab_free_None [of proc_live "k_table k"] i assms(4) by auto
    ultimately show ?thesis using k_live.count_fill [OF i] assms(4) by simp
  qed
  then show "count_if proc_live (k_table k') = min OS_MAX_PROCESSES (Suc (count_if proc_live (k_table k)))"
    "k_initialised k'" "length (k_table k') = OS_MAX_PROCESSES" by blast+
qed

text \<open>Background commands use up the process table: their tasks end without the kernel noticing, so
  once 20 of them have been started, although all have finished, every further one fails with NO_MEM.\<close>

theorem background_exhausts_processes:
  assumes "s_initialised s" and "c \<noteq> []" and "k_initialised k" and "length (k_table k) = OS_MAX_PROCESSES"
    and "bg = (\<lambda>k. os_scheduler_run_background stk tick (Some h) (Some a) fn name (Some c) fd s k)"
    and "OS_MAX_PROCESSES \<le> n"
  shows "fst (bg (((fst \<circ> snd \<circ> bg) ^^ n) k)) = ESP_ERR_NO_MEM"
proof -
  define g where "g = fst \<circ> snd \<circ> bg"
  have g: "g x = fst (snd (os_scheduler_run_background stk tick (Some h) (Some a) fn name (Some c) fd s x))" for x
    by (simp add: g_def assms(5))
  have inv: "min OS_MAX_PROCESSES m \<le> count_if proc_live (k_table ((g ^^ m) k)) \<and>
      k_initialised ((g ^^ m) k) \<and> length (k_table ((g ^^ m) k)) = OS_MAX_PROCESSES" for m
  proof (induction m)
    case 0
    with assms(3,4) show ?case by simp
  next
    case (Suc m)
    with background_live [OF assms(1,2) _ _ g, of "(g ^^ m) k"] show ?case
      by (auto simp: min_def split: if_splits)
  qed
  have "count_if proc_live (k_table ((g ^^ n) k)) = length (k_table ((g ^^ n) k))"
    using inv [of n] assms(6) count_if_le [of proc_live "k_table ((g ^^ n) k)"] by simp
  then have "k_find_slot ((g ^^ n) k) = None" by (simp add: k_find_slot_def tab_free_None)
  with assms(1,2) inv [of n] have "fst (bg ((g ^^ n) k)) = ESP_ERR_NO_MEM"
    by (simp add: assms(5) os_scheduler_run_background_def os_process_create_def Let_def)
  then show ?thesis by (simp add: g_def)
qed

theorem background_exhausts_processes_witness:
  "fst (os_scheduler_run_background 1 0 (Some 5) (Some 7) 9 None (Some ''ps'') 0 sched_started
     (((fst \<circ> snd \<circ> (\<lambda>k. os_scheduler_run_background 1 0 (Some 5) (Some 7) 9 None (Some ''ps'') 0 sched_started k)) ^^ 20)
       k_started)) = ESP_ERR_NO_MEM"
  using background_exhausts_processes [OF _ _ _ _ refl, of sched_started "''ps''" k_started 20 1 0 5 7 9 None 0]
  by (simp add: sched_started_eq k_started_eq OS_MAX_PROCESSES_def)

end
