(* ===== verification/Ring.thy ===== *)
theory Ring
  imports Prelude
begin

text \<open>
  Ring buffers: a fixed array, the index of the next write, and how many entries are valid.  The
  log, the line history of the shell and the telemetry of the web portal each keep one.

  \<open>ring_contents\<close> reads such a buffer from its oldest entry, \<open>keep_last\<close> is the abstract
  bounded queue.  The locale \<open>ring\<close> states what a push does to the three parts and concludes
  that the buffer holds the last entries pushed.  Its invariant carries a budget, the number of
  pushes for which it is still guaranteed: a component whose counter wraps has a finite one.
\<close>

definition ring_contents :: "nat \<Rightarrow> 'e list \<Rightarrow> nat \<Rightarrow> nat \<Rightarrow> 'e list" where
  "ring_contents depth buf pos cnt =
     map (\<lambda>i. buf ! (((if cnt < depth then 0 else pos) + i) mod depth)) [0..<cnt]"

definition keep_last :: "nat \<Rightarrow> 'e list \<Rightarrow> 'e list" where
  "keep_last n xs = drop (length xs - n) xs"

lemma length_ring_contents [simp]: "length (ring_contents depth buf pos cnt) = cnt"
  by (simp add: ring_contents_def)

lemma length_keep_last: "length (keep_last n xs) = min n (length xs)"
  by (simp add: keep_last_def)

lemma keep_last_short: "length xs \<le> n \<Longrightarrow> keep_last n xs = xs"
  by (simp add: keep_last_def)

lemma keep_last_append: "keep_last n (keep_last n xs @ ys) = keep_last n (xs @ ys)"
proof (cases "length xs \<le> n")
  case False
  then have "length (drop (length xs - n) xs) = n" by simp
  then have "keep_last n (keep_last n xs @ ys) = drop (length ys) (drop (length xs - n) xs @ ys)"
    by (simp add: keep_last_def)
  also have "\<dots> = keep_last n (xs @ ys)"
    using False by (simp add: keep_last_def add.commute)
  finally show ?thesis .
qed (simp add: keep_last_short)

text \<open>One push, first while the ring is filling, then when it is full.\<close>

lemma ring_contents_filling:
  "cnt < depth \<Longrightarrow> length buf = depth \<Longrightarrow> ring_contents depth buf pos cnt = take cnt buf"
  by (rule nth_equalityI) (simp_all add: ring_contents_def)

lemma ring_push_filling:
  assumes "cnt < depth" and "length buf = depth"
  shows "ring_contents depth (buf[cnt := e]) (Suc cnt mod depth) (Suc cnt) = take cnt buf @ [e]"
proof (rule nth_equalityI)
  fix i
  assume "i < length (ring_contents depth (buf[cnt := e]) (Suc cnt mod depth) (Suc cnt))"
  then have i: "i < Suc cnt" by simp
  then have "i < depth" using assms(1) by simp
  have "(if Suc cnt < depth then 0 else Suc cnt mod depth) = 0"
    using assms(1) by (cases "Suc cnt = depth") auto
  then have "ring_contents depth (buf[cnt := e]) (Suc cnt mod depth) (Suc cnt) ! i = buf[cnt := e] ! i"
    using i \<open>i < depth\<close> by (simp add: ring_contents_def del: upt_Suc)
  with i assms show "ring_contents depth (buf[cnt := e]) (Suc cnt mod depth) (Suc cnt) ! i = (take cnt buf @ [e]) ! i"
    by (cases "i = cnt") (auto simp: nth_append)
qed (use assms in simp)

lemma ring_push_full:
  assumes "pos < depth" and "length buf = depth"
  shows "ring_contents depth (buf[pos := e]) (Suc pos mod depth) depth =
    drop 1 (ring_contents depth buf pos depth) @ [e]"
proof (rule nth_equalityI)
  fix i
  assume "i < length (ring_contents depth (buf[pos := e]) (Suc pos mod depth) depth)"
  then have i: "i < depth" by simp
  have l: "ring_contents depth (buf[pos := e]) (Suc pos mod depth) depth ! i =
    buf[pos := e] ! ((pos + Suc i) mod depth)"
    using i by (simp add: ring_contents_def mod_add_left_eq)
  show "ring_contents depth (buf[pos := e]) (Suc pos mod depth) depth ! i =
    (drop 1 (ring_contents depth buf pos depth) @ [e]) ! i"
  proof (cases "Suc i = depth")
    case True
    then have "(pos + Suc i) mod depth = pos" using assms(1) by simp
    with l True assms show ?thesis by (auto simp: nth_append)
  next
    case False
    with i have "Suc i < depth" by simp
    then have "(pos + Suc i) mod depth \<noteq> pos"
      using assms(1) by (cases "pos + Suc i < depth") (auto simp: mod_if)
    moreover have "i < depth - 1" using \<open>Suc i < depth\<close> by simp
    ultimately show ?thesis using l \<open>Suc i < depth\<close> by (simp add: nth_append ring_contents_def)
  qed
qed (use assms in simp)

locale ring =
  fixes depth :: nat and buf :: "'s \<Rightarrow> 'e list" and pos :: "'s \<Rightarrow> nat" and cnt :: "'s \<Rightarrow> nat"
    and inv :: "nat \<Rightarrow> 's \<Rightarrow> bool" and push :: "'e \<Rightarrow> 's \<Rightarrow> 's"
  assumes inv_ring: "inv n s \<Longrightarrow> length (buf s) = depth \<and> pos s < depth \<and> cnt s \<le> depth \<and>
      (cnt s < depth \<longrightarrow> pos s = cnt s)"
    and push_inv: "inv (Suc n) s \<Longrightarrow> inv n (push e s)"
    and push_ring: "inv (Suc n) s \<Longrightarrow> buf (push e s) = (buf s)[pos s := e] \<and>
      pos (push e s) = Suc (pos s) mod depth \<and> cnt (push e s) = min depth (Suc (cnt s))"
begin

definition contents :: "'s \<Rightarrow> 'e list" where
  "contents s = ring_contents depth (buf s) (pos s) (cnt s)"

lemma contents_push:
  assumes "inv (Suc n) s"
  shows "contents (push e s) = keep_last depth (contents s @ [e])"
proof (cases "cnt s < depth")
  case True
  with inv_ring [OF assms] push_ring [OF assms, of e] show ?thesis
    by (simp add: contents_def keep_last_short ring_contents_filling ring_push_filling)
next
  case False
  then have "cnt s = depth" using inv_ring [OF assms] by simp
  with inv_ring [OF assms] push_ring [OF assms, of e] show ?thesis
    by (simp add: contents_def keep_last_def ring_push_full)
qed

lemma contents_pushes:
  "inv (length es) s \<Longrightarrow> contents (fold push es s) = keep_last depth (contents s @ es)"
proof (induction es arbitrary: s)
  case Nil
  then have "length (contents s) \<le> depth" using inv_ring by (auto simp: contents_def)
  then show ?case by (simp add: keep_last_short)
next
  case (Cons e es)
  from Cons.prems have i: "inv (Suc (length es)) s" by simp
  from Cons.IH [OF push_inv [OF i]] show ?case
    by (simp add: contents_push [OF i] keep_last_append)
qed

end

end
