(* ===== verification/Logging.thy ===== *)
theory Logging
  imports Ring Fmt
begin

text \<open>
  The log, \<^verbatim>\<open>src/components/os_logging/src/os_logging.c\<close>: a level filter, a ring of the last
  64 entries, and two sinks, the console and an optional file.

  The message of a call is given formatted (\<^verbatim>\<open>vsnprintf\<close> of its arguments), \<open>got\<close> says whether
  the mutex was obtained within 50 ms, \<open>now\<close> is \<^verbatim>\<open>esp_timer_get_time\<close> in microseconds.  The
  ring is an interpretation of the locale \<open>ring\<close>.
\<close>

section \<open>State\<close>

definition OS_LOG_MAX_MSG_LEN :: nat where "OS_LOG_MAX_MSG_LEN = 192"
definition OS_LOG_RING_SIZE :: nat where "OS_LOG_RING_SIZE = 64"

record log_entry =
  l_timestamp_ms :: "32 word"
  l_level :: os_log_level
  l_tag :: string
  l_msg :: string

record log_state =
  lg_ring :: "log_entry list"
  lg_head :: "32 word"
  lg_count :: "32 word"
  lg_level :: os_log_level
  lg_file_output :: bool
  lg_initialised :: bool
  lg_lock :: "nat option"
  lg_logfile :: "nat option"

definition log_entry_zero :: log_entry where
  "log_entry_zero = \<lparr>l_timestamp_ms = 0, l_level = OS_LOG_DEBUG, l_tag = [], l_msg = []\<rparr>"

definition log_boot :: log_state where
  "log_boot = \<lparr>lg_ring = replicate OS_LOG_RING_SIZE log_entry_zero, lg_head = 0, lg_count = 0, lg_level = OS_LOG_DEBUG,
     lg_file_output = False, lg_initialised = False, lg_lock = None, lg_logfile = None\<rparr>"

datatype log_call =
    LLockCreate | LLockDelete | LLockTimeout | LUart string | LSend int string nat
  | LFopen | LFclose nat | LFputs nat string | LFflush nat

section \<open>Formatting\<close>

definition esc :: "string \<Rightarrow> string" where
  "esc code = CHR 0x1B # CHR ''['' # code @ ''m''"

primrec level_str :: "os_log_level \<Rightarrow> string" where
  "level_str OS_LOG_DEBUG = ''DBG''"
| "level_str OS_LOG_INFO = ''INF''"
| "level_str OS_LOG_WARN = ''WRN''"
| "level_str OS_LOG_ERROR = ''ERR''"
| "level_str OS_LOG_NONE = ''???''"

primrec level_colour :: "os_log_level \<Rightarrow> string" where
  "level_colour OS_LOG_DEBUG = esc ''36''"
| "level_colour OS_LOG_INFO = esc ''37''"
| "level_colour OS_LOG_WARN = esc ''33''"
| "level_colour OS_LOG_ERROR = esc ''31'' @ esc ''1''"
| "level_colour OS_LOG_NONE = esc ''0''"

text \<open>\<^verbatim>\<open>[%7u.%03u] %s  %-16s\<close>, the part the three formats share.\<close>

definition log_prefix :: "log_entry \<Rightarrow> string" where
  "log_prefix e =
     (let ms = unat (l_timestamp_ms e)
      in ''['' @ padl 7 (dec (ms div 1000)) @ ''.'' @ zpad 3 (dec (ms mod 1000)) @ ''] '' @
         level_str (l_level e) @ ''  '' @ padr 16 (l_tag e))"

definition log_uart_text :: "log_entry \<Rightarrow> string" where
  "log_uart_text e = level_colour (l_level e) @ log_prefix e @ esc ''0'' @ '' '' @ l_msg e @ crlf"

definition log_file_text :: "log_entry \<Rightarrow> string" where
  "log_file_text e = log_prefix e @ '' '' @ l_msg e @ [CHR 0x0A]"

definition log_dump_text :: "log_entry \<Rightarrow> string" where
  "log_dump_text e = log_prefix e @ '' '' @ l_msg e @ crlf"

text \<open>The sizes of the line buffers: \<open>line\<close> and \<open>uart_line\<close>.\<close>

definition LOG_LINE :: nat where "LOG_LINE = OS_LOG_MAX_MSG_LEN + 80"

definition write_to_sinks :: "log_entry \<Rightarrow> log_state \<Rightarrow> log_call eff list" where
  "write_to_sinks e s =
     Ext (LUart (cstr (LOG_LINE + 32) (log_uart_text e))) #
     (case lg_logfile s of
        None \<Rightarrow> []
      | Some f \<Rightarrow>
          if lg_file_output s
          then Ext (LFputs f (cstr LOG_LINE (log_file_text e))) #
               (if OS_LOG_ERROR \<le> l_level e then [Ext (LFflush f)] else [])
          else [])"

section \<open>Operations\<close>

definition os_log_write_v ::
  "bool \<Rightarrow> 64 word \<Rightarrow> os_log_level \<Rightarrow> string option \<Rightarrow> string \<Rightarrow> log_state \<Rightarrow> log_state \<times> log_call eff list" where
  "os_log_write_v got now level tag msg s =
     (if \<not> lg_initialised s then (s, [])
      else if level < lg_level s then (s, [])
      else if \<not> got then (s, [Ext LLockTimeout])
      else
        let e = \<lparr>l_timestamp_ms = ucast (now div 1000), l_level = level,
                 l_tag = cstr 24 (case tag of None \<Rightarrow> ''???'' | Some t \<Rightarrow> t),
                 l_msg = cstr OS_LOG_MAX_MSG_LEN msg\<rparr>;
            i = unat (lg_head s mod of_nat OS_LOG_RING_SIZE);
            s' = s\<lparr>lg_ring := (lg_ring s)[i := e], lg_head := lg_head s + 1, lg_count := lg_count s + 1\<rparr>
        in (s', [Take] @ write_to_sinks e s' @ [Give]))"

definition os_log_write ::
  "bool \<Rightarrow> 64 word \<Rightarrow> os_log_level \<Rightarrow> string option \<Rightarrow> string \<Rightarrow> log_state \<Rightarrow> log_state \<times> log_call eff list" where
  "os_log_write = os_log_write_v"

definition os_log_init ::
  "nat option \<Rightarrow> bool \<Rightarrow> 64 word \<Rightarrow> log_state \<Rightarrow> esp_err \<times> log_state \<times> log_call eff list" where
  "os_log_init lk got now s =
     (if lg_initialised s then (ESP_OK, s, [])
      else
        case lk of
          None \<Rightarrow> (ESP_ERR_NO_MEM, s\<lparr>lg_lock := None\<rparr>, [Ext LLockCreate])
        | Some l \<Rightarrow>
            let s1 = s\<lparr>lg_lock := Some l, lg_initialised := True\<rparr>;
                (s2, tr) = os_log_write got now OS_LOG_INFO (Some ''OS_LOG'')
                  (''Logging system ready  (ring='' @ dec OS_LOG_RING_SIZE @ ''  level='' @ level_str (lg_level s1) @ '')'') s1
            in (ESP_OK, s2, Ext LLockCreate # tr))"

definition os_log_flush :: "log_state \<Rightarrow> log_call eff list" where
  "os_log_flush s = (case lg_logfile s of None \<Rightarrow> [] | Some f \<Rightarrow> [Ext (LFflush f)])"

definition os_log_deinit :: "log_state \<Rightarrow> log_state \<times> log_call eff list" where
  "os_log_deinit s =
     (if \<not> lg_initialised s then (s, [])
      else (s\<lparr>lg_logfile := None, lg_initialised := False\<rparr>,
            os_log_flush s @
            (case lg_logfile s of None \<Rightarrow> [] | Some f \<Rightarrow> [Ext (LFclose f)]) @ [Ext LLockDelete]))"

definition os_log_set_level :: "os_log_level \<Rightarrow> log_state \<Rightarrow> log_state" where
  "os_log_set_level level s = s\<lparr>lg_level := level\<rparr>"

definition os_log_get_level :: "log_state \<Rightarrow> os_log_level" where
  "os_log_get_level s = lg_level s"

text \<open>\<open>file\<close> is what \<^verbatim>\<open>fopen\<close> returns.\<close>

definition os_log_set_file_output ::
  "nat option \<Rightarrow> bool \<Rightarrow> 64 word \<Rightarrow> bool \<Rightarrow> log_state \<Rightarrow> log_state \<times> log_call eff list" where
  "os_log_set_file_output file got now enable s =
     (if \<not> lg_initialised s then (s, [])
      else if enable \<and> lg_logfile s = None then
        (case file of
           None \<Rightarrow>
             let (s', tr) = os_log_write got now OS_LOG_WARN (Some ''OS_LOG'')
                   ''Could not open log file /spiffs/system.log'' s
             in (s', [Take, Ext LFopen, Give] @ tr)
         | Some f \<Rightarrow> (s\<lparr>lg_logfile := Some f, lg_file_output := enable\<rparr>, [Take, Ext LFopen, Give]))
      else
        (case lg_logfile s of
           Some f \<Rightarrow>
             if \<not> enable then (s\<lparr>lg_logfile := None, lg_file_output := enable\<rparr>, [Take, Ext (LFclose f), Give])
             else (s\<lparr>lg_file_output := enable\<rparr>, [Take, Give])
         | None \<Rightarrow> (s\<lparr>lg_file_output := enable\<rparr>, [Take, Give])))"

definition os_log_get_file_output :: "log_state \<Rightarrow> bool" where
  "os_log_get_file_output s = lg_file_output s"

definition os_log_puts :: "string \<Rightarrow> log_state \<Rightarrow> log_call eff list" where
  "os_log_puts str s =
     Ext (LUart str) #
     (case lg_logfile s of None \<Rightarrow> [] | Some f \<Rightarrow> if lg_file_output s then [Ext (LFputs f str)] else [])"

text \<open>How many entries are valid, and where the oldest one is.\<close>

definition log_total :: "log_state \<Rightarrow> 32 word" where
  "log_total s = (if lg_count s < of_nat OS_LOG_RING_SIZE then lg_count s else of_nat OS_LOG_RING_SIZE)"

definition log_start :: "log_state \<Rightarrow> 32 word" where
  "log_start s = (if of_nat OS_LOG_RING_SIZE < lg_count s then lg_head s else 0)"

definition log_at :: "log_state \<Rightarrow> nat \<Rightarrow> log_entry" where
  "log_at s i = lg_ring s ! unat ((log_start s + of_nat i) mod of_nat OS_LOG_RING_SIZE)"

text \<open>\<^verbatim>\<open>snprintf\<close> returns the length of the whole text, which is what \<^verbatim>\<open>send\<close> is told.\<close>

definition log_dump_line :: "int \<Rightarrow> log_entry \<Rightarrow> log_call eff" where
  "log_dump_line fd e =
     (let buf = cstr LOG_LINE (log_dump_text e)
      in if fd < 0 then Ext (LUart buf) else Ext (LSend fd buf (length (log_dump_text e))))"

definition os_log_dump :: "int \<Rightarrow> 32 word \<Rightarrow> log_state \<Rightarrow> log_call eff list" where
  "os_log_dump fd lines s =
     (if \<not> lg_initialised s then []
      else
        let total_n = log_total s;
            n = (if lines = 0 \<or> total_n < lines then total_n else lines)
        in [Take] @ map (\<lambda>i. log_dump_line fd (log_at s i)) [0..<unat n] @ [Give])"

definition os_log_get_recent :: "bool \<Rightarrow> int \<Rightarrow> log_state \<Rightarrow> log_entry list \<times> log_call eff list" where
  "os_log_get_recent buf max_count s =
     (if \<not> lg_initialised s \<or> \<not> buf \<or> max_count \<le> 0 then ([], [])
      else
        let copy = (if max_count < sint (log_total s) then max_count else sint (log_total s))
        in (map (log_at s) [0..<nat copy], [Take, Give]))"

section \<open>The ring\<close>

definition log_push :: "log_entry \<Rightarrow> log_state \<Rightarrow> log_state" where
  "log_push e s = s\<lparr>lg_ring := (lg_ring s)[unat (lg_head s mod of_nat OS_LOG_RING_SIZE) := e],
     lg_head := lg_head s + 1, lg_count := lg_count s + 1\<rparr>"

text \<open>Valid for the next \<open>n\<close> entries: the total must not reach \<open>2 ^ 32\<close>.\<close>

definition log_inv :: "nat \<Rightarrow> log_state \<Rightarrow> bool" where
  "log_inv n s \<longleftrightarrow> length (lg_ring s) = OS_LOG_RING_SIZE \<and> lg_head s = lg_count s \<and>
     unat (lg_count s) + n < 2 ^ 32"

definition log_pos :: "log_state \<Rightarrow> nat" where
  "log_pos s = unat (lg_head s) mod OS_LOG_RING_SIZE"

definition log_cnt :: "log_state \<Rightarrow> nat" where
  "log_cnt s = min OS_LOG_RING_SIZE (unat (lg_count s))"

lemma log_mod: "unat ((w :: 32 word) mod of_nat OS_LOG_RING_SIZE) = unat w mod OS_LOG_RING_SIZE"
  by (simp add: unat_mod OS_LOG_RING_SIZE_def)

lemma log_unat_inc: "unat (w :: 32 word) + 1 < 2 ^ 32 \<Longrightarrow> unat (w + 1) = Suc (unat w)"
  by (simp add: unat_word_ariths)

interpretation log_ring: ring OS_LOG_RING_SIZE lg_ring log_pos log_cnt log_inv log_push
proof
  fix n s e
  assume "log_inv n s"
  then show "length (lg_ring s) = OS_LOG_RING_SIZE \<and> log_pos s < OS_LOG_RING_SIZE \<and> log_cnt s \<le> OS_LOG_RING_SIZE \<and>
      (log_cnt s < OS_LOG_RING_SIZE \<longrightarrow> log_pos s = log_cnt s)"
    by (auto simp: log_inv_def log_pos_def log_cnt_def OS_LOG_RING_SIZE_def min_def)
next
  fix n s e
  assume "log_inv (Suc n) s"
  then have inc: "unat (lg_count s + 1) = Suc (unat (lg_count s))" "lg_head s = lg_count s"
    by (auto simp: log_inv_def intro!: log_unat_inc)
  then show "log_inv n (log_push e s)"
    using \<open>log_inv (Suc n) s\<close> by (simp add: log_inv_def log_push_def)
  show "lg_ring (log_push e s) = (lg_ring s)[log_pos s := e] \<and>
      log_pos (log_push e s) = Suc (log_pos s) mod OS_LOG_RING_SIZE \<and>
      log_cnt (log_push e s) = min OS_LOG_RING_SIZE (Suc (log_cnt s))"
    using inc by (auto simp: log_push_def log_pos_def log_cnt_def log_mod mod_Suc_eq)
qed

text \<open>The copies of the dump and of the recent entries read the ring from its oldest entry.\<close>

lemma unat_log_total: "unat (log_total s) = log_cnt s"
  by (auto simp: log_total_def log_cnt_def OS_LOG_RING_SIZE_def word_less_nat_alt)

lemma log_at_contents:
  assumes "log_inv n s" and "i < log_cnt s"
  shows "log_at s i = log_ring.contents s ! i"
proof -
  have i: "i < 64" using assms(2) by (simp add: log_cnt_def OS_LOG_RING_SIZE_def)
  have "unat ((log_start s + of_nat i) mod of_nat OS_LOG_RING_SIZE) =
    ((if log_cnt s < OS_LOG_RING_SIZE then 0 else log_pos s) + i) mod OS_LOG_RING_SIZE"
  proof (cases "unat (lg_count s) \<le> 64")
    case True
    then have "log_start s = 0" by (simp add: log_start_def OS_LOG_RING_SIZE_def word_less_nat_alt)
    moreover have "log_cnt s < OS_LOG_RING_SIZE \<or> log_pos s = 0"
    proof (cases "unat (lg_count s) = 64")
      case True
      with assms(1) show ?thesis by (simp add: log_pos_def log_inv_def OS_LOG_RING_SIZE_def)
    next
      case False
      with \<open>unat (lg_count s) \<le> 64\<close> show ?thesis by (simp add: log_cnt_def OS_LOG_RING_SIZE_def)
    qed
    ultimately have "log_start s = 0" "log_cnt s < OS_LOG_RING_SIZE \<or> log_pos s = 0" by blast+
    moreover have "unat (of_nat i mod of_nat OS_LOG_RING_SIZE :: 32 word) = i"
      by (subst log_mod) (use i in \<open>simp add: unat_of_nat OS_LOG_RING_SIZE_def\<close>)
    moreover have "i mod OS_LOG_RING_SIZE = i" using i by (simp add: OS_LOG_RING_SIZE_def)
    ultimately show ?thesis by auto
  next
    case False
    then have "log_start s = lg_head s" "\<not> log_cnt s < OS_LOG_RING_SIZE"
      by (auto simp: log_start_def OS_LOG_RING_SIZE_def word_less_nat_alt log_cnt_def)
    moreover have "unat (lg_head s + of_nat i) mod OS_LOG_RING_SIZE = (unat (lg_head s) + i) mod OS_LOG_RING_SIZE"
      using i by (simp add: unat_word_ariths unat_of_nat OS_LOG_RING_SIZE_def mod_mod_cancel)
    ultimately show ?thesis by (simp add: log_mod log_pos_def mod_add_left_eq)
  qed
  with assms(2) show ?thesis
    by (simp add: log_at_def log_ring.contents_def ring_contents_def)
qed

section \<open>What the log guarantees\<close>

text \<open>The calls that reach the ring: the level is not filtered out and the mutex was obtained.\<close>

record log_msg =
  m_got :: bool
  m_now :: "64 word"
  m_level :: os_log_level
  m_tag :: "string option"
  m_text :: string

definition log_msg_entry :: "log_msg \<Rightarrow> log_entry" where
  "log_msg_entry m = \<lparr>l_timestamp_ms = ucast (m_now m div 1000), l_level = m_level m,
     l_tag = cstr 24 (case m_tag m of None \<Rightarrow> ''???'' | Some t \<Rightarrow> t), l_msg = cstr OS_LOG_MAX_MSG_LEN (m_text m)\<rparr>"

definition log_accepts :: "log_state \<Rightarrow> log_msg \<Rightarrow> bool" where
  "log_accepts s m \<longleftrightarrow> lg_initialised s \<and> lg_level s \<le> m_level m \<and> m_got m"

definition log_write_msg :: "log_msg \<Rightarrow> log_state \<Rightarrow> log_state" where
  "log_write_msg m s = fst (os_log_write (m_got m) (m_now m) (m_level m) (m_tag m) (m_text m) s)"

lemma log_write_msg_push:
  "log_write_msg m s = (if log_accepts s m then log_push (log_msg_entry m) s else s)"
  by (auto simp: log_write_msg_def os_log_write_def os_log_write_v_def log_accepts_def log_push_def log_msg_entry_def
      Let_def)

lemma log_accepts_push: "log_accepts (log_push e s) m = log_accepts s m"
  by (simp add: log_accepts_def log_push_def)

lemma log_write_msgs:
  "fold log_write_msg ms s = fold log_push (map log_msg_entry (filter (log_accepts s) ms)) s"
proof (induction ms arbitrary: s)
  case (Cons m ms)
  then show ?case by (simp add: log_write_msg_push log_accepts_push)
qed simp

lemma log_push_init [simp]: "lg_initialised (fold log_push es s) = lg_initialised s"
  by (induction es arbitrary: s) (simp_all add: log_push_def)

lemma log_inv_pushes: "log_inv (length es) s \<Longrightarrow> log_inv 0 (fold log_push es s)"
proof (induction es arbitrary: s)
  case (Cons e es)
  then show ?case using log_ring.push_inv [of "length es" s e] by simp
qed simp

lemma sint_log_total: "sint (log_total s) = int (log_cnt s)"
proof -
  have "log_cnt s \<le> 64" by (simp add: log_cnt_def OS_LOG_RING_SIZE_def)
  then show ?thesis by (simp add: sint_small unat_log_total)
qed


definition log_started :: log_state where
  "log_started = log_boot\<lparr>lg_initialised := True, lg_lock := Some 1\<rparr>"

definition log_line :: "string \<Rightarrow> log_msg" where
  "log_line t = \<lparr>m_got = True, m_now = 1000, m_level = OS_LOG_INFO, m_tag = Some ''T'', m_text = t\<rparr>"


text \<open>A message below the current level, or one that does not get the mutex, changes nothing and
  reaches no sink, and one at or above the level reaches the console.\<close>

theorem log_level_filter:
  "(level < lg_level s \<or> \<not> lg_initialised s \<longrightarrow> os_log_write got now level tag msg s = (s, [])) \<and>
   (\<not> got \<longrightarrow> fst (os_log_write got now level tag msg s) = s) \<and>
   (lg_initialised s \<and> lg_level s \<le> level \<and> got \<longrightarrow>
      (\<exists>line. LUart line \<in> set (ext_calls (snd (os_log_write got now level tag msg s)))))"
  by (auto simp: os_log_write_def os_log_write_v_def Let_def write_to_sinks_def)

theorem log_level_filter_witness:
  "os_log_write True 0 OS_LOG_DEBUG None ''x'' (log_started\<lparr>lg_level := OS_LOG_WARN\<rparr>) =
   (log_started\<lparr>lg_level := OS_LOG_WARN\<rparr>, [])"
  using log_level_filter [of OS_LOG_DEBUG "log_started\<lparr>lg_level := OS_LOG_WARN\<rparr>" True 0 None "''x''"]
  by (simp add: level_order)

section \<open>Line lengths\<close>

lemma length_pads [simp]:
  "length (padl w s) = max w (length s)" "length (padr w s) = max w (length s)" "length (zpad w s) = max w (length s)"
  by (auto simp: padl_def padr_def zpad_def)

lemma length_level: "length (level_str l) = 3" "length (level_colour l) \<le> 9"
  by (cases l; simp add: esc_def)+

lemma log_prefix_length: "length (l_tag e) < 24 \<Longrightarrow> length (log_prefix e) \<le> 42"
proof -
  assume "length (l_tag e) < 24"
  moreover have "unat (l_timestamp_ms e) div 1000 < 10 ^ 7"
    using unsigned_less [of "l_timestamp_ms e", where ?'a = nat] by simp
  then have "length (dec (unat (l_timestamp_ms e) div 1000)) \<le> 7" by (rule length_dec) simp
  moreover have "length (dec (unat (l_timestamp_ms e) mod 1000)) \<le> 3" by (rule length_dec) simp_all
  ultimately show ?thesis by (simp add: log_prefix_def Let_def length_level)
qed

text \<open>No line of the log is ever truncated: an entry written by the log fits the console buffer of
  304 bytes and the file and dump buffer of 272 with its terminator, so the length passed to \<^verbatim>\<open>send\<close> never
  exceeds what the buffer holds.\<close>

theorem log_lines_fit:
  assumes "length (l_tag e) < 24" and "length (l_msg e) < OS_LOG_MAX_MSG_LEN"
  shows "cstr (LOG_LINE + 32) (log_uart_text e) = log_uart_text e \<and> cstr LOG_LINE (log_file_text e) = log_file_text e \<and>
    cstr LOG_LINE (log_dump_text e) = log_dump_text e \<and> length (log_dump_text e) < LOG_LINE"
proof -
  have "length (log_uart_text e) < LOG_LINE + 32" "length (log_file_text e) < LOG_LINE" "length (log_dump_text e) < LOG_LINE"
    using log_prefix_length [OF assms(1)] assms(2) length_level(2) [of "l_level e"]
    by (simp_all add: log_uart_text_def log_file_text_def log_dump_text_def esc_def crlf_def LOG_LINE_def OS_LOG_MAX_MSG_LEN_def)
  then show ?thesis by simp
qed

theorem log_lines_fit_witness:
  "length (log_dump_text (log_msg_entry (log_line ''hello''))) < LOG_LINE"
  using log_lines_fit [of "log_msg_entry (log_line ''hello'')"]
  by (simp add: log_msg_entry_def log_line_def OS_LOG_MAX_MSG_LEN_def)

lemma write_to_sinks_quiet [simp]: "quiet (write_to_sinks e s)"
  by (auto simp: write_to_sinks_def split: option.split)

lemma os_log_write_lock: "lock_ok False (snd (os_log_write got now level tag msg s))"
  by (auto simp: os_log_write_def os_log_write_v_def Let_def lock_simps)

text \<open>No call of the log takes its mutex twice or leaves it taken, the failing open of the log file
  (which logs a warning itself) included.\<close>

theorem log_lock_discipline:
  "lock_ok False (snd (os_log_write got now level tag msg s)) \<and>
   lock_ok False (snd (snd (os_log_init lk got now s))) \<and> lock_ok False (snd (os_log_deinit s)) \<and>
   lock_ok False (snd (os_log_set_file_output file got now enable s)) \<and>
   lock_ok False (os_log_dump fd lines s) \<and> lock_ok False (snd (os_log_get_recent buf n s))"
proof (intro conjI)
  show "lock_ok False (snd (os_log_write got now level tag msg s))" by (rule os_log_write_lock)
  show "lock_ok False (snd (snd (os_log_init lk got now s)))"
    by (auto simp: os_log_init_def Let_def split_beta os_log_write_lock split: option.split)
  show "lock_ok False (snd (os_log_deinit s))"
    by (auto simp: os_log_deinit_def os_log_flush_def split: option.split)
  show "lock_ok False (snd (os_log_set_file_output file got now enable s))"
    by (auto simp: os_log_set_file_output_def Let_def split_beta os_log_write_lock split: option.split)
  have "quiet (map (\<lambda>i. log_dump_line fd (log_at s i)) is)" for "is"
    by (induction "is") (simp_all add: log_dump_line_def Let_def)
  then show "lock_ok False (os_log_dump fd lines s)" by (auto simp: os_log_dump_def Let_def lock_simps)
  show "lock_ok False (snd (os_log_get_recent buf n s))" by (simp add: os_log_get_recent_def)
qed

end
