(* ===== verification/Pwm.thy ===== *)
theory Pwm
  imports Prelude
begin

text \<open>
  Pulse width modulation, \<^verbatim>\<open>src/components/os_pwm/src/os_pwm.c\<close>: 8 channels over the LEDC
  unit, which has 4 timers, allocated by a bitmap and reference counts.

  The results of the LEDC calls are arguments, \<open>gpio_ok\<close> is \<^verbatim>\<open>GPIO_IS_VALID_OUTPUT_GPIO\<close>.  A
  channel number is a signed byte.
\<close>

section \<open>State\<close>

definition OS_PWM_MAX_CHANNELS :: nat where "OS_PWM_MAX_CHANNELS = 8"
definition LEDC_TIMER_MAX :: nat where "LEDC_TIMER_MAX = 4"
definition PWM_MAX_DUTY_VALUE :: "32 word" where "PWM_MAX_DUTY_VALUE = 8191"

lemmas pwm_consts = OS_PWM_MAX_CHANNELS_def LEDC_TIMER_MAX_def

record pwm_channel =
  c_active :: bool
  c_gpio_pin :: "8 word"
  c_freq_hz :: "32 word"
  c_duty_percent :: "32 word"
  c_ledc_ch :: nat
  c_ledc_timer :: nat

record pwm =
  pw_channels :: "pwm_channel list"
  pw_mutex :: "nat option"
  pw_initialized :: bool
  pw_timer_usage :: "8 word"
  pw_refcount :: "8 word list"

definition channel_zero :: "nat \<Rightarrow> pwm_channel" where
  "channel_zero i = \<lparr>c_active = False, c_gpio_pin = 0, c_freq_hz = 0, c_duty_percent = 0, c_ledc_ch = i, c_ledc_timer = 0\<rparr>"

definition pwm_boot :: pwm where
  "pwm_boot = \<lparr>pw_channels = replicate OS_PWM_MAX_CHANNELS (channel_zero 0), pw_mutex = None, pw_initialized = False,
     pw_timer_usage = 0, pw_refcount = replicate LEDC_TIMER_MAX 0\<rparr>"

datatype pwm_call =
    PMutexCreate | PMutexDelete | LedcStop nat | LedcTimerConfig nat "32 word"
  | LedcChannelConfig "8 word" nat nat | LedcSetDuty nat "32 word" | LedcUpdateDuty nat
  | LedcSetFreq nat "32 word"

section \<open>Helpers\<close>

definition pwm_alloc_timer :: "pwm \<Rightarrow> nat option \<times> pwm" where
  "pwm_alloc_timer s =
     (case find_idx (\<lambda>i. \<not> bit (pw_timer_usage s) i) [0..<LEDC_TIMER_MAX] of
        None \<Rightarrow> (None, s)
      | Some i \<Rightarrow>
          (Some i, s\<lparr>pw_timer_usage := set_bit i (pw_timer_usage s), pw_refcount := (pw_refcount s)[i := 1]\<rparr>))"

definition pwm_free_timer :: "nat \<Rightarrow> pwm \<Rightarrow> pwm" where
  "pwm_free_timer timer s =
     (if timer < LEDC_TIMER_MAX then
        let refs = (if 0 < pw_refcount s ! timer
                    then (pw_refcount s)[timer := pw_refcount s ! timer - 1] else pw_refcount s)
        in s\<lparr>pw_refcount := refs,
             pw_timer_usage := (if refs ! timer = 0 then unset_bit timer (pw_timer_usage s) else pw_timer_usage s)\<rparr>
      else s)"

definition duty_percent_to_reg :: "8 word \<Rightarrow> 32 word" where
  "duty_percent_to_reg percent =
     (if 100 \<le> percent then PWM_MAX_DUTY_VALUE
      else of_nat (unat percent * unat PWM_MAX_DUTY_VALUE div 100))"

definition duty_us_to_reg :: "32 word \<Rightarrow> 32 word \<Rightarrow> 32 word" where
  "duty_us_to_reg us freq_hz =
     (let period_us = 1000000 div freq_hz
      in if period_us \<le> us then PWM_MAX_DUTY_VALUE
         else ucast ((ucast us * ucast PWM_MAX_DUTY_VALUE :: 64 word) div ucast period_us))"

definition is_valid_channel :: "8 word \<Rightarrow> bool" where
  "is_valid_channel channel \<longleftrightarrow> 0 \<le> sint channel \<and> sint channel < int OS_PWM_MAX_CHANNELS"

definition channel_idx :: "8 word \<Rightarrow> nat" where
  "channel_idx channel = nat (sint channel)"

text \<open>Stopping an active channel: stop the output, free its timer, mark it inactive.\<close>

definition pwm_stop_channel :: "nat \<Rightarrow> pwm \<Rightarrow> pwm \<times> pwm_call eff list" where
  "pwm_stop_channel i s =
     (let c = pw_channels s ! i; s1 = pwm_free_timer (c_ledc_timer c) s
      in (s1\<lparr>pw_channels := (pw_channels s1)[i := c\<lparr>c_active := False\<rparr>]\<rparr>, [Ext (LedcStop (c_ledc_ch c))]))"

section \<open>Operations\<close>

definition os_pwm_init :: "nat option \<Rightarrow> pwm \<Rightarrow> esp_err \<times> pwm \<times> pwm_call eff list" where
  "os_pwm_init lk s =
     (if pw_initialized s then (ESP_OK, s, [])
      else
        case lk of
          None \<Rightarrow> (ESP_ERR_NO_MEM, s\<lparr>pw_mutex := None\<rparr>,
                   [Ext PMutexCreate, Log OS_LOG_ERROR ''Failed to create mutex''])
        | Some l \<Rightarrow>
            (ESP_OK,
             s\<lparr>pw_mutex := Some l, pw_channels := map channel_zero [0..<OS_PWM_MAX_CHANNELS],
               pw_timer_usage := 0, pw_refcount := replicate LEDC_TIMER_MAX 0, pw_initialized := True\<rparr>,
             [Ext PMutexCreate, Log OS_LOG_INFO ''PWM initialized, %d channels available'']))"

definition pwm_deinit_step :: "nat \<Rightarrow> pwm \<times> pwm_call eff list \<Rightarrow> pwm \<times> pwm_call eff list" where
  "pwm_deinit_step i x =
     (let (s, tr) = x in
      if c_active (pw_channels s ! i) then (let (s', tr') = pwm_stop_channel i s in (s', tr @ tr')) else (s, tr))"

definition os_pwm_deinit :: "pwm \<Rightarrow> pwm \<times> pwm_call eff list" where
  "os_pwm_deinit s =
     (if \<not> pw_initialized s then (s, [])
      else
        let (s', tr) = fold pwm_deinit_step [0..<OS_PWM_MAX_CHANNELS] (s, [])
        in (s'\<lparr>pw_timer_usage := 0, pw_mutex := None, pw_initialized := False\<rparr>,
            [Take] @ tr @ [Give, Ext PMutexDelete, Log OS_LOG_INFO ''PWM deinitialized'']))"

text \<open>\<open>rt\<close> and \<open>rc\<close> are what configuring the timer and the channel returns.\<close>

definition os_pwm_channel_init ::
  "(8 word \<Rightarrow> bool) \<Rightarrow> esp_err \<Rightarrow> esp_err \<Rightarrow> 8 word \<Rightarrow> 8 word \<Rightarrow> 32 word \<Rightarrow> pwm
   \<Rightarrow> esp_err \<times> pwm \<times> pwm_call eff list" where
  "os_pwm_channel_init gpio_ok rt rc channel gpio_pin freq_hz s =
     (if \<not> pw_initialized s then (ESP_ERR_INVALID_STATE, s, [Log OS_LOG_ERROR ''PWM not initialized''])
      else if \<not> is_valid_channel channel
      then (ESP_ERR_INVALID_ARG, s, [Log OS_LOG_ERROR ''Invalid channel: %d''])
      else if freq_hz = 0 \<or> 40000000 < freq_hz
      then (ESP_ERR_INVALID_ARG, s, [Log OS_LOG_ERROR ''Invalid frequency: %lu Hz''])
      else if \<not> gpio_ok gpio_pin
      then (ESP_ERR_INVALID_ARG, s, [Log OS_LOG_ERROR ''Invalid GPIO pin: %d''])
      else
        let i = channel_idx channel;
            (s1, tr1) =
              (if c_active (pw_channels s ! i)
               then (let (s', tr) = pwm_stop_channel i s
                     in (s', Log OS_LOG_WARN ''Channel %d already active, deinitializing first'' # tr))
               else (s, []));
            (timer_idx, s2) = pwm_alloc_timer s1
        in case timer_idx of
             None \<Rightarrow> (ESP_ERR_NO_MEM, s2, [Take] @ tr1 @ [Log OS_LOG_ERROR ''No LEDC timers available'', Give])
           | Some t \<Rightarrow>
               let c = (pw_channels s2 ! i)\<lparr>c_ledc_timer := t\<rparr>;
                   s3 = s2\<lparr>pw_channels := (pw_channels s2)[i := c]\<rparr>;
                   tr2 = [Take] @ tr1 @ [Ext (LedcTimerConfig t freq_hz)]
               in if rt \<noteq> ESP_OK
                  then (rt, pwm_free_timer t s3, tr2 @ [Log OS_LOG_ERROR ''LEDC timer config failed: %s'', Give])
                  else
                    let tr3 = tr2 @ [Ext (LedcChannelConfig gpio_pin (c_ledc_ch c) t)]
                    in if rc \<noteq> ESP_OK
                       then (rc, pwm_free_timer t s3, tr3 @ [Log OS_LOG_ERROR ''LEDC channel config failed: %s'', Give])
                       else (ESP_OK,
                             s3\<lparr>pw_channels := (pw_channels s3)[i := c\<lparr>c_active := True, c_gpio_pin := gpio_pin,
                                  c_freq_hz := freq_hz, c_duty_percent := 0\<rparr>]\<rparr>,
                             tr3 @ [Give, Log OS_LOG_INFO ''Channel %d initialized: GPIO%d @ %lu Hz'']))"

definition os_pwm_channel_deinit :: "8 word \<Rightarrow> pwm \<Rightarrow> esp_err \<times> pwm \<times> pwm_call eff list" where
  "os_pwm_channel_deinit channel s =
     (if \<not> pw_initialized s then (ESP_ERR_INVALID_STATE, s, [])
      else if \<not> is_valid_channel channel then (ESP_ERR_INVALID_ARG, s, [])
      else if \<not> c_active (pw_channels s ! channel_idx channel) then (ESP_OK, s, [Take, Give])
      else
        let (s', tr) = pwm_stop_channel (channel_idx channel) s
        in (ESP_OK, s', [Take] @ tr @ [Give, Log OS_LOG_INFO ''Channel %d deinitialized'']))"

definition pwm_set_channel :: "nat \<Rightarrow> pwm_channel \<Rightarrow> pwm \<Rightarrow> pwm" where
  "pwm_set_channel i c s = s\<lparr>pw_channels := (pw_channels s)[i := c]\<rparr>"

text \<open>\<open>ret\<close> is what the LEDC call of the operation returns.\<close>

definition os_pwm_set_duty :: "esp_err \<Rightarrow> 8 word \<Rightarrow> 8 word \<Rightarrow> pwm \<Rightarrow> esp_err \<times> pwm \<times> pwm_call eff list" where
  "os_pwm_set_duty ret channel duty_percent s =
     (if \<not> pw_initialized s then (ESP_ERR_INVALID_STATE, s, [])
      else if \<not> is_valid_channel channel then (ESP_ERR_INVALID_ARG, s, [])
      else
        let duty = (if 100 < duty_percent then 100 else duty_percent);
            i = channel_idx channel; c = pw_channels s ! i
        in if \<not> c_active c then (ESP_ERR_INVALID_STATE, s, [Take, Give])
           else
             let set = Ext (LedcSetDuty (c_ledc_ch c) (duty_percent_to_reg duty));
                 done = [Give, Log OS_LOG_DEBUG ''Channel %d duty set to %d%% (reg=%lu)'']
             in if ret = ESP_OK
                then (ret, pwm_set_channel i (c\<lparr>c_duty_percent := ucast duty\<rparr>) s,
                      [Take, set, Ext (LedcUpdateDuty (c_ledc_ch c))] @ done)
                else (ret, s, [Take, set] @ done))"

text \<open>The percentage kept for a pulse width: computed in 64 bits, cut to 32, then capped.\<close>

definition duty_us_percent :: "32 word \<Rightarrow> 32 word \<Rightarrow> 32 word" where
  "duty_us_percent duty_us freq_hz =
     (let p = ucast ((ucast duty_us * 100 * ucast freq_hz :: 64 word) div 1000000) :: 32 word
      in if 100 < p then 100 else p)"

definition os_pwm_set_duty_us :: "esp_err \<Rightarrow> 8 word \<Rightarrow> 32 word \<Rightarrow> pwm \<Rightarrow> esp_err \<times> pwm \<times> pwm_call eff list" where
  "os_pwm_set_duty_us ret channel duty_us s =
     (if \<not> pw_initialized s then (ESP_ERR_INVALID_STATE, s, [])
      else if \<not> is_valid_channel channel then (ESP_ERR_INVALID_ARG, s, [])
      else
        let i = channel_idx channel; c = pw_channels s ! i
        in if \<not> c_active c then (ESP_ERR_INVALID_STATE, s, [Take, Give])
           else
             let set = Ext (LedcSetDuty (c_ledc_ch c) (duty_us_to_reg duty_us (c_freq_hz c)));
                 done = [Give, Log OS_LOG_DEBUG ''Channel %d duty set to %lu us'']
             in if ret = ESP_OK
                then (ret, pwm_set_channel i (c\<lparr>c_duty_percent := duty_us_percent duty_us (c_freq_hz c)\<rparr>) s,
                      [Take, set, Ext (LedcUpdateDuty (c_ledc_ch c))] @ done)
                else (ret, s, [Take, set] @ done))"

definition os_pwm_set_freq :: "esp_err \<Rightarrow> 8 word \<Rightarrow> 32 word \<Rightarrow> pwm \<Rightarrow> esp_err \<times> pwm \<times> pwm_call eff list" where
  "os_pwm_set_freq ret channel freq_hz s =
     (if \<not> pw_initialized s then (ESP_ERR_INVALID_STATE, s, [])
      else if \<not> is_valid_channel channel \<or> freq_hz = 0 \<or> 40000000 < freq_hz then (ESP_ERR_INVALID_ARG, s, [])
      else
        let i = channel_idx channel; c = pw_channels s ! i
        in if \<not> c_active c then (ESP_ERR_INVALID_STATE, s, [Take, Give])
           else
             let set = Ext (LedcSetFreq (c_ledc_timer c) freq_hz)
             in if ret = ESP_OK
                then (ret, pwm_set_channel i (c\<lparr>c_freq_hz := freq_hz\<rparr>) s,
                      [Take, set, Give, Log OS_LOG_INFO ''Channel %d frequency set to %lu Hz''])
                else (ret, s, [Take, set, Give, Log OS_LOG_ERROR ''Failed to set frequency: %s'']))"

text \<open>The three results a caller may ask for; the percentage is cut to 8 bits.\<close>

definition os_pwm_get_config :: "8 word \<Rightarrow> pwm \<Rightarrow> esp_err \<times> (8 word \<times> 32 word \<times> 8 word) option \<times> pwm_call eff list" where
  "os_pwm_get_config channel s =
     (if \<not> is_valid_channel channel then (ESP_ERR_INVALID_ARG, None, [])
      else
        let c = pw_channels s ! channel_idx channel
        in if \<not> c_active c then (ESP_ERR_INVALID_STATE, None, [Take, Give])
           else (ESP_OK, Some (c_gpio_pin c, c_freq_hz c, ucast (c_duty_percent c)), [Take, Give]))"

definition os_pwm_channel_is_active :: "8 word \<Rightarrow> pwm \<Rightarrow> bool \<times> pwm_call eff list" where
  "os_pwm_channel_is_active channel s =
     (if \<not> is_valid_channel channel then (False, [])
      else (c_active (pw_channels s ! channel_idx channel), [Take, Give]))"

definition os_pwm_get_active_count :: "pwm \<Rightarrow> 8 word \<times> pwm_call eff list" where
  "os_pwm_get_active_count s =
     (if \<not> pw_initialized s then (0, []) else (of_nat (count_if c_active (pw_channels s)), [Take, Give]))"

definition os_pwm_print_status :: "pwm \<Rightarrow> 8 word option \<times> pwm_call eff list" where
  "os_pwm_print_status s =
     (if \<not> pw_initialized s then (None, [])
      else (Some (of_nat (count_if c_active (pw_channels s))),
            [Take, Give, Log OS_LOG_INFO ''Active PWM channels: %d/%d'']))"

section \<open>Timers and channels\<close>

definition timer_users :: "nat \<Rightarrow> pwm_channel list \<Rightarrow> nat" where
  "timer_users t cs = count_if (\<lambda>c. c_active c \<and> c_ledc_timer c = t) cs"

text \<open>
  Each timer is marked used exactly when one active channel has it, its reference count is
  the number of active channels that have it, and that is at most one.
\<close>

definition timers_ok :: "pwm_channel list \<Rightarrow> 8 word \<Rightarrow> 8 word list \<Rightarrow> bool" where
  "timers_ok cs usage refs \<longleftrightarrow> length refs = LEDC_TIMER_MAX \<and>
     (\<forall>t < LEDC_TIMER_MAX. unat (refs ! t) = timer_users t cs \<and> timer_users t cs \<le> 1 \<and>
        (bit usage t \<longleftrightarrow> timer_users t cs = 1))"

definition channel_ok :: "pwm_channel \<Rightarrow> bool" where
  "channel_ok c \<longleftrightarrow> c_ledc_timer c < LEDC_TIMER_MAX \<and>
     (c_active c \<longrightarrow> 0 < c_freq_hz c \<and> c_freq_hz c \<le> 40000000 \<and> c_duty_percent c \<le> 100)"

definition pwm_inv :: "pwm \<Rightarrow> bool" where
  "pwm_inv s \<longleftrightarrow> length (pw_channels s) = OS_PWM_MAX_CHANNELS \<and>
     (pw_initialized s \<longleftrightarrow> pw_mutex s \<noteq> None) \<and>
     timers_ok (pw_channels s) (pw_timer_usage s) (pw_refcount s) \<and> list_all channel_ok (pw_channels s) \<and>
     (\<not> pw_initialized s \<longrightarrow> count_if c_active (pw_channels s) = 0)"

lemma timer_users_update:
  "i < length cs \<Longrightarrow>
   timer_users t (cs[i := c]) + (if c_active (cs ! i) \<and> c_ledc_timer (cs ! i) = t then 1 else 0) =
   timer_users t cs + (if c_active c \<and> c_ledc_timer c = t then 1 else 0)"
  using count_if_update [of i cs "\<lambda>c. c_active c \<and> c_ledc_timer c = t" c] by (simp add: timer_users_def)

lemma timer_users_same:
  "i < length cs \<Longrightarrow> c_active c = c_active (cs ! i) \<Longrightarrow> c_ledc_timer c = c_ledc_timer (cs ! i) \<Longrightarrow>
   timer_users t (cs[i := c]) = timer_users t cs"
  using timer_users_update [of i cs t c] by simp

lemma timer_users_pos: "i < length cs \<Longrightarrow> c_active (cs ! i) \<Longrightarrow> 0 < timer_users (c_ledc_timer (cs ! i)) cs"
  unfolding timer_users_def by (rule count_if_pos) auto

lemma unat_8_dec: "unat (w :: 8 word) = 1 \<Longrightarrow> 0 < w \<and> unat (w - 1) = 0"
proof -
  assume "unat w = 1"
  then have "w = 1" using word_unat_eq_iff [of w 1] by simp
  then show ?thesis by simp
qed

lemma timer_bit: "t < LEDC_TIMER_MAX \<Longrightarrow> t < LENGTH(8)"
  by (simp add: LEDC_TIMER_MAX_def)

text \<open>Stopping an active channel.\<close>

lemma timers_ok_stop:
  assumes "timers_ok cs usage refs" and "i < length cs" and "c_active (cs ! i)"
    and "t = c_ledc_timer (cs ! i)" and "t < LEDC_TIMER_MAX"
  shows "timers_ok (cs[i := (cs ! i)\<lparr>c_active := False\<rparr>]) (unset_bit t usage) (refs[t := refs ! t - 1]) \<and>
    0 < refs ! t \<and> refs ! t - 1 = 0"
proof -
  have u: "timer_users t cs = 1" "unat (refs ! t) = 1"
    using assms timer_users_pos [of i cs] by (auto simp: timers_ok_def le_Suc_eq)
  then have d: "0 < refs ! t" "unat (refs ! t - 1) = 0" using unat_8_dec by blast+
  have off: "timer_users t (cs[i := (cs ! i)\<lparr>c_active := False\<rparr>]) = 0"
    using timer_users_update [OF assms(2), of t "(cs ! i)\<lparr>c_active := False\<rparr>"] assms(3,4) u by simp
  have other: "timer_users t' (cs[i := (cs ! i)\<lparr>c_active := False\<rparr>]) = timer_users t' cs" if "t' \<noteq> t" for t'
    using timer_users_update [OF assms(2), of t' "(cs ! i)\<lparr>c_active := False\<rparr>"] that assms(4) by simp
  have "unat ((refs[t := refs ! t - 1]) ! t') = timer_users t' (cs[i := (cs ! i)\<lparr>c_active := False\<rparr>]) \<and>
    timer_users t' (cs[i := (cs ! i)\<lparr>c_active := False\<rparr>]) \<le> 1 \<and>
    (bit (unset_bit t usage) t' \<longleftrightarrow> timer_users t' (cs[i := (cs ! i)\<lparr>c_active := False\<rparr>]) = 1)"
    if "t' < LEDC_TIMER_MAX" for t'
  proof (cases "t' = t")
    case True
    with off d assms(1,5) show ?thesis by (simp add: timers_ok_def bit_unset_bit_iff)
  next
    case False
    with other assms(1) that show ?thesis by (simp add: timers_ok_def bit_unset_bit_iff)
  qed
  with assms(1) d show ?thesis by (auto simp: timers_ok_def unat_eq_0)
qed

lemma pwm_stop_eq:
  assumes "timers_ok (pw_channels s) (pw_timer_usage s) (pw_refcount s)" and "list_all channel_ok (pw_channels s)"
    and "i < length (pw_channels s)" and "c_active (pw_channels s ! i)"
    and "t = c_ledc_timer (pw_channels s ! i)"
  shows "fst (pwm_stop_channel i s) = s\<lparr>pw_refcount := (pw_refcount s)[t := pw_refcount s ! t - 1],
      pw_timer_usage := unset_bit t (pw_timer_usage s),
      pw_channels := (pw_channels s)[i := (pw_channels s ! i)\<lparr>c_active := False\<rparr>]\<rparr>"
    and "t < LEDC_TIMER_MAX"
proof -
  show t: "t < LEDC_TIMER_MAX"
    using assms(2,3,5) by (auto simp: list_all_length channel_ok_def)
  from timers_ok_stop [OF assms(1,3-5) t] assms(1,5) t
  show "fst (pwm_stop_channel i s) = s\<lparr>pw_refcount := (pw_refcount s)[t := pw_refcount s ! t - 1],
      pw_timer_usage := unset_bit t (pw_timer_usage s),
      pw_channels := (pw_channels s)[i := (pw_channels s ! i)\<lparr>c_active := False\<rparr>]\<rparr>"
    by (simp add: pwm_stop_channel_def pwm_free_timer_def Let_def timers_ok_def)
qed

lemma pwm_stop_inv:
  assumes "pwm_inv s" and "pw_initialized s" and "i < OS_PWM_MAX_CHANNELS" and "c_active (pw_channels s ! i)"
  shows "pwm_inv (fst (pwm_stop_channel i s)) \<and> pw_initialized (fst (pwm_stop_channel i s)) \<and>
    pw_channels (fst (pwm_stop_channel i s)) = (pw_channels s)[i := (pw_channels s ! i)\<lparr>c_active := False\<rparr>] \<and>
    pw_mutex (fst (pwm_stop_channel i s)) = pw_mutex s"
proof -
  let ?c = "pw_channels s ! i"
  have inv: "timers_ok (pw_channels s) (pw_timer_usage s) (pw_refcount s)" "list_all channel_ok (pw_channels s)"
    "i < length (pw_channels s)"
    using assms by (simp_all add: pwm_inv_def)
  note eq = pwm_stop_eq [OF inv assms(4) refl]
  have "channel_ok (?c\<lparr>c_active := False\<rparr>)" using eq(2) by (simp add: channel_ok_def)
  then have "list_all channel_ok ((pw_channels s)[i := ?c\<lparr>c_active := False\<rparr>])"
    using inv(2) by (rule list_all_update [rotated])
  with timers_ok_stop [OF inv(1,3) assms(4) refl eq(2), THEN conjunct1] assms show ?thesis
    by (simp add: eq(1) pwm_inv_def)
qed

text \<open>Taking a free timer for an inactive channel.\<close>

lemma timers_ok_start:
  assumes "timers_ok cs usage refs" and "i < length cs" and "\<not> c_active (cs ! i)"
    and "t < LEDC_TIMER_MAX" and "\<not> bit usage t" and "c_active c" and "c_ledc_timer c = t"
  shows "timers_ok (cs[i := c]) (set_bit t usage) (refs[t := 1])"
proof -
  have u: "timer_users t cs = 0" using assms(1,4,5) by (auto simp: timers_ok_def le_Suc_eq)
  have new: "timer_users t' (cs[i := c]) = (if t' = t then 1 else timer_users t' cs)" for t'
    using timer_users_update [OF assms(2), of t' c] assms(3,6,7) u by auto
  show ?thesis
    unfolding timers_ok_def
  proof (intro conjI allI impI)
    show "length (refs[t := 1]) = LEDC_TIMER_MAX" using assms(1) by (simp add: timers_ok_def)
    fix t'
    assume "t' < LEDC_TIMER_MAX"
    with assms(1,4) timer_bit [of t'] show "unat (refs[t := 1] ! t') = timer_users t' (cs[i := c])"
      "timer_users t' (cs[i := c]) \<le> 1" "bit (set_bit t usage) t' = (timer_users t' (cs[i := c]) = 1)"
      by (auto simp: timers_ok_def new bit_set_bit_iff nth_list_update)
  qed
qed

text \<open>Giving a timer back when configuring it or its channel fails leaves the counts as they were.\<close>

lemma timers_ok_undo:
  assumes "timers_ok cs usage refs" and "t < LEDC_TIMER_MAX" and "\<not> bit usage t"
  shows "unset_bit t (set_bit t usage) = usage" and "(refs[t := 1])[t := 1 - 1] = refs" and "refs ! t = 0"
proof -
  show "unset_bit t (set_bit t usage) = usage"
    using assms(3) by (intro bit_eqI) (auto simp: bit_unset_bit_iff bit_set_bit_iff)
  show zero: "refs ! t = 0"
    using assms by (auto simp: timers_ok_def le_Suc_eq unat_eq_0)
  then show "(refs[t := 1])[t := 1 - 1] = refs" using list_update_id [of refs t] by simp
qed

lemma pwm_alloc_cases:
  obtains (none) "fst (pwm_alloc_timer s) = None" "snd (pwm_alloc_timer s) = s"
      "\<And>t. t < LEDC_TIMER_MAX \<Longrightarrow> bit (pw_timer_usage s) t"
  | (some) t where "fst (pwm_alloc_timer s) = Some t" "t < LEDC_TIMER_MAX" "\<not> bit (pw_timer_usage s) t"
      "snd (pwm_alloc_timer s) = s\<lparr>pw_timer_usage := set_bit t (pw_timer_usage s), pw_refcount := (pw_refcount s)[t := 1]\<rparr>"
proof (cases "find_idx (\<lambda>i. \<not> bit (pw_timer_usage s) i) [0..<LEDC_TIMER_MAX]")
  case None
  then have "\<And>t. t < LEDC_TIMER_MAX \<Longrightarrow> bit (pw_timer_usage s) t" by (auto simp: find_idx_None)
  with None none show ?thesis by (simp add: pwm_alloc_timer_def)
next
  case (Some t)
  then have t: "t < LEDC_TIMER_MAX" using find_idx_SomeD [OF Some] by simp
  moreover have "\<not> bit (pw_timer_usage s) t" using find_idx_SomeD [OF Some] t by simp
  ultimately have "t < LEDC_TIMER_MAX" "\<not> bit (pw_timer_usage s) t" by blast+
  with Some some show ?thesis by (simp add: pwm_alloc_timer_def)
qed

lemma timers_ok_inactive:
  "timers_ok cs usage refs \<Longrightarrow> i < length cs \<Longrightarrow> \<not> c_active (cs ! i) \<Longrightarrow> \<not> c_active c \<Longrightarrow>
   timers_ok (cs[i := c]) usage refs"
  using timer_users_update [of i cs _ c] by (simp add: timers_ok_def)

lemma valid_channel_idx: "is_valid_channel ch \<Longrightarrow> channel_idx ch < OS_PWM_MAX_CHANNELS"
  by (auto simp: is_valid_channel_def channel_idx_def)

text \<open>Configuring an inactive channel, from the state after the possible stop.\<close>

definition pwm_configure :: "esp_err \<Rightarrow> esp_err \<Rightarrow> nat \<Rightarrow> 8 word \<Rightarrow> 32 word \<Rightarrow> pwm \<Rightarrow> esp_err \<times> pwm" where
  "pwm_configure rt rc i gpio_pin freq_hz s1 =
     (let (timer_idx, s2) = pwm_alloc_timer s1
      in case timer_idx of
           None \<Rightarrow> (ESP_ERR_NO_MEM, s2)
         | Some t \<Rightarrow>
             let c = (pw_channels s2 ! i)\<lparr>c_ledc_timer := t\<rparr>;
                 s3 = s2\<lparr>pw_channels := (pw_channels s2)[i := c]\<rparr>
             in if rt \<noteq> ESP_OK then (rt, pwm_free_timer t s3)
                else if rc \<noteq> ESP_OK then (rc, pwm_free_timer t s3)
                else (ESP_OK, s3\<lparr>pw_channels := (pw_channels s3)[i := c\<lparr>c_active := True, c_gpio_pin := gpio_pin,
                                   c_freq_hz := freq_hz, c_duty_percent := 0\<rparr>]\<rparr>))"

lemma os_pwm_channel_init_eq:
  assumes "pw_initialized s" and "is_valid_channel channel" and "freq_hz \<noteq> 0" and "freq_hz \<le> 40000000" and "gpio_ok gpio_pin"
    and "i = channel_idx channel"
  shows "(fst (os_pwm_channel_init gpio_ok rt rc channel gpio_pin freq_hz s),
      fst (snd (os_pwm_channel_init gpio_ok rt rc channel gpio_pin freq_hz s))) =
    pwm_configure rt rc i gpio_pin freq_hz (if c_active (pw_channels s ! i) then fst (pwm_stop_channel i s) else s)"
proof -
  have ok: "\<not> 40000000 < freq_hz" using assms(4) by simp
  show ?thesis
    by (cases "fst (pwm_alloc_timer (if c_active (pw_channels s ! i) then fst (pwm_stop_channel i s) else s))")
      (use ok assms in \<open>auto simp: os_pwm_channel_init_def pwm_configure_def Let_def split_beta\<close>)
qed

lemma pwm_configure_inv:
  assumes "pwm_inv s" and "pw_initialized s" and "i < OS_PWM_MAX_CHANNELS" and "\<not> c_active (pw_channels s ! i)"
    and "freq_hz \<noteq> 0" and "freq_hz \<le> 40000000"
  shows "pwm_inv (snd (pwm_configure rt rc i gpio_pin freq_hz s))"
proof -
  have inv: "timers_ok (pw_channels s) (pw_timer_usage s) (pw_refcount s)" "list_all channel_ok (pw_channels s)"
    "i < length (pw_channels s)"
    using assms by (simp_all add: pwm_inv_def)
  show ?thesis
  proof (cases rule: pwm_alloc_cases [of s])
    case none
    with assms(1) show ?thesis by (simp add: pwm_configure_def split_beta)
  next
    case (some t)
    let ?c = "(pw_channels s ! i)\<lparr>c_ledc_timer := t\<rparr>"
    let ?on = "?c\<lparr>c_active := True, c_gpio_pin := gpio_pin, c_freq_hz := freq_hz, c_duty_percent := 0\<rparr>"
    have "t < length (pw_refcount s)" using inv(1) some(2) by (simp add: timers_ok_def)
    have off: "list_all channel_ok ((pw_channels s)[i := ?c])" "list_all channel_ok ((pw_channels s)[i := ?on])"
      using inv(2) assms(4-6) some(2) by (auto intro!: list_all_update simp: channel_ok_def word_neq_0_conv)
    show ?thesis
    proof (cases "rt = ESP_OK \<and> rc = ESP_OK")
      case True
      have "timers_ok ((pw_channels s)[i := ?on]) (set_bit t (pw_timer_usage s)) ((pw_refcount s)[t := 1])"
        by (rule timers_ok_start [OF inv(1,3) assms(4) some(2,3)]) simp_all
      with True some off assms inv(3) show ?thesis
        by (simp add: pwm_configure_def split_beta Let_def pwm_inv_def)
    next
      case False
      have "snd (pwm_configure rt rc i gpio_pin freq_hz s) = s\<lparr>pw_channels := (pw_channels s)[i := ?c]\<rparr>"
        using False some timers_ok_undo [OF inv(1) some(2,3)] \<open>t < length (pw_refcount s)\<close>
        by (auto simp: pwm_configure_def split_beta Let_def pwm_free_timer_def)
      moreover have "timers_ok ((pw_channels s)[i := ?c]) (pw_timer_usage s) (pw_refcount s)"
        using inv assms(4) by (intro timers_ok_inactive) simp_all
      ultimately show ?thesis using assms off by (simp add: pwm_inv_def)
    qed
  qed
qed

section \<open>Sequences of calls\<close>

lemma pwm_channel_init_inv:
  assumes "pwm_inv s"
  shows "pwm_inv (fst (snd (os_pwm_channel_init gpio_ok rt rc channel gpio_pin freq_hz s)))"
proof (cases "pw_initialized s \<and> is_valid_channel channel \<and> freq_hz \<noteq> 0 \<and> freq_hz \<le> 40000000 \<and> gpio_ok gpio_pin")
  case True
  let ?i = "channel_idx channel"
  let ?s1 = "if c_active (pw_channels s ! ?i) then fst (pwm_stop_channel ?i s) else s"
  have i: "?i < OS_PWM_MAX_CHANNELS" using True valid_channel_idx by blast
  have "length (pw_channels s) = OS_PWM_MAX_CHANNELS" using assms by (simp add: pwm_inv_def)
  then have s1: "pwm_inv ?s1" "pw_initialized ?s1" "\<not> c_active (pw_channels ?s1 ! ?i)"
    using pwm_stop_inv [OF assms _ i] assms True i by auto
  have "fst (snd (os_pwm_channel_init gpio_ok rt rc channel gpio_pin freq_hz s)) =
      snd (pwm_configure rt rc ?i gpio_pin freq_hz ?s1)"
    using os_pwm_channel_init_eq [of s channel freq_hz gpio_ok gpio_pin ?i rt rc] True by (metis snd_conv)
  then show ?thesis using pwm_configure_inv [OF s1(1,2) i s1(3)] True by metis
next
  case False
  with assms show ?thesis by (auto simp: os_pwm_channel_init_def not_less)
qed

lemma pwm_set_channel_inv:
  assumes "pwm_inv s" and "pw_initialized s" and "i < OS_PWM_MAX_CHANNELS"
    and "c_active c = c_active (pw_channels s ! i)" and "c_ledc_timer c = c_ledc_timer (pw_channels s ! i)"
    and "channel_ok c"
  shows "pwm_inv (pwm_set_channel i c s)"
proof -
  have i: "i < length (pw_channels s)" using assms(1,3) by (simp add: pwm_inv_def)
  have "list_all channel_ok ((pw_channels s)[i := c])"
    using assms(1,6) by (auto simp: pwm_inv_def intro: list_all_update)
  with assms(1-3) timer_users_same [OF i assms(4,5)] show ?thesis
    by (simp add: pwm_set_channel_def pwm_inv_def timers_ok_def)
qed

lemma pwm_inv_channel:
  "pwm_inv s \<Longrightarrow> is_valid_channel ch \<Longrightarrow> channel_ok (pw_channels s ! channel_idx ch)"
  using valid_channel_idx [of ch] by (auto simp: pwm_inv_def list_all_length)

lemma pwm_deinit_fold:
  assumes "pwm_inv s" and "pw_initialized s" and "n \<le> OS_PWM_MAX_CHANNELS"
  shows "let s' = fst (fold pwm_deinit_step [0..<n] (s, tr)) in
    pwm_inv s' \<and> pw_initialized s' \<and> pw_mutex s' = pw_mutex s \<and> (\<forall>i < n. \<not> c_active (pw_channels s' ! i))"
  using assms(3)
proof (induction n)
  case 0
  with assms(1,2) show ?case by simp
next
  case (Suc n)
  obtain s' tr' where f: "fold pwm_deinit_step [0..<n] (s, tr) = (s', tr')"
    by fastforce
  have IH: "pwm_inv s'" "pw_initialized s'" "pw_mutex s' = pw_mutex s" "\<forall>i < n. \<not> c_active (pw_channels s' ! i)"
    using Suc f by (simp_all add: Let_def)
  have step: "fold pwm_deinit_step [0..<Suc n] (s, tr) = pwm_deinit_step n (s', tr')" using f by simp
  show ?case
  proof (cases "c_active (pw_channels s' ! n)")
    case False
    with IH show ?thesis unfolding step by (simp add: pwm_deinit_step_def less_Suc_eq)
  next
    case True
    have "n < OS_PWM_MAX_CHANNELS" using Suc.prems by simp
    moreover have "length (pw_channels s') = OS_PWM_MAX_CHANNELS" using IH(1) by (simp add: pwm_inv_def)
    ultimately show ?thesis
      unfolding step using True IH pwm_stop_inv [OF IH(1,2) _ True]
      by (simp add: pwm_deinit_step_def split_beta Let_def less_Suc_eq nth_list_update)
  qed
qed

lemma pwm_deinit_inv:
  assumes "pwm_inv s"
  shows "pwm_inv (fst (os_pwm_deinit s))"
proof (cases "pw_initialized s")
  case True
  obtain s' tr' where f: "fold pwm_deinit_step [0..<OS_PWM_MAX_CHANNELS] (s, []) = (s', tr')"
    by fastforce
  have s': "pwm_inv s'" "\<forall>i < OS_PWM_MAX_CHANNELS. \<not> c_active (pw_channels s' ! i)"
    using pwm_deinit_fold [OF assms True order_refl, of "[]"] f by (simp_all add: Let_def)
  then have off: "\<forall>c \<in> set (pw_channels s'). \<not> c_active c"
    by (auto simp: pwm_inv_def in_set_conv_nth)
  then have "count_if c_active (pw_channels s') = 0" "\<And>t. timer_users t (pw_channels s') = 0"
    by (auto simp: timer_users_def count_if_def filter_empty_conv)
  with s'(1) True f show ?thesis by (simp add: os_pwm_deinit_def pwm_inv_def timers_ok_def)
next
  case False
  with assms show ?thesis by (simp add: os_pwm_deinit_def)
qed

datatype pwm_op =
    PwmInit "nat option" | PwmDeinit | PwmChannelInit esp_err esp_err "8 word" "8 word" "32 word"
  | PwmChannelDeinit "8 word" | PwmSetDuty esp_err "8 word" "8 word" | PwmSetDutyUs esp_err "8 word" "32 word"
  | PwmSetFreq esp_err "8 word" "32 word"

primrec pwm_exec :: "(8 word \<Rightarrow> bool) \<Rightarrow> pwm_op \<Rightarrow> pwm \<Rightarrow> pwm \<times> pwm_call eff list" where
  "pwm_exec gpio_ok (PwmInit lk) s = snd (os_pwm_init lk s)"
| "pwm_exec gpio_ok PwmDeinit s = os_pwm_deinit s"
| "pwm_exec gpio_ok (PwmChannelInit rt rc ch gpio freq) s = snd (os_pwm_channel_init gpio_ok rt rc ch gpio freq s)"
| "pwm_exec gpio_ok (PwmChannelDeinit ch) s = snd (os_pwm_channel_deinit ch s)"
| "pwm_exec gpio_ok (PwmSetDuty ret ch d) s = snd (os_pwm_set_duty ret ch d s)"
| "pwm_exec gpio_ok (PwmSetDutyUs ret ch us) s = snd (os_pwm_set_duty_us ret ch us s)"
| "pwm_exec gpio_ok (PwmSetFreq ret ch freq) s = snd (os_pwm_set_freq ret ch freq s)"

lemma pwm_idle_inv:
  "timers_ok (map channel_zero is) 0 (replicate LEDC_TIMER_MAX 0) \<and> list_all channel_ok (map channel_zero is)
   \<and> count_if c_active (map channel_zero is) = 0"
  by (auto simp: timers_ok_def timer_users_def count_if_def filter_empty_conv list_all_iff channel_ok_def
      channel_zero_def LEDC_TIMER_MAX_def)

lemma pwm_boot_inv: "pwm_inv pwm_boot"
  using pwm_idle_inv [of "replicate OS_PWM_MAX_CHANNELS 0"] by (simp add: pwm_inv_def pwm_boot_def)

lemma duty_us_percent_le: "duty_us_percent us f \<le> 100"
  by (simp add: duty_us_percent_def Let_def not_less)

lemma ucast_duty: "(d :: 8 word) \<le> 100 \<Longrightarrow> (ucast d :: 32 word) \<le> 100"
  by (simp add: word_le_nat_alt unsigned_ucast_eq take_bit_nat_eq_self)

lemma pwm_step_inv:
  assumes "pwm_inv s"
  shows "pwm_inv (fst (pwm_exec gpio_ok x s))"
proof (cases x)
  case (PwmInit lk)
  with assms show ?thesis
    using pwm_idle_inv [of "[0..<OS_PWM_MAX_CHANNELS]"]
    by (auto simp: os_pwm_init_def pwm_inv_def split: option.split)
next
  case PwmDeinit
  with pwm_deinit_inv assms show ?thesis by simp
next
  case (PwmChannelInit rt rc ch gpio freq)
  with pwm_channel_init_inv assms show ?thesis by simp
next
  case (PwmChannelDeinit ch)
  with assms show ?thesis
    using pwm_stop_inv [OF assms _ valid_channel_idx, of ch]
    by (simp add: os_pwm_channel_deinit_def split_beta Let_def)
next
  case (PwmSetDuty ret ch d)
  with assms show ?thesis
    using pwm_inv_channel [OF assms, of ch] valid_channel_idx [of ch]
    by (auto simp: os_pwm_set_duty_def Let_def channel_ok_def not_less intro!: pwm_set_channel_inv ucast_duty)
next
  case (PwmSetDutyUs ret ch us)
  with assms show ?thesis
    using pwm_inv_channel [OF assms, of ch] valid_channel_idx [of ch]
    by (auto simp: os_pwm_set_duty_us_def Let_def channel_ok_def duty_us_percent_le intro!: pwm_set_channel_inv)
next
  case (PwmSetFreq ret ch freq)
  with assms show ?thesis
    using pwm_inv_channel [OF assms, of ch] valid_channel_idx [of ch]
    by (auto simp: os_pwm_set_freq_def Let_def channel_ok_def not_less word_neq_0_conv intro!: pwm_set_channel_inv)
qed

interpretation pwm_calls: guarded "\<lambda>x s. fst (pwm_exec gpio_ok x s)" "\<lambda>_. True" pwm_inv
  by unfold_locales (rule pwm_step_inv)

section \<open>Timers bound the channels\<close>

lemma count_active_timers:
  "list_all channel_ok cs \<Longrightarrow> count_if c_active cs = (\<Sum>t < LEDC_TIMER_MAX. timer_users t cs)"
proof (induction cs)
  case Nil
  then show ?case by (simp add: timer_users_def)
next
  case (Cons c cs)
  have "timer_users t (c # cs) = (if t = c_ledc_timer c then (if c_active c then 1 else 0) else 0) + timer_users t cs" for t
    by (auto simp: timer_users_def)
  then have "(\<Sum>t < LEDC_TIMER_MAX. timer_users t (c # cs)) =
      (\<Sum>t < LEDC_TIMER_MAX. if t = c_ledc_timer c then (if c_active c then 1 else 0) else 0) +
      (\<Sum>t < LEDC_TIMER_MAX. timer_users t cs)"
    by (simp only: sum.distrib)
  also have "(\<Sum>t < LEDC_TIMER_MAX. if t = c_ledc_timer c then (if c_active c then 1 else 0) else (0::nat)) =
      (if c_active c then 1 else 0)"
    using Cons.prems by (simp add: channel_ok_def)
  finally show ?case using Cons by simp
qed

lemma pwm_active_le:
  assumes "pwm_inv s"
  shows "count_if c_active (pw_channels s) \<le> LEDC_TIMER_MAX"
proof -
  have "(\<Sum>t < LEDC_TIMER_MAX. timer_users t (pw_channels s)) \<le> (\<Sum>t < LEDC_TIMER_MAX. 1)"
    using assms by (intro sum_mono) (auto simp: pwm_inv_def timers_ok_def)
  with count_active_timers [of "pw_channels s"] assms show ?thesis by (simp add: pwm_inv_def)
qed

lemma pwm_alloc_None:
  assumes "pwm_inv s"
  shows "fst (pwm_alloc_timer s) = None \<longleftrightarrow> count_if c_active (pw_channels s) = LEDC_TIMER_MAX"
proof -
  have ok: "list_all channel_ok (pw_channels s)" "timers_ok (pw_channels s) (pw_timer_usage s) (pw_refcount s)"
    using assms by (simp_all add: pwm_inv_def)
  show ?thesis
  proof (cases rule: pwm_alloc_cases [of s])
    case none
    then have "\<And>t. t < LEDC_TIMER_MAX \<Longrightarrow> timer_users t (pw_channels s) = 1"
      using ok(2) by (simp add: timers_ok_def)
    then show ?thesis using count_active_timers [OF ok(1)] none(1) by simp
  next
    case (some t)
    have "timer_users t (pw_channels s) = 0"
      using ok(2) some(2,3) by (auto simp: timers_ok_def le_Suc_eq)
    moreover have "\<And>t. t < LEDC_TIMER_MAX \<Longrightarrow> timer_users t (pw_channels s) \<le> 1"
      using ok(2) by (simp add: timers_ok_def)
    ultimately have "(\<Sum>t < LEDC_TIMER_MAX. timer_users t (pw_channels s)) < (\<Sum>t < LEDC_TIMER_MAX. 1)"
      using some(2) by (intro sum_strict_mono_ex1) auto
    then show ?thesis using count_active_timers [OF ok(1)] some(1) by simp
  qed
qed

lemma distinct_timers:
  "list_all channel_ok cs \<Longrightarrow> \<forall>t < LEDC_TIMER_MAX. timer_users t cs \<le> 1 \<Longrightarrow>
   distinct (map c_ledc_timer (filter c_active cs))"
proof (induction cs)
  case Nil
  then show ?case by simp
next
  case (Cons c cs)
  have split: "timer_users t (c # cs) = (if c_active c \<and> c_ledc_timer c = t then 1 else 0) + timer_users t cs" for t
    by (simp add: timer_users_def)
  have t: "c_ledc_timer c < LEDC_TIMER_MAX" using Cons.prems(1) by (simp add: channel_ok_def)
  have "timer_users (c_ledc_timer c) cs = 0" if "c_active c"
    using Cons.prems(2) [rule_format, OF t] split [of "c_ledc_timer c"] that by simp
  then have "c_ledc_timer c \<notin> c_ledc_timer ` {x \<in> set cs. c_active x}" if "c_active c"
    using that by (auto simp: timer_users_def count_if_def filter_empty_conv)
  moreover have "\<forall>t < LEDC_TIMER_MAX. timer_users t cs \<le> 1" using Cons.prems(2) split by (auto split: if_splits)
  ultimately show ?case using Cons by simp
qed

lemma pwm_stop_quiet [simp]: "quiet (snd (pwm_stop_channel i s))"
  by (simp add: pwm_stop_channel_def Let_def)

lemma pwm_deinit_quiet: "quiet tr \<Longrightarrow> quiet (snd (fold pwm_deinit_step is (s, tr)))"
proof (induction "is" arbitrary: s tr)
  case Nil
  then show ?case by simp
next
  case (Cons i "is")
  have q: "quiet (snd (pwm_deinit_step i (s, tr)))" using Cons.prems by (simp add: pwm_deinit_step_def split_beta Let_def)
  obtain s1 tr1 where "pwm_deinit_step i (s, tr) = (s1, tr1)" by fastforce
  with q Cons.IH [of tr1 s1] show ?case by simp
qed

lemma pwm_exec_lock: "lock_ok False (snd (pwm_exec gpio_ok x s))"
proof (cases x)
  case PwmDeinit
  then show ?thesis
    using pwm_deinit_quiet [of "[]" "[0..<OS_PWM_MAX_CHANNELS]" s]
    by (simp add: os_pwm_deinit_def split_beta Let_def lock_simps)
next
  case (PwmChannelInit rt rc ch gpio freq)
  show ?thesis
    by (cases "c_active (pw_channels s ! channel_idx ch)")
      (simp_all add: PwmChannelInit os_pwm_channel_init_def split_beta Let_def lock_simps split: option.split)
qed (simp_all add: os_pwm_init_def os_pwm_channel_deinit_def os_pwm_set_duty_def os_pwm_set_duty_us_def
    os_pwm_set_freq_def split_beta Let_def lock_simps split: option.split)

section \<open>Duty registers\<close>

lemma duty_percent_unat:
  "unat (duty_percent_to_reg p) = (if 100 \<le> p then 8191 else unat p * 8191 div 100)"
proof (cases "100 \<le> p")
  case True
  then show ?thesis by (simp add: duty_percent_to_reg_def PWM_MAX_DUTY_VALUE_def)
next
  case False
  then have "unat p < 100" by (simp add: word_le_nat_alt)
  then have "unat p * 8191 div 100 < 2 ^ 32" by simp
  with False show ?thesis
    by (simp add: duty_percent_to_reg_def PWM_MAX_DUTY_VALUE_def unat_of_nat take_bit_nat_eq_self)
qed

lemma duty_percent_le: "duty_percent_to_reg p \<le> PWM_MAX_DUTY_VALUE"
  by (auto simp: word_le_nat_alt duty_percent_unat PWM_MAX_DUTY_VALUE_def)

lemma unat_ucast_up: "unat (ucast (w :: 32 word) :: 64 word) = unat w"
  using unsigned_less [of w, where 'a = nat] by (simp add: unsigned_ucast_eq take_bit_nat_eq_self)

lemma duty_us_unat:
  assumes "freq \<noteq> 0"
  shows "unat (duty_us_to_reg us freq) =
    (let period = 1000000 div unat freq in if period \<le> unat us then 8191 else unat us * 8191 div period)"
proof -
  define period where "period = (1000000 div freq :: 32 word)"
  have p: "unat period = 1000000 div unat freq" by (simp add: period_def unat_div)
  show ?thesis
  proof (cases "period \<le> us")
    case True
    then show ?thesis
      using p by (simp add: duty_us_to_reg_def PWM_MAX_DUTY_VALUE_def period_def [symmetric] word_le_nat_alt)
  next
    case False
    then have lt: "unat us < unat period" by (simp add: word_le_nat_alt)
    have "unat period \<le> 1000000" using p by simp
    with lt have "unat us * 8191 < 2 ^ 64" by simp
    then have m: "unat (ucast us * 8191 :: 64 word) = unat us * 8191"
      using unat_ucast_up [of us] by (simp add: unat_word_ariths)
    have "unat us * 8191 div unat period \<le> 8191"
      using lt div_le_mono [of "unat us * 8191" "unat period * 8191" "unat period"] by simp
    then have t: "take_bit 32 (unat us * 8191 div unat period) = unat us * 8191 div unat period"
      by (intro take_bit_nat_eq_self) simp
    have "take_bit 64 (unat period) = unat period"
      using \<open>unat period \<le> 1000000\<close> by (intro take_bit_nat_eq_self) simp
    with False lt m p t show ?thesis
      by (simp add: duty_us_to_reg_def PWM_MAX_DUTY_VALUE_def period_def [symmetric] unsigned_ucast_eq unat_div)
  qed
qed

lemma duty_us_unat_mono:
  fixes a b period :: nat
  assumes "a \<le> b"
  shows "(if period \<le> a then 8191 else a * 8191 div period) \<le> (if period \<le> b then 8191 else b * 8191 div period)"
  using assms div_le_mono [of "a * 8191" "period * 8191" period] div_le_mono [of "a * 8191" "b * 8191" period]
  by (cases "period = 0") auto

lemma duty_us_percent_exact:
  assumes "freq \<le> 10000"
  shows "unat (duty_us_percent us freq) = min 100 (unat us * unat freq div 10000)"
proof -
  have f: "unat freq \<le> 10000" using assms by (simp add: word_le_nat_alt)
  have u: "unat us < 4294967296" using unsigned_less [of us, where 'a = nat] by simp
  have b: "unat us * unat freq \<le> 4294967295 * 10000" using f u by (intro mult_le_mono) simp_all
  then have "unat us * 100 * unat freq < 2 ^ 64" by (simp add: mult.commute mult.left_commute)
  moreover have "unat us * 100 < 2 ^ 64" using u by simp
  ultimately have m: "unat (ucast us * 100 * ucast freq :: 64 word) = unat us * 100 * unat freq"
    by (simp add: unat_word_ariths unat_ucast_up)
  have d: "unat us * 100 * unat freq div 1000000 = unat us * unat freq div 10000"
    using div_mult_mult1 [of 100 "unat us * unat freq" 10000] by (simp add: mult.commute mult.left_commute)
  have "unat us * unat freq div 10000 < 4294967296" using div_le_mono [OF b, of 10000] by simp
  then have "unat (ucast ((ucast us * 100 * ucast freq :: 64 word) div 1000000) :: 32 word) = unat us * unat freq div 10000"
    by (simp add: unsigned_ucast_eq take_bit_nat_eq_self unat_div m d)
  then show ?thesis by (simp add: duty_us_percent_def Let_def word_less_nat_alt)
qed

section \<open>Properties\<close>

text \<open>After any sequence of PWM calls from boot, successful or not, the timer bitmap, the
  reference counts and the channel table agree; two active channels never share a timer, so at most 4 are active;
  frequencies and percentages of active channels are in range; and every call follows the mutex discipline.\<close>

theorem pwm_run_ok:
  "let s = run (\<lambda>x s. fst (pwm_exec gpio_ok x s)) ops pwm_boot in
   pwm_inv s \<and> count_if c_active (pw_channels s) \<le> LEDC_TIMER_MAX \<and>
   distinct (map c_ledc_timer (filter c_active (pw_channels s))) \<and>
   lock_ok False (snd (pwm_exec gpio_ok x s))"
  unfolding Let_def
proof (intro conjI)
  let ?s = "run (\<lambda>x s. fst (pwm_exec gpio_ok x s)) ops pwm_boot"
  show inv: "pwm_inv ?s"
    by (rule pwm_calls.run_inv) (simp_all add: list_all_iff pwm_boot_inv)
  then show "count_if c_active (pw_channels ?s) \<le> LEDC_TIMER_MAX" by (rule pwm_active_le)
  show "distinct (map c_ledc_timer (filter c_active (pw_channels ?s)))"
    using inv by (intro distinct_timers) (simp_all add: pwm_inv_def timers_ok_def)
  show "lock_ok False (snd (pwm_exec gpio_ok x ?s))"
    by (rule pwm_exec_lock)
qed


definition pwm_started :: pwm where
  "pwm_started = fst (snd (os_pwm_init (Some 1) pwm_boot))"

definition pwm_one :: pwm where
  "pwm_one = fst (snd (os_pwm_channel_init (\<lambda>_. True) ESP_OK ESP_OK 2 18 5000 pwm_started))"

lemma pwm_started_inv: "pwm_inv pwm_started"
  using pwm_step_inv [OF pwm_boot_inv, of "\<lambda>_. True" "PwmInit (Some 1)"] by (simp add: pwm_started_def)

lemma pwm_one_inv: "pwm_inv pwm_one"
  unfolding pwm_one_def by (rule pwm_channel_init_inv [OF pwm_started_inv])


text \<open>Setting the duty of an active channel writes the register value of the percentage cut to
  100, never above 8191; after success the configuration reads that percentage back with the pin and the
  frequency unchanged, after a failed LEDC call it reads what it read before.\<close>

theorem os_pwm_set_duty_get:
  assumes "pwm_inv s" and "pw_initialized s" and "is_valid_channel ch"
    and "fst (snd (os_pwm_get_config ch s)) = Some (pin, freq, d0)"
    and "os_pwm_set_duty ret ch d s = (r, s', tr)"
  shows "r = ret \<and>
    LedcSetDuty (c_ledc_ch (pw_channels s ! channel_idx ch)) (duty_percent_to_reg (min d 100)) \<in> set (ext_calls tr) \<and>
    duty_percent_to_reg (min d 100) \<le> PWM_MAX_DUTY_VALUE \<and>
    fst (snd (os_pwm_get_config ch s')) = Some (pin, freq, if ret = ESP_OK then min d 100 else d0)"
proof -
  let ?i = "channel_idx ch"
  have i: "?i < length (pw_channels s)" using assms(1,3) valid_channel_idx by (simp add: pwm_inv_def)
  have act: "c_active (pw_channels s ! ?i)" "c_gpio_pin (pw_channels s ! ?i) = pin" "c_freq_hz (pw_channels s ! ?i) = freq"
      "ucast (c_duty_percent (pw_channels s ! ?i)) = d0"
    using assms(3,4) by (auto simp: os_pwm_get_config_def Let_def split: if_splits)
  have cut: "ucast (ucast e :: 32 word) = e" for e :: "8 word"
    by (intro bit_word_eqI) (simp add: bit_ucast_iff)
  have m: "(if 100 < d then 100 else d) = min d 100" by (auto simp: min_def not_less)
  show ?thesis
    using assms(2,3,5) act i duty_percent_le [of "min d 100"]
    by (auto simp: os_pwm_set_duty_def Let_def m cut pwm_set_channel_def os_pwm_get_config_def split: if_splits)
qed

theorem os_pwm_set_duty_get_witness:
  "fst (snd (os_pwm_get_config 2 (fst (snd (os_pwm_set_duty ESP_OK 2 150 pwm_one))))) = Some (18, 5000, 100)"
proof -
  have h: "pw_initialized pwm_one" "is_valid_channel 2" "fst (snd (os_pwm_get_config 2 pwm_one)) = Some (18, 5000, 0)"
    by code_simp+
  have e: "os_pwm_set_duty ESP_OK 2 150 pwm_one =
      (fst (os_pwm_set_duty ESP_OK 2 150 pwm_one), fst (snd (os_pwm_set_duty ESP_OK 2 150 pwm_one)),
       snd (snd (os_pwm_set_duty ESP_OK 2 150 pwm_one)))"
    by simp
  show ?thesis using os_pwm_set_duty_get [OF pwm_one_inv h e] by simp
qed

text \<open>Claim C34: both conversions to the 13-bit duty register stay within 8191 and are monotone, the ends of
  the range are 0 and 8191, and up to 10 kHz (more than a 13-bit timer can do) the percentage kept for a pulse
  width is the exact share of the period, rounded down and capped at 100.\<close>

theorem duty_registers:
  assumes "freq \<noteq> 0"
  shows "duty_percent_to_reg p \<le> PWM_MAX_DUTY_VALUE \<and> duty_us_to_reg us freq \<le> PWM_MAX_DUTY_VALUE \<and>
    duty_percent_to_reg 0 = 0 \<and> duty_percent_to_reg 100 = PWM_MAX_DUTY_VALUE \<and>
    (p \<le> q \<longrightarrow> duty_percent_to_reg p \<le> duty_percent_to_reg q) \<and>
    (us \<le> us' \<longrightarrow> duty_us_to_reg us freq \<le> duty_us_to_reg us' freq) \<and>
    (freq \<le> 10000 \<longrightarrow> unat (duty_us_percent us freq) = min 100 (unat us * unat freq div 10000))"
proof (intro conjI impI)
  show "duty_percent_to_reg p \<le> PWM_MAX_DUTY_VALUE" by (rule duty_percent_le)
  show "duty_us_to_reg us freq \<le> PWM_MAX_DUTY_VALUE"
    using duty_us_unat_mono [of "unat us" "max (unat us) (1000000 div unat freq)" "1000000 div unat freq"]
    by (simp add: word_le_nat_alt duty_us_unat [OF assms] PWM_MAX_DUTY_VALUE_def Let_def)
  show "duty_percent_to_reg 0 = 0" "duty_percent_to_reg 100 = PWM_MAX_DUTY_VALUE"
    by (simp_all add: duty_percent_to_reg_def)
  show "duty_percent_to_reg p \<le> duty_percent_to_reg q" if "p \<le> q"
    using that duty_us_unat_mono [of "unat p" "unat q" 100] by (auto simp: word_le_nat_alt duty_percent_unat)
  show "duty_us_to_reg us freq \<le> duty_us_to_reg us' freq" if "us \<le> us'"
    using that duty_us_unat_mono [of "unat us" "unat us'" "1000000 div unat freq"]
    by (simp add: word_le_nat_alt duty_us_unat [OF assms] Let_def)
  show "unat (duty_us_percent us freq) = min 100 (unat us * unat freq div 10000)" if "freq \<le> 10000"
    using that by (rule duty_us_percent_exact)
qed

theorem duty_registers_witness:
  "duty_us_to_reg 1500 50 \<le> PWM_MAX_DUTY_VALUE \<and> duty_us_to_reg 1000 50 \<le> duty_us_to_reg 1500 50 \<and>
   unat (duty_us_percent 1500 50) = 7"
  using duty_registers [of 50 0 1000 0 1500] duty_registers [of 50 0 1500 0 1500] by simp

text \<open>Above 10 kHz the cut to 32 bits can lose the percentage: the output is fully on and reads back as 0.\<close>

lemma duty_us_percent_wraps:
  "duty_us_to_reg 134217728 40000000 = PWM_MAX_DUTY_VALUE \<and> duty_us_percent 134217728 40000000 = 0"
  by code_simp

end
