(* ===== verification/Mqtt.thy ===== *)
theory Mqtt
  imports SlotTable Fmt
begin

text \<open>
  The MQTT client, \<^verbatim>\<open>src/components/os_mqtt/src/os_mqtt.c\<close>: configuration, connection state,
  statistics and a table of at most 8 subscriptions that is replayed whenever the broker
  accepts a connection.

  The ESP-IDF client (\<^verbatim>\<open>esp_mqtt_client_*\<close>) is outside: its handles are numbers, the results of
  its calls are arguments, the calls are in the traces.  Its events arrive through
  \<open>mqtt_event_handler\<close>, a step of its own.  The user's callback runs without the mutex; it
  appears in the trace, and what it calls are further steps.
\<close>

section \<open>State\<close>

definition OS_MQTT_URL_MAX_LEN :: nat where "OS_MQTT_URL_MAX_LEN = 128"
definition OS_MQTT_CLIENT_ID_MAX_LEN :: nat where "OS_MQTT_CLIENT_ID_MAX_LEN = 32"
definition OS_MQTT_TOPIC_MAX_LEN :: nat where "OS_MQTT_TOPIC_MAX_LEN = 128"
definition OS_MQTT_MAX_SUBSCRIPTIONS :: nat where "OS_MQTT_MAX_SUBSCRIPTIONS = 8"
definition OS_MQTT_KEEPALIVE_SEC :: "16 word" where "OS_MQTT_KEEPALIVE_SEC = 60"
definition OS_MQTT_RECONNECT_DELAY_MS :: "32 word" where "OS_MQTT_RECONNECT_DELAY_MS = 5000"

datatype os_mqtt_qos = OS_MQTT_QOS_0 | OS_MQTT_QOS_1 | OS_MQTT_QOS_2

datatype os_mqtt_state =
    OS_MQTT_STATE_DISCONNECTED | OS_MQTT_STATE_CONNECTING | OS_MQTT_STATE_CONNECTED
  | OS_MQTT_STATE_DISCONNECTING | OS_MQTT_STATE_ERROR

datatype os_mqtt_event_type =
    OS_MQTT_EVENT_CONNECTED | OS_MQTT_EVENT_DISCONNECTED | OS_MQTT_EVENT_SUBSCRIBED
  | OS_MQTT_EVENT_UNSUBSCRIBED | OS_MQTT_EVENT_PUBLISHED | OS_MQTT_EVENT_DATA | OS_MQTT_EVENT_ERROR

text \<open>The values of the enumeration.\<close>

primrec event_code :: "os_mqtt_event_type \<Rightarrow> nat" where
  "event_code OS_MQTT_EVENT_CONNECTED = 0"
| "event_code OS_MQTT_EVENT_DISCONNECTED = 1"
| "event_code OS_MQTT_EVENT_SUBSCRIBED = 2"
| "event_code OS_MQTT_EVENT_UNSUBSCRIBED = 3"
| "event_code OS_MQTT_EVENT_PUBLISHED = 4"
| "event_code OS_MQTT_EVENT_DATA = 5"
| "event_code OS_MQTT_EVENT_ERROR = 6"

record os_mqtt_event =
  e_type :: os_mqtt_event_type
  e_session_present :: int
  e_topic :: "string option"
  e_topic_len :: "16 word"
  e_payload :: "string option"
  e_payload_len :: "16 word"
  e_qos :: os_mqtt_qos
  e_retain :: int
  e_error :: esp_err

text \<open>Pointers to certificates are the texts they point to, the callback is a number.\<close>

record os_mqtt_config =
  m_broker_url :: string
  m_client_id :: string
  m_username :: string
  m_password :: string
  m_ca_cert :: "string option"
  m_client_cert :: "string option"
  m_client_key :: "string option"
  m_keepalive_sec :: "16 word"
  m_disable_auto_reconnect :: bool
  m_reconnect_delay_ms :: "32 word"
  m_callback :: "nat option"
  m_user_data :: nat

record os_mqtt_stats =
  messages_sent :: "32 word"
  messages_received :: "32 word"
  messages_dropped :: "32 word"
  connect_count :: "32 word"
  disconnect_count :: "32 word"
  reconnect_attempts :: "32 word"
  bytes_sent :: "32 word"
  bytes_received :: "32 word"

record subscription =
  sub_topic :: string
  sub_qos :: os_mqtt_qos
  sub_active :: bool

record mqtt =
  mq_client :: "nat option"
  mq_config :: os_mqtt_config
  mq_state :: os_mqtt_state
  mq_stats :: os_mqtt_stats
  mq_mutex :: "nat option"
  mq_initialized :: bool
  mq_auto_reconnect :: bool
  mq_reconnect_delay :: "32 word"
  mq_subs :: "subscription list"

definition config_zero :: os_mqtt_config where
  "config_zero = \<lparr>m_broker_url = '''', m_client_id = '''', m_username = '''', m_password = '''', m_ca_cert = None,
     m_client_cert = None, m_client_key = None, m_keepalive_sec = 0, m_disable_auto_reconnect = False,
     m_reconnect_delay_ms = 0, m_callback = None, m_user_data = 0\<rparr>"

definition stats_zero :: os_mqtt_stats where
  "stats_zero = \<lparr>messages_sent = 0, messages_received = 0, messages_dropped = 0, connect_count = 0,
     disconnect_count = 0, reconnect_attempts = 0, bytes_sent = 0, bytes_received = 0\<rparr>"

definition sub_zero :: subscription where
  "sub_zero = \<lparr>sub_topic = '''', sub_qos = OS_MQTT_QOS_0, sub_active = False\<rparr>"

definition event_zero :: os_mqtt_event where
  "event_zero = \<lparr>e_type = OS_MQTT_EVENT_CONNECTED, e_session_present = 0, e_topic = None, e_topic_len = 0,
     e_payload = None, e_payload_len = 0, e_qos = OS_MQTT_QOS_0, e_retain = 0, e_error = ESP_OK\<rparr>"

definition mqtt_boot :: mqtt where
  "mqtt_boot = \<lparr>mq_client = None, mq_config = config_zero, mq_state = OS_MQTT_STATE_DISCONNECTED, mq_stats = stats_zero,
     mq_mutex = None, mq_initialized = False, mq_auto_reconnect = True, mq_reconnect_delay = OS_MQTT_RECONNECT_DELAY_MS,
     mq_subs = replicate OS_MQTT_MAX_SUBSCRIPTIONS sub_zero\<rparr>"

text \<open>What \<^verbatim>\<open>esp_mqtt_client_init\<close> is given.\<close>

record client_config =
  cc_uri :: string
  cc_client_id :: string
  cc_keepalive :: "16 word"
  cc_username :: "string option"
  cc_password :: "string option"
  cc_ca_cert :: "string option"
  cc_client_cert :: "string option"
  cc_client_key :: "string option"
  cc_disable_auto_reconnect :: bool

datatype mqtt_call =
    MMutexCreate | MMutexDelete | MGetMac | MClientInit client_config | MRegister nat | MStart nat
  | MStop "nat option" | MDestroy "nat option" | MPublish "nat option" string string "32 word" int bool
  | MSubscribe "nat option" string int | MUnsubscribe "nat option" string
  | MCallback nat os_mqtt_event nat

section \<open>Helpers\<close>

primrec convert_qos :: "os_mqtt_qos \<Rightarrow> int" where
  "convert_qos OS_MQTT_QOS_0 = 0"
| "convert_qos OS_MQTT_QOS_1 = 1"
| "convert_qos OS_MQTT_QOS_2 = 2"

definition find_subscription :: "string \<Rightarrow> mqtt \<Rightarrow> nat option" where
  "find_subscription topic s = tab_find sub_active sub_topic topic (mq_subs s)"

definition find_free_subscription_slot :: "mqtt \<Rightarrow> nat option" where
  "find_free_subscription_slot s = tab_free sub_active (mq_subs s)"

definition resubscribe_all :: "mqtt \<Rightarrow> mqtt_call eff list" where
  "resubscribe_all s =
     concat (map (\<lambda>b. if sub_active b
                      then [Ext (MSubscribe (mq_client s) (sub_topic b) (convert_qos (sub_qos b))),
                            Log OS_LOG_INFO ''Resubscribed to: %s'']
                      else []) (mq_subs s))"

section \<open>Events of the client\<close>

text \<open>Topic and data of a message come with lengths of C's \<^verbatim>\<open>int\<close>, which the event cuts to 16 bits.\<close>

datatype esp_event =
    EvConnected int | EvDisconnected | EvSubscribed | EvUnsubscribed | EvPublished
  | EvData string "32 word" string "32 word" int int | EvError | EvOther

definition event_qos :: "int \<Rightarrow> os_mqtt_qos" where
  "event_qos q = (if q = 2 then OS_MQTT_QOS_2 else if q = 1 then OS_MQTT_QOS_1 else OS_MQTT_QOS_0)"

text \<open>The switch: the new state, the event for the user, and the trace.\<close>

primrec mqtt_event_switch :: "esp_event \<Rightarrow> mqtt \<Rightarrow> mqtt \<times> os_mqtt_event \<times> mqtt_call eff list" where
  "mqtt_event_switch (EvConnected present) s =
     (let s' = s\<lparr>mq_state := OS_MQTT_STATE_CONNECTED,
                 mq_stats := (mq_stats s)\<lparr>connect_count := connect_count (mq_stats s) + 1\<rparr>\<rparr>
      in (s', event_zero\<lparr>e_type := OS_MQTT_EVENT_CONNECTED, e_session_present := present\<rparr>,
          Log OS_LOG_INFO ''Connected to broker, session_present=%d'' # resubscribe_all s'))"
| "mqtt_event_switch EvDisconnected s =
     (let st = mq_stats s;
          st' = (if mq_state s = OS_MQTT_STATE_CONNECTED
                 then st\<lparr>disconnect_count := disconnect_count st + 1\<rparr> else st)
      in (s\<lparr>mq_stats := st', mq_state := OS_MQTT_STATE_DISCONNECTED\<rparr>,
          event_zero\<lparr>e_type := OS_MQTT_EVENT_DISCONNECTED\<rparr>, [Log OS_LOG_INFO ''Disconnected from broker'']))"
| "mqtt_event_switch EvSubscribed s =
     (s, event_zero\<lparr>e_type := OS_MQTT_EVENT_SUBSCRIBED\<rparr>, [Log OS_LOG_DEBUG ''Subscribed, msg_id=%d''])"
| "mqtt_event_switch EvUnsubscribed s =
     (s, event_zero\<lparr>e_type := OS_MQTT_EVENT_UNSUBSCRIBED\<rparr>, [Log OS_LOG_DEBUG ''Unsubscribed, msg_id=%d''])"
| "mqtt_event_switch EvPublished s =
     (s, event_zero\<lparr>e_type := OS_MQTT_EVENT_PUBLISHED\<rparr>, [Log OS_LOG_DEBUG ''Published, msg_id=%d''])"
| "mqtt_event_switch (EvData topic topic_len data data_len q retain) s =
     (let st = mq_stats s
      in (s\<lparr>mq_stats := st\<lparr>messages_received := messages_received st + 1,
                            bytes_received := bytes_received st + data_len\<rparr>\<rparr>,
          event_zero\<lparr>e_type := OS_MQTT_EVENT_DATA, e_topic := Some topic, e_topic_len := ucast topic_len,
            e_payload := Some data, e_payload_len := ucast data_len, e_qos := event_qos q, e_retain := retain\<rparr>,
          [Log OS_LOG_DEBUG ''Received data: topic=%.*s, len=%d'']))"
| "mqtt_event_switch EvError s =
     (s\<lparr>mq_state := OS_MQTT_STATE_ERROR\<rparr>,
      event_zero\<lparr>e_type := OS_MQTT_EVENT_ERROR, e_error := ESP_FAIL\<rparr>, [Log OS_LOG_ERROR ''MQTT error occurred''])"
| "mqtt_event_switch EvOther s = (s, event_zero, [])"

definition mqtt_event_handler :: "esp_event \<Rightarrow> mqtt \<Rightarrow> mqtt \<times> mqtt_call eff list" where
  "mqtt_event_handler ev s =
     (let (s', os_event, tr) = mqtt_event_switch ev s;
          cb = (if event_code (e_type os_event) \<noteq> 0 then m_callback (mq_config s') else None)
      in (s', [Take] @ tr @
           (case cb of None \<Rightarrow> []
            | Some f \<Rightarrow> [Give, Ext (MCallback f os_event (m_user_data (mq_config s'))), Take]) @ [Give]))"

section \<open>Operations\<close>

definition os_mqtt_init :: "nat option \<Rightarrow> mqtt \<Rightarrow> esp_err \<times> mqtt \<times> mqtt_call eff list" where
  "os_mqtt_init lk s =
     (if mq_initialized s then (ESP_OK, s, [])
      else
        case lk of
          None \<Rightarrow> (ESP_ERR_NO_MEM, s\<lparr>mq_mutex := None\<rparr>,
                   [Ext MMutexCreate, Log OS_LOG_ERROR ''Failed to create mutex''])
        | Some l \<Rightarrow>
            (ESP_OK,
             s\<lparr>mq_mutex := Some l, mq_config := config_zero, mq_stats := stats_zero,
               mq_subs := replicate OS_MQTT_MAX_SUBSCRIPTIONS sub_zero, mq_state := OS_MQTT_STATE_DISCONNECTED,
               mq_auto_reconnect := True, mq_reconnect_delay := OS_MQTT_RECONNECT_DELAY_MS, mq_initialized := True\<rparr>,
             [Ext MMutexCreate, Log OS_LOG_INFO ''MQTT initialized'']))"

definition os_mqtt_config :: "os_mqtt_config option \<Rightarrow> mqtt \<Rightarrow> esp_err \<times> mqtt \<times> mqtt_call eff list" where
  "os_mqtt_config config s =
     (case config of
        None \<Rightarrow> (ESP_ERR_INVALID_ARG, s, [])
      | Some c \<Rightarrow>
          if \<not> mq_initialized s then (ESP_ERR_INVALID_ARG, s, [])
          else if m_broker_url c = '''' then (ESP_ERR_INVALID_ARG, s, [Log OS_LOG_ERROR ''Broker URL required''])
          else (ESP_OK,
                s\<lparr>mq_config := c, mq_auto_reconnect := \<not> m_disable_auto_reconnect c,
                  mq_reconnect_delay := (if 0 < m_reconnect_delay_ms c then m_reconnect_delay_ms c
                                         else mq_reconnect_delay s)\<rparr>,
                [Take, Give, Log OS_LOG_INFO ''MQTT configured: %s'']))"

text \<open>The settings of the client, from the configuration and the last three bytes of the MAC.\<close>

definition mqtt_client_id :: "8 word \<times> 8 word \<times> 8 word \<Rightarrow> os_mqtt_config \<Rightarrow> string" where
  "mqtt_client_id mac c =
     (if m_client_id c = ''''
      then (case mac of (a, b, d) \<Rightarrow> cstr OS_MQTT_CLIENT_ID_MAX_LEN (''esp32os_'' @ hex2 a @ hex2 b @ hex2 d))
      else cstr OS_MQTT_CLIENT_ID_MAX_LEN (m_client_id c))"

definition mqtt_client_config :: "8 word \<times> 8 word \<times> 8 word \<Rightarrow> mqtt \<Rightarrow> client_config" where
  "mqtt_client_config mac s =
     (let c = mq_config s; mutual = m_client_cert c \<noteq> None \<and> m_client_key c \<noteq> None
      in \<lparr>cc_uri = m_broker_url c, cc_client_id = mqtt_client_id mac c,
          cc_keepalive = (if m_keepalive_sec c \<noteq> 0 then m_keepalive_sec c else OS_MQTT_KEEPALIVE_SEC),
          cc_username = (if m_username c \<noteq> '''' then Some (m_username c) else None),
          cc_password = (if m_username c \<noteq> '''' \<and> m_password c \<noteq> '''' then Some (m_password c) else None),
          cc_ca_cert = m_ca_cert c,
          cc_client_cert = (if mutual then m_client_cert c else None),
          cc_client_key = (if mutual then m_client_key c else None),
          cc_disable_auto_reconnect = (\<not> mq_auto_reconnect s)\<rparr>)"

text \<open>\<open>cl\<close>, \<open>rr\<close> and \<open>rs\<close> are what creating the client, registering the handler and starting it return.\<close>

definition os_mqtt_connect ::
  "8 word \<times> 8 word \<times> 8 word \<Rightarrow> nat option \<Rightarrow> esp_err \<Rightarrow> esp_err \<Rightarrow> mqtt \<Rightarrow> esp_err \<times> mqtt \<times> mqtt_call eff list" where
  "os_mqtt_connect mac cl rr rs s =
     (if \<not> mq_initialized s then (ESP_ERR_INVALID_STATE, s, [])
      else if m_broker_url (mq_config s) = '''' then (ESP_ERR_INVALID_STATE, s, [Take, Give])
      else if mq_state s = OS_MQTT_STATE_CONNECTING \<or> mq_state s = OS_MQTT_STATE_CONNECTED
      then (ESP_OK, s, [Take, Give])
      else
        let s1 = s\<lparr>mq_state := OS_MQTT_STATE_CONNECTING, mq_client := cl\<rparr>;
            get_mac = (if m_client_id (mq_config s) = '''' then [Ext MGetMac] else []);
            tr = [Take] @ get_mac @ [Give, Ext (MClientInit (mqtt_client_config mac s))]
        in case cl of
             None \<Rightarrow> (ESP_FAIL, s1\<lparr>mq_state := OS_MQTT_STATE_ERROR\<rparr>,
                      tr @ [Log OS_LOG_ERROR ''Failed to create MQTT client'', Take, Give])
           | Some c \<Rightarrow>
               if rr \<noteq> ESP_OK
               then (rr, s1\<lparr>mq_client := None\<rparr>,
                     tr @ [Ext (MRegister c), Log OS_LOG_ERROR ''Failed to register event handler: %s'',
                           Ext (MDestroy (Some c))])
               else if rs \<noteq> ESP_OK
               then (rs, s1\<lparr>mq_client := None\<rparr>,
                     tr @ [Ext (MRegister c), Ext (MStart c), Log OS_LOG_ERROR ''Failed to start MQTT client: %s'',
                           Ext (MDestroy (Some c))])
               else (ESP_OK,
                     s1\<lparr>mq_stats := (mq_stats s)\<lparr>reconnect_attempts := reconnect_attempts (mq_stats s) + 1\<rparr>\<rparr>,
                     tr @ [Ext (MRegister c), Ext (MStart c), Log OS_LOG_INFO ''Connecting to %s as %s'']))"

definition os_mqtt_disconnect :: "mqtt \<Rightarrow> esp_err \<times> mqtt \<times> mqtt_call eff list" where
  "os_mqtt_disconnect s =
     (if \<not> mq_initialized s \<or> mq_client s = None then (ESP_ERR_INVALID_STATE, s, [])
      else (ESP_OK,
            s\<lparr>mq_client := None, mq_state := OS_MQTT_STATE_DISCONNECTED,
              mq_subs := replicate OS_MQTT_MAX_SUBSCRIPTIONS sub_zero\<rparr>,
            [Take, Give, Ext (MStop (mq_client s)), Ext (MDestroy (mq_client s)), Take, Give,
             Log OS_LOG_INFO ''Disconnected from broker'']))"

definition os_mqtt_deinit :: "mqtt \<Rightarrow> mqtt \<times> mqtt_call eff list" where
  "os_mqtt_deinit s =
     (if \<not> mq_initialized s then (s, [])
      else
        let (r, s', tr) = os_mqtt_disconnect s
        in (s'\<lparr>mq_mutex := None, mq_initialized := False\<rparr>,
            tr @ (if mq_mutex s' \<noteq> None then [Ext MMutexDelete] else []) @
            [Log OS_LOG_INFO ''MQTT deinitialized'']))"

definition os_mqtt_get_state :: "mqtt \<Rightarrow> os_mqtt_state \<times> mqtt_call eff list" where
  "os_mqtt_get_state s =
     (if \<not> mq_initialized s then (OS_MQTT_STATE_DISCONNECTED, []) else (mq_state s, [Take, Give]))"

primrec os_mqtt_get_state_str :: "os_mqtt_state \<Rightarrow> string" where
  "os_mqtt_get_state_str OS_MQTT_STATE_DISCONNECTED = ''DISCONNECTED''"
| "os_mqtt_get_state_str OS_MQTT_STATE_CONNECTING = ''CONNECTING''"
| "os_mqtt_get_state_str OS_MQTT_STATE_CONNECTED = ''CONNECTED''"
| "os_mqtt_get_state_str OS_MQTT_STATE_DISCONNECTING = ''DISCONNECTING''"
| "os_mqtt_get_state_str OS_MQTT_STATE_ERROR = ''ERROR''"

definition os_mqtt_is_connected :: "mqtt \<Rightarrow> bool \<times> mqtt_call eff list" where
  "os_mqtt_is_connected s = (let (st, tr) = os_mqtt_get_state s in (st = OS_MQTT_STATE_CONNECTED, tr))"

text \<open>\<open>msg_id\<close> is what the client's call returns, negative on failure.\<close>

definition os_mqtt_publish ::
  "int \<Rightarrow> string option \<Rightarrow> string option \<Rightarrow> 32 word \<Rightarrow> os_mqtt_qos \<Rightarrow> bool \<Rightarrow> mqtt
   \<Rightarrow> esp_err \<times> mqtt \<times> mqtt_call eff list" where
  "os_mqtt_publish msg_id topic payload len qos retain s =
     (if \<not> mq_initialized s \<or> topic = None \<or> payload = None then (ESP_ERR_INVALID_ARG, s, [])
      else
        let (conn, tr) = os_mqtt_is_connected s
        in if \<not> conn then (ESP_ERR_INVALID_STATE, s, tr)
           else
             let tr1 = tr @ [Ext (MPublish (mq_client s) (the topic) (the payload) len (convert_qos qos) retain)];
                 st = mq_stats s
             in if msg_id < 0
                then (ESP_FAIL, s\<lparr>mq_stats := st\<lparr>messages_dropped := messages_dropped st + 1\<rparr>\<rparr>,
                      tr1 @ [Log OS_LOG_ERROR ''Publish failed''])
                else (ESP_OK, s\<lparr>mq_stats := st\<lparr>messages_sent := messages_sent st + 1,
                                              bytes_sent := bytes_sent st + len\<rparr>\<rparr>,
                      tr1 @ [Log OS_LOG_DEBUG ''Published to %s (msg_id=%d)'']))"

definition os_mqtt_subscribe ::
  "int \<Rightarrow> string option \<Rightarrow> os_mqtt_qos \<Rightarrow> mqtt \<Rightarrow> esp_err \<times> mqtt \<times> mqtt_call eff list" where
  "os_mqtt_subscribe msg_id topic qos s =
     (case topic of
        None \<Rightarrow> (ESP_ERR_INVALID_ARG, s, [])
      | Some t \<Rightarrow>
          if \<not> mq_initialized s then (ESP_ERR_INVALID_ARG, s, [])
          else if OS_MQTT_TOPIC_MAX_LEN \<le> length t then (ESP_ERR_INVALID_ARG, s, [Log OS_LOG_ERROR ''Topic too long''])
          else if find_subscription t s \<noteq> None
          then (ESP_OK, s, [Take, Give, Log OS_LOG_WARN ''Already subscribed to: %s''])
          else
            case find_free_subscription_slot s of
              None \<Rightarrow> (ESP_ERR_NO_MEM, s, [Take, Give, Log OS_LOG_ERROR ''Max subscriptions reached''])
            | Some i \<Rightarrow>
                let s1 = s\<lparr>mq_subs := (mq_subs s)[i := \<lparr>sub_topic = cstr OS_MQTT_TOPIC_MAX_LEN t, sub_qos = qos,
                                                        sub_active = True\<rparr>]\<rparr>;
                    (conn, tr) = os_mqtt_is_connected s1; tr1 = [Take, Give] @ tr
                in if \<not> conn then (ESP_OK, s1, tr1)
                   else
                     let tr2 = tr1 @ [Ext (MSubscribe (mq_client s1) t (convert_qos qos))]
                     in if msg_id < 0 then (ESP_FAIL, s1, tr2 @ [Log OS_LOG_ERROR ''Subscribe failed''])
                        else (ESP_OK, s1, tr2 @ [Log OS_LOG_INFO ''Subscribed to: %s (msg_id=%d)'']))"

definition os_mqtt_unsubscribe ::
  "int \<Rightarrow> string option \<Rightarrow> mqtt \<Rightarrow> esp_err \<times> mqtt \<times> mqtt_call eff list" where
  "os_mqtt_unsubscribe msg_id topic s =
     (case topic of
        None \<Rightarrow> (ESP_ERR_INVALID_ARG, s, [])
      | Some t \<Rightarrow>
          if \<not> mq_initialized s then (ESP_ERR_INVALID_ARG, s, [])
          else
            let s1 = (case find_subscription t s of
                        None \<Rightarrow> s
                      | Some i \<Rightarrow> s\<lparr>mq_subs := (mq_subs s)[i := (mq_subs s ! i)\<lparr>sub_active := False\<rparr>]\<rparr>);
                (conn, tr) = os_mqtt_is_connected s1;
                tr1 = [Take, Give] @ tr @ (if conn then [Ext (MUnsubscribe (mq_client s1) t)] else [])
            in if conn \<and> msg_id < 0 then (ESP_FAIL, s1, tr1)
               else (ESP_OK, s1, tr1 @ [Log OS_LOG_INFO ''Unsubscribed from: %s'']))"

definition os_mqtt_get_stats :: "bool \<Rightarrow> mqtt \<Rightarrow> os_mqtt_stats option \<times> mqtt_call eff list" where
  "os_mqtt_get_stats null s =
     (if null \<or> \<not> mq_initialized s then (None, []) else (Some (mq_stats s), [Take, Give]))"

definition os_mqtt_clear_stats :: "mqtt \<Rightarrow> mqtt \<times> mqtt_call eff list" where
  "os_mqtt_clear_stats s =
     (if \<not> mq_initialized s then (s, [])
      else (s\<lparr>mq_stats := stats_zero\<rparr>, [Take, Give, Log OS_LOG_INFO ''Statistics cleared'']))"

definition os_mqtt_get_broker_url :: "mqtt \<Rightarrow> string option" where
  "os_mqtt_get_broker_url s = (if \<not> mq_initialized s then None else Some (m_broker_url (mq_config s)))"

definition os_mqtt_print_status :: "mqtt \<Rightarrow> mqtt_call eff list" where
  "os_mqtt_print_status s =
     (if \<not> mq_initialized s then []
      else snd (os_mqtt_get_state s) @ snd (os_mqtt_get_stats False s) @
        [Log OS_LOG_INFO ''State: %s'', Log OS_LOG_INFO ''Messages: sent=%lu, received=%lu, dropped=%lu'',
         Log OS_LOG_INFO ''Bytes: sent=%lu, received=%lu'',
         Log OS_LOG_INFO ''Connections: %lu, Disconnects: %lu, Reconnects: %lu''])"

section \<open>Invariant\<close>

interpretation mqtt_subs: slot_table sub_active sub_topic sub_qos "\<lambda>b. b\<lparr>sub_active := False\<rparr>"
  by unfold_locales simp

definition mqtt_wf :: "mqtt \<Rightarrow> bool" where
  "mqtt_wf s \<longleftrightarrow> length (mq_subs s) = OS_MQTT_MAX_SUBSCRIPTIONS \<and>
     list_all (\<lambda>b. length (sub_topic b) < OS_MQTT_TOPIC_MAX_LEN) (mq_subs s) \<and>
     tab_uniq sub_active sub_topic (mq_subs s) \<and> (mq_initialized s \<longleftrightarrow> mq_mutex s \<noteq> None)"

datatype mqtt_op =
    MqttInit "nat option" | MqttDeinit | MqttConfig "os_mqtt_config option"
  | MqttConnect "8 word \<times> 8 word \<times> 8 word" "nat option" esp_err esp_err | MqttDisconnect
  | MqttPublish int "string option" "string option" "32 word" os_mqtt_qos bool
  | MqttSubscribe int "string option" os_mqtt_qos | MqttUnsubscribe int "string option"
  | MqttClearStats | MqttEvent esp_event

primrec mqtt_exec :: "mqtt_op \<Rightarrow> mqtt \<Rightarrow> mqtt \<times> mqtt_call eff list" where
  "mqtt_exec (MqttInit lk) s = snd (os_mqtt_init lk s)"
| "mqtt_exec MqttDeinit s = os_mqtt_deinit s"
| "mqtt_exec (MqttConfig c) s = snd (os_mqtt_config c s)"
| "mqtt_exec (MqttConnect mac cl rr rs) s = snd (os_mqtt_connect mac cl rr rs s)"
| "mqtt_exec MqttDisconnect s = snd (os_mqtt_disconnect s)"
| "mqtt_exec (MqttPublish m t p len q r) s = snd (os_mqtt_publish m t p len q r s)"
| "mqtt_exec (MqttSubscribe m t q) s = snd (os_mqtt_subscribe m t q s)"
| "mqtt_exec (MqttUnsubscribe m t) s = snd (os_mqtt_unsubscribe m t s)"
| "mqtt_exec MqttClearStats s = os_mqtt_clear_stats s"
| "mqtt_exec (MqttEvent ev) s = mqtt_event_handler ev s"

lemmas mqtt_op_defs = os_mqtt_init_def os_mqtt_config_def os_mqtt_connect_def
  os_mqtt_disconnect_def os_mqtt_publish_def os_mqtt_clear_stats_def

lemma mqtt_connected_eq: "mq_initialized s \<Longrightarrow> os_mqtt_is_connected s = (mq_state s = OS_MQTT_STATE_CONNECTED, [Take, Give])"
  by (simp add: os_mqtt_is_connected_def os_mqtt_get_state_def)

lemma sub_zero_table [simp]:
  "tab_uniq sub_active sub_topic (replicate n sub_zero)"
  "list_all (\<lambda>b. length (sub_topic b) < OS_MQTT_TOPIC_MAX_LEN) (replicate n sub_zero)"
  by (simp_all add: tab_uniq_replicate sub_zero_def list_all_iff OS_MQTT_TOPIC_MAX_LEN_def)

text \<open>What the client's events change besides the statistics is the connection state.\<close>

lemma mqtt_event_frame:
  "mq_subs (fst (mqtt_event_handler ev s)) = mq_subs s" "mq_initialized (fst (mqtt_event_handler ev s)) = mq_initialized s"
  "mq_mutex (fst (mqtt_event_handler ev s)) = mq_mutex s" "mq_client (fst (mqtt_event_handler ev s)) = mq_client s"
  "mq_config (fst (mqtt_event_handler ev s)) = mq_config s"
  by (cases ev; simp add: mqtt_event_handler_def split_beta Let_def)+

lemma mqtt_event_state:
  "mq_state (fst (mqtt_event_handler ev s)) =
     (case ev of EvConnected p \<Rightarrow> OS_MQTT_STATE_CONNECTED | EvDisconnected \<Rightarrow> OS_MQTT_STATE_DISCONNECTED
      | EvError \<Rightarrow> OS_MQTT_STATE_ERROR | _ \<Rightarrow> mq_state s)"
  by (cases ev; simp add: mqtt_event_handler_def split_beta Let_def)

text \<open>The two operations on the subscription table.\<close>

lemma mqtt_subscribe_cases:
  assumes "mq_initialized s" and "length t < OS_MQTT_TOPIC_MAX_LEN"
  obtains (known) i where "find_subscription t s = Some i"
      "os_mqtt_subscribe m (Some t) q s = (ESP_OK, s, [Take, Give, Log OS_LOG_WARN ''Already subscribed to: %s''])"
  | (full) "find_subscription t s = None" "find_free_subscription_slot s = None"
      "os_mqtt_subscribe m (Some t) q s = (ESP_ERR_NO_MEM, s, [Take, Give, Log OS_LOG_ERROR ''Max subscriptions reached''])"
  | (new) i s' tr where "find_subscription t s = None" "find_free_subscription_slot s = Some i"
      "s' = s\<lparr>mq_subs := (mq_subs s)[i := \<lparr>sub_topic = t, sub_qos = q, sub_active = True\<rparr>]\<rparr>"
      "os_mqtt_subscribe m (Some t) q s =
        (if mq_state s = OS_MQTT_STATE_CONNECTED \<and> m < 0 then ESP_FAIL else ESP_OK, s', tr)"
      "ext_calls tr = (if mq_state s = OS_MQTT_STATE_CONNECTED then [MSubscribe (mq_client s) t (convert_qos q)] else [])"
      "lock_ok False tr"
proof (cases "find_subscription t s")
  case (Some i)
  then show ?thesis using assms known by (simp add: os_mqtt_subscribe_def not_le [symmetric])
next
  case None
  show ?thesis
  proof (cases "find_free_subscription_slot s")
    case f: None
    with None show ?thesis using assms full by (simp add: os_mqtt_subscribe_def)
  next
    case (Some i)
    let ?s = "s\<lparr>mq_subs := (mq_subs s)[i := \<lparr>sub_topic = t, sub_qos = q, sub_active = True\<rparr>]\<rparr>"
    have c: "os_mqtt_is_connected ?s = (mq_state s = OS_MQTT_STATE_CONNECTED, [Take, Give])"
      using assms(1) mqtt_connected_eq [of ?s] by simp
    show ?thesis
      by (rule new [OF None Some refl, of "snd (snd (os_mqtt_subscribe m (Some t) q s))"])
        (use assms None Some c in \<open>simp_all add: os_mqtt_subscribe_def Let_def lock_simps\<close>)
  qed
qed

lemma mqtt_unsubscribe_eq:
  assumes "mq_initialized s"
  obtains tr where "os_mqtt_unsubscribe m (Some t) s =
      (if mq_state s = OS_MQTT_STATE_CONNECTED \<and> m < 0 then ESP_FAIL else ESP_OK,
       case find_subscription t s of None \<Rightarrow> s
       | Some i \<Rightarrow> s\<lparr>mq_subs := (mq_subs s)[i := (mq_subs s ! i)\<lparr>sub_active := False\<rparr>]\<rparr>, tr)"
    "ext_calls tr = (if mq_state s = OS_MQTT_STATE_CONNECTED then [MUnsubscribe (mq_client s) t] else [])"
    "lock_ok False tr"
proof -
  let ?s = "case find_subscription t s of None \<Rightarrow> s
       | Some i \<Rightarrow> s\<lparr>mq_subs := (mq_subs s)[i := (mq_subs s ! i)\<lparr>sub_active := False\<rparr>]\<rparr>"
  have "mq_initialized ?s" "mq_state ?s = mq_state s" "mq_client ?s = mq_client s"
    using assms by (simp_all split: option.split)
  then have c: "os_mqtt_is_connected ?s = (mq_state s = OS_MQTT_STATE_CONNECTED, [Take, Give])" "mq_client ?s = mq_client s"
    using mqtt_connected_eq [of ?s] by simp_all
  show ?thesis
    by (rule that [of "snd (snd (os_mqtt_unsubscribe m (Some t) s))"])
      (use assms c in \<open>simp_all add: os_mqtt_unsubscribe_def Let_def lock_simps\<close>)
qed

lemma mqtt_step_wf:
  assumes "mqtt_wf s"
  shows "mqtt_wf (fst (mqtt_exec x s))"
proof (cases x)
  case (MqttSubscribe m topic q)
  show ?thesis
  proof (cases "mq_initialized s \<and> topic \<noteq> None \<and> length (the topic) < OS_MQTT_TOPIC_MAX_LEN")
    case True
    then obtain t where t: "topic = Some t" "length t < OS_MQTT_TOPIC_MAX_LEN" "mq_initialized s" by auto
    from t(3,2) show ?thesis
    proof (cases rule: mqtt_subscribe_cases [where m = m and q = q])
      case (new i s' tr)
      let ?e = "\<lparr>sub_topic = t, sub_qos = q, sub_active = True\<rparr>"
      have "tab_uniq sub_active sub_topic ((mq_subs s)[i := ?e])"
        by (rule mqtt_subs.create_new(1)) (use assms new in \<open>simp_all add: mqtt_wf_def find_subscription_def find_free_subscription_slot_def\<close>)
      moreover have "list_all (\<lambda>b. length (sub_topic b) < OS_MQTT_TOPIC_MAX_LEN) ((mq_subs s)[i := ?e])"
        using assms t by (intro list_all_update) (simp_all add: mqtt_wf_def)
      ultimately show ?thesis using new assms by (simp add: MqttSubscribe t mqtt_wf_def)
    qed (use assms in \<open>simp_all add: MqttSubscribe t\<close>)
  next
    case False
    with assms show ?thesis by (auto simp: MqttSubscribe os_mqtt_subscribe_def split: option.splits)
  qed
next
  case (MqttUnsubscribe m topic)
  show ?thesis
  proof (cases "mq_initialized s \<and> topic \<noteq> None")
    case True
    then obtain t where t: "topic = Some t" "mq_initialized s" by auto
    obtain tr where e: "os_mqtt_unsubscribe m (Some t) s =
      (if mq_state s = OS_MQTT_STATE_CONNECTED \<and> m < 0 then ESP_FAIL else ESP_OK,
       case find_subscription t s of None \<Rightarrow> s
       | Some i \<Rightarrow> s\<lparr>mq_subs := (mq_subs s)[i := (mq_subs s ! i)\<lparr>sub_active := False\<rparr>]\<rparr>, tr)"
      by (rule mqtt_unsubscribe_eq [OF t(2)])
    have "mqtt_wf (s\<lparr>mq_subs := (mq_subs s)[i := (mq_subs s ! i)\<lparr>sub_active := False\<rparr>]\<rparr>)"
      if "find_subscription t s = Some i" for i
    proof -
      have "i < length (mq_subs s)" using that tab_findD(1) by (auto simp: find_subscription_def)
      with assms mqtt_subs.uniq_blank [of "mq_subs s"] show ?thesis
        by (auto simp: mqtt_wf_def list_all_length nth_list_update)
    qed
    with assms e show ?thesis by (simp add: MqttUnsubscribe t split: option.split)
  next
    case False
    with assms show ?thesis by (auto simp: MqttUnsubscribe os_mqtt_unsubscribe_def split: option.splits)
  qed
next
  case MqttDeinit
  with assms show ?thesis by (auto simp: os_mqtt_deinit_def os_mqtt_disconnect_def mqtt_wf_def)
next
  case (MqttEvent ev)
  with assms mqtt_event_frame [of ev s] show ?thesis by (simp add: mqtt_wf_def)
next
  case (MqttPublish m t p len q r)
  with assms show ?thesis by (simp add: os_mqtt_publish_def mqtt_wf_def split_beta Let_def)
next
  case (MqttConnect mac cl rr rs)
  with assms show ?thesis by (auto simp: os_mqtt_connect_def mqtt_wf_def Let_def split: option.split)
qed (use assms in \<open>auto simp: mqtt_op_defs mqtt_wf_def split: option.split\<close>)

interpretation mqtt_calls: guarded "\<lambda>x s. fst (mqtt_exec x s)" "\<lambda>_. True" mqtt_wf
  by unfold_locales (rule mqtt_step_wf)

lemma mqtt_boot_wf: "mqtt_wf mqtt_boot"
  by (simp add: mqtt_wf_def mqtt_boot_def)

lemma resubscribe_quiet [simp]: "quiet (resubscribe_all s)"
  by (auto simp: resubscribe_all_def)

lemma mqtt_switch_quiet [simp]: "quiet (snd (snd (mqtt_event_switch ev s)))"
  by (cases ev) (simp_all add: Let_def)

lemma mqtt_exec_lock: "lock_ok False (snd (mqtt_exec x s))"
proof (cases x)
  case (MqttSubscribe m topic q)
  then show ?thesis
    by (cases "find_free_subscription_slot s")
      (auto simp: os_mqtt_subscribe_def os_mqtt_is_connected_def os_mqtt_get_state_def Let_def split: option.split)
next
  case (MqttUnsubscribe m topic)
  then show ?thesis
    by (auto simp: os_mqtt_unsubscribe_def os_mqtt_is_connected_def os_mqtt_get_state_def Let_def split: option.split)
next
  case MqttDeinit
  then show ?thesis by (auto simp: os_mqtt_deinit_def os_mqtt_disconnect_def)
next
  case (MqttEvent ev)
  then show ?thesis by (simp add: mqtt_event_handler_def split_beta Let_def lock_simps split: option.split)
next
  case (MqttConnect mac cl rr rs)
  then show ?thesis by (auto simp: os_mqtt_connect_def Let_def split: option.split)
next
  case (MqttPublish m t p len q r)
  then show ?thesis
    by (auto simp: os_mqtt_publish_def os_mqtt_is_connected_def os_mqtt_get_state_def Let_def)
qed (auto simp: mqtt_op_defs split: option.split)

section \<open>The subscriptions as a map\<close>

text \<open>
  The specification keeps whether the broker is connected and a map from topics to qualities
  of service.  An answer is a result code and the set of subscriptions asked of the broker.
\<close>

type_synonym mqtt_abs = "bool \<times> (string \<rightharpoonup> os_mqtt_qos)"

datatype mqtt_req = MSub int string os_mqtt_qos | MUnsub int string | MEvent esp_event

definition asked :: "mqtt_call eff list \<Rightarrow> (string \<times> int) set" where
  "asked tr = {(t, q). \<exists>c. MSubscribe c t q \<in> set (ext_calls tr)}"

primrec mqtt_conc :: "mqtt_req \<Rightarrow> mqtt \<Rightarrow> (esp_err \<times> (string \<times> int) set) \<times> mqtt" where
  "mqtt_conc (MSub m t q) s = (let (r, s', tr) = os_mqtt_subscribe m (Some t) q s in ((r, asked tr), s'))"
| "mqtt_conc (MUnsub m t) s = (let (r, s', tr) = os_mqtt_unsubscribe m (Some t) s in ((r, asked tr), s'))"
| "mqtt_conc (MEvent ev) s = (let (s', tr) = mqtt_event_handler ev s in ((ESP_OK, asked tr), s'))"

primrec mqtt_spec :: "mqtt_req \<Rightarrow> mqtt_abs \<Rightarrow> (esp_err \<times> (string \<times> int) set) \<times> mqtt_abs" where
  "mqtt_spec (MSub m t q) a =
     (let (conn, subs) = a
      in if subs t \<noteq> None then ((ESP_OK, {}), a)
         else if card (dom subs) < OS_MQTT_MAX_SUBSCRIPTIONS
         then ((if conn \<and> m < 0 then ESP_FAIL else ESP_OK, if conn then {(t, convert_qos q)} else {}),
               (conn, subs(t \<mapsto> q)))
         else ((ESP_ERR_NO_MEM, {}), a))"
| "mqtt_spec (MUnsub m t) a =
     (let (conn, subs) = a in ((if conn \<and> m < 0 then ESP_FAIL else ESP_OK, {}), (conn, subs(t := None))))"
| "mqtt_spec (MEvent ev) a =
     (let (conn, subs) = a
      in case ev of
           EvConnected p \<Rightarrow> ((ESP_OK, {(t, convert_qos q) | t q. subs t = Some q}), (True, subs))
         | EvDisconnected \<Rightarrow> ((ESP_OK, {}), (False, subs))
         | EvError \<Rightarrow> ((ESP_OK, {}), (False, subs))
         | _ \<Rightarrow> ((ESP_OK, {}), a))"

definition mqtt_abs :: "mqtt \<Rightarrow> mqtt_abs" where
  "mqtt_abs s = (mq_state s = OS_MQTT_STATE_CONNECTED, tab_map sub_active sub_topic sub_qos (mq_subs s))"

definition mqtt_inv :: "mqtt \<Rightarrow> bool" where
  "mqtt_inv s \<longleftrightarrow> mqtt_wf s \<and> mq_initialized s"

primrec mqtt_req_ok :: "mqtt_req \<Rightarrow> bool" where
  "mqtt_req_ok (MSub m t q) \<longleftrightarrow> length t < OS_MQTT_TOPIC_MAX_LEN"
| "mqtt_req_ok (MUnsub m t) \<longleftrightarrow> True"
| "mqtt_req_ok (MEvent ev) \<longleftrightarrow> True"

lemma resubscribe_calls:
  "ext_calls (resubscribe_all s) =
   map (\<lambda>b. MSubscribe (mq_client s) (sub_topic b) (convert_qos (sub_qos b))) (filter sub_active (mq_subs s))"
proof -
  have "ext_calls (concat (map (\<lambda>b. if sub_active b then [Ext (MSubscribe (mq_client s) (sub_topic b) (convert_qos (sub_qos b))),
          Log OS_LOG_INFO ''Resubscribed to: %s''] else []) bs)) =
      map (\<lambda>b. MSubscribe (mq_client s) (sub_topic b) (convert_qos (sub_qos b))) (filter sub_active bs)" for bs
    by (induction bs) simp_all
  then show ?thesis by (simp add: resubscribe_all_def)
qed

lemma tab_map_entries:
  assumes "tab_uniq used key es"
  shows "tab_map used key val es k = Some v \<longleftrightarrow> (\<exists>e \<in> set es. used e \<and> key e = k \<and> val e = v)"
proof
  assume "tab_map used key val es k = Some v"
  then obtain i where "tab_find used key k es = Some i" "val (es ! i) = v" by (auto simp: tab_map_Some)
  with tab_findD [OF this(1)] show "\<exists>e \<in> set es. used e \<and> key e = k \<and> val e = v" by auto
next
  assume "\<exists>e \<in> set es. used e \<and> key e = k \<and> val e = v"
  then obtain i where "i < length es" "used (es ! i)" "key (es ! i) = k" "val (es ! i) = v"
    by (auto simp: in_set_conv_nth)
  with tab_find_uniq [OF assms, of i] show "tab_map used key val es k = Some v" by (simp add: tab_map_Some)
qed

lemma mqtt_sim_event:
  assumes "mqtt_inv s"
  shows "mqtt_spec (MEvent ev) (mqtt_abs s) = (fst (mqtt_conc (MEvent ev) s), mqtt_abs (snd (mqtt_conc (MEvent ev) s)))"
proof -
  let ?s = "fst (mqtt_event_handler ev s)"
  have uniq: "tab_uniq sub_active sub_topic (mq_subs s)" using assms by (simp add: mqtt_inv_def mqtt_wf_def)
  have a: "mqtt_abs ?s = (mq_state ?s = OS_MQTT_STATE_CONNECTED, snd (mqtt_abs s))"
    by (simp add: mqtt_abs_def mqtt_event_frame)
  have calls: "asked (snd (mqtt_event_handler ev s)) =
      (case ev of EvConnected p \<Rightarrow> {(t, convert_qos q) | t q. snd (mqtt_abs s) t = Some q} | _ \<Rightarrow> {})"
  proof (cases ev)
    case (EvConnected p)
    have "ext_calls (snd (mqtt_event_handler ev s)) =
        map (\<lambda>b. MSubscribe (mq_client s) (sub_topic b) (convert_qos (sub_qos b))) (filter sub_active (mq_subs s))"
      by (simp add: EvConnected mqtt_event_handler_def Let_def event_zero_def resubscribe_calls)
    then show ?thesis
      unfolding EvConnected by (auto simp: asked_def mqtt_abs_def tab_map_entries [OF uniq])
  qed (auto simp: asked_def mqtt_event_handler_def Let_def split: option.split)
  show ?thesis
    unfolding mqtt_spec.simps mqtt_conc.simps split_beta Let_def fst_conv snd_conv a calls mqtt_event_state
    by (cases ev) (simp_all add: mqtt_abs_def)
qed

lemma mqtt_step_sim:
  assumes "mqtt_req_ok x" and "mqtt_inv s"
  shows "mqtt_spec x (mqtt_abs s) = (fst (mqtt_conc x s), mqtt_abs (snd (mqtt_conc x s)))"
proof (cases x)
  case (MEvent ev)
  with mqtt_sim_event assms(2) show ?thesis by simp
next
  case (MSub m t q)
  have inv: "tab_uniq sub_active sub_topic (mq_subs s)" "length (mq_subs s) = OS_MQTT_MAX_SUBSCRIPTIONS" "mq_initialized s"
    using assms(2) unfolding mqtt_inv_def mqtt_wf_def by blast+
  note free = tab_free_card [OF inv(1,2), of sub_qos]
  from inv(3) assms(1) have "mq_initialized s" "length t < OS_MQTT_TOPIC_MAX_LEN" by (simp_all add: MSub)
  then show ?thesis
  proof (cases rule: mqtt_subscribe_cases [where m = m and q = q])
    case (known i)
    then show ?thesis
      by (simp add: MSub mqtt_abs_def tab_map_None_iff find_subscription_def asked_def)
  next
    case full
    then show ?thesis
      using free by (simp add: MSub mqtt_abs_def tab_map_None_iff find_subscription_def find_free_subscription_slot_def asked_def)
  next
    case (new i s' tr)
    let ?e = "\<lparr>sub_topic = t, sub_qos = q, sub_active = True\<rparr>"
    have "tab_map sub_active sub_topic sub_qos ((mq_subs s)[i := ?e]) =
        (tab_map sub_active sub_topic sub_qos (mq_subs s))(t \<mapsto> q)"
      using mqtt_subs.create_new(3) [OF inv(1), of ?e i] new
      by (simp add: find_subscription_def find_free_subscription_slot_def)
    moreover have "asked tr = (if mq_state s = OS_MQTT_STATE_CONNECTED then {(t, convert_qos q)} else {})"
      using new(5) by (auto simp: asked_def)
    moreover have "tab_map sub_active sub_topic sub_qos (mq_subs s) t = None"
      using new(1) by (simp add: tab_map_None_iff find_subscription_def)
    ultimately show ?thesis
      using new free
      by (simp add: MSub mqtt_abs_def find_subscription_def find_free_subscription_slot_def)
  qed
next
  case (MUnsub m t)
  have inv: "tab_uniq sub_active sub_topic (mq_subs s)" "mq_initialized s"
    using assms(2) unfolding mqtt_inv_def mqtt_wf_def by blast+
  from inv(2) show ?thesis
  proof (rule mqtt_unsubscribe_eq [where m = m and t = t])
    fix tr
    assume e: "os_mqtt_unsubscribe m (Some t) s =
      (if mq_state s = OS_MQTT_STATE_CONNECTED \<and> m < 0 then ESP_FAIL else ESP_OK,
       case find_subscription t s of None \<Rightarrow> s
       | Some i \<Rightarrow> s\<lparr>mq_subs := (mq_subs s)[i := (mq_subs s ! i)\<lparr>sub_active := False\<rparr>]\<rparr>, tr)"
      and c: "ext_calls tr = (if mq_state s = OS_MQTT_STATE_CONNECTED then [MUnsubscribe (mq_client s) t] else [])"
    show ?thesis
    proof (cases "tab_find sub_active sub_topic t (mq_subs s)")
      case None
      then have "(tab_map sub_active sub_topic sub_qos (mq_subs s))(t := None) = tab_map sub_active sub_topic sub_qos (mq_subs s)"
        by (intro fun_upd_idem) (simp add: tab_map_def)
      with None show ?thesis by (simp add: MUnsub e c mqtt_abs_def find_subscription_def asked_def)
    next
      case (Some i)
      with mqtt_subs.map_blank [OF inv(1) Some] show ?thesis
        by (simp add: MUnsub e c mqtt_abs_def find_subscription_def asked_def)
    qed
  qed
qed

lemma mqtt_conc_inv: "mqtt_inv s \<Longrightarrow> mqtt_inv (snd (mqtt_conc x s))"
proof (cases x)
  case (MSub m t q)
  assume "mqtt_inv s"
  then have "mqtt_wf (fst (mqtt_exec (MqttSubscribe m (Some t) q) s))" "mq_initialized s"
    using mqtt_step_wf by (auto simp: mqtt_inv_def simp del: mqtt_exec.simps)
  moreover have "mq_initialized (fst (snd (os_mqtt_subscribe m (Some t) q s))) = mq_initialized s"
    by (auto simp: os_mqtt_subscribe_def os_mqtt_is_connected_def os_mqtt_get_state_def Let_def split: option.split)
  ultimately show ?thesis by (simp add: MSub mqtt_inv_def split_beta)
next
  case (MUnsub m t)
  assume "mqtt_inv s"
  then have "mqtt_wf (fst (mqtt_exec (MqttUnsubscribe m (Some t)) s))" "mq_initialized s"
    using mqtt_step_wf by (auto simp: mqtt_inv_def simp del: mqtt_exec.simps)
  moreover have "mq_initialized (fst (snd (os_mqtt_unsubscribe m (Some t) s))) = mq_initialized s"
    by (auto simp: os_mqtt_unsubscribe_def os_mqtt_is_connected_def os_mqtt_get_state_def Let_def split: option.split)
  ultimately show ?thesis by (simp add: MUnsub mqtt_inv_def split_beta)
next
  case (MEvent ev)
  assume "mqtt_inv s"
  then show ?thesis
    using mqtt_step_wf [of s "MqttEvent ev"] mqtt_event_frame [of ev s]
    by (simp add: MEvent mqtt_inv_def split_beta)
qed

interpretation mqtt_objects: simulates mqtt_conc mqtt_req_ok mqtt_inv mqtt_spec mqtt_abs
  by unfold_locales (simp_all add: mqtt_conc_inv mqtt_step_sim)

definition mqtt_started :: mqtt where
  "mqtt_started = fst (snd (os_mqtt_init (Some 1) mqtt_boot))"

lemma mqtt_started_inv: "mqtt_inv mqtt_started"
  using mqtt_step_wf [OF mqtt_boot_wf, of "MqttInit (Some 1)"]
  by (simp add: mqtt_inv_def mqtt_started_def os_mqtt_init_def mqtt_boot_def)

section \<open>Properties\<close>



text \<open>After any sequence of calls and events from boot the table has 8 entries with topics that fit
  their arrays and no two active entries for one topic, and every call and every event follows the mutex
  discipline (the user's callback runs without the mutex).\<close>

theorem mqtt_run_wf:
  "mqtt_wf (run (\<lambda>x s. fst (mqtt_exec x s)) ops mqtt_boot) \<and> lock_ok False (snd (mqtt_exec x s))"
proof
  show "mqtt_wf (run (\<lambda>x s. fst (mqtt_exec x s)) ops mqtt_boot)"
    by (rule mqtt_calls.run_inv) (simp_all add: list_all_iff mqtt_boot_wf)
qed (rule mqtt_exec_lock)

text \<open>A client that failed to start: the state says connecting, but there is no client.\<close>

definition mqtt_stuck :: "mqtt \<Rightarrow> bool" where
  "mqtt_stuck s \<longleftrightarrow> mq_initialized s \<and> m_broker_url (mq_config s) \<noteq> '''' \<and>
     mq_state s = OS_MQTT_STATE_CONNECTING \<and> mq_client s = None"

primrec mqtt_user_call :: "mqtt_op \<Rightarrow> bool" where
  "mqtt_user_call (MqttInit lk) \<longleftrightarrow> True"
| "mqtt_user_call MqttDeinit \<longleftrightarrow> False"
| "mqtt_user_call (MqttConfig c) \<longleftrightarrow> True"
| "mqtt_user_call (MqttConnect mac cl rr rs) \<longleftrightarrow> True"
| "mqtt_user_call MqttDisconnect \<longleftrightarrow> True"
| "mqtt_user_call (MqttPublish m t p len q r) \<longleftrightarrow> True"
| "mqtt_user_call (MqttSubscribe m t q) \<longleftrightarrow> True"
| "mqtt_user_call (MqttUnsubscribe m t) \<longleftrightarrow> True"
| "mqtt_user_call MqttClearStats \<longleftrightarrow> True"
| "mqtt_user_call (MqttEvent ev) \<longleftrightarrow> False"

lemma mqtt_stuck_step: "mqtt_user_call x \<Longrightarrow> mqtt_stuck s \<Longrightarrow> mqtt_stuck (fst (mqtt_exec x s))"
  by (cases x) (auto simp: mqtt_stuck_def mqtt_op_defs os_mqtt_subscribe_def os_mqtt_unsubscribe_def
      os_mqtt_is_connected_def os_mqtt_get_state_def Let_def split: option.split)

interpretation mqtt_stuck: guarded "\<lambda>x s. fst (mqtt_exec x s)" mqtt_user_call mqtt_stuck
  by unfold_locales (rule mqtt_stuck_step)

text \<open>When registering the event handler or starting the client fails, the failure is reported once;
  from then on, whatever calls follow short of shutting the module down (a client that was destroyed sends no
  events), every attempt to connect returns success without doing anything, disconnecting is refused, and the
  client is never connected.\<close>

theorem mqtt_connect_failure_sticks:
  assumes "mq_initialized s" and "m_broker_url (mq_config s) \<noteq> ''''"
    and "mq_state s \<notin> {OS_MQTT_STATE_CONNECTING, OS_MQTT_STATE_CONNECTED}" and "rr \<noteq> ESP_OK \<or> rs \<noteq> ESP_OK"
    and "os_mqtt_connect mac (Some c) rr rs s = (r, s', tr)"
    and "list_all mqtt_user_call ops" and "t = run (\<lambda>x s. fst (mqtt_exec x s)) ops s'"
  shows "r \<noteq> ESP_OK \<and> os_mqtt_connect mac' cl' rr' rs' t = (ESP_OK, t, [Take, Give]) \<and>
    fst (os_mqtt_disconnect t) = ESP_ERR_INVALID_STATE \<and> \<not> fst (os_mqtt_is_connected t)"
proof -
  have r: "r \<noteq> ESP_OK" and s': "mqtt_stuck s'"
    using assms(1-5) by (auto simp: os_mqtt_connect_def Let_def mqtt_stuck_def split: if_splits)
  have "mqtt_stuck t" unfolding assms(7) using assms(6) s' by (rule mqtt_stuck.run_inv)
  with r show ?thesis
    by (simp add: mqtt_stuck_def os_mqtt_connect_def os_mqtt_disconnect_def os_mqtt_is_connected_def os_mqtt_get_state_def)
qed

definition mqtt_ready :: mqtt where
  "mqtt_ready = fst (snd (os_mqtt_config (Some (config_zero\<lparr>m_broker_url := ''mqtt://b''\<rparr>)) mqtt_started))"

definition mqtt_failed :: mqtt where
  "mqtt_failed = fst (snd (os_mqtt_connect (1, 2, 3) (Some 7) ESP_OK ESP_FAIL mqtt_ready))"

theorem mqtt_connect_failure_sticks_witness:
  "fst (os_mqtt_connect (1, 2, 3) (Some 8) ESP_OK ESP_OK mqtt_failed) = ESP_OK \<and>
   \<not> fst (os_mqtt_is_connected mqtt_failed)"
proof -
  have h: "mq_initialized mqtt_ready" "m_broker_url (mq_config mqtt_ready) \<noteq> ''''"
    by code_simp+
  have st: "mq_state mqtt_ready = OS_MQTT_STATE_DISCONNECTED" by code_simp
  obtain r s' tr where e: "os_mqtt_connect (1, 2, 3) (Some 7) ESP_OK ESP_FAIL mqtt_ready = (r, s', tr)"
    by (metis prod.collapse)
  then have "mqtt_failed = run (\<lambda>x s. fst (mqtt_exec x s)) [] s'" by (simp add: mqtt_failed_def)
  from mqtt_connect_failure_sticks [OF h _ _ e _ this, of "(1, 2, 3)" "Some 8" ESP_OK ESP_OK] st
  show ?thesis by simp
qed

text \<open>The user's callback is called (without the mutex) for every event of the client except the one
  that says it is connected, whose number is 0, the value that means "no event", and unknown ones.\<close>

theorem mqtt_callback_misses_connected:
  assumes "m_callback (mq_config s) = Some f"
  shows "(\<exists>e u. MCallback f e u \<in> set (ext_calls (snd (mqtt_event_handler ev s)))) \<longleftrightarrow>
    ev \<noteq> EvOther \<and> (\<forall>p. ev \<noteq> EvConnected p)"
  using assms
  by (cases ev) (auto simp: mqtt_event_handler_def Let_def event_zero_def resubscribe_calls)

theorem mqtt_callback_misses_connected_witness:
  "\<not> (\<exists>e u. MCallback 3 e u \<in>
     set (ext_calls (snd (mqtt_event_handler (EvConnected 0) (mqtt_started\<lparr>mq_config := config_zero\<lparr>m_callback := Some 3\<rparr>\<rparr>)))))"
  using mqtt_callback_misses_connected [of "mqtt_started\<lparr>mq_config := config_zero\<lparr>m_callback := Some 3\<rparr>\<rparr>" 3 "EvConnected 0"]
  by simp

text \<open>Connecting again after an error event creates a client without destroying the one before.\<close>

lemma reconnect_leaks_client:
  "mq_initialized s \<Longrightarrow> m_broker_url (mq_config s) \<noteq> '''' \<Longrightarrow> mq_state s = OS_MQTT_STATE_ERROR \<Longrightarrow>
   mq_client s = Some c \<Longrightarrow> c \<noteq> d \<Longrightarrow>
   \<forall>x \<in> set (ext_calls (snd (snd (os_mqtt_connect mac (Some d) rr rs s)))). x \<noteq> MDestroy (Some c)"
  by (auto simp: os_mqtt_connect_def Let_def)

end
