(* ===== verification/Fs.thy ===== *)
theory Fs
  imports Fmt
begin

text \<open>
  The file system layer, \<^verbatim>\<open>src/components/os_fs/src/os_fs.c\<close>: a working directory over the
  SPIFFS file system mounted at \<^verbatim>\<open>/spiffs\<close>, and the operations that resolve a path and call POSIX.

  POSIX and SPIFFS are outside: the record \<open>vfs\<close> holds the functions the sources call, over a
  state of their own (\<open>'v\<close>), and is an argument of every operation.  An operation that opens a file
  works on it by its path.  What is printed and logged is in the trace.  \<open>logical\<close> is the
  abstract meaning of a path: the path from the root of the file system, seen from the working directory.
\<close>

section \<open>What the sources call\<close>

datatype errno = EEXIST | ENOTSUP | ENOSYS | EOTHER int

record 'v vfs =
  vfs_register :: "'v \<Rightarrow> esp_err \<times> 'v"
  vfs_unregister :: "'v \<Rightarrow> 'v"
  vfs_info :: "'v \<Rightarrow> nat \<times> nat"                        \<comment> \<open>total and used bytes\<close>
  vfs_stat :: "string \<Rightarrow> 'v \<Rightarrow> (bool \<times> nat \<times> int) option"  \<comment> \<open>directory, size, time\<close>
  vfs_mkdir :: "string \<Rightarrow> 'v \<Rightarrow> errno option \<times> 'v"
  vfs_rmdir :: "string \<Rightarrow> 'v \<Rightarrow> bool \<times> 'v"
  vfs_unlink :: "string \<Rightarrow> 'v \<Rightarrow> bool \<times> 'v"
  vfs_rename :: "string \<Rightarrow> string \<Rightarrow> 'v \<Rightarrow> bool \<times> 'v"
  vfs_fopen :: "string \<Rightarrow> string \<Rightarrow> 'v \<Rightarrow> bool \<times> 'v"       \<comment> \<open>path, mode\<close>
  vfs_fread :: "string \<Rightarrow> nat \<Rightarrow> 'v \<Rightarrow> string \<times> bool"      \<comment> \<open>bytes read, \<^verbatim>\<open>ferror\<close>\<close>
  vfs_fwrite :: "string \<Rightarrow> string \<Rightarrow> 'v \<Rightarrow> nat \<times> bool \<times> 'v" \<comment> \<open>bytes written, \<^verbatim>\<open>ferror\<close>\<close>
  vfs_readdir :: "string \<Rightarrow> 'v \<Rightarrow> string list option"     \<comment> \<open>\<^verbatim>\<open>opendir\<close> and the names\<close>

section \<open>State\<close>

definition OS_FS_MOUNT_POINT :: string where "OS_FS_MOUNT_POINT = ''/spiffs''"
definition OS_FS_PATH_MAX :: nat where "OS_FS_PATH_MAX = 128"
definition OS_FS_CWD_MAX :: nat where "OS_FS_CWD_MAX = 128"

lemmas fs_consts = OS_FS_MOUNT_POINT_def OS_FS_PATH_MAX_def OS_FS_CWD_MAX_def

record 'v fs =
  f_initialised :: bool
  f_cwd :: string
  f_vfs :: 'v

definition fs_boot :: "'v \<Rightarrow> 'v fs" where
  "fs_boot v = \<lparr>f_initialised = False, f_cwd = ''/'', f_vfs = v\<rparr>"

record os_fs_entry =
  fe_name :: string
  fe_is_dir :: bool
  fe_size :: nat
  fe_mtime :: int

datatype fs_call = FUart string | FSock int string

definition fs_fd_write :: "int \<Rightarrow> string \<Rightarrow> fs_call eff" where
  "fs_fd_write fd s = (if fd < 0 then Ext (FUart s) else Ext (FSock fd s))"

definition fs_fd_printf :: "int \<Rightarrow> string \<Rightarrow> fs_call eff" where
  "fs_fd_printf fd formatted = fs_fd_write fd (cstr 256 formatted)"

section \<open>Paths\<close>

text \<open>\<^verbatim>\<open>strncmp(s, OS_FS_MOUNT_POINT, strlen(OS_FS_MOUNT_POINT)) == 0\<close>.\<close>

definition mounted :: "string \<Rightarrow> bool" where
  "mounted s \<longleftrightarrow> take (length OS_FS_MOUNT_POINT) s = OS_FS_MOUNT_POINT"

definition os_fs_getcwd :: "'v fs \<Rightarrow> string" where
  "os_fs_getcwd s = f_cwd s"

text \<open>The prefix of relative paths, in its buffer of \<^verbatim>\<open>OS_FS_CWD_MAX + 32\<close> bytes.\<close>

definition full_cwd :: "'v fs \<Rightarrow> string" where
  "full_cwd s =
     (let c = cstr (OS_FS_CWD_MAX + 32) (OS_FS_MOUNT_POINT @ f_cwd s)
      in if last c \<noteq> CHR ''/''
         then c @ take (OS_FS_CWD_MAX + 32 - length c - 1) ''/'' else c)"

text \<open>The string left in the output buffer of \<open>out_sz\<close> bytes; \<open>None\<close> leaves it as it was.\<close>

definition os_fs_abspath :: "string option \<Rightarrow> nat \<Rightarrow> 'v fs \<Rightarrow> string option" where
  "os_fs_abspath path out_sz s =
     (case path of
        None \<Rightarrow> None
      | Some rel \<Rightarrow>
          if out_sz = 0 then None
          else if take 1 rel = ''/'' then
            (if mounted rel then Some (cstr out_sz rel)
             else Some (cstr out_sz (OS_FS_MOUNT_POINT @ rel)))
          else Some (cstr out_sz (full_cwd s @ rel)))"

text \<open>Every operation resolves its path (not NULL) into a buffer of \<^verbatim>\<open>OS_FS_PATH_MAX + 16\<close> bytes.\<close>

definition abs_of :: "string \<Rightarrow> 'v fs \<Rightarrow> string" where
  "abs_of path s = the (os_fs_abspath (Some path) (OS_FS_PATH_MAX + 16) s)"

definition os_fs_chdir :: "'v vfs \<Rightarrow> string option \<Rightarrow> 'v fs \<Rightarrow> esp_err \<times> 'v fs" where
  "os_fs_chdir V path s =
     (case path of
        None \<Rightarrow> (ESP_ERR_INVALID_ARG, s)
      | Some p \<Rightarrow>
          let a = abs_of p s in
          (case vfs_stat V a (f_vfs s) of
             None \<Rightarrow> (ESP_ERR_NOT_FOUND, s)
           | Some (is_dir, _, _) \<Rightarrow>
               if \<not> is_dir then (ESP_ERR_INVALID_ARG, s)
               else
                 let rel = (if mounted a then drop (length OS_FS_MOUNT_POINT) a else a)
                 in (ESP_OK, s\<lparr>f_cwd := cstr OS_FS_CWD_MAX (if rel \<noteq> [] then rel else ''/'')\<rparr>)))"

section \<open>Directories and files\<close>

definition os_fs_mkdir :: "'v vfs \<Rightarrow> string \<Rightarrow> 'v fs \<Rightarrow> esp_err \<times> 'v fs \<times> fs_call eff list" where
  "os_fs_mkdir V path s =
     (let a = abs_of path s;
          (err, v) = vfs_mkdir V a (f_vfs s);
          s1 = s\<lparr>f_vfs := v\<rparr>
      in case err of
           None \<Rightarrow> (ESP_OK, s1, [])
         | Some e \<Rightarrow>
             if e = EEXIST then (ESP_OK, s1, [])
             else if e = ENOTSUP \<or> e = ENOSYS then
               (let n = length (a @ ''/.dir'') in
                if n = 0 \<or> OS_FS_PATH_MAX + 24 \<le> n
                then (ESP_FAIL, s1, [Log OS_LOG_ERROR ''mkdir '%s': path too long''])
                else
                  let marker = cstr (OS_FS_PATH_MAX + 24) (a @ ''/.dir'');
                      (ok, v') = vfs_fopen V marker ''w'' v
                  in if \<not> ok then (ESP_FAIL, s\<lparr>f_vfs := v'\<rparr>, [Log OS_LOG_ERROR ''mkdir fallback '%s': %s''])
                     else (ESP_OK, s\<lparr>f_vfs := v'\<rparr>, []))
             else (ESP_FAIL, s1, [Log OS_LOG_ERROR ''mkdir '%s': %s'']))"

definition os_fs_rmdir :: "'v vfs \<Rightarrow> string \<Rightarrow> 'v fs \<Rightarrow> esp_err \<times> 'v fs \<times> fs_call eff list" where
  "os_fs_rmdir V path s =
     (let (ok, v) = vfs_rmdir V (abs_of path s) (f_vfs s)
      in if \<not> ok then (ESP_FAIL, s\<lparr>f_vfs := v\<rparr>, [Log OS_LOG_ERROR ''rmdir '%s': %s''])
         else (ESP_OK, s\<lparr>f_vfs := v\<rparr>, []))"

definition os_fs_remove :: "'v vfs \<Rightarrow> string \<Rightarrow> 'v fs \<Rightarrow> esp_err \<times> 'v fs \<times> fs_call eff list" where
  "os_fs_remove V path s =
     (let (ok, v) = vfs_unlink V (abs_of path s) (f_vfs s)
      in if \<not> ok then (ESP_FAIL, s\<lparr>f_vfs := v\<rparr>, [Log OS_LOG_ERROR ''unlink '%s': %s''])
         else (ESP_OK, s\<lparr>f_vfs := v\<rparr>, []))"

definition os_fs_rename :: "'v vfs \<Rightarrow> string \<Rightarrow> string \<Rightarrow> 'v fs \<Rightarrow> esp_err \<times> 'v fs" where
  "os_fs_rename V src dst s =
     (let (ok, v) = vfs_rename V (abs_of src s) (abs_of dst s) (f_vfs s)
      in (if ok then ESP_OK else ESP_FAIL, s\<lparr>f_vfs := v\<rparr>))"

definition os_fs_exists :: "'v vfs \<Rightarrow> string \<Rightarrow> 'v fs \<Rightarrow> bool" where
  "os_fs_exists V path s \<longleftrightarrow> vfs_stat V (abs_of path s) (f_vfs s) \<noteq> None"

definition os_fs_stat :: "'v vfs \<Rightarrow> string \<Rightarrow> 'v fs \<Rightarrow> esp_err \<times> (bool \<times> nat \<times> int) option" where
  "os_fs_stat V path s =
     (let r = vfs_stat V (abs_of path s) (f_vfs s) in (if r \<noteq> None then ESP_OK else ESP_FAIL, r))"

text \<open>One turn of the listing loop: the entries handed to the callback, and the warnings.\<close>

definition list_entry ::
  "'v vfs \<Rightarrow> string \<Rightarrow> 'v \<Rightarrow> string \<Rightarrow> os_fs_entry list \<times> fs_call eff list" where
  "list_entry V a v name =
     (if name = ''.'' \<or> name = ''..'' then ([], [])
      else if OS_FS_PATH_MAX + 32 \<le> length a + 1 + length name
      then ([], [Log OS_LOG_WARN ''Path too long while listing: %s/%s''])
      else
        let e = \<lparr>fe_name = cstr OS_FS_PATH_MAX name, fe_is_dir = False, fe_size = 0, fe_mtime = 0\<rparr>
        in (case vfs_stat V (a @ ''/'' @ name) v of
              None \<Rightarrow> ([e], [])
            | Some (d, sz, t) \<Rightarrow> ([e\<lparr>fe_is_dir := d, fe_size := sz, fe_mtime := t\<rparr>], [])))"

text \<open>The count (\<open>-1\<close> on error), the entries the callback saw, and the trace.\<close>

definition os_fs_listdir ::
  "'v vfs \<Rightarrow> string \<Rightarrow> 'v fs \<Rightarrow> int \<times> os_fs_entry list \<times> fs_call eff list" where
  "os_fs_listdir V path s =
     (let a = abs_of path s in
      case vfs_readdir V a (f_vfs s) of
        None \<Rightarrow> (- 1, [], [Log OS_LOG_WARN ''opendir '%s': %s''])
      | Some names \<Rightarrow>
          let rs = map (list_entry V a (f_vfs s)) names; es = concat (map fst rs)
          in (int (length es), es, concat (map snd rs)))"

text \<open>The bytes stored in the caller's buffer, terminator included, when the file could be read.\<close>

definition os_fs_read_file ::
  "'v vfs \<Rightarrow> string \<Rightarrow> 32 word \<Rightarrow> 'v fs \<Rightarrow> esp_err \<times> (string \<times> nat) option \<times> 'v fs \<times> fs_call eff list" where
  "os_fs_read_file V path buf_sz s =
     (let a = abs_of path s; (ok, v) = vfs_fopen V a ''r'' (f_vfs s); s1 = s\<lparr>f_vfs := v\<rparr> in
      if \<not> ok then (ESP_ERR_NOT_FOUND, None, s1, [Log OS_LOG_ERROR ''Cannot open '%s': %s''])
      else
        let (data, err) = vfs_fread V a (unat (buf_sz - 1)) v
        in if err then (ESP_FAIL, None, s1, [Log OS_LOG_ERROR ''Read error on '%s': %s''])
           else (ESP_OK, Some (data @ [nul], length data), s1, []))"

definition os_fs_write_file ::
  "'v vfs \<Rightarrow> string \<Rightarrow> string \<Rightarrow> bool \<Rightarrow> 'v fs \<Rightarrow> esp_err \<times> 'v fs \<times> fs_call eff list" where
  "os_fs_write_file V path data app s =
     (let a = abs_of path s; (ok, v) = vfs_fopen V a (if app then ''a'' else ''w'') (f_vfs s) in
      if \<not> ok then (ESP_FAIL, s\<lparr>f_vfs := v\<rparr>, [Log OS_LOG_ERROR ''Cannot write '%s': %s''])
      else
        let (written, err, v') = vfs_fwrite V a data v
        in if written \<noteq> length data \<or> err
           then (ESP_FAIL, s\<lparr>f_vfs := v'\<rparr>, [Log OS_LOG_ERROR ''Write error on '%s': wrote %zu of %zu bytes''])
           else (ESP_OK, s\<lparr>f_vfs := v'\<rparr>, []))"

definition os_fs_usage :: "'v vfs \<Rightarrow> 'v fs \<Rightarrow> nat \<times> nat" where
  "os_fs_usage V s = vfs_info V (f_vfs s)"

section \<open>Listing, starting and stopping\<close>

definition ls_cb :: "int \<Rightarrow> os_fs_entry \<Rightarrow> fs_call eff" where
  "ls_cb fd e =
     fs_fd_printf fd
       (if fe_is_dir e
        then CHR 0x1B # ''[34m'' @ padr 30 (fe_name e) @ CHR 0x1B # ''[0m  <DIR>'' @ crlf
        else padr 30 (fe_name e) @ ''  '' @ padl 8 (dec (fe_size e)) @ '' B'' @ crlf)"

definition os_fs_print_ls :: "'v vfs \<Rightarrow> int \<Rightarrow> string option \<Rightarrow> 'v fs \<Rightarrow> fs_call eff list" where
  "os_fs_print_ls V fd path s =
     (let (n, es, tr) = os_fs_listdir V (case path of None \<Rightarrow> f_cwd s | Some p \<Rightarrow> p) s
      in if n < 0
         then tr @ [fs_fd_printf fd (''ls: cannot access '' @ quote @
                (case path of None \<Rightarrow> ''(null)'' | Some p \<Rightarrow> p) @ quote @ crlf)]
         else tr @ map (ls_cb fd) es @ [fs_fd_printf fd (crlf @ dec (length es) @ '' item(s)'' @ crlf)])"

definition os_fs_init :: "'v vfs \<Rightarrow> 'v fs \<Rightarrow> esp_err \<times> 'v fs \<times> fs_call eff list" where
  "os_fs_init V s =
     (if f_initialised s then (ESP_OK, s, [])
      else
        let (ret, v) = vfs_register V (f_vfs s) in
        if ret \<noteq> ESP_OK then (ret, s\<lparr>f_vfs := v\<rparr>, [Log OS_LOG_ERROR ''SPIFFS mount failed: %s''])
        else
          let s1 = s\<lparr>f_vfs := v, f_cwd := ''/'', f_initialised := True\<rparr>;
              (_, s2, t2) = os_fs_mkdir V ''/logs'' s1;
              (_, s3, t3) = os_fs_mkdir V ''/tmp'' s2;
              (_, s4, t4) = os_fs_mkdir V ''/etc'' s3
          in (ESP_OK, s4, Log OS_LOG_INFO ''SPIFFS mounted at %s  (%zu kB used / %zu kB total)'' # t2 @ t3 @ t4))"

definition os_fs_deinit :: "'v vfs \<Rightarrow> 'v fs \<Rightarrow> 'v fs \<times> fs_call eff list" where
  "os_fs_deinit V s =
     (if \<not> f_initialised s then (s, [])
      else (s\<lparr>f_vfs := vfs_unregister V (f_vfs s), f_initialised := False\<rparr>, [Log OS_LOG_INFO ''SPIFFS unmounted'']))"

section \<open>What a path means\<close>

definition dir_prefix :: "string \<Rightarrow> string" where
  "dir_prefix d = (if last d = CHR ''/'' then d else d @ ''/'')"

definition logical :: "string \<Rightarrow> string \<Rightarrow> string" where
  "logical cwd path = (if take 1 path = ''/'' then path else dir_prefix cwd @ path)"

definition fs_wf :: "'v fs \<Rightarrow> bool" where
  "fs_wf s \<longleftrightarrow> f_cwd s \<noteq> [] \<and> length (f_cwd s) < OS_FS_CWD_MAX"

lemma full_cwd_eq: "fs_wf s \<Longrightarrow> full_cwd s = OS_FS_MOUNT_POINT @ dir_prefix (f_cwd s)"
  by (auto simp: full_cwd_def fs_wf_def fs_consts dir_prefix_def Let_def)

lemma mounted_append [simp]: "mounted (OS_FS_MOUNT_POINT @ r)"
  by (simp add: mounted_def)

lemma mounted_more: "mounted r \<Longrightarrow> mounted (r @ r')"
proof -
  assume "mounted r"
  then obtain q where "r = OS_FS_MOUNT_POINT @ q" by (metis append_take_drop_id mounted_def)
  then show ?thesis by simp
qed

lemma mounted_cstr: "mounted r \<Longrightarrow> length OS_FS_MOUNT_POINT < sz \<Longrightarrow> mounted (cstr sz r)"
  by (auto simp: mounted_def cstr_def min_def)

lemma mounted_slash: "mounted r \<Longrightarrow> take 1 r = ''/''"
proof -
  assume "mounted r"
  then have "take 1 (take (length OS_FS_MOUNT_POINT) r) = take 1 OS_FS_MOUNT_POINT" by (simp add: mounted_def)
  then show ?thesis by (simp add: OS_FS_MOUNT_POINT_def min_def)
qed

lemma abspath_eq:
  "fs_wf s \<Longrightarrow> 0 < sz \<Longrightarrow> os_fs_abspath (Some p) sz s =
    Some (cstr sz (if mounted p then p else OS_FS_MOUNT_POINT @ logical (f_cwd s) p))"
  using mounted_slash [of p] by (auto simp: os_fs_abspath_def logical_def full_cwd_eq)

lemma abs_of_eq:
  "fs_wf s \<Longrightarrow> abs_of p s =
    cstr (OS_FS_PATH_MAX + 16) (if mounted p then p else OS_FS_MOUNT_POINT @ logical (f_cwd s) p)"
  by (simp add: abs_of_def abspath_eq fs_consts)

lemma abs_of_mounted: "fs_wf s \<Longrightarrow> mounted (abs_of p s)"
  by (cases "mounted p") (simp_all add: abs_of_eq mounted_cstr OS_FS_PATH_MAX_def OS_FS_MOUNT_POINT_def
      mounted_append [unfolded OS_FS_MOUNT_POINT_def, simplified])

lemma fs_chdir_cases:
  assumes "os_fs_chdir V (Some p) s = (r, s')" and "fs_wf s"
  obtains (same) "r \<noteq> ESP_OK" "s' = s"
  | (moved) rel where "r = ESP_OK" "rel = drop (length OS_FS_MOUNT_POINT) (abs_of p s)"
      "s' = s\<lparr>f_cwd := cstr OS_FS_CWD_MAX (if rel \<noteq> [] then rel else ''/'')\<rparr>"
proof (cases "vfs_stat V (abs_of p s) (f_vfs s)")
  case None
  with assms(1) show ?thesis by (intro same) (simp_all add: os_fs_chdir_def Let_def)
next
  case (Some e)
  then obtain d n t where e: "vfs_stat V (abs_of p s) (f_vfs s) = Some (d, n, t)" by (cases e) auto
  with assms(1) abs_of_mounted [OF assms(2), of p] show ?thesis
    using same moved [OF _ refl] by (cases d) (simp_all add: os_fs_chdir_def Let_def)
qed

lemma fs_chdir_wf: "fs_wf s \<Longrightarrow> fs_wf (snd (os_fs_chdir V p s))"
proof (cases p)
  case (Some q)
  assume wf: "fs_wf s"
  obtain r s' where r: "os_fs_chdir V (Some q) s = (r, s')" by (cases "os_fs_chdir V (Some q) s")
  from this wf have "fs_wf s'"
    by (cases rule: fs_chdir_cases) (use wf in \<open>auto simp: fs_wf_def OS_FS_CWD_MAX_def cstr_eq_Nil\<close>)
  with r Some show ?thesis by simp
qed (simp add: os_fs_chdir_def)

text \<open>In a buffer of more than 7 bytes a path resolves to \<^verbatim>\<open>/spiffs\<close> followed by the path itself
  when it is absolute, or by the working directory, a slash and the path when it is relative, unless it already
  starts with \<^verbatim>\<open>/spiffs\<close>, cut to the buffer; so the result is always below the mount point and terminated.\<close>

theorem os_fs_abspath_spec:
  assumes "fs_wf s" and "length OS_FS_MOUNT_POINT < sz"
  shows "os_fs_abspath (Some p) sz s =
      Some (take (sz - 1) (if mounted p then p
        else OS_FS_MOUNT_POINT @ (if take 1 p = ''/'' then p
          else f_cwd s @ (if last (f_cwd s) = CHR ''/'' then [] else ''/'') @ p))) \<and>
    mounted (the (os_fs_abspath (Some p) sz s)) \<and> length (the (os_fs_abspath (Some p) sz s)) < sz"
proof -
  have "os_fs_abspath (Some p) sz s =
      Some (cstr sz (if mounted p then p else OS_FS_MOUNT_POINT @ logical (f_cwd s) p))"
    using assms by (intro abspath_eq) auto
  moreover have "mounted (cstr sz (if mounted p then p else OS_FS_MOUNT_POINT @ logical (f_cwd s) p))"
    using assms(2) by (intro mounted_cstr) auto
  ultimately show ?thesis
    using assms(2) by (auto simp: cstr_def logical_def dir_prefix_def)
qed

theorem os_fs_abspath_spec_witness:
  "os_fs_abspath (Some ''a.txt'') 64 \<lparr>f_initialised = True, f_cwd = ''/logs'', f_vfs = ()\<rparr> = Some ''/spiffs/logs/a.txt''"
proof -
  have "fs_wf \<lparr>f_initialised = True, f_cwd = ''/logs'', f_vfs = ()\<rparr>" by (simp add: fs_wf_def fs_consts)
  from os_fs_abspath_spec [OF this, of 64 "''a.txt''"] show ?thesis by (simp add: fs_consts mounted_def)
qed

text \<open>Claim C35: after a successful change to directory \<open>d\<close> (at most 127 characters from the root) a relative
  path \<open>f\<close> names what \<open>d/f\<close> named before, unless \<open>d/f\<close> happens to spell the mount point.\<close>

theorem os_fs_chdir_then_relative:
  assumes "fs_wf s" and "os_fs_chdir V (Some d) s = (ESP_OK, s')"
    and "d \<noteq> []" and "take 1 f \<noteq> ''/''" and "length (logical (f_cwd s) d) < OS_FS_CWD_MAX"
    and "mounted (dir_prefix d @ f) \<longrightarrow> mounted d"
  shows "abs_of f s' = abs_of (dir_prefix d @ f) s"
proof -
  let ?p = "if mounted d then d else OS_FS_MOUNT_POINT @ logical (f_cwd s) d"
  have len: "length ?p < OS_FS_PATH_MAX + 16"
    using assms(5) mounted_slash [of d] by (auto simp: fs_consts logical_def split: if_splits)
  then have abs: "abs_of d s = ?p" using assms(1) by (simp add: abs_of_eq)
  have mp: "\<And>r. mounted r \<Longrightarrow> OS_FS_MOUNT_POINT @ drop (length OS_FS_MOUNT_POINT) r = r"
    by (metis append_take_drop_id mounted_def)
  from assms(2,1) obtain rel where rel: "rel = drop (length OS_FS_MOUNT_POINT) ?p"
      "s' = s\<lparr>f_cwd := cstr OS_FS_CWD_MAX (if rel \<noteq> [] then rel else ''/'')\<rparr>"
    by (cases rule: fs_chdir_cases) (auto simp: abs)
  have "length rel < OS_FS_CWD_MAX"
    using assms(5) mounted_slash [of d] by (auto simp: rel fs_consts logical_def split: if_splits)
  then have cwd: "f_cwd s' = (if rel \<noteq> [] then rel else ''/'')" by (simp add: rel(2) fs_consts)
  have nf: "\<not> mounted f" using assms(4) mounted_slash by blast
  have wf': "fs_wf s'" using fs_chdir_wf [OF assms(1), of V "Some d"] assms(2) by simp
  have "OS_FS_MOUNT_POINT @ dir_prefix (f_cwd s') = dir_prefix ?p"
  proof (cases "rel = []")
    case True
    with rel(1) have "?p = OS_FS_MOUNT_POINT" by (metis append_Nil2 mounted_append mp)
    then show ?thesis using True cwd by (simp add: dir_prefix_def OS_FS_MOUNT_POINT_def)
  next
    case False
    have "OS_FS_MOUNT_POINT @ rel = ?p" unfolding rel(1) by (rule mp) simp
    then show ?thesis using False cwd by (auto simp: dir_prefix_def)
  qed
  then have l: "abs_of f s' = cstr (OS_FS_PATH_MAX + 16) (dir_prefix ?p @ f)"
    using nf assms(4) by (simp add: abs_of_eq [OF wf'] logical_def flip: append_assoc)
  have tk: "take 1 (dir_prefix d @ f) = take 1 d" using assms(3) by (cases d) (simp_all add: dir_prefix_def)
  have dp: "dir_prefix (a @ d) = a @ dir_prefix d" for a using assms(3) by (simp add: dir_prefix_def)
  show ?thesis
  proof (cases "mounted d")
    case True
    then have "mounted (dir_prefix d @ f)" by (auto simp: dir_prefix_def dest: mounted_more)
    with True l show ?thesis by (simp add: abs_of_eq [OF assms(1)])
  next
    case False
    with assms(6) have "\<not> mounted (dir_prefix d @ f)" by blast
    moreover have "dir_prefix (logical (f_cwd s) d) @ f = logical (f_cwd s) (dir_prefix d @ f)"
      unfolding logical_def tk by (simp add: dp)
    moreover have "logical (f_cwd s) d \<noteq> []" using assms(3) by (simp add: logical_def)
    then have "dir_prefix (OS_FS_MOUNT_POINT @ logical (f_cwd s) d) = OS_FS_MOUNT_POINT @ dir_prefix (logical (f_cwd s) d)"
      by (simp add: dir_prefix_def)
    ultimately show ?thesis using False l by (simp add: abs_of_eq [OF assms(1)])
  qed
qed

text \<open>A file system in memory, for the examples: files and their bytes, and a set of directories.\<close>

type_synonym mem = "(string \<rightharpoonup> string) \<times> string list"

definition mem_stat :: "string \<Rightarrow> mem \<Rightarrow> (bool \<times> nat \<times> int) option" where
  "mem_stat p v = (if p \<in> set (snd v) then Some (True, 0, 0) else map_option (\<lambda>d. (False, length d, 0)) (fst v p))"

definition mem_fopen :: "string \<Rightarrow> string \<Rightarrow> mem \<Rightarrow> bool \<times> mem" where
  "mem_fopen p mode v =
     (if mode = ''r'' then (fst v p \<noteq> None, v)
      else if mode = ''w'' then (True, ((fst v)(p \<mapsto> []), snd v))
      else (True, ((fst v)(p \<mapsto> (case fst v p of None \<Rightarrow> [] | Some d \<Rightarrow> d)), snd v)))"

definition mem_vfs :: "mem vfs" where
  "mem_vfs = \<lparr>vfs_register = \<lambda>v. (ESP_OK, v), vfs_unregister = \<lambda>v. v, vfs_info = \<lambda>v. (1000, 10),
     vfs_stat = mem_stat, vfs_mkdir = \<lambda>p v. (None, (fst v, p # snd v)), vfs_rmdir = \<lambda>p v. (False, v),
     vfs_unlink = \<lambda>p v. (fst v p \<noteq> None, ((fst v)(p := None), snd v)), vfs_rename = \<lambda>p q v. (False, v),
     vfs_fopen = mem_fopen, vfs_fread = \<lambda>p n v. (take n (case fst v p of None \<Rightarrow> [] | Some d \<Rightarrow> d), False),
     vfs_fwrite = \<lambda>p d v. (length d, False, ((fst v)(p \<mapsto> (case fst v p of None \<Rightarrow> [] | Some c \<Rightarrow> c) @ d), snd v)),
     vfs_readdir = \<lambda>p v. None\<rparr>"

definition mem_fs :: "mem fs" where
  "mem_fs = fst (snd (os_fs_init mem_vfs (fs_boot (Map.empty, []))))"

lemma mem_fs_dirs: "f_cwd mem_fs = ''/''" "''/spiffs/logs'' \<in> set (snd (f_vfs mem_fs))"
  by code_simp+

theorem os_fs_chdir_then_relative_witness:
  "abs_of ''a.txt'' (snd (os_fs_chdir mem_vfs (Some ''logs'') mem_fs)) = abs_of ''logs/a.txt'' mem_fs"
proof -
  have wf: "fs_wf mem_fs" by (simp add: fs_wf_def mem_fs_dirs fs_consts)
  have "abs_of ''logs'' mem_fs = ''/spiffs/logs''"
    by (simp add: abs_of_eq [OF wf] mem_fs_dirs fs_consts mounted_def logical_def dir_prefix_def)
  then have "fst (os_fs_chdir mem_vfs (Some ''logs'') mem_fs) = ESP_OK"
    by (simp add: os_fs_chdir_def mem_vfs_def mem_stat_def mem_fs_dirs Let_def)
  then have "os_fs_chdir mem_vfs (Some ''logs'') mem_fs = (ESP_OK, snd (os_fs_chdir mem_vfs (Some ''logs'') mem_fs))"
    by (cases "os_fs_chdir mem_vfs (Some ''logs'') mem_fs") simp
  from os_fs_chdir_then_relative [OF wf this, of "''a.txt''"] show ?thesis
    by (simp add: mem_fs_dirs logical_def dir_prefix_def fs_consts mounted_def)
qed

section \<open>Files keep what is written\<close>

text \<open>
  What POSIX says of the streams the sources use, over \<open>cont\<close>, the bytes of a file:
  mode \<^verbatim>\<open>w\<close> empties it, mode \<^verbatim>\<open>a\<close> keeps or creates it, mode \<^verbatim>\<open>r\<close> leaves it, a complete write
  adds at its end, a read returns its first bytes.
\<close>

definition posix_files :: "'v vfs \<Rightarrow> (string \<Rightarrow> 'v \<Rightarrow> string option) \<Rightarrow> bool" where
  "posix_files V cont \<longleftrightarrow>
     (\<forall>p v v'. vfs_fopen V p ''w'' v = (True, v') \<longrightarrow> cont p v' = Some []) \<and>
     (\<forall>p v v'. vfs_fopen V p ''a'' v = (True, v') \<longrightarrow>
        cont p v' = Some (case cont p v of None \<Rightarrow> [] | Some d \<Rightarrow> d)) \<and>
     (\<forall>p v v'. vfs_fopen V p ''r'' v = (True, v') \<longrightarrow> cont p v' = cont p v) \<and>
     (\<forall>p d v v' c. vfs_fwrite V p d v = (length d, False, v') \<longrightarrow> cont p v = Some c \<longrightarrow> cont p v' = Some (c @ d)) \<and>
     (\<forall>p n v d c. vfs_fread V p n v = (d, False) \<longrightarrow> cont p v = Some c \<longrightarrow> d = take n c)"

lemma write_file_cont:
  assumes "posix_files V cont" and "os_fs_write_file V path data app s = (ESP_OK, s', tr)"
  shows "f_cwd s' = f_cwd s \<and> cont (abs_of path s) (f_vfs s') =
    Some ((if app then (case cont (abs_of path s) (f_vfs s) of None \<Rightarrow> [] | Some d \<Rightarrow> d) else []) @ data)"
proof -
  obtain ok v where o: "vfs_fopen V (abs_of path s) (if app then ''a'' else ''w'') (f_vfs s) = (ok, v)"
    by (cases "vfs_fopen V (abs_of path s) (if app then ''a'' else ''w'') (f_vfs s)")
  obtain n e v' where w: "vfs_fwrite V (abs_of path s) data v = (n, e, v')"
    by (cases "vfs_fwrite V (abs_of path s) data v")
  have r: "ok" "n = length data" "\<not> e" "s' = s\<lparr>f_vfs := v'\<rparr>"
    using assms(2) o w by (auto simp: os_fs_write_file_def Let_def split: if_splits)
  have "cont (abs_of path s) v = Some (if app then (case cont (abs_of path s) (f_vfs s) of None \<Rightarrow> [] | Some d \<Rightarrow> d) else [])"
    using assms(1) o r(1) unfolding posix_files_def by (cases app) auto
  moreover have "vfs_fwrite V (abs_of path s) data v = (length data, False, v')" using w r by simp
  ultimately show ?thesis using assms(1) r(4) unfolding posix_files_def by auto
qed

lemma abs_of_same_cwd: "f_cwd s' = f_cwd s \<Longrightarrow> abs_of p s' = abs_of p s"
  by (simp add: abs_of_def os_fs_abspath_def full_cwd_def split: option.split)



section \<open>Limits\<close>

text \<open>A directory more than 127 characters deep is entered with \<^verbatim>\<open>ESP_OK\<close>, but the working directory kept
  is its path cut to 127 characters.\<close>

lemma chdir_cuts_deep_path:
  assumes "fs_wf s" and "length d < OS_FS_PATH_MAX + 16 - length OS_FS_MOUNT_POINT"
    and "take 1 d = ''/''" and "\<not> mounted d" and "OS_FS_CWD_MAX \<le> length d"
    and "vfs_stat V (OS_FS_MOUNT_POINT @ d) (f_vfs s) = Some (True, n, t)"
  shows "os_fs_chdir V (Some d) s = (ESP_OK, s\<lparr>f_cwd := take (OS_FS_CWD_MAX - 1) d\<rparr>)"
proof -
  have "abs_of d s = OS_FS_MOUNT_POINT @ d"
    using assms by (simp add: abs_of_eq logical_def fs_consts)
  then show ?thesis using assms(3,6) by (auto simp: os_fs_chdir_def cstr_def)
qed

text \<open>The marker file of a directory always fits its buffer: the branch for a path that is too long is dead.\<close>

lemma mkdir_marker_fits: "fs_wf s \<Longrightarrow> length (abs_of p s @ ''/.dir'') < OS_FS_PATH_MAX + 24"
  by (simp add: abs_of_eq OS_FS_PATH_MAX_def)

text \<open>Every operation keeps the invariant.\<close>

datatype fs_op =
    FsInit | FsDeinit | FsChdir "string option" | FsMkdir string | FsRmdir string | FsRemove string
  | FsRename string string | FsRead string "32 word" | FsWrite string string bool

primrec fs_exec :: "'v vfs \<Rightarrow> fs_op \<Rightarrow> 'v fs \<Rightarrow> 'v fs" where
  "fs_exec V FsInit s = fst (snd (os_fs_init V s))"
| "fs_exec V FsDeinit s = fst (os_fs_deinit V s)"
| "fs_exec V (FsChdir p) s = snd (os_fs_chdir V p s)"
| "fs_exec V (FsMkdir p) s = fst (snd (os_fs_mkdir V p s))"
| "fs_exec V (FsRmdir p) s = fst (snd (os_fs_rmdir V p s))"
| "fs_exec V (FsRemove p) s = fst (snd (os_fs_remove V p s))"
| "fs_exec V (FsRename p q) s = snd (os_fs_rename V p q s)"
| "fs_exec V (FsRead p n) s = fst (snd (snd (os_fs_read_file V p n s)))"
| "fs_exec V (FsWrite p d a) s = fst (snd (os_fs_write_file V p d a s))"

lemma mkdir_cwd: "f_cwd (fst (snd (os_fs_mkdir V p s))) = f_cwd s"
  by (auto simp: os_fs_mkdir_def Let_def split: option.split prod.split)

lemma fs_init_cwd: "f_cwd (fst (snd (os_fs_init V s))) = (if f_cwd (fst (snd (os_fs_init V s))) = f_cwd s then f_cwd s else ''/'')"
  by (auto simp: os_fs_init_def Let_def split_beta mkdir_cwd)

interpretation fs_calls: guarded "fs_exec V" "\<lambda>_. True" fs_wf
proof
  fix x and s :: "'a fs"
  assume wf: "fs_wf s"
  have same: "fs_wf s'" if "f_cwd s' = f_cwd s" for s' :: "'a fs" using wf that by (simp add: fs_wf_def)
  show "fs_wf (fs_exec V x s)"
  proof (cases x)
    case FsInit
    then show ?thesis using wf fs_init_cwd [of V s] by (auto simp: fs_wf_def OS_FS_CWD_MAX_def split: if_splits)
  next
    case (FsChdir p)
    then show ?thesis using fs_chdir_wf [OF wf] by simp
  next
    case (FsMkdir p)
    then show ?thesis by (simp add: same mkdir_cwd)
  qed (auto intro!: same simp: os_fs_deinit_def os_fs_rmdir_def os_fs_remove_def os_fs_rename_def
      os_fs_read_file_def os_fs_write_file_def Let_def split: prod.split)
qed

end
