(* ===== verification/Ota.thy ===== *)
theory Ota
  imports Prelude
begin

text \<open>
  Over-the-air updates, \<^verbatim>\<open>src/components/os_ota/src/os_ota.c\<close>: one task downloads, verifies and
  applies an image while callers start, watch and abort it.

  The update client of ESP-IDF (\<^verbatim>\<open>esp_https_ota_*\<close>) and the partitions are outside: their answers are
  arguments, the calls are in the traces.  The task is a program counter (\<open>ota_pc\<close>) and one step per
  section that other tasks cannot interrupt (\<open>ota_task_step\<close>); \<^verbatim>\<open>os_ota_abort\<close>, which polls, is a second
  counter (\<open>abort_pc\<close>).  \<open>ostep\<close> interleaves callers and tasks.
\<close>

section \<open>State\<close>

definition OS_OTA_URL_MAX_LEN :: nat where "OS_OTA_URL_MAX_LEN = 256"
definition OS_OTA_DOWNLOAD_TIMEOUT_SEC :: "32 word" where "OS_OTA_DOWNLOAD_TIMEOUT_SEC = 600"
definition OS_OTA_PROGRESS_DELAY_MS :: nat where "OS_OTA_PROGRESS_DELAY_MS = 100"
definition OS_OTA_TASK_STACK_SIZE :: nat where "OS_OTA_TASK_STACK_SIZE = 8192"
definition OS_OTA_TASK_PRIORITY :: nat where "OS_OTA_TASK_PRIORITY = 5"

datatype os_ota_state =
    OS_OTA_STATE_IDLE | OS_OTA_STATE_DOWNLOADING | OS_OTA_STATE_VERIFYING | OS_OTA_STATE_APPLYING
  | OS_OTA_STATE_REBOOTING | OS_OTA_STATE_ROLLBACK | OS_OTA_STATE_ERROR

record os_ota_config =
  oc_url :: "string option"
  oc_ca_cert :: "string option"
  oc_expected_sha256 :: "string option"
  oc_disable_signature_check :: bool
  oc_download_timeout_sec :: "32 word"

record ota =
  o_state :: os_ota_state
  o_config :: os_ota_config
  o_url_buffer :: string
  o_progress_cb :: "(nat \<times> nat) option"   \<comment> \<open>the callback and its user data\<close>
  o_progress :: "8 word"
  o_bytes :: nat
  o_total :: nat
  o_error :: string
  o_task :: "nat option"
  o_mutex :: "nat option"
  o_initialized :: bool
  o_abort_requested :: bool
  o_dot_count :: int

definition ota_config_zero :: os_ota_config where
  "ota_config_zero = \<lparr>oc_url = None, oc_ca_cert = None, oc_expected_sha256 = None,
     oc_disable_signature_check = False, oc_download_timeout_sec = 0\<rparr>"

definition ota_boot :: ota where
  "ota_boot = \<lparr>o_state = OS_OTA_STATE_IDLE, o_config = ota_config_zero, o_url_buffer = [], o_progress_cb = None,
     o_progress = 0, o_bytes = 0, o_total = 0, o_error = [], o_task = None, o_mutex = None,
     o_initialized = False, o_abort_requested = False, o_dot_count = 0\<rparr>"

datatype perform_ret = InProgress nat | Performed | PerformFailed

text \<open>The calls; a deleted task of \<open>None\<close> is the task that calls.\<close>

datatype ota_call =
    OMutexCreate | OMutexDelete
  | OBegin "string option" "32 word" "string option" "nat option"   \<comment> \<open>URL, timeout, certificate, the handle it gave\<close>
  | OPerform nat perform_ret | OFinish nat bool | OAbort nat        \<comment> \<open>with the result, with success\<close>
  | ODelay nat | ORestart | OTaskCreate nat nat | OTaskDelete "nat option"
  | OCallback nat os_ota_state "8 word" nat nat nat
  | OMarkValid | OMarkInvalid

section \<open>The update task\<close>

datatype ota_pc =
    T_Start
  | T_Update os_ota_state "8 word" "ota_call eff list" ota_pc   \<comment> \<open>\<^verbatim>\<open>update_state\<close>, what is logged after it, and on\<close>
  | T_Error string ota_pc                                        \<comment> \<open>\<^verbatim>\<open>set_error\<close>\<close>
  | T_Begin
  | T_Check nat int                                              \<comment> \<open>head of the loop: handle, \<^verbatim>\<open>last_progress\<close>\<close>
  | T_Perform nat int
  | T_Drop nat ota_pc                                            \<comment> \<open>\<^verbatim>\<open>esp_https_ota_abort\<close>\<close>
  | T_ClearError ota_pc
  | T_Finish nat
  | T_Partition
  | T_Reboot
  | T_Cleanup "nat option"
  | T_Dead
  | T_Restarted

record ota_answer =
  a_begin :: "nat option"        \<comment> \<open>the handle, or failure\<close>
  a_perform :: perform_ret
  a_finish :: bool

definition update_state ::
  "os_ota_state \<Rightarrow> 8 word \<Rightarrow> ota \<Rightarrow> ota \<times> ota_call eff list" where
  "update_state st p s =
     (s\<lparr>o_state := st, o_progress := p\<rparr>,
      [Take, Give, Log OS_LOG_INFO ''OTA state: %s (%d%%)''] @
      (case o_progress_cb s of
         None \<Rightarrow> []
       | Some (cb, user) \<Rightarrow> [Ext (OCallback cb st p (o_bytes s) (o_total s) user)]))"

text \<open>The percentage of the loop; its \<^verbatim>\<open>total_size\<close> is a local variable that stays 0.\<close>

definition ota_percent :: "nat \<Rightarrow> nat \<Rightarrow> int option" where
  "ota_percent total_size downloaded =
     (if 0 < total_size then Some (min 100 (int (downloaded * 100 div total_size))) else None)"

definition http_timeout :: "os_ota_config \<Rightarrow> 32 word" where
  "http_timeout c =
     (if oc_download_timeout_sec c \<noteq> 0 then oc_download_timeout_sec c * 1000 else OS_OTA_DOWNLOAD_TIMEOUT_SEC * 1000)"

definition set_error :: "string \<Rightarrow> ota_pc \<Rightarrow> ota \<Rightarrow> ota_pc \<times> ota" where
  [simp]: "set_error msg next s =
     (T_Update OS_OTA_STATE_ERROR 0 [Log OS_LOG_ERROR ''OTA error: %s''] next, s\<lparr>o_error := cstr 128 msg\<rparr>)"

definition is_abort_requested :: "ota \<Rightarrow> bool \<times> ota_call eff list" where
  [simp]: "is_abort_requested s = (o_abort_requested s, [Take, Give])"

primrec ota_task_step :: "ota_answer \<Rightarrow> ota_pc \<Rightarrow> ota \<Rightarrow> ota_pc \<times> ota \<times> ota_call eff list" where
  "ota_task_step a T_Start s =
     (if fst (is_abort_requested s)
      then (T_Update OS_OTA_STATE_IDLE 0 [] (T_Cleanup None), s, Log OS_LOG_INFO ''OTA task started'' # snd (is_abort_requested s))
      else (T_Update OS_OTA_STATE_DOWNLOADING 0 [] T_Begin, s, Log OS_LOG_INFO ''OTA task started'' # snd (is_abort_requested s)))"
| "ota_task_step a (T_Update st p after next) s =
     (let (s', tr) = update_state st p s in (next, s', tr @ after))"
| "ota_task_step a (T_Error msg next) s =
     (let (pc, s') = set_error msg next s in (pc, s', []))"
| "ota_task_step a T_Begin s =
     (let call = Ext (OBegin (oc_url (o_config s)) (http_timeout (o_config s)) (oc_ca_cert (o_config s)) (a_begin a))
      in case a_begin a of
           None \<Rightarrow> (T_Error ''Failed to begin OTA'' (T_Cleanup None), s, [call])
         | Some h \<Rightarrow> (T_Check h (- 1), s, [call]))"
| "ota_task_step a (T_Check h last_progress) s =
     (if fst (is_abort_requested s)
      then (T_Drop h (T_ClearError (T_Update OS_OTA_STATE_IDLE 0 [] (T_Cleanup None))), s,
            snd (is_abort_requested s) @ [Log OS_LOG_WARN ''OTA cancellation requested, aborting operation''])
      else (T_Perform h last_progress, s, snd (is_abort_requested s)))"
| "ota_task_step a (T_Perform h last_progress) s =
     (case a_perform a of
        InProgress n \<Rightarrow>
          let s1 = s\<lparr>o_bytes := n\<rparr>; delay = Ext (ODelay OS_OTA_PROGRESS_DELAY_MS) in
          (case ota_percent 0 n of
             Some p \<Rightarrow>
               if p \<noteq> last_progress
               then (T_Update OS_OTA_STATE_DOWNLOADING (word_of_int p) [delay] (T_Check h p), s1, [Ext (OPerform h (a_perform a))])
               else (T_Check h last_progress, s1, [Ext (OPerform h (a_perform a)), delay])
           | None \<Rightarrow>
               let d = o_dot_count s + 1 in
               (T_Check h last_progress, s1\<lparr>o_dot_count := d\<rparr>,
                [Ext (OPerform h (a_perform a))] @ (if d mod 50 = 0 then [Log OS_LOG_INFO ''Downloaded %zu bytes...''] else []) @ [delay]))
      | Performed \<Rightarrow> (T_Update OS_OTA_STATE_VERIFYING 100 [] (T_Finish h), s, [Ext (OPerform h (a_perform a))])
      | PerformFailed \<Rightarrow> (T_Error ''Download failed'' (T_Drop h (T_Cleanup None)), s, [Ext (OPerform h (a_perform a))]))"
| "ota_task_step a (T_Drop h next) s = (next, s, [Ext (OAbort h)])"
| "ota_task_step a (T_ClearError next) s = (next, s\<lparr>o_error := []\<rparr>, [Take, Give])"
| "ota_task_step a (T_Finish h) s =
     (let sha = (case oc_expected_sha256 (o_config s) of None \<Rightarrow> [] | Some x \<Rightarrow>
            if x \<noteq> [] then [Log OS_LOG_WARN ''SHA256 verification requested but using built-in checks''] else [])
      in (if a_finish a then T_Update OS_OTA_STATE_APPLYING 100 [] T_Partition
          else T_Error ''OTA verification failed'' (T_Cleanup None), s, sha @ [Ext (OFinish h (a_finish a))]))"
| "ota_task_step a T_Partition s =
     (T_Update OS_OTA_STATE_REBOOTING 100 [] T_Reboot, s, [Log OS_LOG_INFO ''Next boot partition: %s''])"
| "ota_task_step a T_Reboot s =
     (T_Restarted, s, [Log OS_LOG_INFO ''OTA complete, rebooting...'', Ext (ODelay 2000), Ext ORestart])"
| "ota_task_step a (T_Cleanup h) s =
     (T_Dead, s\<lparr>o_abort_requested := False, o_task := None\<rparr>,
      (case h of None \<Rightarrow> [] | Some x \<Rightarrow> [Ext (OAbort x)]) @ [Take, Give, Ext (OTaskDelete None)])"
| "ota_task_step a T_Dead s = (T_Dead, s, [])"
| "ota_task_step a T_Restarted s = (T_Restarted, s, [])"

section \<open>Calls\<close>

text \<open>
  A partition is its address and its label; \<open>running\<close> and \<open>boot\<close> are what \<^verbatim>\<open>esp_ota_get_running_partition\<close>
  and \<^verbatim>\<open>esp_ota_get_boot_partition\<close> return, \<open>img\<close> is \<^verbatim>\<open>esp_ota_get_state_partition\<close>.
\<close>

datatype ota_img_state = ESP_OTA_IMG_PENDING_VERIFY | ESP_OTA_IMG_OTHER nat

type_synonym partition = "nat \<times> string"
type_synonym img_query = "partition option \<Rightarrow> esp_err \<times> ota_img_state"

definition os_ota_init ::
  "nat option \<Rightarrow> partition option \<Rightarrow> img_query \<Rightarrow> ota \<Rightarrow> esp_err \<times> ota \<times> ota_call eff list" where
  "os_ota_init lk running img s =
     (if o_initialized s then (ESP_OK, s, [])
      else
        case lk of
          None \<Rightarrow> (ESP_ERR_NO_MEM, s\<lparr>o_mutex := None\<rparr>, [Ext OMutexCreate, Log OS_LOG_ERROR ''Failed to create mutex''])
        | Some l \<Rightarrow>
            let pending = (case running of
                None \<Rightarrow> []
              | Some p \<Rightarrow>
                  Log OS_LOG_INFO ''Running partition: %s'' #
                  (let (r, st) = img running in
                   if r = ESP_OK \<and> st = ESP_OTA_IMG_PENDING_VERIFY
                   then [Log OS_LOG_WARN ''Firmware not confirmed! Needs confirmation before rollback timeout''] else []))
            in (ESP_OK, s\<lparr>o_mutex := Some l, o_initialized := True\<rparr>,
                [Ext OMutexCreate] @ pending @ [Log OS_LOG_INFO ''OTA initialized, running partition: %s'']))"

text \<open>\<open>task\<close> is the handle \<^verbatim>\<open>xTaskCreate\<close> stores, or its failure.\<close>

definition os_ota_start :: "nat option \<Rightarrow> os_ota_config option \<Rightarrow> ota \<Rightarrow> esp_err \<times> ota \<times> ota_call eff list" where
  "os_ota_start task config s =
     (case config of
        None \<Rightarrow> (ESP_ERR_INVALID_ARG, s, [])
      | Some c \<Rightarrow>
          if \<not> o_initialized s \<or> oc_url c = None then (ESP_ERR_INVALID_ARG, s, [])
          else if OS_OTA_URL_MAX_LEN \<le> length (the (oc_url c))
          then (ESP_ERR_INVALID_ARG, s, [Log OS_LOG_ERROR ''URL too long''])
          else if o_state s \<noteq> OS_OTA_STATE_IDLE \<and> o_state s \<noteq> OS_OTA_STATE_ERROR
          then (ESP_ERR_INVALID_STATE, s, [Take, Give, Log OS_LOG_ERROR ''OTA already in progress''])
          else
            let url = cstr OS_OTA_URL_MAX_LEN (the (oc_url c));
                s1 = s\<lparr>o_url_buffer := url, o_config := c\<lparr>oc_url := Some url\<rparr>, o_error := [], o_bytes := 0,
                  o_total := 0, o_abort_requested := False\<rparr>;
                create = Ext (OTaskCreate OS_OTA_TASK_STACK_SIZE OS_OTA_TASK_PRIORITY)
            in (case task of
                  None \<Rightarrow> (ESP_ERR_NO_MEM, s1, [Take, Give, create, Log OS_LOG_ERROR ''Failed to create OTA task''])
                | Some h \<Rightarrow> (ESP_OK, s1\<lparr>o_task := Some h\<rparr>,
                             [Take, Give, create, Log OS_LOG_INFO ''OTA started from: %s''])))"

definition os_ota_is_in_progress :: "ota \<Rightarrow> bool" where
  "os_ota_is_in_progress s \<longleftrightarrow>
     o_initialized s \<and> o_state s \<noteq> OS_OTA_STATE_IDLE \<and> o_state s \<noteq> OS_OTA_STATE_ERROR"

definition os_ota_get_state :: "ota \<Rightarrow> os_ota_state" where
  "os_ota_get_state s = (if \<not> o_initialized s then OS_OTA_STATE_IDLE else o_state s)"

primrec os_ota_get_state_str :: "os_ota_state \<Rightarrow> string" where
  "os_ota_get_state_str OS_OTA_STATE_IDLE = ''IDLE''"
| "os_ota_get_state_str OS_OTA_STATE_DOWNLOADING = ''DOWNLOADING''"
| "os_ota_get_state_str OS_OTA_STATE_VERIFYING = ''VERIFYING''"
| "os_ota_get_state_str OS_OTA_STATE_APPLYING = ''APPLYING''"
| "os_ota_get_state_str OS_OTA_STATE_REBOOTING = ''REBOOTING''"
| "os_ota_get_state_str OS_OTA_STATE_ROLLBACK = ''ROLLBACK''"
| "os_ota_get_state_str OS_OTA_STATE_ERROR = ''ERROR''"

definition os_ota_get_progress :: "ota \<Rightarrow> 8 word" where
  "os_ota_get_progress s = (if \<not> o_initialized s then 0 else o_progress s)"

record os_ota_info =
  oi_current_version :: string
  oi_new_version :: string
  oi_state :: os_ota_state
  oi_progress :: "8 word"
  oi_bytes_downloaded :: nat
  oi_total_size :: nat
  oi_error_message :: string
  oi_can_rollback :: bool
  oi_rollback_confirmed :: bool

text \<open>\<open>None\<close>: nothing is written to the caller's structure.\<close>

definition os_ota_get_info ::
  "partition option \<Rightarrow> partition option \<Rightarrow> img_query \<Rightarrow> bool \<Rightarrow> ota \<Rightarrow> os_ota_info option \<times> ota_call eff list" where
  "os_ota_get_info boot running img info s =
     (if \<not> info \<or> \<not> o_initialized s then (None, [])
      else
        (Some \<lparr>oi_current_version = cstr 32 (case running of None \<Rightarrow> ''unknown'' | Some p \<Rightarrow> snd p),
           oi_new_version = [], oi_state = o_state s, oi_progress = o_progress s,
           oi_bytes_downloaded = o_bytes s, oi_total_size = o_total s, oi_error_message = cstr 128 (o_error s),
           oi_can_rollback = (boot \<noteq> None \<and> running \<noteq> None \<and> map_option fst boot \<noteq> map_option fst running),
           oi_rollback_confirmed =
             (if fst (img running) = ESP_OK then snd (img running) \<noteq> ESP_OTA_IMG_PENDING_VERIFY else True)\<rparr>,
         [Take, Give]))"

definition os_ota_set_progress_callback :: "nat option \<Rightarrow> nat \<Rightarrow> ota \<Rightarrow> ota \<times> ota_call eff list" where
  "os_ota_set_progress_callback cb user s =
     (s\<lparr>o_progress_cb := map_option (\<lambda>c. (c, user)) cb\<rparr>, [Take, Give])"

text \<open>\<open>mark\<close> is the result of \<^verbatim>\<open>esp_ota_mark_app_valid_cancel_rollback\<close>.\<close>

definition os_ota_confirm :: "partition option \<Rightarrow> img_query \<Rightarrow> esp_err \<Rightarrow> ota \<Rightarrow> esp_err \<times> ota_call eff list" where
  "os_ota_confirm running img mark s =
     (if \<not> o_initialized s then (ESP_ERR_INVALID_STATE, [])
      else
        case running of
          None \<Rightarrow> (ESP_ERR_NOT_FOUND, [])
        | Some p \<Rightarrow>
            let (ret, st) = img running in
            if ret \<noteq> ESP_OK then (ret, [])
            else if st = ESP_OTA_IMG_PENDING_VERIFY
            then (mark, Ext OMarkValid # (if mark = ESP_OK then [Log OS_LOG_INFO ''Firmware confirmed as valid''] else []))
            else (ESP_OK, []))"

text \<open>\<open>mark\<close> is the result of \<^verbatim>\<open>esp_ota_mark_app_invalid_rollback_and_reboot\<close>, which returns only on failure.\<close>

definition os_ota_rollback ::
  "partition option \<Rightarrow> partition option \<Rightarrow> esp_err \<Rightarrow> ota \<Rightarrow> esp_err \<times> ota_call eff list" where
  "os_ota_rollback boot running mark s =
     (if \<not> o_initialized s then (ESP_ERR_INVALID_STATE, [])
      else if boot = None \<or> running = None then (ESP_ERR_NOT_FOUND, [])
      else if map_option fst boot = map_option fst running
      then (ESP_ERR_INVALID_STATE, [Log OS_LOG_WARN ''No rollback partition available''])
      else (mark, Ext OMarkInvalid # (if mark \<noteq> ESP_OK then [Log OS_LOG_ERROR ''Rollback failed: %s''] else [])))"

definition os_ota_can_rollback :: "partition option \<Rightarrow> partition option \<Rightarrow> ota \<Rightarrow> bool" where
  "os_ota_can_rollback boot running s \<longleftrightarrow>
     o_initialized s \<and> boot \<noteq> None \<and> running \<noteq> None \<and> map_option fst boot \<noteq> map_option fst running"

definition os_ota_needs_confirmation :: "partition option \<Rightarrow> img_query \<Rightarrow> ota \<Rightarrow> bool" where
  "os_ota_needs_confirmation running img s \<longleftrightarrow>
     o_initialized s \<and> running \<noteq> None \<and> fst (img running) = ESP_OK \<and> snd (img running) = ESP_OTA_IMG_PENDING_VERIFY"

definition os_ota_get_running_partition :: "partition option \<Rightarrow> string" where
  "os_ota_get_running_partition running = (case running of None \<Rightarrow> ''unknown'' | Some p \<Rightarrow> snd p)"

definition os_ota_print_status ::
  "partition option \<Rightarrow> partition option \<Rightarrow> img_query \<Rightarrow> ota \<Rightarrow> ota_call eff list" where
  "os_ota_print_status boot running img s =
     (case os_ota_get_info boot running img True s of
        (None, tr) \<Rightarrow> []
      | (Some info, tr) \<Rightarrow>
          tr @ map (Log OS_LOG_INFO)
            ([''OTA Status:'', ''  State: %s'', ''  Progress: %d%%'', ''  Running partition: %s'', ''  Can rollback: %s'',
              ''  Needs confirmation: %s''] @
             (if oi_state info = OS_OTA_STATE_ERROR \<and> oi_error_message info \<noteq> [] then [''  Last error: %s''] else [])))"

section \<open>Aborting\<close>

text \<open>Where the caller of \<^verbatim>\<open>os_ota_abort\<close> stands; \<open>A_Poll i\<close> is the head of the loop.\<close>

datatype abort_pc = A_Start | A_Request | A_Poll nat | A_Force | A_Reset | A_Return | A_Deleted

primrec ota_abort_step :: "abort_pc \<Rightarrow> ota \<Rightarrow> abort_pc \<times> ota \<times> ota_call eff list" where
  "ota_abort_step A_Start s =
     (if \<not> o_initialized s \<or> o_task s = None then (A_Return, s, []) else (A_Request, s, []))"
| "ota_abort_step A_Request s = (A_Poll 0, s\<lparr>o_abort_requested := True\<rparr>, [Take, Give])"
| "ota_abort_step (A_Poll i) s =
     (if i < 50
      then (if o_task s = None then A_Reset else A_Poll (i + 1), s, [Ext (ODelay 100), Take, Give])
      else (A_Force, s, [Log OS_LOG_WARN ''OTA task did not stop cooperatively, forcing delete'']))"
| "ota_abort_step A_Force s =
     (if o_task s = None then (A_Deleted, s, [Ext (OTaskDelete None)])
      else (A_Reset, s\<lparr>o_task := None\<rparr>, [Ext (OTaskDelete (o_task s))]))"
| "ota_abort_step A_Reset s =
     (A_Return, s\<lparr>o_abort_requested := False, o_state := OS_OTA_STATE_IDLE, o_progress := 0\<rparr>,
      [Take, Give, Log OS_LOG_INFO ''OTA aborted''])"
| "ota_abort_step A_Return s = (A_Return, s, [])"
| "ota_abort_step A_Deleted s = (A_Deleted, s, [])"

text \<open>\<^verbatim>\<open>os_ota_deinit\<close> after its call of \<^verbatim>\<open>os_ota_abort\<close> has returned.\<close>

definition os_ota_deinit :: "ota \<Rightarrow> ota \<times> ota_call eff list" where
  "os_ota_deinit s =
     (if \<not> o_initialized s then (s, [])
      else (s\<lparr>o_mutex := None, o_initialized := False\<rparr>,
            (if o_mutex s \<noteq> None then [Ext OMutexDelete] else []) @ [Log OS_LOG_INFO ''OTA deinitialized'']))"

section \<open>Handles\<close>

text \<open>The open handles of the update client after some calls; \<open>None\<close> when one is used that is not open.\<close>

fun open_after :: "nat set \<Rightarrow> ota_call list \<Rightarrow> nat set option" where
  "open_after S [] = Some S"
| "open_after S (OBegin u t c (Some h) # cs) = (if h \<in> S then None else open_after (insert h S) cs)"
| "open_after S (OPerform h r # cs) = (if h \<in> S then open_after S cs else None)"
| "open_after S (OFinish h r # cs) = (if h \<in> S then open_after (S - {h}) cs else None)"
| "open_after S (OAbort h # cs) = (if h \<in> S then open_after (S - {h}) cs else None)"
| "open_after S (_ # cs) = open_after S cs"

text \<open>The handle a task holds, and the shape of the counters that occur.\<close>

primrec ota_holds :: "ota_pc \<Rightarrow> nat set" where
  "ota_holds T_Start = {}"
| "ota_holds (T_Update st p after next) = ota_holds next"
| "ota_holds (T_Error msg next) = ota_holds next"
| "ota_holds T_Begin = {}"
| "ota_holds (T_Check h l) = {h}"
| "ota_holds (T_Perform h l) = {h}"
| "ota_holds (T_Drop h next) = {h}"
| "ota_holds (T_ClearError next) = ota_holds next"
| "ota_holds (T_Finish h) = {h}"
| "ota_holds T_Partition = {}"
| "ota_holds T_Reboot = {}"
| "ota_holds (T_Cleanup h) = set_option h"
| "ota_holds T_Dead = {}"
| "ota_holds T_Restarted = {}"

primrec pc_ok :: "ota_pc \<Rightarrow> bool" where
  "pc_ok T_Start \<longleftrightarrow> True"
| "pc_ok (T_Update st p after next) \<longleftrightarrow> set (ext_calls after) \<subseteq> range ODelay \<and> pc_ok next"
| "pc_ok (T_Error msg next) \<longleftrightarrow> pc_ok next"
| "pc_ok T_Begin \<longleftrightarrow> True"
| "pc_ok (T_Check h l) \<longleftrightarrow> True"
| "pc_ok (T_Perform h l) \<longleftrightarrow> True"
| "pc_ok (T_Drop h next) \<longleftrightarrow> ota_holds next = {} \<and> pc_ok next"
| "pc_ok (T_ClearError next) \<longleftrightarrow> pc_ok next"
| "pc_ok (T_Finish h) \<longleftrightarrow> True"
| "pc_ok T_Partition \<longleftrightarrow> True"
| "pc_ok T_Reboot \<longleftrightarrow> True"
| "pc_ok (T_Cleanup h) \<longleftrightarrow> True"
| "pc_ok T_Dead \<longleftrightarrow> True"
| "pc_ok T_Restarted \<longleftrightarrow> True"

text \<open>Past the check of the image, and about to check it.\<close>

primrec ota_past :: "ota_pc \<Rightarrow> bool" where
  "ota_past T_Start \<longleftrightarrow> False"
| "ota_past (T_Update st p after next) \<longleftrightarrow> ota_past next"
| "ota_past (T_Error msg next) \<longleftrightarrow> ota_past next"
| "ota_past T_Begin \<longleftrightarrow> False"
| "ota_past (T_Check h l) \<longleftrightarrow> False"
| "ota_past (T_Perform h l) \<longleftrightarrow> False"
| "ota_past (T_Drop h next) \<longleftrightarrow> ota_past next"
| "ota_past (T_ClearError next) \<longleftrightarrow> ota_past next"
| "ota_past (T_Finish h) \<longleftrightarrow> False"
| "ota_past T_Partition \<longleftrightarrow> True"
| "ota_past T_Reboot \<longleftrightarrow> True"
| "ota_past (T_Cleanup h) \<longleftrightarrow> False"
| "ota_past T_Dead \<longleftrightarrow> False"
| "ota_past T_Restarted \<longleftrightarrow> True"

primrec ota_finishing :: "ota_pc \<Rightarrow> nat option" where
  "ota_finishing T_Start = None"
| "ota_finishing (T_Update st p after next) = ota_finishing next"
| "ota_finishing (T_Error msg next) = ota_finishing next"
| "ota_finishing T_Begin = None"
| "ota_finishing (T_Check h l) = None"
| "ota_finishing (T_Perform h l) = None"
| "ota_finishing (T_Drop h next) = ota_finishing next"
| "ota_finishing (T_ClearError next) = ota_finishing next"
| "ota_finishing (T_Finish h) = Some h"
| "ota_finishing T_Partition = None"
| "ota_finishing T_Reboot = None"
| "ota_finishing (T_Cleanup h) = None"
| "ota_finishing T_Dead = None"
| "ota_finishing T_Restarted = None"

lemma open_after_append: "open_after S (a @ b) = Option.bind (open_after S a) (\<lambda>S'. open_after S' b)"
  by (induction S a rule: open_after.induct) simp_all

lemma open_after_delays: "set cs \<subseteq> range ODelay \<Longrightarrow> open_after S cs = Some S"
  by (induction cs) auto

lemma update_state_calls:
  "ext_calls (snd (update_state st p s)) = (case o_progress_cb s of None \<Rightarrow> []
     | Some (cb, user) \<Rightarrow> [OCallback cb st p (o_bytes s) (o_total s) user])"
  by (auto simp: update_state_def split: option.split)

lemma ota_step_pc_ok: "pc_ok pc \<Longrightarrow> pc_ok (fst (ota_task_step a pc s))"
  by (cases pc) (auto simp: ota_percent_def Let_def split: perform_ret.split option.split prod.split)

lemma ota_step_open:
  assumes "pc_ok pc" and "ota_task_step a pc s = (pc', s', tr)" and "ota_holds pc \<inter> S = {}"
    and "\<And>h. a_begin a = Some h \<Longrightarrow> h \<notin> S \<union> ota_holds pc"
  shows "open_after (S \<union> ota_holds pc) (ext_calls tr) = Some (S \<union> ota_holds pc') \<and> ota_holds pc' \<inter> S = {}"
proof (cases pc)
  case (T_Update st p after nxt)
  have e: "tr = snd (update_state st p s) @ after" "pc' = nxt"
    using assms(2) T_Update by (auto simp: split_beta Let_def)
  have "open_after R (ext_calls (snd (update_state st p s))) = Some R" for R
    by (auto simp: update_state_calls split: option.split)
  then show ?thesis using assms(1,3) T_Update e by (simp add: open_after_append open_after_delays)
next
  case T_Begin
  then show ?thesis using assms(2,3) assms(4) by (auto split: option.splits simp: Let_def)
next
  case (T_Perform h l)
  then show ?thesis using assms(2,3) by (auto simp: ota_percent_def Let_def split: perform_ret.splits)
next
  case (T_Finish h)
  then show ?thesis using assms(2,3) by (auto simp: Let_def split: option.splits if_splits)
next
  case (T_Drop h nxt)
  then show ?thesis using assms(1-3) by auto
next
  case (T_Cleanup h)
  then show ?thesis using assms(2,3) by (cases h) auto
qed (use assms(2,3) in \<open>auto split: if_splits\<close>)

lemma ota_step_past:
  assumes "pc_ok pc" and "ota_task_step a pc s = (pc', s', tr)"
  shows "(ota_past pc' \<longrightarrow> ota_past pc \<or> (\<exists>h. ota_finishing pc = Some h \<and> OFinish h True \<in> set (ext_calls tr))) \<and>
    (\<forall>h. ota_finishing pc' = Some h \<longrightarrow> ota_finishing pc = Some h \<or> OPerform h Performed \<in> set (ext_calls tr)) \<and>
    (ORestart \<in> set (ext_calls tr) \<longrightarrow> ota_past pc \<and> (\<forall>h b. OFinish h b \<notin> set (ext_calls tr)))"
proof (cases pc)
  case (T_Update st p after nxt)
  have "tr = snd (update_state st p s) @ after" "pc' = nxt"
    using assms(2) T_Update by (auto simp: split_beta Let_def)
  moreover have "ORestart \<notin> set (ext_calls after)" using assms(1) T_Update by auto
  ultimately show ?thesis using T_Update by (auto simp: update_state_calls split: option.splits)
next
  case (T_Perform h l)
  then show ?thesis using assms(2) by (auto simp: ota_percent_def Let_def split: perform_ret.splits if_splits)
next
  case (T_Finish h)
  then show ?thesis using assms(2) by (auto simp: Let_def split: option.splits if_splits)
qed (use assms(2) in \<open>auto simp: Let_def split: if_splits option.splits\<close>)

section \<open>Callers and tasks together\<close>

text \<open>\<open>w_tasks\<close> are the live tasks, \<open>w_caller\<close> a caller of \<^verbatim>\<open>os_ota_abort\<close>, \<open>w_calls\<close> all calls so far.\<close>

record ota_world =
  w_ota :: ota
  w_tasks :: "nat \<Rightarrow> ota_pc option"
  w_caller :: abort_pc
  w_calls :: "ota_call list"

definition ota_start_world :: "ota \<Rightarrow> ota_world" where
  "ota_start_world s = \<lparr>w_ota = s, w_tasks = (\<lambda>_. None), w_caller = A_Return, w_calls = []\<rparr>"

text \<open>
  A new handle of the client is none that is open, a new task none that lives; \<open>forced\<close> says whether
  a caller may reach the forced deletion.
\<close>

inductive ostep :: "bool \<Rightarrow> ota_world \<Rightarrow> ota_world \<Rightarrow> bool" for forced :: bool where
  task: "w_tasks w t = Some pc \<Longrightarrow> open_after {} (w_calls w) = Some S \<Longrightarrow> (\<And>h. a_begin a = Some h \<Longrightarrow> h \<notin> S) \<Longrightarrow>
    ota_task_step a pc (w_ota w) = (pc', s', tr) \<Longrightarrow>
    ostep forced w (w\<lparr>w_ota := s', w_tasks := (w_tasks w)(t := (if pc' = T_Dead then None else Some pc')),
      w_calls := w_calls w @ ext_calls tr\<rparr>)"
| start: "(\<And>h. new = Some h \<Longrightarrow> w_tasks w h = None) \<Longrightarrow> os_ota_start new c (w_ota w) = (r, s', tr) \<Longrightarrow>
    ostep forced w (w\<lparr>w_ota := s', w_calls := w_calls w @ ext_calls tr, w_tasks :=
        (case new of None \<Rightarrow> w_tasks w | Some h \<Rightarrow> if r = ESP_OK then (w_tasks w)(h := Some T_Start) else w_tasks w)\<rparr>)"
| call_abort: "w_caller w = A_Return \<Longrightarrow> ostep forced w (w\<lparr>w_caller := A_Start\<rparr>)"
| abort: "forced \<or> w_caller w \<noteq> A_Force \<Longrightarrow> ota_abort_step (w_caller w) (w_ota w) = (apc, s', tr) \<Longrightarrow>
    ostep forced w (w\<lparr>w_ota := s', w_caller := apc, w_calls := w_calls w @ ext_calls tr, w_tasks :=
        (if w_caller w = A_Force then (case o_task (w_ota w) of None \<Rightarrow> w_tasks w | Some t \<Rightarrow> (w_tasks w)(t := None))
         else w_tasks w)\<rparr>)"

inductive_cases ostepE: "ostep forced w w'"

definition held :: "ota_world \<Rightarrow> nat set" where
  "held w = (\<Union>t. case w_tasks w t of None \<Rightarrow> {} | Some pc \<Rightarrow> ota_holds pc)"

definition ota_inv :: "bool \<Rightarrow> ota_world \<Rightarrow> bool" where
  "ota_inv forced w \<longleftrightarrow>
     (\<forall>t pc. w_tasks w t = Some pc \<longrightarrow> pc_ok pc) \<and>
     (\<forall>t u pc pc'. w_tasks w t = Some pc \<and> w_tasks w u = Some pc' \<and> t \<noteq> u \<longrightarrow> ota_holds pc \<inter> ota_holds pc' = {}) \<and>
     (\<exists>S. open_after {} (w_calls w) = Some S \<and> held w \<subseteq> S \<and> (forced \<or> S = held w))"

text \<open>What changing the counter of one task does to the handles held.\<close>

lemma held_update:
  "held (w\<lparr>w_tasks := (w_tasks w)(t := x)\<rparr>) =
   (\<Union>u \<in> - {t}. case w_tasks w u of None \<Rightarrow> {} | Some pc \<Rightarrow> ota_holds pc) \<union>
   (case x of None \<Rightarrow> {} | Some pc \<Rightarrow> ota_holds pc)"
  by (auto simp: held_def split: if_splits)

lemma held_split:
  "w_tasks w t = Some pc \<Longrightarrow>
   held w = (\<Union>u \<in> - {t}. case w_tasks w u of None \<Rightarrow> {} | Some pc \<Rightarrow> ota_holds pc) \<union> ota_holds pc"
proof -
  assume t: "w_tasks w t = Some pc"
  have "(UNIV :: nat set) = insert t (- {t})" by auto
  then have "held w = (\<Union>u \<in> insert t (- {t}). case w_tasks w u of None \<Rightarrow> {} | Some pc \<Rightarrow> ota_holds pc)"
    unfolding held_def by simp
  then show ?thesis using t by (simp add: Un_commute)
qed

lemma ota_inv_task:
  assumes "ota_inv forced w" and "w_tasks w t = Some pc" and "open_after {} (w_calls w) = Some S"
    and "\<And>h. a_begin a = Some h \<Longrightarrow> h \<notin> S" and "ota_task_step a pc (w_ota w) = (pc', s', tr)"
    and "w' = w\<lparr>w_ota := s', w_tasks := (w_tasks w)(t := (if pc' = T_Dead then None else Some pc')),
      w_calls := w_calls w @ ext_calls tr\<rparr>"
  shows "ota_inv forced w'"
proof -
  let ?H = "\<Union>u \<in> - {t}. case w_tasks w u of None \<Rightarrow> {} | Some pc \<Rightarrow> ota_holds pc"
  have ok: "pc_ok pc" and sub: "held w \<subseteq> S" and eq: "forced \<or> S = held w"
    using assms(1-3) by (auto simp: ota_inv_def)
  have disj: "x \<in> ota_holds q \<Longrightarrow> w_tasks w u = Some q \<Longrightarrow> w_tasks w v = Some r \<Longrightarrow> u \<noteq> v \<Longrightarrow> x \<notin> ota_holds r"
    for x u v q r
    using assms(1) unfolding ota_inv_def by blast
  have dis: "ota_holds pc \<inter> ?H = {}" by (auto split: option.splits dest: disj [OF _ assms(2)])
  have h: "held w = ?H \<union> ota_holds pc" by (rule held_split [OF assms(2)])
  let ?R = "S - ota_holds pc"
  have S: "S = ?R \<union> ota_holds pc" using sub h by auto
  have step: "open_after (?R \<union> ota_holds pc) (ext_calls tr) = Some (?R \<union> ota_holds pc') \<and> ota_holds pc' \<inter> ?R = {}"
    by (rule ota_step_open [OF ok assms(5)]) (use assms(4) S in auto)
  have holds': "(case (if pc' = T_Dead then None else Some pc') of None \<Rightarrow> {} | Some pc \<Rightarrow> ota_holds pc) = ota_holds pc'"
    by auto
  have held': "held w' = ?H \<union> ota_holds pc'"
    using held_update [of w t "if pc' = T_Dead then None else Some pc'"] holds' by (simp add: held_def assms(6))
  have "open_after {} (w_calls w') = Some (?R \<union> ota_holds pc')"
    using assms(3) step S by (simp add: assms(6) open_after_append)
  have "?H \<subseteq> ?R" using sub h dis by auto
  have "forced \<or> ?R = ?H" using eq h dis by auto
  have "pc_ok pc'" using ota_step_pc_ok [OF ok, of a "w_ota w"] assms(5) by simp
  have "ota_holds pc' \<inter> ?H = {}" using step \<open>?H \<subseteq> ?R\<close> by auto
  then have new: "x \<in> ota_holds pc' \<Longrightarrow> w_tasks w u = Some q \<Longrightarrow> u \<noteq> t \<Longrightarrow> x \<notin> ota_holds q" for x u q
    by (force simp: disjoint_iff)
  have w': "w_tasks w' u = (if u = t then (if pc' = T_Dead then None else Some pc') else w_tasks w u)" for u
    by (simp add: assms(6))
  have B: "ota_holds q \<inter> ota_holds r = {}" if "w_tasks w' u = Some q" "w_tasks w' v = Some r" "u \<noteq> v" for u v q r
  proof (cases "u = t \<or> v = t")
    case True
    with that new show ?thesis by (auto simp: w' disjoint_iff split: if_splits)
  next
    case False
    with that disj [of _ q u v r] show ?thesis by (auto simp: w')
  qed
  have A: "pc_ok q" if "w_tasks w' u = Some q" for u q
    using assms(1) \<open>pc_ok pc'\<close> that unfolding ota_inv_def by (auto simp: w' split: if_splits)
  have C: "held w' \<subseteq> ?R \<union> ota_holds pc'" "forced \<or> ?R \<union> ota_holds pc' = held w'"
    using held' \<open>?H \<subseteq> ?R\<close> \<open>forced \<or> ?R = ?H\<close> by auto
  show ?thesis
    unfolding ota_inv_def using A B C \<open>open_after {} (w_calls w') = _\<close> by blast
qed

text \<open>Calls that touch no handle.\<close>

fun no_handle :: "ota_call \<Rightarrow> bool" where
  "no_handle (ODelay n) \<longleftrightarrow> True"
| "no_handle (OTaskCreate n p) \<longleftrightarrow> True"
| "no_handle (OTaskDelete t) \<longleftrightarrow> True"
| "no_handle _ \<longleftrightarrow> False"

lemma open_after_no_handle: "list_all no_handle cs \<Longrightarrow> open_after S cs = Some S"
  by (induction S cs rule: open_after.induct) auto

lemma ota_inv_same_tasks:
  assumes "ota_inv forced w" and "list_all no_handle cs"
  shows "ota_inv forced (w\<lparr>w_ota := s', w_caller := apc, w_calls := w_calls w @ cs\<rparr>)"
  using assms by (simp add: ota_inv_def held_def open_after_append open_after_no_handle)

text \<open>Adding a task that holds nothing, and removing a task when deletion is forced.\<close>

lemma held_mono: "(\<And>u q. w_tasks w u = Some q \<Longrightarrow> ota_holds q \<noteq> {} \<Longrightarrow> w_tasks w' u = Some q) \<Longrightarrow> held w \<subseteq> held w'"
  unfolding held_def by (force split: option.splits)

lemma ota_inv_new_task:
  assumes "ota_inv forced w" and "w_tasks w t = None"
  shows "ota_inv forced (w\<lparr>w_tasks := (w_tasks w)(t \<mapsto> T_Start)\<rparr>)"
proof -
  have "held (w\<lparr>w_tasks := (w_tasks w)(t \<mapsto> T_Start)\<rparr>) = held w"
    by (rule equalityI; rule held_mono) (use assms(2) in \<open>auto split: if_splits\<close>)
  with assms(1) show ?thesis by (auto simp: ota_inv_def split: if_splits)
qed

lemma ota_inv_del_task:
  assumes "ota_inv True w"
  shows "ota_inv True (w\<lparr>w_tasks := (w_tasks w)(t := None)\<rparr>)"
proof -
  have "held (w\<lparr>w_tasks := (w_tasks w)(t := None)\<rparr>) \<subseteq> held w"
    by (rule held_mono) (auto split: if_splits)
  with assms show ?thesis by (auto simp: ota_inv_def split: if_splits)
qed

lemma os_ota_start_calls: "os_ota_start new c s = (r, s', tr) \<Longrightarrow> list_all no_handle (ext_calls tr)"
  by (auto simp: os_ota_start_def Let_def split: option.splits if_splits)

lemma ota_abort_calls: "ota_abort_step apc s = (apc', s', tr) \<Longrightarrow> list_all no_handle (ext_calls tr)"
  by (cases apc) (auto split: if_splits)

lemma ostep_inv: "ostep forced w w' \<Longrightarrow> ota_inv forced w \<Longrightarrow> ota_inv forced w'"
proof (induction rule: ostep.induct)
  case (task w t pc S a pc' s' tr)
  then show ?case by (intro ota_inv_task [OF task.prems task.hyps(1,2) _ task.hyps(4)]) auto
next
  case (start new w c r s' tr)
  let ?w = "w\<lparr>w_ota := s', w_calls := w_calls w @ ext_calls tr\<rparr>"
  have i: "ota_inv forced ?w"
    using ota_inv_same_tasks [OF start.prems os_ota_start_calls [OF start.hyps(2)], where s' = s' and apc = "w_caller w"] by simp
  show ?case
  proof (cases new)
    case (Some h)
    with start.hyps(1) have "w_tasks ?w h = None" by simp
    from ota_inv_new_task [OF i this] i Some show ?thesis by auto
  qed (use i in simp)
next
  case (call_abort w)
  then show ?case using ota_inv_same_tasks [OF call_abort.prems, where cs = "[]" and s' = "w_ota w" and apc = A_Start] by simp
next
  case (abort w apc s' tr)
  let ?w = "w\<lparr>w_ota := s', w_caller := apc, w_calls := w_calls w @ ext_calls tr\<rparr>"
  have i: "ota_inv forced ?w" by (rule ota_inv_same_tasks [OF abort.prems ota_abort_calls [OF abort.hyps(2)]])
  show ?case
  proof (cases "w_caller w = A_Force \<and> o_task (w_ota w) \<noteq> None")
    case True
    then obtain t where t: "o_task (w_ota w) = Some t" "w_caller w = A_Force" by auto
    then have forced using abort.hyps(1) by simp
    with i have "ota_inv True ?w" by simp
    from ota_inv_del_task [OF this, of t] \<open>forced\<close> t show ?thesis by simp
  next
    case False
    with i show ?thesis by (cases "w_caller w = A_Force") auto
  qed
qed

lemma ota_start_inv: "ota_inv forced (ota_start_world s)"
  by (simp add: ota_inv_def ota_start_world_def held_def)

lemma ota_reach_inv:
  assumes "(ostep forced)\<^sup>*\<^sup>* (ota_start_world s) w"
  shows "ota_inv forced w"
  using assms by (induction rule: rtranclp_induct) (auto intro: ota_start_inv ostep_inv)

text \<open>Claim C29: however starts, aborts and update tasks interleave, the update client's handles are used only
  between the call that opens them and the one call that closes them (finish or abort), never twice.  Unless a
  caller deletes the task by force, the open handles are exactly those of live tasks, so none is left open when
  the tasks have ended.\<close>

theorem ota_handles_released:
  assumes "(ostep forced)\<^sup>*\<^sup>* (ota_start_world s) w"
  shows "open_after {} (w_calls w) \<noteq> None \<and>
    (\<not> forced \<longrightarrow> (\<forall>t. w_tasks w t = None) \<longrightarrow> open_after {} (w_calls w) = Some {})"
proof -
  from ota_reach_inv [OF assms] obtain S where S: "open_after {} (w_calls w) = Some S" "forced \<or> S = held w"
    unfolding ota_inv_def by blast
  then show ?thesis by (auto simp: held_def)
qed

text \<open>The order of the calls: a restart comes after a completed download and a successful check.\<close>

definition ota_order :: "ota_world \<Rightarrow> bool" where
  "ota_order w \<longleftrightarrow>
     (\<forall>t pc. w_tasks w t = Some pc \<longrightarrow> pc_ok pc \<and>
        (\<forall>h. ota_finishing pc = Some h \<longrightarrow> OPerform h Performed \<in> set (w_calls w)) \<and>
        (ota_past pc \<longrightarrow> (\<exists>h. OPerform h Performed \<in> set (w_calls w) \<and> OFinish h True \<in> set (w_calls w)))) \<and>
     (\<forall>pre post. w_calls w = pre @ ORestart # post \<longrightarrow>
        (\<exists>h. OPerform h Performed \<in> set pre \<and> OFinish h True \<in> set pre))"

lemma split_at_append:
  "xs @ ys = pre @ x # post \<Longrightarrow>
   (\<exists>post'. xs = pre @ x # post') \<or> (x \<in> set ys \<and> (\<exists>pre'. pre = xs @ pre'))"
  by (auto simp: append_eq_append_conv2 append_eq_Cons_conv)

lemma ota_order_calls:
  assumes "\<forall>pre post. cs = pre @ ORestart # post \<longrightarrow> (\<exists>h. OPerform h Performed \<in> set pre \<and> OFinish h True \<in> set pre)"
    and "ORestart \<in> set ds \<Longrightarrow> \<exists>h. OPerform h Performed \<in> set cs \<and> OFinish h True \<in> set cs"
    and "cs @ ds = pre @ ORestart # post"
  shows "\<exists>h. OPerform h Performed \<in> set pre \<and> OFinish h True \<in> set pre"
  using split_at_append [OF assms(3)] assms(1,2) by (metis Un_iff set_append)

lemma no_handle_restart: "list_all no_handle cs \<Longrightarrow> ORestart \<notin> set cs"
  by (auto simp: list_all_iff)

lemma ota_order_step: "ostep forced w w' \<Longrightarrow> ota_order w \<Longrightarrow> ota_order w'"
proof (induction rule: ostep.induct)
  case (task w t pc S a pc' s' tr)
  from task.prems task.hyps(1) have pc: "pc_ok pc"
    "\<And>h. ota_finishing pc = Some h \<Longrightarrow> OPerform h Performed \<in> set (w_calls w)"
    "ota_past pc \<Longrightarrow> \<exists>h. OPerform h Performed \<in> set (w_calls w) \<and> OFinish h True \<in> set (w_calls w)"
    unfolding ota_order_def by blast+
  note past = ota_step_past [OF pc(1) task.hyps(4)]
  have new: "pc_ok pc'" using ota_step_pc_ok [OF pc(1), of a "w_ota w"] task.hyps(4) by simp
  have fin: "OPerform h Performed \<in> set (w_calls w @ ext_calls tr)" if "ota_finishing pc' = Some h" for h
    using that past pc(2) by auto
  have over: "\<exists>h. OPerform h Performed \<in> set (w_calls w @ ext_calls tr) \<and> OFinish h True \<in> set (w_calls w @ ext_calls tr)"
    if "ota_past pc'"
    using that past pc(2,3) by auto
  have rest: "\<exists>h. OPerform h Performed \<in> set pre \<and> OFinish h True \<in> set pre"
    if "w_calls w @ ext_calls tr = pre @ ORestart # post" for pre post
    by (rule ota_order_calls [OF _ _ that]) (use task.prems past pc(3) in \<open>auto simp: ota_order_def\<close>)
  from task.prems new fin over rest show ?case
    unfolding ota_order_def by (auto split: if_splits) blast+
next
  case (start new w c r s' tr)
  have "\<exists>h. OPerform h Performed \<in> set pre \<and> OFinish h True \<in> set pre"
    if "w_calls w @ ext_calls tr = pre @ ORestart # post" for pre post
    by (rule ota_order_calls [OF _ _ that])
      (use start.prems no_handle_restart [OF os_ota_start_calls [OF start.hyps(2)]] in \<open>auto simp: ota_order_def\<close>)
  with start.prems show ?case unfolding ota_order_def by (auto split: option.splits if_splits) blast+
next
  case (call_abort w)
  then show ?case by (simp add: ota_order_def)
next
  case (abort w apc s' tr)
  have "\<exists>h. OPerform h Performed \<in> set pre \<and> OFinish h True \<in> set pre"
    if "w_calls w @ ext_calls tr = pre @ ORestart # post" for pre post
    by (rule ota_order_calls [OF _ _ that])
      (use abort.prems no_handle_restart [OF ota_abort_calls [OF abort.hyps(2)]] in \<open>auto simp: ota_order_def\<close>)
  with abort.prems show ?case unfolding ota_order_def by (auto split: option.splits if_splits) blast+
qed

text \<open>Claim C15: the device restarts into a new image only after the client has reported a complete download
  and then a successful check of the same image.\<close>

theorem ota_restart_verified:
  assumes "(ostep forced)\<^sup>*\<^sup>* (ota_start_world s) w" and "w_calls w = pre @ ORestart # post"
  shows "\<exists>h. OPerform h Performed \<in> set pre \<and> OFinish h True \<in> set pre"
proof -
  have "ota_order (ota_start_world s)" by (simp add: ota_order_def ota_start_world_def)
  with assms(1) have "ota_order w" by (induction rule: rtranclp_induct) (blast intro: ota_order_step)+
  with assms(2) show ?thesis unfolding ota_order_def by blast
qed

section \<open>Ending the task\<close>

text \<open>The steps a task still takes when an abort is requested.\<close>

primrec ota_rank :: "ota_pc \<Rightarrow> nat" where
  "ota_rank T_Start = 3"
| "ota_rank (T_Update st p after next) = Suc (ota_rank next)"
| "ota_rank (T_Error msg next) = ota_rank next + 2"
| "ota_rank T_Begin = 6"
| "ota_rank (T_Check h l) = 5"
| "ota_rank (T_Perform h l) = 7"
| "ota_rank (T_Drop h next) = Suc (ota_rank next)"
| "ota_rank (T_ClearError next) = Suc (ota_rank next)"
| "ota_rank (T_Finish h) = 5"
| "ota_rank T_Partition = 3"
| "ota_rank T_Reboot = 1"
| "ota_rank (T_Cleanup h) = 1"
| "ota_rank T_Dead = 0"
| "ota_rank T_Restarted = 0"

primrec ota_task_run :: "ota_answer list \<Rightarrow> ota_pc \<Rightarrow> ota \<Rightarrow> ota_pc \<times> ota \<times> ota_call list" where
  "ota_task_run [] pc s = (pc, s, [])"
| "ota_task_run (a # as) pc s =
     (let (pc1, s1, tr) = ota_task_step a pc s; (pc2, s2, calls) = ota_task_run as pc1 s1
      in (pc2, s2, ext_calls tr @ calls))"

lemma update_state_fields:
  "fst (update_state st p s) = s\<lparr>o_state := st, o_progress := p\<rparr>"
  by (simp add: update_state_def)

lemma ota_rank_step:
  assumes "o_abort_requested s" and "pc \<noteq> T_Dead" and "pc \<noteq> T_Restarted"
    and "ota_task_step a pc s = (pc', s', tr)"
  shows "ota_rank pc' < ota_rank pc \<and> (o_abort_requested s' \<or> pc' = T_Dead)"
proof (cases pc)
  case (T_Update st p after nxt)
  then have "s' = fst (update_state st p s)" "pc' = nxt" using assms(4) by (auto simp: split_beta Let_def)
  then show ?thesis using T_Update assms(1) by (simp add: update_state_fields)
next
  case (T_Perform h l)
  then show ?thesis using assms(1,4) by (auto simp: ota_percent_def Let_def split: perform_ret.splits)
qed (use assms in \<open>auto simp: Let_def split: if_splits option.splits\<close>)

lemma ota_ended_run: "pc = T_Dead \<or> pc = T_Restarted \<Longrightarrow> ota_task_run as pc s = (pc, s, [])"
  by (induction as) auto

lemma ota_run_ends:
  "o_abort_requested s \<Longrightarrow> ota_rank pc \<le> length as \<Longrightarrow> fst (ota_task_run as pc s) \<in> {T_Dead, T_Restarted}"
proof (induction as arbitrary: pc s)
  case Nil
  then show ?case by (cases pc) auto
next
  case (Cons a as)
  show ?case
  proof (cases "pc = T_Dead \<or> pc = T_Restarted")
    case True
    then show ?thesis using ota_ended_run [OF True, of "a # as" s] by auto
  next
    case False
    obtain pc1 s1 tr where st: "ota_task_step a pc s = (pc1, s1, tr)" by (cases "ota_task_step a pc s")
    with ota_rank_step [OF Cons.prems(1)] False
    have r: "ota_rank pc1 < ota_rank pc" "o_abort_requested s1 \<or> pc1 = T_Dead" by blast+
    have "fst (ota_task_run as pc1 s1) \<in> {T_Dead, T_Restarted}"
    proof (cases "pc1 = T_Dead")
      case True
      then show ?thesis using ota_ended_run [of pc1 as s1] by simp
    next
      case False
      then show ?thesis using Cons.IH [of s1 pc1] Cons.prems(2) r by simp
    qed
    then show ?thesis using st by (simp add: split_beta)
  qed
qed

text \<open>The calls that are not the progress callback.\<close>

definition not_callback :: "ota_call \<Rightarrow> bool" where
  "not_callback c = (case c of OCallback cb st p b t u \<Rightarrow> False | _ \<Rightarrow> True)"

text \<open>Claim C36: an abort that is requested ends the task: from any point it takes at most \<open>ota_rank\<close> more steps
  of its own (7 or fewer at the points of the code) whatever the client answers, and from the head of the
  download loop exactly these: it closes its handle, clears the error, sets the state to idle, clears the
  request and its task handle, and deletes itself.\<close>

theorem ota_abort_ends_task:
  assumes "o_abort_requested s"
  shows "(ota_rank pc \<le> length as \<longrightarrow> fst (ota_task_run as pc s) \<in> {T_Dead, T_Restarted}) \<and>
    (5 \<le> length as \<longrightarrow> (\<exists>s' calls. ota_task_run as (T_Check h l) s = (T_Dead, s', calls) \<and>
      o_state s' = OS_OTA_STATE_IDLE \<and> o_progress s' = 0 \<and> o_error s' = [] \<and> \<not> o_abort_requested s' \<and> o_task s' = None \<and>
      filter not_callback calls = [OAbort h, OTaskDelete None]))"
proof (intro conjI impI)
  show "ota_rank pc \<le> length as \<Longrightarrow> fst (ota_task_run as pc s) \<in> {T_Dead, T_Restarted}"
    by (rule ota_run_ends [OF assms])
  assume "5 \<le> length as"
  then obtain a b c d e r where as: "as = a # b # c # d # e # r"
    by (auto simp: Suc_le_length_iff numeral_eq_Suc)
  have "filter not_callback (ext_calls (snd (update_state st p s1))) = []" for st p s1
    by (auto simp: update_state_calls not_callback_def split: option.split)
  then show "\<exists>s' calls. ota_task_run as (T_Check h l) s = (T_Dead, s', calls) \<and>
      o_state s' = OS_OTA_STATE_IDLE \<and> o_progress s' = 0 \<and> o_error s' = [] \<and> \<not> o_abort_requested s' \<and> o_task s' = None \<and>
      filter not_callback calls = [OAbort h, OTaskDelete None]"
    using assms ota_ended_run [of T_Dead r]
    by (simp add: as split_beta Let_def update_state_fields not_callback_def)
qed

text \<open>Starting does not mark the update as running (the task does, later), so a second start before
  the task has run succeeds too, replaces the URL the first task will use and forgets the first task's handle.\<close>

theorem ota_second_start:
  assumes "os_ota_start (Some t1) (Some c1) s = (ESP_OK, s1, tr1)"
    and "oc_url c2 = Some u" and "length u < OS_OTA_URL_MAX_LEN"
    and "os_ota_start (Some t2) (Some c2) s1 = (r, s2, tr2)"
  shows "r = ESP_OK \<and> \<not> os_ota_is_in_progress s1 \<and> o_task s1 = Some t1 \<and> o_task s2 = Some t2 \<and>
    oc_url (o_config s2) = Some u \<and> OTaskCreate OS_OTA_TASK_STACK_SIZE OS_OTA_TASK_PRIORITY \<in> set (ext_calls tr2)"
proof -
  have "o_initialized s1" "o_state s1 = OS_OTA_STATE_IDLE \<or> o_state s1 = OS_OTA_STATE_ERROR" "o_task s1 = Some t1"
    using assms(1) by (auto simp: os_ota_start_def Let_def split: option.splits if_splits)
  with assms(2-4) show ?thesis by (auto simp: os_ota_start_def os_ota_is_in_progress_def Let_def)
qed

text \<open>The forced deletion reads the task's handle without the mutex: when the task ends by itself just after
  the last poll, the handle is NULL and the caller deletes itself.\<close>

lemma forced_delete_deletes_caller:
  assumes "o_task s \<noteq> None" and "ota_task_step a (T_Cleanup h) s = (pc', s', tr')"
  shows "fst (ota_abort_step (A_Poll 50) s) = A_Force \<and>
    fst (ota_abort_step A_Force s') = A_Deleted \<and> snd (snd (ota_abort_step A_Force s')) = [Ext (OTaskDelete None)]"
  using assms by auto

section \<open>Examples\<close>

text \<open>A schedule as a list of events, and the world it leads to.\<close>

datatype ota_event = E_Start nat os_ota_config | E_Task nat ota_answer

fun ota_do :: "ota_event \<Rightarrow> ota_world \<Rightarrow> ota_world" where
  "ota_do (E_Start h c) w =
     (if w_tasks w h = None then
        (case os_ota_start (Some h) (Some c) (w_ota w) of
           (r, s', tr) \<Rightarrow> w\<lparr>w_ota := s', w_calls := w_calls w @ ext_calls tr,
             w_tasks := (if r = ESP_OK then (w_tasks w)(h := Some T_Start) else w_tasks w)\<rparr>)
      else w)"
| "ota_do (E_Task t a) w =
     (case (w_tasks w t, open_after {} (w_calls w)) of
        (Some pc, Some S) \<Rightarrow>
          if a_begin a \<noteq> None \<and> the (a_begin a) \<in> S then w
          else
            (case ota_task_step a pc (w_ota w) of
               (pc', s', tr) \<Rightarrow> w\<lparr>w_ota := s', w_tasks := (w_tasks w)(t := (if pc' = T_Dead then None else Some pc')),
                 w_calls := w_calls w @ ext_calls tr\<rparr>)
      | _ \<Rightarrow> w)"

lemma ota_do_step: "(ostep forced)\<^sup>*\<^sup>* w (ota_do e w)"
proof (cases e)
  case (E_Start h c)
  obtain r s' tr where "os_ota_start (Some h) (Some c) (w_ota w) = (r, s', tr)"
    by (cases "os_ota_start (Some h) (Some c) (w_ota w)")
  then show ?thesis using E_Start ostep.start [of "Some h" w "Some c" r s' tr forced] by auto
next
  case (E_Task t a)
  show ?thesis
  proof (cases "w_tasks w t = None \<or> open_after {} (w_calls w) = None")
    case True
    then show ?thesis using E_Task by (auto split: option.split)
  next
    case False
    then obtain pc S where ps: "w_tasks w t = Some pc" "open_after {} (w_calls w) = Some S" by auto
    obtain pc' s' tr where st: "ota_task_step a pc (w_ota w) = (pc', s', tr)" by (cases "ota_task_step a pc (w_ota w)")
    show ?thesis
    proof (cases "a_begin a \<noteq> None \<and> the (a_begin a) \<in> S")
      case True
      then show ?thesis using E_Task ps by simp
    next
      case False
      then have "\<And>h. a_begin a = Some h \<Longrightarrow> h \<notin> S" by auto
      from ostep.task [OF ps this st] show ?thesis using E_Task ps st False by auto
    qed
  qed
qed

lemma ota_dos_reach: "(ostep forced)\<^sup>*\<^sup>* w (fold ota_do es w)"
proof (induction es arbitrary: w)
  case (Cons e es)
  show ?case using rtranclp_trans [OF ota_do_step Cons.IH] by simp
qed simp

definition ota_started :: ota where
  "ota_started = fst (snd (os_ota_init (Some 1) None (\<lambda>_. (ESP_FAIL, ESP_OTA_IMG_OTHER 0)) ota_boot))"

definition ota_cfg :: "string \<Rightarrow> os_ota_config" where
  "ota_cfg url = ota_config_zero\<lparr>oc_url := Some url\<rparr>"

definition ota_good :: ota_answer where
  "ota_good = \<lparr>a_begin = Some 9, a_perform = Performed, a_finish = True\<rparr>"

definition ota_next :: ota_answer where
  "ota_next = \<lparr>a_begin = None, a_perform = Performed, a_finish = True\<rparr>"

lemmas ota_run_simps = ota_start_world_def ota_started_def os_ota_init_def ota_boot_def os_ota_start_def ota_cfg_def
  ota_config_zero_def OS_OTA_URL_MAX_LEN_def OS_OTA_DOWNLOAD_TIMEOUT_SEC_def OS_OTA_TASK_STACK_SIZE_def
  OS_OTA_TASK_PRIORITY_def http_timeout_def ota_good_def ota_next_def update_state_def Let_def

text \<open>One update that succeeds: its calls.\<close>

definition ota_updated :: ota_world where
  "ota_updated = fold ota_do
     (E_Start 1 (ota_cfg ''https://h/f.bin'') # map (E_Task 1) [ota_good, ota_good, ota_good, ota_next, ota_next, ota_next,
       ota_next, ota_next, ota_next, ota_next, ota_next, ota_next])
     (ota_start_world ota_started)"

lemma ota_updated_calls:
  "w_calls ota_updated =
   [OTaskCreate 8192 5, OBegin (Some ''https://h/f.bin'') 600000 None (Some 9), OPerform 9 Performed, OFinish 9 True,
    ODelay 2000] @ ORestart # []"
  by (simp add: ota_updated_def ota_run_simps)

lemma ota_updated_reach: "(ostep False)\<^sup>*\<^sup>* (ota_start_world ota_started) ota_updated"
  unfolding ota_updated_def by (rule ota_dos_reach)

theorem ota_restart_verified_witness:
  "\<exists>h. OPerform h Performed \<in> set (butlast (w_calls ota_updated)) \<and> OFinish h True \<in> set (butlast (w_calls ota_updated))"
  using ota_restart_verified [OF ota_updated_reach ota_updated_calls] by (simp add: ota_updated_calls)

definition ota_bad :: ota_answer where
  "ota_bad = \<lparr>a_begin = None, a_perform = PerformFailed, a_finish = True\<rparr>"

text \<open>One whose download fails: the task has ended, and its handle is closed.\<close>

definition ota_failed :: ota_world where
  "ota_failed = fold ota_do
     (E_Start 1 (ota_cfg ''u'') # map (E_Task 1) ([ota_good, ota_good, ota_good] @
      [ota_bad, ota_bad, ota_bad, ota_bad, ota_bad, ota_bad]))
     (ota_start_world ota_started)"

theorem ota_handles_released_witness:
  "w_tasks ota_failed = (\<lambda>_. None) \<and> open_after {} (w_calls ota_failed) = Some {}"
proof -
  have "w_tasks ota_failed t = None" for t
    by (simp add: ota_failed_def ota_bad_def ota_run_simps)
  then have none: "w_tasks ota_failed = (\<lambda>_. None)" by auto
  have "(ostep False)\<^sup>*\<^sup>* (ota_start_world ota_started) ota_failed"
    unfolding ota_failed_def by (rule ota_dos_reach)
  from ota_handles_released [OF this] none show ?thesis by simp
qed

theorem ota_abort_ends_task_witness:
  "\<exists>s' calls. ota_task_run (replicate 5 ota_good) (T_Check 9 (- 1)) (ota_started\<lparr>o_abort_requested := True\<rparr>) = (T_Dead, s', calls) \<and>
     o_state s' = OS_OTA_STATE_IDLE \<and> filter not_callback calls = [OAbort 9, OTaskDelete None]"
  using ota_abort_ends_task [of "ota_started\<lparr>o_abort_requested := True\<rparr>" T_Dead "replicate 5 ota_good" 9 "- 1"] by auto

theorem ota_second_start_witness:
  "fst (os_ota_start (Some 2) (Some (ota_cfg ''b'')) (fst (snd (os_ota_start (Some 1) (Some (ota_cfg ''a'')) ota_started)))) = ESP_OK"
proof -
  let ?s = "os_ota_start (Some 1) (Some (ota_cfg ''a'')) ota_started"
  let ?t = "os_ota_start (Some 2) (Some (ota_cfg ''b'')) (fst (snd ?s))"
  have "fst ?s = ESP_OK" "oc_url (ota_cfg ''b'') = Some ''b''" by code_simp+
  then have "?s = (ESP_OK, fst (snd ?s), snd (snd ?s))" by (metis prod.collapse)
  moreover have "?t = (fst ?t, fst (snd ?t), snd (snd ?t))" by simp
  moreover have "length ''b'' < OS_OTA_URL_MAX_LEN" by (simp add: OS_OTA_URL_MAX_LEN_def)
  ultimately show ?thesis
    using ota_second_start [OF _ \<open>oc_url (ota_cfg ''b'') = Some ''b''\<close>] by blast
qed

end
