(* ===== verification/Net.thy ===== *)
theory Net
  imports Fmt
begin

text \<open>
  Networking, \<^verbatim>\<open>src/components/os_networking/src/os_networking.c\<close>: the Wi-Fi station with its
  reconnections, scanning, ping and HTTP GET.

  Wi-Fi, sockets, NVS and the HTTP client are outside: their results are arguments, the calls are in the
  traces.  Events reach the handlers from the event loop of ESP-IDF; a call that waits (\<open>os_wifi_connect\<close>)
  is given the events that arrive while it waits and stops at the first that sets a bit it waits for.
  \<open>ap\<close> is the option \<^verbatim>\<open>CONFIG_ESP32OS_ENABLE_AP_FALLBACK\<close>.  A packet is its list of bytes, as on the wire.
\<close>

section \<open>State\<close>

definition WIFI_CONNECT_TIMEOUT_MS :: nat where "WIFI_CONNECT_TIMEOUT_MS = 15000"
definition WIFI_MAX_RETRY :: int where "WIFI_MAX_RETRY = 5"

datatype wifi_bit = WIFI_CONNECTED_BIT | WIFI_FAIL_BIT | SCAN_DONE_BIT

type_synonym ip4 = "8 word \<times> 8 word \<times> 8 word \<times> 8 word"

record os_net_status =
  ns_connected :: bool
  ns_ssid :: string
  ns_ip :: string
  ns_gw :: string
  ns_netmask :: string
  ns_rssi :: int
  ns_mac :: "8 word list"

record net =
  n_initialised :: bool
  n_netif_sta :: "nat option"
  n_netif_ap :: "nat option"
  n_events :: "nat option"
  n_retry_count :: int
  n_status :: os_net_status

definition status_zero :: os_net_status where
  "status_zero = \<lparr>ns_connected = False, ns_ssid = [], ns_ip = [], ns_gw = [], ns_netmask = [], ns_rssi = 0,
     ns_mac = replicate 6 0\<rparr>"

definition net_boot :: net where
  "net_boot = \<lparr>n_initialised = False, n_netif_sta = None, n_netif_ap = None, n_events = None, n_retry_count = 0,
     n_status = status_zero\<rparr>"

record wifi_config =
  wc_ssid :: string
  wc_password :: string
  wc_open :: bool

datatype net_call =
    NInit string | NWifiConnect | NWifiDisconnect | NSetConfig wifi_config | NSetBits wifi_bit
  | NClearBits "wifi_bit list" | NWaitBits "wifi_bit list" nat | NScanStart | NGetMac
  | NNvsOpen string bool | NNvsSetStr string string | NNvsCommit | NNvsClose
  | NSocket | NSetTimeout | NSendTo "8 word list" | NRecvFrom | NClose | NDelay nat
  | NHttpInit string | NHttpOpen | NHttpHeaders | NHttpRead nat | NHttpClose | NHttpCleanup

section \<open>Event handlers\<close>

datatype net_event =
    StaStart | StaDisconnected nat | ScanDone | WifiOther
  | GotIp ip4 ip4 ip4 "8 word list"   \<comment> \<open>address, gateway, mask; the hardware address read then\<close>
  | IpOther

text \<open>\<^verbatim>\<open>snprintf(buf, 16, IPSTR, IP2STR(a))\<close>.\<close>

definition ip_text :: "ip4 \<Rightarrow> string" where
  "ip_text a =
     (case a of (b1, b2, b3, b4) \<Rightarrow>
        cstr 16 (dec (unat b1) @ ''.'' @ dec (unat b2) @ ''.'' @ dec (unat b3) @ ''.'' @ dec (unat b4)))"

primrec wifi_event_handler :: "net_event \<Rightarrow> net \<Rightarrow> net \<times> net_call eff list" where
  "wifi_event_handler StaStart s = (s, [Ext NWifiConnect])"
| "wifi_event_handler (StaDisconnected reason) s =
     (let s1 = s\<lparr>n_status := status_zero\<rparr> in
      if n_retry_count s < WIFI_MAX_RETRY
      then (s1\<lparr>n_retry_count := n_retry_count s + 1\<rparr>,
            [Log OS_LOG_WARN ''WiFi disconnected (reason=%d)'', Ext NWifiConnect, Log OS_LOG_INFO ''Reconnect attempt %d/%d''])
      else (s1, [Log OS_LOG_WARN ''WiFi disconnected (reason=%d)'', Ext (NSetBits WIFI_FAIL_BIT)]))"
| "wifi_event_handler ScanDone s = (s, [Log OS_LOG_DEBUG ''Scan done'', Ext (NSetBits SCAN_DONE_BIT)])"
| "wifi_event_handler WifiOther s = (s, [])"
| "wifi_event_handler (GotIp ip gw nm mac) s = (s, [])"
| "wifi_event_handler IpOther s = (s, [])"

primrec ip_event_handler :: "net_event \<Rightarrow> net \<Rightarrow> net \<times> net_call eff list" where
  "ip_event_handler (GotIp ip gw nm mac) s =
     (s\<lparr>n_status := (n_status s)\<lparr>ns_ip := ip_text ip, ns_gw := ip_text gw, ns_netmask := ip_text nm,
          ns_connected := True, ns_mac := mac\<rparr>, n_retry_count := 0\<rparr>,
      [Ext NGetMac, Log OS_LOG_INFO ''Got IP: %s  GW: %s'', Ext (NSetBits WIFI_CONNECTED_BIT)])"
| "ip_event_handler StaStart s = (s, [])"
| "ip_event_handler (StaDisconnected reason) s = (s, [])"
| "ip_event_handler ScanDone s = (s, [])"
| "ip_event_handler WifiOther s = (s, [])"
| "ip_event_handler IpOther s = (s, [])"

text \<open>The event loop calls the handler of the event's base.\<close>

definition net_event_step :: "net_event \<Rightarrow> net \<Rightarrow> net \<times> net_call eff list" where
  "net_event_step e s =
     (case e of GotIp ip gw nm mac \<Rightarrow> ip_event_handler e s | IpOther \<Rightarrow> ip_event_handler e s
      | _ \<Rightarrow> wifi_event_handler e s)"

section \<open>Connecting\<close>

text \<open>\<open>xEventGroupWaitBits\<close> on the connected and failed bits: what was set, when the wait ends.\<close>

fun wait_connect :: "net_event list \<Rightarrow> net \<Rightarrow> wifi_bit option \<times> net \<times> net_call eff list" where
  "wait_connect [] s = (None, s, [])"
| "wait_connect (e # es) s =
     (let (s1, tr) = net_event_step e s in
      if NSetBits WIFI_CONNECTED_BIT \<in> set (ext_calls tr) then (Some WIFI_CONNECTED_BIT, s1, tr)
      else if NSetBits WIFI_FAIL_BIT \<in> set (ext_calls tr) then (Some WIFI_FAIL_BIT, s1, tr)
      else (let (b, s2, tr') = wait_connect es s1 in (b, s2, tr @ tr')))"

definition wifi_config_of :: "string \<Rightarrow> string option \<Rightarrow> wifi_config" where
  "wifi_config_of ssid password =
     (let has = (case password of None \<Rightarrow> False | Some p \<Rightarrow> p \<noteq> [])
      in \<lparr>wc_ssid = cstr 32 ssid, wc_password = (if has then cstr 64 (the password) else []), wc_open = (\<not> has)\<rparr>)"

text \<open>\<open>None\<close>: \<^verbatim>\<open>ESP_ERROR_CHECK\<close> of \<open>set_config\<close> failed and the device aborts.\<close>

definition os_wifi_connect ::
  "esp_err \<Rightarrow> net_event list \<Rightarrow> string option \<Rightarrow> string option \<Rightarrow> net \<Rightarrow> (esp_err \<times> net \<times> net_call eff list) option" where
  "os_wifi_connect set_config evs ssid password s =
     (if \<not> n_initialised s then Some (ESP_ERR_INVALID_STATE, s, [])
      else
        case ssid of
          None \<Rightarrow> Some (ESP_ERR_INVALID_ARG, s, [])
        | Some n \<Rightarrow>
            let cfg = wifi_config_of n password;
                s1 = s\<lparr>n_retry_count := 0, n_status := (n_status s)\<lparr>ns_ssid := cstr 33 n\<rparr>\<rparr>;
                start = [Ext (NClearBits [WIFI_CONNECTED_BIT, WIFI_FAIL_BIT]), Ext NWifiDisconnect, Ext (NSetConfig cfg)]
            in if set_config \<noteq> ESP_OK then None
               else
                 let (b, s2, tr) = wait_connect evs s1;
                     all = start @ [Ext NWifiConnect, Ext (NWaitBits [WIFI_CONNECTED_BIT, WIFI_FAIL_BIT] WIFI_CONNECT_TIMEOUT_MS)] @ tr
                 in if b = Some WIFI_CONNECTED_BIT then Some (ESP_OK, s2, all)
                    else Some (ESP_FAIL, s2, all @ [Log OS_LOG_WARN (''Failed to connect to '%s'' @ quote)]))"

section \<open>Starting, scanning, status\<close>

text \<open>
  The results of the calls of \<^verbatim>\<open>os_net_init\<close> in order; those under \<^verbatim>\<open>ESP_ERROR_CHECK\<close> abort the device
  when they fail.  \<open>ni_saved\<close> are the credentials read from NVS, when both could be read.
\<close>

record net_init_answer =
  ni_checked :: "esp_err list"       \<comment> \<open>netif, event loop; then Wi-Fi: init, handlers, mode, start\<close>
  ni_sta :: "nat option"
  ni_ap :: "nat option"
  ni_wifi :: "esp_err list"
  ni_group :: "nat option"
  ni_nvs :: bool
  ni_saved :: "(string \<times> string) option"
  ni_set_config :: esp_err
  ni_events :: "net_event list"

definition os_net_init ::
  "bool \<Rightarrow> net_init_answer \<Rightarrow> net \<Rightarrow> (esp_err \<times> net \<times> net_call eff list) option" where
  "os_net_init ap a s =
     (if n_initialised s then Some (ESP_OK, s, [])
      else if \<not> list_all (\<lambda>r. r = ESP_OK) (ni_checked a) then None
      else
        let s1 = s\<lparr>n_netif_sta := ni_sta a\<rparr>; t1 = [Ext (NInit ''netif''), Ext (NInit ''event_loop''), Ext (NInit ''sta'')] in
        if ni_sta a = None then Some (ESP_ERR_NO_MEM, s1, t1)
        else
          let s2 = (if ap then s1\<lparr>n_netif_ap := ni_ap a\<rparr> else s1); t2 = t1 @ (if ap then [Ext (NInit ''ap'')] else []) in
          if ap \<and> ni_ap a = None then Some (ESP_ERR_NO_MEM, s2, t2)
          else if \<not> list_all (\<lambda>r. r = ESP_OK) (ni_wifi a) then None
          else
            let s3 = s2\<lparr>n_events := ni_group a, n_initialised := True\<rparr>;
                t3 = t2 @ [Ext (NInit ''wifi''), Ext (NInit ''handlers''), Ext (NInit ''mode''), Ext (NInit ''start''),
                  if ap then Log OS_LOG_WARN ''Network stack initialised (STA + OPEN AP fallback enabled)''
                  else Log OS_LOG_INFO ''Network stack initialised (STA only; AP fallback disabled)'',
                  Ext (NNvsOpen ''wifi_cfg'' False)]
            in if \<not> ni_nvs a then Some (ESP_OK, s3, t3)
               else
                 case ni_saved a of
                   None \<Rightarrow> Some (ESP_OK, s3, t3 @ [Ext NNvsClose])
                 | Some (ssid, pass) \<Rightarrow>
                     if ssid = [] then Some (ESP_OK, s3, t3 @ [Ext NNvsClose])
                     else
                       map_option (\<lambda>(r, s4, tr).
                           (ESP_OK, s4, t3 @ [Log OS_LOG_INFO ''Auto-connecting to '%s' from NVS''] @ tr @ [Ext NNvsClose]))
                         (os_wifi_connect (ni_set_config a) (ni_events a) (Some ssid) (Some pass) s3))"

record ap_record =
  ap_ssid :: string
  ap_bssid :: "8 word list"
  ap_rssi :: int
  ap_primary :: "8 word"
  ap_auth_open :: bool

record os_wifi_scan_result =
  sr_ssid :: string
  sr_bssid :: "8 word list"
  sr_rssi :: int
  sr_channel :: "8 word"
  sr_open :: bool

definition scan_result :: "ap_record \<Rightarrow> os_wifi_scan_result" where
  "scan_result r = \<lparr>sr_ssid = take 32 (ap_ssid r), sr_bssid = take 6 (ap_bssid r), sr_rssi = ap_rssi r,
     sr_channel = ap_primary r, sr_open = ap_auth_open r\<rparr>"

text \<open>
  \<open>finished\<close>: the scan bit was set within 5 s; \<open>ap_count\<close> and \<open>records\<close> are what the driver reports (the
  records as a function of the number asked for); \<open>mem\<close>: the allocation succeeded.
\<close>

definition os_wifi_scan ::
  "bool \<Rightarrow> bool \<Rightarrow> 16 word \<Rightarrow> bool \<Rightarrow> (nat \<Rightarrow> ap_record list) \<Rightarrow> bool \<Rightarrow> int \<Rightarrow> net
   \<Rightarrow> int \<times> os_wifi_scan_result list \<times> net_call eff list" where
  "os_wifi_scan start_ok finished ap_count mem records results max_results s =
     (if \<not> n_initialised s \<or> \<not> results then (- 1, [], [])
      else if \<not> start_ok then (- 1, [], [Ext (NClearBits [SCAN_DONE_BIT]), Ext NScanStart])
      else
        let tr = [Ext (NClearBits [SCAN_DONE_BIT]), Ext NScanStart, Ext (NWaitBits [SCAN_DONE_BIT] 5000)] in
        if \<not> finished \<or> ap_count = 0 then (0, [], tr)
        else
          let m = (word_of_int max_results :: 16 word);
              fetch = unat (if ap_count < m then ap_count else m)
          in if \<not> mem then (0, [], tr)
             else (int (length (records fetch)), map scan_result (records fetch), tr))"

definition os_wifi_disconnect :: "net \<Rightarrow> net \<times> net_call eff list" where
  "os_wifi_disconnect s = (s\<lparr>n_status := status_zero\<rparr>, [Ext NWifiDisconnect])"

text \<open>\<open>rssi\<close> is the signal of the access point, \<open>ap_ip\<close> the addresses of the own access point, when they can be read.\<close>

definition os_wifi_get_status :: "int option \<Rightarrow> (ip4 \<times> ip4 \<times> ip4) option \<Rightarrow> net \<Rightarrow> os_net_status" where
  "os_wifi_get_status rssi ap_ip s =
     (let st = n_status s in
      if ns_connected st then (case rssi of None \<Rightarrow> st | Some r \<Rightarrow> st\<lparr>ns_rssi := r\<rparr>)
      else if n_netif_ap s \<noteq> None
      then (case ap_ip of None \<Rightarrow> st
            | Some (ip, gw, nm) \<Rightarrow> st\<lparr>ns_ip := ip_text ip, ns_gw := ip_text gw, ns_netmask := ip_text nm\<rparr>)
      else st)"

definition os_wifi_save_credentials :: "esp_err \<Rightarrow> string option \<Rightarrow> string option \<Rightarrow> esp_err \<times> net_call eff list" where
  "os_wifi_save_credentials nvs ssid password =
     (if nvs \<noteq> ESP_OK then (nvs, [Ext (NNvsOpen ''wifi_cfg'' True)])
      else
        (ESP_OK, [Ext (NNvsOpen ''wifi_cfg'' True),
           Ext (NNvsSetStr ''ssid'' (case ssid of None \<Rightarrow> [] | Some x \<Rightarrow> x)),
           Ext (NNvsSetStr ''pass'' (case password of None \<Rightarrow> [] | Some x \<Rightarrow> x)), Ext NNvsCommit, Ext NNvsClose,
           Log OS_LOG_INFO (''WiFi credentials saved for '%s'' @ quote)]))"

section \<open>Ping and HTTP\<close>

definition PING_DATA_SIZE :: nat where "PING_DATA_SIZE = 32"

text \<open>The 16-bit words of the buffer are read with the low byte first.\<close>

fun ping_sum :: "8 word list \<Rightarrow> 32 word \<Rightarrow> 32 word" where
  "ping_sum (a # b # bs) acc = ping_sum bs (acc + (push_bit 8 (ucast b) + ucast a))"
| "ping_sum [a] acc = acc + ucast a"
| "ping_sum [] acc = acc"

definition ping_checksum :: "8 word list \<Rightarrow> 16 word" where
  "ping_checksum buf =
     (let acc = ping_sum buf 0;
          acc1 = drop_bit 16 acc + take_bit 16 acc;
          acc2 = acc1 + drop_bit 16 acc1
      in ucast (not acc2))"

definition store16 :: "16 word \<Rightarrow> 8 word list" where
  "store16 w = [ucast w, ucast (drop_bit 8 w)]"

text \<open>The echo request \<open>i\<close> with a checksum field: type 8, code 0, checksum, id and number in network order, data.\<close>

definition ping_packet :: "16 word \<Rightarrow> nat \<Rightarrow> 8 word list" where
  "ping_packet chk i =
     [8, 0] @ store16 chk @ rev (store16 0xBEEF) @ rev (store16 (of_nat i)) @ map of_nat [0..<PING_DATA_SIZE]"

definition ping_request :: "nat \<Rightarrow> 8 word list" where
  "ping_request i = ping_packet (ping_checksum (ping_packet 0 i)) i"

record os_ping_result =
  pr_sent :: "32 word"
  pr_received :: "32 word"
  pr_min_ms :: "32 word"
  pr_max_ms :: "32 word"
  pr_avg_ms :: "32 word"

text \<open>What becomes of a request: it is not sent, nothing arrives in time, or something does after so many microseconds.\<close>

datatype ping_answer = NotSent | NoReply | Reply nat

definition ping_turn :: "nat \<Rightarrow> ping_answer \<Rightarrow> os_ping_result \<Rightarrow> os_ping_result \<times> net_call eff list" where
  "ping_turn i a r =
     (let r1 = r\<lparr>pr_sent := pr_sent r + 1\<rparr>; send = Ext (NSendTo (ping_request i)) in
      case a of
        NotSent \<Rightarrow> (r1, [send])
      | NoReply \<Rightarrow> (r1, [send, Ext NRecvFrom])
      | Reply us \<Rightarrow>
          let rtt = of_nat (us div 1000); n = pr_received r1 + 1
          in (r1\<lparr>pr_received := n,
                 pr_min_ms := (if rtt < pr_min_ms r1 then rtt else pr_min_ms r1),
                 pr_max_ms := (if pr_max_ms r1 < rtt then rtt else pr_max_ms r1),
                 pr_avg_ms := (pr_avg_ms r1 * (n - 1) + rtt) div n\<rparr>,
              [send, Ext NRecvFrom, Ext (NDelay 1000)]))"

fun ping_loop :: "nat \<Rightarrow> ping_answer list \<Rightarrow> os_ping_result \<Rightarrow> os_ping_result \<times> net_call eff list" where
  "ping_loop i [] r = (r, [])"
| "ping_loop i (a # as) r =
     (let (r1, tr) = ping_turn i a r; (r2, tr') = ping_loop (i + 1) as r1 in (r2, tr @ tr'))"

definition ping_zero :: os_ping_result where
  "ping_zero = \<lparr>pr_sent = 0, pr_received = 0, pr_min_ms = - 1, pr_max_ms = 0, pr_avg_ms = 0\<rparr>"

definition ping_end :: "os_ping_result \<Rightarrow> os_ping_result" where
  "ping_end r = (if pr_min_ms r = - 1 then r\<lparr>pr_min_ms := 0\<rparr> else r)"

text \<open>\<open>ans\<close> gives the fate of each request.\<close>

definition os_ping ::
  "bool \<Rightarrow> bool \<Rightarrow> bool \<Rightarrow> (nat \<Rightarrow> ping_answer) \<Rightarrow> string option \<Rightarrow> int \<Rightarrow> bool
   \<Rightarrow> esp_err \<times> os_ping_result option \<times> net_call eff list" where
  "os_ping resolved sock timeout_ok ans host n result =
     (if host = None \<or> \<not> result then (ESP_ERR_INVALID_ARG, None, [])
      else if \<not> resolved then (ESP_FAIL, Some ping_zero, [])
      else if \<not> sock then (ESP_FAIL, Some ping_zero, [Ext NSocket])
      else if \<not> timeout_ok
      then (ESP_FAIL, Some (ping_end ping_zero), [Ext NSocket, Ext NSetTimeout, Ext NClose])
      else
        let (r, tr) = ping_loop 0 (map ans [0..<nat n]) ping_zero
        in (ESP_OK, Some (ping_end r), [Ext NSocket, Ext NSetTimeout] @ tr @ [Ext NClose]))"

text \<open>\<open>read n\<close> is the body when at most \<open>n\<close> bytes are asked for, or an error.  The second result is the string
  left in the buffer.\<close>

definition os_http_get ::
  "bool \<Rightarrow> bool \<Rightarrow> (nat \<Rightarrow> string option) \<Rightarrow> string option \<Rightarrow> bool \<Rightarrow> nat
   \<Rightarrow> int \<times> string option \<times> net_call eff list" where
  "os_http_get client opened read url buf buf_sz =
     (case url of
        None \<Rightarrow> (- 1, None, [])
      | Some u \<Rightarrow>
          if \<not> buf \<or> buf_sz = 0 then (- 1, None, [])
          else if \<not> client then (- 1, Some [], [Ext (NHttpInit u)])
          else
            let fin = [Ext NHttpClose, Ext NHttpCleanup] in
            if \<not> opened then (- 1, Some [], [Ext (NHttpInit u), Ext NHttpOpen] @ fin)
            else
              let tr = [Ext (NHttpInit u), Ext NHttpOpen, Ext NHttpHeaders, Ext (NHttpRead (buf_sz - 1))] @ fin
              in (case read (buf_sz - 1) of
                    None \<Rightarrow> (- 1, Some [], tr)
                  | Some d \<Rightarrow> (int (length d), Some d, tr)))"

section \<open>The checksum\<close>

text \<open>The sum of the 16-bit words as a number, and what the two folds make of it.\<close>

fun nsum :: "8 word list \<Rightarrow> nat" where
  "nsum (a # b # bs) = 256 * unat b + unat a + nsum bs"
| "nsum [a] = unat a"
| "nsum [] = 0"

definition fold16 :: "nat \<Rightarrow> nat" where
  "fold16 n = (let m = n div 65536 + n mod 65536 in (m + m div 65536) mod 65536)"

lemma unat_byte_32 [simp]: "unat (ucast (b :: 8 word) :: 32 word) = unat b"
  using unsigned_less [of b, where 'a = nat] by (simp add: unsigned_ucast_eq take_bit_nat_eq_self)

lemma unat_pair:
  "unat (push_bit 8 (ucast (b :: 8 word)) + ucast (a :: 8 word) :: 32 word) = 256 * unat b + unat a"
proof -
  have "unat a < 256" "unat b < 256" using unsigned_less [of a, where 'a = nat] unsigned_less [of b, where 'a = nat] by simp_all
  then show ?thesis
    by (simp add: unat_word_ariths push_bit_eq_mult unsigned_ucast_eq take_bit_nat_eq_self)
qed

lemma unat_ping_sum:
  "nsum buf + unat acc < 2 ^ 32 \<Longrightarrow> unat (ping_sum buf acc) = nsum buf + unat acc"
proof (induction buf acc rule: ping_sum.induct)
  case (1 a b bs acc)
  then have "unat (acc + (push_bit 8 (ucast b) + ucast a)) = unat acc + (256 * unat b + unat a)"
    by (subst unat_word_ariths) (simp add: unat_pair)
  with 1 show ?case by (simp add: add.commute add.left_commute)
next
  case (2 a acc)
  then show ?case by (simp add: unat_word_ariths)
qed simp

lemma nsum_bound: "nsum buf \<le> 65535 * ((length buf + 1) div 2)"
proof (induction buf rule: nsum.induct)
  case (1 a b bs)
  have "unat a < 256" "unat b < 256" using unsigned_less [of a, where 'a = nat] unsigned_less [of b, where 'a = nat] by simp_all
  with 1 show ?case by simp
next
  case (2 a)
  have "unat a < 256" using unsigned_less [of a, where 'a = nat] by simp
  then show ?case by simp
qed simp

lemma nsum_append: "even (length xs) \<Longrightarrow> nsum (xs @ ys) = nsum xs + nsum ys"
  by (induction xs rule: nsum.induct) auto

lemma nsum_store16: "nsum (store16 w) = unat w"
proof -
  have "unat w < 65536" using unsigned_less [of w, where 'a = nat] by simp
  then have "unat w div 256 < 256" by (simp add: less_mult_imp_div_less)
  then show ?thesis
    by (simp add: store16_def unsigned_ucast_eq take_bit_eq_mod drop_bit_eq_div unat_div)
qed

lemma fold16_eq:
  assumes "n < 2 ^ 32"
  shows "fold16 n = (if n = 0 then 0 else (n - 1) mod 65535 + 1)"
proof -
  define q r where "q = n div 65536" and "r = n mod 65536"
  have n: "n = 65536 * q + r" "r < 65536" "q < 65536"
    using assms by (simp_all add: q_def r_def less_mult_imp_div_less)
  show ?thesis
  proof (cases "n = 0 \<or> q + r < 65536")
    case True
    have "(n - 1) mod 65535 + 1 = q + r" if "n \<noteq> 0" "q + r < 65536"
    proof -
      have "q + r \<noteq> 0" using that n by auto
      then have "n - 1 = 65535 * q + (q + r - 1)" using n by simp
      then have "(n - 1) mod 65535 = (q + r - 1) mod 65535" by simp
      with that \<open>q + r \<noteq> 0\<close> show ?thesis by simp
    qed
    moreover have "fold16 n = q + r" if "q + r < 65536"
      using that by (simp add: fold16_def Let_def flip: q_def r_def)
    ultimately show ?thesis using True by (cases "n = 0") (auto simp: fold16_def)
  next
    case False
    then have g: "n \<noteq> 0" "65536 \<le> q + r" by auto
    have d: "(q + r) div 65536 = 1" using g n by simp
    have "n - 1 = 65535 * (q + 1) + (q + r - 65536)" using n g by simp
    then have "(n - 1) mod 65535 = (q + r - 65536) mod 65535" by (metis mod_mult_self4)
    moreover have "q + r - 65536 < 65535" using n by simp
    ultimately have "(n - 1) mod 65535 + 1 = q + r - 65535" using g by simp
    moreover have "(q + r + 1) mod 65536 = q + r - 65535" using g n by (simp add: mod_if)
    ultimately show ?thesis using g d by (simp add: fold16_def Let_def flip: q_def r_def)
  qed
qed

lemma unat_not16: "unat (not (w :: 16 word)) = 65535 - unat w"
proof -
  have "not w = - 1 - w" by (simp add: not_eq_complement)
  moreover have "unat (- 1 - w) = unat (- 1 :: 16 word) - unat w" by (rule unat_sub) (simp add: word_order.extremum)
  moreover have "unat (- 1 :: 16 word) = 65535" by (simp only: unsigned_minus_1_eq_mask) (simp add: mask_eq_exp_minus_1)
  ultimately show ?thesis by simp
qed

lemma unat_ping_checksum:
  assumes "length buf \<le> 131072"
  shows "unat (ping_checksum buf) = 65535 - fold16 (nsum buf)"
proof -
  have "(length buf + 1) div 2 \<le> 65536" using assms by simp
  with nsum_bound [of buf] have "nsum buf \<le> 65535 * 65536" by (meson le_trans mult_le_mono2)
  then have S: "nsum buf < 2 ^ 32" by simp
  define m where "m = nsum buf div 65536 + nsum buf mod 65536"
  have "nsum buf div 65536 < 65536" using S by (simp add: less_mult_imp_div_less)
  then have m: "m < 131072" unfolding m_def using pos_mod_bound [of 65536 "int (nsum buf)"] by (simp add: add_less_le_mono)
  have u: "unat (ping_sum buf 0) = nsum buf" using unat_ping_sum [of buf 0] S by simp
  let ?a1 = "drop_bit 16 (ping_sum buf 0) + take_bit 16 (ping_sum buf 0)"
  have a1: "unat ?a1 = m"
  proof -
    have "unat (drop_bit 16 (ping_sum buf 0)) = nsum buf div 65536" by (simp only: unat_drop_bit_eq u) (simp add: drop_bit_eq_div)
    moreover have "unat (take_bit 16 (ping_sum buf 0)) = nsum buf mod 65536"
      by (simp only: unsigned_take_bit_eq u) (simp add: take_bit_eq_mod)
    ultimately show ?thesis using m by (simp only: unat_word_ariths) (simp add: m_def)
  qed
  have a2: "unat (?a1 + drop_bit 16 ?a1) = m + m div 65536"
  proof -
    have "unat (drop_bit 16 ?a1) = m div 65536" by (simp only: unat_drop_bit_eq a1) (simp add: drop_bit_eq_div)
    then show ?thesis using m a1 by (simp only: unat_word_ariths) simp
  qed
  have "ucast (not w :: 32 word) = not (ucast w :: 16 word)" for w by (rule bit_word_eqI) (simp add: bit_simps)
  then have "unat (ping_checksum buf) = 65535 - unat (ucast (?a1 + drop_bit 16 ?a1) :: 16 word)"
    by (simp add: ping_checksum_def Let_def unat_not16)
  also have "unat (ucast (?a1 + drop_bit 16 ?a1) :: 16 word) = (m + m div 65536) mod 65536"
    by (simp only: unsigned_ucast_eq a2) (simp add: take_bit_eq_mod)
  finally show ?thesis by (simp add: fold16_def m_def Let_def)
qed

text \<open>Writing the checksum into a zeroed field makes the checksum of the whole zero.\<close>

lemma checksum_inserted:
  assumes "even k" and "k + 2 \<le> length buf" and "buf ! k = 0" and "buf ! (k + 1) = 0" and "length buf \<le> 131072"
  shows "ping_checksum (take k buf @ store16 (ping_checksum buf) @ drop (k + 2) buf) = 0"
proof -
  let ?c = "ping_checksum buf" and ?b = "take k buf @ store16 (ping_checksum buf) @ drop (k + 2) buf"
  have len: "length (take k buf) = k" "length (store16 ?c) = 2" using assms(2) by (simp_all add: store16_def)
  have "drop k buf = buf ! k # buf ! (k + 1) # drop (k + 2) buf"
    using assms(2) by (simp add: Cons_nth_drop_Suc)
  then have "nsum (drop k buf) = nsum (drop (k + 2) buf)" using assms(3,4) by simp
  then have "nsum buf = nsum (take k buf) + nsum (drop (k + 2) buf)"
    using nsum_append [of "take k buf" "drop k buf"] assms(1) len by simp
  moreover have "nsum ?b = nsum (take k buf) + (unat ?c + nsum (drop (k + 2) buf))"
    using nsum_append [of "take k buf"] nsum_append [of "store16 ?c"] assms(1) len by (simp add: nsum_store16)
  ultimately have s: "nsum ?b = nsum buf + unat ?c" by simp
  have lb: "length ?b \<le> 131072" using assms(2,5) len by simp
  have small: "nsum x < 2 ^ 32" if "length x \<le> 131072" for x
  proof -
    have "(length x + 1) div 2 \<le> 65536" using that by simp
    with nsum_bound [of x] have "nsum x \<le> 65535 * 65536" by (meson le_trans mult_le_mono2)
    then show ?thesis by simp
  qed
  have c: "unat ?c = 65535 - fold16 (nsum buf)" by (rule unat_ping_checksum [OF assms(5)])
  have "fold16 (nsum ?b) = 65535"
  proof (cases "nsum buf = 0")
    case True
    then show ?thesis using s c fold16_eq [of "nsum buf"] fold16_eq [of "nsum ?b"] by simp
  next
    case False
    let ?n = "nsum buf"
    define q r where "q = (?n - 1) div 65535" and "r = (?n - 1) mod 65535"
    have n: "?n = 65535 * q + r + 1" using False unfolding q_def r_def
      by (metis Suc_diff_1 Suc_eq_plus1 mult_div_mod_eq neq0_conv)
    have "fold16 ?n = r + 1" using False fold16_eq [OF small [OF assms(5)]] by (simp add: r_def)
    moreover have "r < 65535" by (simp add: r_def)
    ultimately have "nsum ?b - 1 = 65535 * q + 65534" "nsum ?b \<noteq> 0" using s c n by simp_all
    then show ?thesis using fold16_eq [OF small [OF lb]] by simp
  qed
  then have "unat (ping_checksum ?b) = 0" using unat_ping_checksum [OF lb] by simp
  then show ?thesis by (simp add: unat_eq_0)
qed

text \<open>Claim C26: the checksum is the Internet checksum: the ones' complement of the ones' complement sum of the
  16-bit words; writing it into a zeroed even field of a buffer of at most 128 KiB makes the checksum of the
  buffer zero, and so every echo request of \<^verbatim>\<open>os_ping\<close> verifies at the receiver.\<close>

theorem ping_checksum_verifies:
  assumes "even k" and "k + 2 \<le> length buf" and "buf ! k = 0" and "buf ! (k + 1) = 0" and "length buf \<le> 131072"
  shows "unat (ping_checksum buf) = (if nsum buf = 0 then 65535 else 65534 - (nsum buf - 1) mod 65535) \<and>
    ping_checksum (take k buf @ store16 (ping_checksum buf) @ drop (k + 2) buf) = 0 \<and>
    ping_checksum (ping_request i) = 0"
proof (intro conjI)
  have "(length buf + 1) div 2 \<le> 65536" using assms(5) by simp
  with nsum_bound [of buf] have "nsum buf \<le> 65535 * 65536" by (meson le_trans mult_le_mono2)
  then have "nsum buf < 2 ^ 32" by simp
  then show "unat (ping_checksum buf) = (if nsum buf = 0 then 65535 else 65534 - (nsum buf - 1) mod 65535)"
    using unat_ping_checksum [OF assms(5)] fold16_eq [of "nsum buf"] by simp
  show "ping_checksum (take k buf @ store16 (ping_checksum buf) @ drop (k + 2) buf) = 0"
    by (rule checksum_inserted [OF assms])
  let ?p = "ping_packet 0 i"
  have "ping_request i = take 2 ?p @ store16 (ping_checksum ?p) @ drop (2 + 2) ?p"
    by (simp add: ping_request_def ping_packet_def store16_def)
  moreover have "ping_checksum (take 2 ?p @ store16 (ping_checksum ?p) @ drop (2 + 2) ?p) = 0"
    by (rule checksum_inserted) (simp_all add: ping_packet_def store16_def PING_DATA_SIZE_def)
  ultimately show "ping_checksum (ping_request i) = 0" by simp
qed

theorem ping_checksum_verifies_witness:
  "ping_checksum [0x45, 0x00, 0x00, 0x00, 0x12] = 0xFFA8 \<and> ping_checksum (ping_request 7) = 0"
  using ping_checksum_verifies [of 2 "[0x45, 0x00, 0x00, 0x00, 0x12]" 7]
  by (simp add: ping_checksum_def Let_def)

section \<open>The statistics of a ping\<close>

definition rtts :: "ping_answer list \<Rightarrow> nat list" where
  "rtts as = concat (map (\<lambda>a. case a of Reply us \<Rightarrow> [us div 1000] | _ \<Rightarrow> []) as)"

definition ping_inv :: "nat \<Rightarrow> nat list \<Rightarrow> os_ping_result \<Rightarrow> bool" where
  "ping_inv k xs r \<longleftrightarrow>
     unat (pr_sent r) = k \<and> unat (pr_received r) = length xs \<and>
     unat (pr_min_ms r) = (if xs = [] then 4294967295 else Min (set xs)) \<and>
     unat (pr_max_ms r) = (if xs = [] then 0 else Max (set xs)) \<and>
     (if xs = [] then pr_avg_ms r = 0
      else Min (set xs) \<le> unat (pr_avg_ms r) \<and> unat (pr_avg_ms r) \<le> Max (set xs))"

lemma rtts_simps [simp]:
  "rtts [] = []" "rtts (Reply us # as) = us div 1000 # rtts as" "rtts (NotSent # as) = rtts as"
  "rtts (NoReply # as) = rtts as" "rtts (as @ bs) = rtts as @ rtts bs"
  by (simp_all add: rtts_def)

lemma length_rtts: "length (rtts as) \<le> length as"
  by (induction as) (auto simp: rtts_def split: ping_answer.splits)

lemma ping_inv_zero: "ping_inv 0 [] ping_zero"
proof -
  have "unat (- 1 :: 32 word) = 4294967295" by (simp only: unsigned_minus_1_eq_mask) (simp add: mask_eq_exp_minus_1)
  then show ?thesis by (simp add: ping_inv_def ping_zero_def)
qed

lemma unat_Suc32: "n + 1 < 4294967296 \<Longrightarrow> unat (w :: 32 word) = n \<Longrightarrow> unat (w + 1) = n + 1"
  by (simp add: unat_word_ariths)

text \<open>The running mean stays between the least and the greatest time, and does not overflow.\<close>

lemma mean_step:
  assumes "lo \<le> (x :: nat)" "x \<le> hi" "n = 0 \<or> lo \<le> a \<and> a \<le> hi"
  shows "lo \<le> (a * n + x) div (n + 1) \<and> (a * n + x) div (n + 1) \<le> hi \<and> a * n + x \<le> hi * (n + 1)"
proof -
  have 1: "lo * n \<le> a * n" "a * n \<le> hi * n" using assms(3) by auto
  have 2: "lo * (n + 1) \<le> a * n + x" "a * n + x \<le> hi * (n + 1)"
    using add_mono [OF assms(1) 1(1)] add_mono [OF assms(2) 1(2)] by (simp_all add: add.commute)
  have "lo * (n + 1) div (n + 1) \<le> (a * n + x) div (n + 1)" by (rule div_le_mono [OF 2(1)])
  moreover have "(a * n + x) div (n + 1) \<le> hi * (n + 1) div (n + 1)" by (rule div_le_mono [OF 2(2)])
  moreover have "lo * (n + 1) div (n + 1) = lo" "hi * (n + 1) div (n + 1) = hi" by (rule nonzero_mult_div_cancel_right, simp)+
  ultimately show ?thesis using 2 by metis
qed

lemma ping_inv_reply:
  assumes inv: "ping_inv k xs r" and x: "us div 1000 \<le> m" and m: "m < 4294967295" and all: "\<forall>y \<in> set xs. y \<le> m"
    and prod: "(length xs + 1) * m < 4294967296" and k: "k + 1 < 4294967296" and l: "length xs + 1 < 4294967296"
  shows "ping_inv (k + 1) (xs @ [us div 1000]) (fst (ping_turn i (Reply us) r))"
proof -
  let ?x = "us div 1000" and ?a = "unat (pr_avg_ms r)" and ?n = "length xs"
  let ?ys = "xs @ [?x]" and ?r = "fst (ping_turn i (Reply us) r)"
  have ux: "unat (of_nat ?x :: 32 word) = ?x" using x m by (simp add: unat_of_nat take_bit_nat_eq_self)
  have bnd: "Max (set ?ys) \<le> m" using x all by simp
  have un: "unat (pr_received r + 1) = ?n + 1" using inv l by (intro unat_Suc32) (simp_all add: ping_inv_def)
  have lohi: "?n = 0 \<or> Min (set ?ys) \<le> ?a \<and> ?a \<le> Max (set ?ys)"
    using inv by (cases "xs = []") (auto simp: ping_inv_def)
  have step: "Min (set ?ys) \<le> (?a * ?n + ?x) div (?n + 1)" "(?a * ?n + ?x) div (?n + 1) \<le> Max (set ?ys)"
    "?a * ?n + ?x \<le> Max (set ?ys) * (?n + 1)"
    using mean_step [of "Min (set ?ys)" ?x "Max (set ?ys)" ?n ?a] lohi by simp_all
  have "Max (set ?ys) * (?n + 1) \<le> m * (?n + 1)" using bnd by (rule mult_le_mono1)
  with step(3) prod have small: "?a * ?n + ?x < 4294967296" by (simp add: mult.commute)
  have um: "unat (pr_avg_ms r * (pr_received r + 1 - 1)) = ?a * ?n"
    using small inv by (simp add: ping_inv_def unat_word_ariths)
  have unum: "unat (pr_avg_ms r * (pr_received r + 1 - 1) + of_nat ?x) = ?a * ?n + ?x"
    unfolding unat_word_ariths(1) um ux using small by simp
  have avg: "unat (pr_avg_ms ?r) = (?a * ?n + ?x) div (?n + 1)"
    by (simp add: ping_turn_def Let_def unat_div_distrib) (use unum un in simp)
  have 1: "unat (pr_sent ?r) = k + 1" "unat (pr_received ?r) = ?n + 1"
    using un inv k unat_Suc32 [of k "pr_sent r"] by (simp_all add: ping_turn_def Let_def ping_inv_def)
  have "unat (pr_min_ms ?r) = min ?x (unat (pr_min_ms r))" "unat (pr_max_ms ?r) = max ?x (unat (pr_max_ms r))"
    using ux by (simp_all add: ping_turn_def Let_def word_less_nat_alt min_def max_def)
  then have 2: "unat (pr_min_ms ?r) = Min (set ?ys)" "unat (pr_max_ms ?r) = Max (set ?ys)"
    using inv x m by (simp_all add: ping_inv_def min_def max_def split: if_splits)
  show ?thesis unfolding ping_inv_def using 1 2 avg step by simp
qed

lemma ping_loop_inv:
  assumes "ping_inv k xs r" and "\<forall>y \<in> set (xs @ rtts as). y \<le> m" and "m < 4294967295"
    and "(length xs + length as) * m < 4294967296" and "k + length as < 4294967296" and "length xs \<le> k"
  shows "ping_inv (k + length as) (xs @ rtts as) (fst (ping_loop i as r))"
  using assms
proof (induction as arbitrary: i k xs r)
  case (Cons a as)
  show ?case
  proof (cases a)
    case (Reply us)
    have "(length xs + 1) * m \<le> (length xs + length (a # as)) * m" by (intro mult_le_mono1) simp
    then have p: "(length xs + 1) * m < 4294967296" using Cons.prems(4) by (rule le_less_trans)
    have "ping_inv (k + 1) (xs @ [us div 1000]) (fst (ping_turn i (Reply us) r))"
      by (rule ping_inv_reply [where m = m]) (use Cons.prems(1-3,5,6) Reply p in \<open>auto\<close>)
    from Cons.IH [OF this] have "ping_inv (k + 1 + length as) ((xs @ [us div 1000]) @ rtts as)
        (fst (ping_loop (i + 1) as (fst (ping_turn i (Reply us) r))))"
      using Cons.prems Reply by simp
    then show ?thesis using Reply by (simp add: split_beta)
  next
    case NotSent
    have "ping_inv (k + 1) xs (fst (ping_turn i NotSent r))"
      using Cons.prems unat_Suc32 [of k "pr_sent r"] by (simp add: ping_inv_def ping_turn_def Let_def)
    from Cons.IH [OF this, of "i + 1"] show ?thesis using Cons.prems NotSent by (simp add: split_beta)
  next
    case NoReply
    have "ping_inv (k + 1) xs (fst (ping_turn i NoReply r))"
      using Cons.prems unat_Suc32 [of k "pr_sent r"] by (simp add: ping_inv_def ping_turn_def Let_def)
    from Cons.IH [OF this, of "i + 1"] show ?thesis using Cons.prems NoReply by (simp add: split_beta)
  qed
qed simp


definition demo_answers :: "nat \<Rightarrow> ping_answer" where
  "demo_answers i = (if i = 1 then NoReply else if i = 2 then Reply 7400 else Reply 3999)"


section \<open>Connections\<close>

definition is_got_ip :: "net_event \<Rightarrow> bool" where
  "is_got_ip e = (case e of GotIp _ _ _ _ \<Rightarrow> True | _ \<Rightarrow> False)"

definition is_disconnect :: "net_event \<Rightarrow> bool" where
  "is_disconnect e = (case e of StaDisconnected _ \<Rightarrow> True | _ \<Rightarrow> False)"

text \<open>The disconnections before the first address.\<close>

definition drops :: "net_event list \<Rightarrow> nat" where
  "drops evs = length (filter is_disconnect (takeWhile (\<lambda>e. \<not> is_got_ip e) evs))"

lemma drops_simps [simp]:
  "drops [] = 0" "drops (GotIp a b c d # es) = 0" "drops (StaDisconnected r # es) = Suc (drops es)"
  "drops (StaStart # es) = drops es" "drops (ScanDone # es) = drops es" "drops (WifiOther # es) = drops es"
  "drops (IpOther # es) = drops es"
  by (simp_all add: drops_def is_got_ip_def is_disconnect_def)

definition net_ok :: "net \<Rightarrow> bool" where
  "net_ok s \<longleftrightarrow> 0 \<le> n_retry_count s \<and> n_retry_count s \<le> WIFI_MAX_RETRY"

lemma net_event_step_ok: "net_ok s \<Longrightarrow> net_ok (fst (net_event_step e s))"
  by (cases e) (auto simp: net_ok_def net_event_step_def Let_def WIFI_MAX_RETRY_def)

definition connect_outcome :: "net_event list \<Rightarrow> net \<Rightarrow> wifi_bit option \<Rightarrow> net \<Rightarrow> bool" where
  "connect_outcome es s b s' \<longleftrightarrow>
     b = (if int (drops es) > WIFI_MAX_RETRY - n_retry_count s then Some WIFI_FAIL_BIT
          else if list_ex is_got_ip es then Some WIFI_CONNECTED_BIT else None) \<and> net_ok s' \<and>
     n_initialised s' = n_initialised s \<and>
     (b = Some WIFI_CONNECTED_BIT \<longrightarrow> n_retry_count s' = 0 \<and> ns_connected (n_status s') \<and>
        ns_ssid (n_status s') = (if drops es = 0 then ns_ssid (n_status s) else []))"

lemma wait_connect_simps:
  "wait_connect (GotIp ip gw nm mac # es) s =
     (let (s1, tr) = ip_event_handler (GotIp ip gw nm mac) s in (Some WIFI_CONNECTED_BIT, s1, tr))"
  "wait_connect (StaDisconnected r # es) s =
     (let (s1, tr) = wifi_event_handler (StaDisconnected r) s in
      if n_retry_count s < WIFI_MAX_RETRY then (let (b, s2, tr') = wait_connect es s1 in (b, s2, tr @ tr'))
      else (Some WIFI_FAIL_BIT, s1, tr))"
  "e \<in> {StaStart, ScanDone, WifiOther, IpOther} \<Longrightarrow>
     \<exists>tr. wait_connect (e # es) s = (fst (wait_connect es s), fst (snd (wait_connect es s)), tr) \<and>
       drops (e # es) = drops es \<and> is_got_ip e = False"
  by (auto simp: net_event_step_def Let_def is_got_ip_def split_beta)

declare wait_connect.simps(2) [simp del]

lemma wait_connect_cases:
  "net_ok s \<Longrightarrow> wait_connect es s = (b, s', tr) \<Longrightarrow> connect_outcome es s b s'"
proof (induction es arbitrary: s b s' tr)
  case Nil
  then show ?case by (simp add: net_ok_def connect_outcome_def)
next
  case (Cons e es)
  have other: ?case if e: "e \<in> {StaStart, ScanDone, WifiOther, IpOther}"
  proof -
    obtain t where t: "wait_connect (e # es) s = (fst (wait_connect es s), fst (snd (wait_connect es s)), t)"
      "drops (e # es) = drops es" "is_got_ip e = False" using wait_connect_simps(3) [OF e, of es s] by blast
    have "connect_outcome es s (fst (wait_connect es s)) (fst (snd (wait_connect es s)))"
      by (rule Cons.IH [OF Cons.prems(1), of _ _ "snd (snd (wait_connect es s))"]) simp
    then show ?thesis using t Cons.prems(2) by (simp add: connect_outcome_def)
  qed
  show ?case
  proof (cases e)
    case (StaDisconnected r)
    let ?s1 = "fst (wifi_event_handler (StaDisconnected r) s)"
    have ok: "net_ok ?s1" using net_event_step_ok [OF Cons.prems(1), of e] StaDisconnected by (simp add: net_event_step_def)
    show ?thesis
    proof (cases "n_retry_count s < WIFI_MAX_RETRY")
      case True
      then obtain t where w: "wait_connect es ?s1 = (b, s', t)"
        using Cons.prems(2) StaDisconnected wait_connect_simps(2) [of r es s] by (auto simp: split_beta Let_def prod_eq_iff)
      have "n_retry_count ?s1 = n_retry_count s + 1" "n_initialised ?s1 = n_initialised s" "ns_ssid (n_status ?s1) = []"
        using True by (simp_all add: Let_def status_zero_def)
      note s1 = this
      from Cons.IH [OF ok w] show ?thesis unfolding connect_outcome_def s1 using StaDisconnected
        by (simp add: is_got_ip_def)
    next
      case False
      then have "n_retry_count s = WIFI_MAX_RETRY" "b = Some WIFI_FAIL_BIT" "s' = ?s1"
        using Cons.prems StaDisconnected wait_connect_simps(2) [of r es s] by (auto simp: net_ok_def split_beta Let_def)
      then show ?thesis using StaDisconnected ok by (simp add: connect_outcome_def Let_def)
    qed
  next
    case (GotIp ip gw nm mac)
    then show ?thesis using Cons.prems wait_connect_simps(1) [of ip gw nm mac es s]
      by (simp add: connect_outcome_def net_ok_def WIFI_MAX_RETRY_def is_got_ip_def) auto
  qed (rule other, simp)+
qed

text \<open>Claim C37: a connection attempt on a started network succeeds exactly when an address arrives before
  the sixth disconnection (each of the first five is answered with a new attempt); the retry counter stays in
  \<open>0..5\<close> and is 0 again after success, but the name of the network survives only if there was no disconnection,
  since the handler clears the whole status.\<close>

theorem os_wifi_connect_outcome:
  assumes "n_initialised s"
  shows "\<exists>r s' tr. os_wifi_connect ESP_OK evs (Some n) pw s = Some (r, s', tr) \<and> net_ok s' \<and>
    (r = ESP_OK \<longleftrightarrow> list_ex is_got_ip evs \<and> drops evs \<le> 5) \<and> (r = ESP_OK \<or> r = ESP_FAIL) \<and>
    (r = ESP_OK \<longrightarrow> ns_connected (n_status s') \<and> n_retry_count s' = 0 \<and>
       ns_ssid (n_status s') = (if drops evs = 0 then take 32 n else []))"
proof -
  let ?s1 = "s\<lparr>n_retry_count := 0, n_status := (n_status s)\<lparr>ns_ssid := cstr 33 n\<rparr>\<rparr>"
  obtain b s2 tr where w: "wait_connect evs ?s1 = (b, s2, tr)" by (metis prod.collapse)
  have "net_ok ?s1" by (simp add: net_ok_def WIFI_MAX_RETRY_def)
  note c = wait_connect_cases [OF this w, unfolded connect_outcome_def]
  have "os_wifi_connect ESP_OK evs (Some n) pw s = Some (if b = Some WIFI_CONNECTED_BIT then ESP_OK else ESP_FAIL, s2,
      snd (snd (the (os_wifi_connect ESP_OK evs (Some n) pw s))))"
    using assms by (simp add: os_wifi_connect_def Let_def w)
  moreover have "cstr 33 n = take 32 n" by (simp add: cstr_def)
  moreover have "b = Some WIFI_CONNECTED_BIT \<longleftrightarrow> list_ex is_got_ip evs \<and> drops evs \<le> 5"
    using c by (simp add: WIFI_MAX_RETRY_def)
  ultimately show ?thesis using c
    by (intro exI [of _ "if b = Some WIFI_CONNECTED_BIT then ESP_OK else ESP_FAIL"] exI [of _ s2] exI) auto
qed

definition demo_net :: net where "demo_net = net_boot\<lparr>n_initialised := True\<rparr>"

definition demo_events :: "net_event list" where
  "demo_events = [StaDisconnected 201, StaDisconnected 15, GotIp (10, 0, 0, 2) (10, 0, 0, 1) (255, 255, 255, 0) [1, 2, 3, 4, 5, 6]]"

theorem os_wifi_connect_outcome_witness:
  "\<exists>s' tr. os_wifi_connect ESP_OK demo_events (Some ''lab'') None demo_net = Some (ESP_OK, s', tr) \<and> net_ok s' \<and>
     ns_connected (n_status s') \<and> ns_ssid (n_status s') = []"
proof -
  have "n_initialised demo_net" by (simp add: demo_net_def)
  from os_wifi_connect_outcome [OF this, of demo_events "''lab''" None]
  show ?thesis by (auto simp: demo_events_def is_got_ip_def)
qed

text \<open>The configuration given to the driver holds 31 of the 32 characters a network's name may have; a name of
  32 characters fills the 32 bytes copied into a scan result, with no terminator from the copy.\<close>

lemma wifi_config_cuts_name: "length n = 32 \<Longrightarrow> wc_ssid (wifi_config_of n pw) = take 31 n"
  by (simp add: wifi_config_of_def Let_def cstr_def)

text \<open>The retry counter is bounded whatever the events and operations.\<close>

lemma net_ok_boot: "net_ok net_boot"
  by (simp add: net_ok_def net_boot_def WIFI_MAX_RETRY_def)

lemma os_wifi_connect_ok:
  "net_ok s \<Longrightarrow> os_wifi_connect c evs n pw s = Some (r, s', tr) \<Longrightarrow>
     net_ok s' \<and> n_initialised s' = n_initialised s"
proof (cases "n_initialised s \<and> n \<noteq> None \<and> c = ESP_OK")
  case True
  moreover assume o: "os_wifi_connect c evs n pw s = Some (r, s', tr)"
  ultimately obtain x where n: "n = Some x" by auto
  let ?s1 = "s\<lparr>n_retry_count := 0, n_status := (n_status s)\<lparr>ns_ssid := cstr 33 x\<rparr>\<rparr>"
  obtain b s2 t where w: "wait_connect evs ?s1 = (b, s2, t)" by (metis prod.collapse)
  have "net_ok ?s1" by (simp add: net_ok_def WIFI_MAX_RETRY_def)
  note cs = wait_connect_cases [OF this w, unfolded connect_outcome_def]
  from o True n w have "s' = s2" by (auto simp: os_wifi_connect_def Let_def split: if_splits)
  then show ?thesis using cs by simp
next
  case False
  moreover assume "os_wifi_connect c evs n pw s = Some (r, s', tr)" "net_ok s"
  ultimately show ?thesis by (auto simp: os_wifi_connect_def Let_def split: option.splits if_splits)
qed
end
