(* ===== verification/Drivers.thy ===== *)
theory Drivers
  imports Fmt
begin

text \<open>
  Peripheral drivers, \<^verbatim>\<open>src/components/os_drivers/src/os_drivers.c\<close>: GPIO with its table of
  directions, ADC, the I2C master, SPI and the additional UART ports.

  The ESP-IDF drivers are outside: the results of their calls are arguments, the calls are in the traces.
  An I2C transaction is the list of the steps queued on its command link; a byte that is read goes to an
  offset from the buffer the caller gave.
\<close>

section \<open>GPIO\<close>

definition GPIO_MAX_PIN :: nat where "GPIO_MAX_PIN = 39"

datatype gpio_dir =
    GPIO_DIR_INPUT | GPIO_DIR_OUTPUT | GPIO_DIR_INPUT_PULLUP | GPIO_DIR_INPUT_PULLDOWN | GPIO_DIR_OUTPUT_OD
  | GPIO_DIR_OTHER int   \<comment> \<open>an integer outside the enum\<close>

datatype gpio_mode = GPIO_MODE_INPUT | GPIO_MODE_OUTPUT | GPIO_MODE_OUTPUT_OD

record gpio_config =
  gc_pin_bit_mask :: "64 word"
  gc_mode :: gpio_mode
  gc_pull_up :: bool
  gc_pull_down :: bool

record gpio =
  g_dir :: "nat list"
  g_initialised :: bool

datatype i2c_op =
    I2cStart | I2cStop | I2cWriteByte "8 word" | I2cWrite "8 word list"
  | I2cRead int nat   \<comment> \<open>so many bytes to this offset, each acknowledged\<close>
  | I2cReadByte int   \<comment> \<open>one byte to this offset, not acknowledged\<close>

record spi_config =
  sc_pins :: "int \<times> int \<times> int \<times> int"
  sc_clock_hz :: "32 word"

datatype hw_call =
    GpioConfig gpio_config | GpioSetLevel nat nat | GpioGetLevel nat
  | AdcNewUnit | AdcConfigChannel "nat option" nat | AdcCreateCali | AdcRead "nat option" nat | AdcToVoltage nat int
  | I2cParamConfig int int "32 word" | I2cInstall | I2cDelete | I2cBegin "i2c_op list"
  | SpiBusInit spi_config | SpiAddDevice | SpiRemoveDevice "nat option" | SpiBusFree | SpiTransmit "nat option" nat
  | UartInstall int int int | UartParam int int | UartSetPin int int int
  | HwPrint int string   \<comment> \<open>\<^verbatim>\<open>fd_printf\<close>: descriptor and text\<close>

definition gpio_boot :: gpio where
  "gpio_boot = \<lparr>g_dir = replicate (GPIO_MAX_PIN + 1) 0, g_initialised = False\<rparr>"

definition gpio_driver_init :: "gpio \<Rightarrow> esp_err \<times> gpio \<times> hw_call eff list" where
  "gpio_driver_init s =
     (ESP_OK, \<lparr>g_dir = replicate (GPIO_MAX_PIN + 1) 0, g_initialised = True\<rparr>, [Log OS_LOG_DEBUG ''GPIO driver ready''])"

definition gpio_pin_valid :: "int \<Rightarrow> bool" where
  "gpio_pin_valid pin \<longleftrightarrow> 0 \<le> pin \<and> pin \<le> int GPIO_MAX_PIN"

text \<open>The mode and the pulls of a direction.\<close>

primrec gpio_dir_config :: "gpio_dir \<Rightarrow> (gpio_mode \<times> bool \<times> bool) option" where
  "gpio_dir_config GPIO_DIR_OUTPUT = Some (GPIO_MODE_OUTPUT, False, False)"
| "gpio_dir_config GPIO_DIR_OUTPUT_OD = Some (GPIO_MODE_OUTPUT_OD, False, False)"
| "gpio_dir_config GPIO_DIR_INPUT = Some (GPIO_MODE_INPUT, False, False)"
| "gpio_dir_config GPIO_DIR_INPUT_PULLUP = Some (GPIO_MODE_INPUT, True, False)"
| "gpio_dir_config GPIO_DIR_INPUT_PULLDOWN = Some (GPIO_MODE_INPUT, False, True)"
| "gpio_dir_config (GPIO_DIR_OTHER i) = None"

definition gpio_driver_set_dir ::
  "esp_err \<Rightarrow> int \<Rightarrow> gpio_dir \<Rightarrow> gpio \<Rightarrow> esp_err \<times> gpio \<times> hw_call eff list" where
  "gpio_driver_set_dir cfg_ret pin d s =
     (if \<not> gpio_pin_valid pin then (ESP_ERR_INVALID_ARG, s, [])
      else
        case gpio_dir_config d of
          None \<Rightarrow> (ESP_ERR_INVALID_ARG, s, [])
        | Some (m, up, down) \<Rightarrow>
            (cfg_ret,
             if cfg_ret = ESP_OK
             then s\<lparr>g_dir := (g_dir s)[nat pin := if d = GPIO_DIR_OUTPUT \<or> d = GPIO_DIR_OUTPUT_OD then 1 else 0]\<rparr>
             else s,
             [Ext (GpioConfig \<lparr>gc_pin_bit_mask = push_bit (nat pin) 1, gc_mode = m, gc_pull_up = up, gc_pull_down = down\<rparr>)]))"

definition gpio_driver_read :: "(nat \<Rightarrow> nat) \<Rightarrow> int \<Rightarrow> int \<times> hw_call eff list" where
  "gpio_driver_read level pin =
     (if \<not> gpio_pin_valid pin then (- 1, []) else (int (level (nat pin)), [Ext (GpioGetLevel (nat pin))]))"

definition gpio_driver_write ::
  "esp_err \<Rightarrow> esp_err \<Rightarrow> int \<Rightarrow> int \<Rightarrow> gpio \<Rightarrow> esp_err \<times> gpio \<times> hw_call eff list" where
  "gpio_driver_write cfg_ret level_ret pin val s =
     (if \<not> gpio_pin_valid pin then (ESP_ERR_INVALID_ARG, s, [])
      else
        let (r, s1, tr) = (if g_dir s ! nat pin = 0 then gpio_driver_set_dir cfg_ret pin GPIO_DIR_OUTPUT s
                           else (ESP_OK, s, []))
        in if r \<noteq> ESP_OK then (r, s1, tr)
           else (level_ret, s1, tr @ [Ext (GpioSetLevel (nat pin) (if val \<noteq> 0 then 1 else 0))]))"

text \<open>The texts printed by \<^verbatim>\<open>gpio_driver_print_info\<close>; the pins of the flash are left out.\<close>

definition gpio_driver_print_info :: "(nat \<Rightarrow> nat) \<Rightarrow> gpio \<Rightarrow> string list" where
  "gpio_driver_print_info level s =
     [crlf @ padr 6 ''PIN'' @ '' '' @ padr 8 ''DIR'' @ '' '' @ padr 6 ''LEVEL'' @ crlf,
      padr 6 ''---'' @ '' '' @ padr 8 ''---'' @ '' '' @ padr 6 ''-----'' @ crlf] @
     map (\<lambda>i. ''GPIO'' @ padr 2 (dec i) @ '' '' @ padr 8 (if g_dir s ! i \<noteq> 0 then ''OUTPUT'' else ''INPUT'') @ '' ''
            @ padr 6 (dec (level i)) @ crlf)
       (filter (\<lambda>i. i \<notin> {6, 7, 8, 9, 10, 11}) [0..<GPIO_MAX_PIN + 1]) @ [crlf]"

section \<open>ADC\<close>

definition ADC_CH_COUNT :: nat where "ADC_CH_COUNT = 8"

record adc =
  a_unit :: "nat option"
  a_cali :: "nat option"
  a_init :: bool

definition adc_boot :: adc where "adc_boot = \<lparr>a_unit = None, a_cali = None, a_init = False\<rparr>"

text \<open>\<open>new_unit\<close> and \<open>new_cali\<close> are the handles the creating calls store, when they succeed; \<open>cali\<close> says whether
  the line fitting scheme is compiled in.  The map of channels is the identity.\<close>

definition adc_driver_init :: "bool \<Rightarrow> nat option \<Rightarrow> nat option \<Rightarrow> adc \<Rightarrow> esp_err \<times> adc \<times> hw_call eff list" where
  "adc_driver_init cali new_unit new_cali s =
     (let (s1, t1) = (if a_unit s = None then (s\<lparr>a_unit := new_unit\<rparr>, [Ext AdcNewUnit]) else (s, []));
          t2 = map (\<lambda>ch. Ext (AdcConfigChannel (a_unit s1) ch)) [0..<ADC_CH_COUNT];
          (s3, t3) = (if a_cali s1 = None \<and> cali then (s1\<lparr>a_cali := new_cali\<rparr>, [Ext AdcCreateCali]) else (s1, []))
      in (ESP_OK, s3\<lparr>a_init := True\<rparr>, t1 @ t2 @ t3 @ [Log OS_LOG_DEBUG ''ADC driver ready (%zu channels)'']))"

text \<open>\<open>read u ch\<close> is what the unit reads on the channel, or a failure.\<close>

definition adc_driver_read_raw ::
  "bool \<Rightarrow> nat option \<Rightarrow> nat option \<Rightarrow> (nat option \<Rightarrow> nat \<Rightarrow> int option) \<Rightarrow> int \<Rightarrow> adc \<Rightarrow> int \<times> adc \<times> hw_call eff list" where
  "adc_driver_read_raw cali new_unit new_cali read ch s =
     (if ch < 0 \<or> int ADC_CH_COUNT \<le> ch then (- 1, s, [])
      else
        let (s1, tr) = (if a_init s then (s, []) else snd (adc_driver_init cali new_unit new_cali s)) in
        (case read (a_unit s1) (nat ch) of None \<Rightarrow> - 1 | Some raw \<Rightarrow> raw, s1,
         tr @ [Ext (AdcRead (a_unit s1) (nat ch))]))"

definition adc_driver_read_mv ::
  "bool \<Rightarrow> nat option \<Rightarrow> nat option \<Rightarrow> (nat option \<Rightarrow> nat \<Rightarrow> int option) \<Rightarrow> (nat \<Rightarrow> int \<Rightarrow> int option) \<Rightarrow> int \<Rightarrow> adc
   \<Rightarrow> int \<times> adc \<times> hw_call eff list" where
  "adc_driver_read_mv cali new_unit new_cali read volt ch s =
     (let (raw, s1, tr) = adc_driver_read_raw cali new_unit new_cali read ch s in
      if raw < 0 then (- 1, s1, tr)
      else
        case a_cali s1 of
          None \<Rightarrow> (raw, s1, tr)
        | Some c \<Rightarrow> (case volt c raw of None \<Rightarrow> raw | Some mv \<Rightarrow> mv, s1, tr @ [Ext (AdcToVoltage c raw)]))"

section \<open>I2C\<close>

definition I2C_DEFAULT_SDA :: int where "I2C_DEFAULT_SDA = 21"
definition I2C_DEFAULT_SCL :: int where "I2C_DEFAULT_SCL = 22"
definition I2C_DEFAULT_FREQ_HZ :: "32 word" where "I2C_DEFAULT_FREQ_HZ = 100000"

text \<open>The state is the flag \<^verbatim>\<open>s_i2c_init\<close>.\<close>

definition i2c_driver_deinit :: "bool \<Rightarrow> bool \<times> hw_call eff list" where
  "i2c_driver_deinit ini = (if ini then (False, [Ext I2cDelete]) else (ini, []))"

definition i2c_driver_init ::
  "esp_err \<Rightarrow> esp_err \<Rightarrow> int \<Rightarrow> int \<Rightarrow> 32 word \<Rightarrow> bool \<Rightarrow> esp_err \<times> bool \<times> hw_call eff list" where
  "i2c_driver_init param install sda scl freq_hz ini =
     (let (i1, t1) = (if ini then i2c_driver_deinit ini else (ini, []));
          t2 = t1 @ [Ext (I2cParamConfig sda scl (if freq_hz \<noteq> 0 then freq_hz else I2C_DEFAULT_FREQ_HZ))]
      in if param \<noteq> ESP_OK then (param, i1, t2)
         else if install = ESP_OK
         then (install, True, t2 @ [Ext I2cInstall, Log OS_LOG_DEBUG ''I2C driver ready (SDA=%d SCL=%d freq=%u Hz)''])
         else (install, i1, t2 @ [Ext I2cInstall]))"

text \<open>The address byte: the address shifted by one, with the direction bit.\<close>

definition addr_write :: "8 word \<Rightarrow> 8 word" where "addr_write a = push_bit 1 a"
definition addr_read :: "8 word \<Rightarrow> 8 word" where "addr_read a = or (push_bit 1 a) 1"

definition probe :: "8 word \<Rightarrow> i2c_op list" where
  "probe a = [I2cStart, I2cWriteByte (addr_write a), I2cStop]"

definition hex2u :: "nat \<Rightarrow> string" where
  "hex2u n = [''0123456789ABCDEF'' ! (n div 16), ''0123456789ABCDEF'' ! (n mod 16)]"

text \<open>One cell of the table: the text, the transaction, and whether a device answered.\<close>

definition scan_cell :: "(nat \<Rightarrow> bool) \<Rightarrow> nat \<Rightarrow> string \<times> hw_call eff list \<times> nat" where
  "scan_cell acks a =
     (if a < 0x08 \<or> 0x77 < a then (''   '', [], 0)
      else if acks a then ('' '' @ hex2u a, [Ext (I2cBegin (probe (of_nat a)))], 1)
      else ('' --'', [Ext (I2cBegin (probe (of_nat a)))], 0))"

definition scan_row :: "(nat \<Rightarrow> bool) \<Rightarrow> nat \<Rightarrow> string list \<times> hw_call eff list \<times> nat" where
  "scan_row acks row =
     (let cells = map (\<lambda>col. scan_cell acks (row * 16 + col)) [0..<16]
      in ([hex2u (row * 16) @ '':''] @ map fst cells @ [crlf], concat (map (fst \<circ> snd) cells), sum_list (map (snd \<circ> snd) cells)))"

definition i2c_driver_scan ::
  "esp_err \<Rightarrow> esp_err \<Rightarrow> (nat \<Rightarrow> bool) \<Rightarrow> int \<Rightarrow> int \<Rightarrow> bool \<Rightarrow> string list \<times> bool \<times> hw_call eff list" where
  "i2c_driver_scan param install acks sda scl ini =
     (let (_, i1, tr) = i2c_driver_init param install sda scl I2C_DEFAULT_FREQ_HZ ini;
          rows = map (scan_row acks) [0..<8];
          found = sum_list (map (snd \<circ> snd) rows)
      in (concat (map fst rows) @ [crlf @ dec found @ '' device(s) found'' @ crlf], i1,
          tr @ concat (map (fst \<circ> snd) rows)))"

text \<open>\<open>begin_ret\<close> is the result of the transaction.\<close>

definition i2c_driver_read :: "esp_err \<Rightarrow> 8 word \<Rightarrow> 8 word \<Rightarrow> nat \<Rightarrow> bool \<Rightarrow> esp_err \<times> hw_call eff list" where
  "i2c_driver_read begin_ret dev reg len ini =
     (if \<not> ini then (ESP_ERR_INVALID_STATE, [])
      else (begin_ret, [Ext (I2cBegin ([I2cStart, I2cWriteByte (addr_write dev), I2cWriteByte reg, I2cStart,
              I2cWriteByte (addr_read dev)] @ (if 1 < len then [I2cRead 0 (len - 1)] else []) @
              [I2cReadByte (int len - 1), I2cStop]))]))"

definition i2c_driver_write :: "esp_err \<Rightarrow> 8 word \<Rightarrow> 8 word \<Rightarrow> 8 word list \<Rightarrow> bool \<Rightarrow> esp_err \<times> hw_call eff list" where
  "i2c_driver_write begin_ret dev reg bytes ini =
     (if \<not> ini then (ESP_ERR_INVALID_STATE, [])
      else (begin_ret, [Ext (I2cBegin [I2cStart, I2cWriteByte (addr_write dev), I2cWriteByte reg, I2cWrite bytes, I2cStop])]))"

section \<open>SPI, UART, and all together\<close>

definition SPI_DEFAULT_FREQ :: "32 word" where "SPI_DEFAULT_FREQ = 1000000"

record spi =
  sp_dev :: "nat option"
  sp_init :: bool

text \<open>\<open>add\<close> is the handle of the added device, or the error.\<close>

definition spi_driver_init ::
  "esp_err \<Rightarrow> esp_err + nat \<Rightarrow> int \<Rightarrow> int \<Rightarrow> int \<Rightarrow> int \<Rightarrow> 32 word \<Rightarrow> spi \<Rightarrow> esp_err \<times> spi \<times> hw_call eff list" where
  "spi_driver_init bus add mosi miso clk cs freq_hz s =
     (let cfg = \<lparr>sc_pins = (mosi, miso, clk, cs), sc_clock_hz = (if freq_hz \<noteq> 0 then freq_hz else SPI_DEFAULT_FREQ)\<rparr> in
      if bus \<noteq> ESP_OK \<and> bus \<noteq> ESP_ERR_INVALID_STATE then (bus, s, [Ext (SpiBusInit cfg)])
      else
        case add of
          Inl e \<Rightarrow> (e, s, [Ext (SpiBusInit cfg), Ext SpiAddDevice])
        | Inr h \<Rightarrow> (ESP_OK, s\<lparr>sp_dev := Some h, sp_init := True\<rparr>,
            [Ext (SpiBusInit cfg), Ext SpiAddDevice, Log OS_LOG_DEBUG ''SPI driver ready (MOSI=%d MISO=%d CLK=%d CS=%d)'']))"

definition spi_driver_deinit :: "spi \<Rightarrow> spi \<times> hw_call eff list" where
  "spi_driver_deinit s =
     (if sp_init s then (s\<lparr>sp_init := False\<rparr>, [Ext (SpiRemoveDevice (sp_dev s)), Ext SpiBusFree]) else (s, []))"

definition spi_driver_transfer :: "esp_err \<Rightarrow> nat \<Rightarrow> spi \<Rightarrow> esp_err \<times> hw_call eff list" where
  "spi_driver_transfer ret len s =
     (if \<not> sp_init s \<or> len = 0 then (ESP_ERR_INVALID_STATE, []) else (ret, [Ext (SpiTransmit (sp_dev s) (len * 8))]))"

definition uart_driver_init_port :: "int \<Rightarrow> int \<Rightarrow> int \<Rightarrow> int \<Rightarrow> int \<Rightarrow> esp_err \<times> hw_call eff list" where
  "uart_driver_init_port port tx rx baud buf_sz =
     (ESP_OK, [Ext (UartInstall port buf_sz buf_sz), Ext (UartParam port baud), Ext (UartSetPin port tx rx),
        Log OS_LOG_DEBUG ''UART%d ready (TX=%d RX=%d baud=%d)''])"

record drivers =
  dr_gpio :: gpio
  dr_adc :: adc
  dr_i2c :: bool
  dr_spi :: spi

definition drivers_boot :: drivers where
  "drivers_boot = \<lparr>dr_gpio = gpio_boot, dr_adc = adc_boot, dr_i2c = False, dr_spi = \<lparr>sp_dev = None, sp_init = False\<rparr>\<rparr>"

definition os_hal_init ::
  "bool \<Rightarrow> nat option \<Rightarrow> nat option \<Rightarrow> esp_err \<Rightarrow> esp_err \<Rightarrow> drivers \<Rightarrow> esp_err \<times> drivers \<times> hw_call eff list" where
  "os_hal_init cali new_unit new_cali param install s =
     (let (_, g, t1) = gpio_driver_init (dr_gpio s);
          (_, a, t2) = adc_driver_init cali new_unit new_cali (dr_adc s);
          (_, i, t3) = i2c_driver_init param install I2C_DEFAULT_SDA I2C_DEFAULT_SCL I2C_DEFAULT_FREQ_HZ (dr_i2c s)
      in (ESP_OK, s\<lparr>dr_gpio := g, dr_adc := a, dr_i2c := i\<rparr>,
          t1 @ t2 @ t3 @ [Log OS_LOG_INFO ''HAL initialised (GPIO/ADC/I2C/SPI ready)'']))"

section \<open>A level is set on outputs only\<close>

text \<open>
  The pins as the hardware has them: a successful configuration gives the pins of its mask its mode.  A trace
  is replayed on it; what is recorded are the level settings, each with the mode of its pin at that moment.
\<close>

type_synonym pins = "nat \<Rightarrow> gpio_mode option"

fun replay :: "bool \<Rightarrow> hw_call list \<Rightarrow> pins \<Rightarrow> (nat \<times> nat \<times> gpio_mode option) list \<times> pins" where
  "replay cfg_ok [] m = ([], m)"
| "replay cfg_ok (GpioConfig c # cs) m =
     replay cfg_ok cs (if cfg_ok then (\<lambda>p. if bit (gc_pin_bit_mask c) p then Some (gc_mode c) else m p) else m)"
| "replay cfg_ok (GpioSetLevel p v # cs) m = (let (ls, m') = replay cfg_ok cs m in ((p, v, m p) # ls, m'))"
| "replay cfg_ok (_ # cs) m = replay cfg_ok cs m"

datatype gpio_op = GInit | GSetDir esp_err int gpio_dir | GWrite esp_err esp_err int int

definition gpio_step :: "gpio_op \<Rightarrow> gpio \<times> pins \<Rightarrow> (nat \<times> nat \<times> gpio_mode option) list \<times> (gpio \<times> pins)" where
  "gpio_step x sm =
     (let (c, (_, s', tr)) =
        (case x of
           GInit \<Rightarrow> (ESP_OK, gpio_driver_init (fst sm))
         | GSetDir c pin d \<Rightarrow> (c, gpio_driver_set_dir c pin d (fst sm))
         | GWrite c l pin v \<Rightarrow> (c, gpio_driver_write c l pin v (fst sm)));
          (ls, m') = replay (c = ESP_OK) (ext_calls tr) (snd sm)
      in (ls, (s', m')))"

definition is_output :: "gpio_mode option \<Rightarrow> bool" where
  "is_output m \<longleftrightarrow> m = Some GPIO_MODE_OUTPUT \<or> m = Some GPIO_MODE_OUTPUT_OD"

text \<open>The table is right about the pins it takes for outputs.\<close>

definition gpio_ok :: "gpio \<times> pins \<Rightarrow> bool" where
  "gpio_ok sm \<longleftrightarrow> length (g_dir (fst sm)) = GPIO_MAX_PIN + 1 \<and>
     (\<forall>p \<le> GPIO_MAX_PIN. g_dir (fst sm) ! p \<noteq> 0 \<longrightarrow> is_output (snd sm p))"

lemma bit_pin: "pin < 64 \<Longrightarrow> bit ((2 :: 64 word) ^ pin) p \<longleftrightarrow> p = pin"
  by (auto simp: bit_simps)

lemma gpio_ok_boot: "gpio_ok (gpio_boot, m)"
  by (simp add: gpio_ok_def gpio_boot_def GPIO_MAX_PIN_def)

lemma set_dir_ok:
  assumes ok: "gpio_ok (s, m)" and r: "gpio_driver_set_dir c pin d s = (r, s', tr)"
    and p: "replay (c = ESP_OK) (ext_calls tr @ cs) m = (ls, m')"
  shows "\<exists>m1. gpio_ok (s', m1) \<and> replay (c = ESP_OK) cs m1 = (ls, m') \<and>
    (gpio_pin_valid pin \<and> r = ESP_OK \<and> d = GPIO_DIR_OUTPUT \<longrightarrow> is_output (m1 (nat pin)))"
proof (cases "gpio_pin_valid pin \<and> gpio_dir_config d \<noteq> None")
  case False
  then show ?thesis using assms by (auto simp: gpio_driver_set_dir_def split: if_splits option.splits)
next
  case True
  then obtain md up down where d: "gpio_dir_config d = Some (md, up, down)" and v: "gpio_pin_valid pin" by auto
  then have np: "nat pin < 64" "nat pin \<le> GPIO_MAX_PIN" by (auto simp: gpio_pin_valid_def GPIO_MAX_PIN_def)
  define m1 where "m1 = (if c = ESP_OK then (\<lambda>p. if p = nat pin then Some md else m p) else m)"
  have out: "(d = GPIO_DIR_OUTPUT \<or> d = GPIO_DIR_OUTPUT_OD) \<longleftrightarrow> is_output (Some md)"
    using d by (cases d) (auto simp: is_output_def)
  have s': "s' = (if c = ESP_OK then s\<lparr>g_dir := (g_dir s)[nat pin := if is_output (Some md) then 1 else 0]\<rparr> else s)"
    and tr: "replay (c = ESP_OK) cs m1 = (ls, m')" and "r = c"
    using r p v d np by (auto simp: gpio_driver_set_dir_def out m1_def bit_pin cong: if_cong)
  moreover have "gpio_ok (s', m1)" using ok np by (auto simp: gpio_ok_def s' m1_def nth_list_update)
  ultimately show ?thesis using out by (auto simp: m1_def)
qed

lemma gpio_step_ok:
  assumes "gpio_ok sm" and "gpio_step x sm = (ls, sm')"
  shows "gpio_ok sm' \<and> (\<forall>(p, v, md) \<in> set ls. is_output md \<and> v \<le> 1 \<and> p \<le> GPIO_MAX_PIN)"
proof -
  obtain s m where sm: "sm = (s, m)" by (cases sm)
  show ?thesis
  proof (cases x)
    case GInit
    then show ?thesis using assms by (auto simp: sm gpio_step_def gpio_driver_init_def gpio_ok_def GPIO_MAX_PIN_def)
  next
    case (GSetDir c pin d)
    obtain r s' tr where sd: "gpio_driver_set_dir c pin d s = (r, s', tr)" by (metis prod.collapse)
    obtain ls' m' where p: "replay (c = ESP_OK) (ext_calls tr) m = (ls', m')" by (metis prod.collapse)
    then show ?thesis using set_dir_ok [of s m c pin d r s' tr "[]"] assms GSetDir sd
      by (simp add: sm gpio_step_def)
  next
    case (GWrite c l pin v)
    show ?thesis
    proof (cases "gpio_pin_valid pin")
      case False
      then show ?thesis using assms GWrite by (auto simp: sm gpio_step_def gpio_driver_write_def)
    next
      case True
      then have np: "nat pin \<le> GPIO_MAX_PIN" by (auto simp: gpio_pin_valid_def)
      let ?lv = "GpioSetLevel (nat pin) (if v \<noteq> 0 then 1 else 0)"
      show ?thesis
      proof (cases "g_dir s ! nat pin = 0")
        case False
        then have "is_output (m (nat pin))" using assms(1) np by (simp add: sm gpio_ok_def)
        then show ?thesis using assms GWrite True False np by (auto simp: sm gpio_step_def gpio_driver_write_def)
      next
        case conf: True
        obtain r s' tr where sd: "gpio_driver_set_dir c pin GPIO_DIR_OUTPUT s = (r, s', tr)" by (metis prod.collapse)
        let ?cs = "if r = ESP_OK then [?lv] else []"
        obtain ls' m' where p: "replay (c = ESP_OK) (ext_calls tr @ ?cs) m = (ls', m')" by (metis prod.collapse)
        obtain m1 where m1: "gpio_ok (s', m1)" "replay (c = ESP_OK) ?cs m1 = (ls', m')"
          "r = ESP_OK \<longrightarrow> is_output (m1 (nat pin))"
          using set_dir_ok [of s m c pin GPIO_DIR_OUTPUT r s' tr ?cs] assms(1) sd p True by (auto simp: sm)
        have "gpio_step x sm = (ls', (s', m'))"
          using GWrite True conf sd p by (auto simp: sm gpio_step_def gpio_driver_write_def)
        then show ?thesis using assms(2) m1 np by (auto split: if_splits)
      qed
    qed
  qed
qed

interpretation gpio_table: guarded "\<lambda>x sm. snd (gpio_step x sm)" "\<lambda>_. True" gpio_ok
  by unfold_locales (metis gpio_step_ok prod.collapse)

text \<open>Claim C28: whatever directions are set and levels written, with whatever results of the GPIO driver,
  a level is only ever set on a pin in range that the hardware has in an output mode at that moment, and it is 0 or 1.\<close>

theorem gpio_levels_on_outputs:
  assumes "gpio_step x (run (\<lambda>x sm. snd (gpio_step x sm)) ops (gpio_boot, m)) = (ls, sm')" and "(p, v, md) \<in> set ls"
  shows "(md = Some GPIO_MODE_OUTPUT \<or> md = Some GPIO_MODE_OUTPUT_OD) \<and> v \<le> 1 \<and> p \<le> GPIO_MAX_PIN"
  using gpio_step_ok [OF gpio_table.run_inv [OF _ gpio_ok_boot] assms(1)] assms(2)
  by (auto simp: is_output_def list_all_iff)

theorem gpio_levels_on_outputs_witness:
  "fst (gpio_step (GWrite ESP_OK ESP_OK 4 7) (run (\<lambda>x sm. snd (gpio_step x sm)) [GSetDir ESP_OK 4 GPIO_DIR_INPUT] (gpio_boot, \<lambda>_. None)))
     = [(4, 1, Some GPIO_MODE_OUTPUT)] \<and> (1 :: nat) \<le> 1 \<and> (4 :: nat) \<le> GPIO_MAX_PIN"
proof -
  let ?c = "gpio_step (GWrite ESP_OK ESP_OK 4 7) (run (\<lambda>x sm. snd (gpio_step x sm)) [GSetDir ESP_OK 4 GPIO_DIR_INPUT] (gpio_boot, \<lambda>_. None))"
  have e: "fst ?c = [(4, 1, Some GPIO_MODE_OUTPUT)]"
    by (simp add: gpio_step_def gpio_driver_set_dir_def gpio_driver_write_def gpio_pin_valid_def GPIO_MAX_PIN_def gpio_boot_def bit_pin)
  then have "(4, 1, Some GPIO_MODE_OUTPUT) \<in> set (fst ?c)" by simp
  from gpio_levels_on_outputs [OF prod.collapse [symmetric] this] e show ?thesis by simp
qed

section \<open>The I2C bus\<close>

lemma upt_rows: "[0..<Suc n * k] = [0..<n * k] @ map (\<lambda>c. n * k + c) [0..<k]"
  using upt_add_eq_append [of 0 "n * k" k] map_add_upt [of "n * k" k] by (simp add: add.commute)

lemma concat_map_rows:
  "concat (map f [0..<n * k]) = concat (map (\<lambda>r. concat (map (\<lambda>c. f (r * k + c)) [0..<k])) [0..<n])"
  by (induction n) (simp_all only: upt_rows, simp_all add: comp_def)

lemma sum_rows: "sum_list (map f [0..<n * k]) = sum_list (map (\<lambda>r. sum_list (map (\<lambda>c. f (r * k + c)) [0..<k])) [0..<n])"
  for f :: "nat \<Rightarrow> nat"
  by (induction n) (simp_all only: upt_rows, simp_all add: comp_def)

lemma upt_128: "[0..<128] = [0..<8] @ [8..<120] @ [120..<128]"
  using upt_add_eq_append [of 0 8 120] upt_add_eq_append [of 8 120 8] by (simp del: upt_rec_numeral)

text \<open>A scan of the bus sets the bus up for the pins given and then addresses each of the 112
  ordinary 7-bit addresses, 0x08 to 0x77, exactly once and in order, and no reserved one; the number it reports is
  the number of those that acknowledged.\<close>

theorem i2c_scan_probes:
  shows "\<exists>texts ini' tr. i2c_driver_scan param install acks sda scl ini = (texts, ini', tr) \<and>
    ext_calls tr = ext_calls (snd (snd (i2c_driver_init param install sda scl I2C_DEFAULT_FREQ_HZ ini))) @
      map (\<lambda>a. I2cBegin (probe (of_nat a))) [0x08..<0x78] \<and>
    last texts = crlf @ dec (length (filter acks [0x08..<0x78])) @ '' device(s) found'' @ crlf"
proof -
  let ?c = "\<lambda>a. (if a < 8 \<or> 0x77 < a then [] else [Ext (I2cBegin (probe (of_nat a)))]) :: hw_call eff list"
  let ?n = "\<lambda>a. if a < 8 \<or> 0x77 < a \<or> \<not> acks a then 0 else 1 :: nat"
  have cell: "fst (snd (scan_cell acks a)) = ?c a" "snd (snd (scan_cell acks a)) = ?n a" for a
    by (simp_all add: scan_cell_def)
  have "concat (map (fst \<circ> snd) (map (scan_row acks) [0..<8])) = concat (map ?c [0..<8 * 16])"
    unfolding concat_map_rows by (simp add: scan_row_def Let_def comp_def cell del: upt_rec_numeral)
  also have "\<dots> = map (\<lambda>a. Ext (I2cBegin (probe (of_nat a)))) [8..<120]"
  proof -
    have e: "concat (map ?c [0..<8]) = []" "concat (map ?c [120..<128]) = []" by (auto simp del: upt_rec_numeral)
    have m: "concat (map ?c [8..<120]) = concat (map (\<lambda>a. [Ext (I2cBegin (probe (of_nat a)))]) [8..<120])"
      by (intro arg_cong [where f = concat] map_cong) (auto simp del: upt_rec_numeral)
    have "(8 * 16 :: nat) = 128" by simp
    then show ?thesis by (simp only: upt_128 map_append concat_append e m concat_map_singleton append.simps append_Nil2)
  qed
  finally have t: "concat (map (fst \<circ> snd) (map (scan_row acks) [0..<8])) = map (\<lambda>a. Ext (I2cBegin (probe (of_nat a)))) [8..<120]" .
  have "sum_list (map (snd \<circ> snd) (map (scan_row acks) [0..<8])) = sum_list (map ?n [0..<8 * 16])"
    unfolding sum_rows by (simp add: scan_row_def Let_def comp_def cell del: upt_rec_numeral)
  also have "\<dots> = length (filter acks [8..<120])"
  proof -
    have "sum_list (map ?n [0..<8]) = 0" "sum_list (map ?n [120..<128]) = 0" by (auto simp del: upt_rec_numeral)
    moreover have "sum_list (map ?n [8..<120]) = sum_list (map (\<lambda>a. if acks a then 1 else 0) [8..<120])"
      by (intro arg_cong [where f = sum_list] map_cong) (auto simp del: upt_rec_numeral)
    moreover have "sum_list (map (\<lambda>a. if acks a then 1 else 0) xs) = length (filter acks xs)" for xs
      by (induction xs) auto
    ultimately show ?thesis by (simp add: upt_128 del: upt_rec_numeral)
  qed
  finally have f: "sum_list (map (snd \<circ> snd) (map (scan_row acks) [0..<8])) = length (filter acks [8..<120])" .
  show ?thesis
    by (simp add: i2c_driver_scan_def split_beta Let_def t f del: map_map upt_rec_numeral)
qed

text \<open>The offsets of the caller's buffer that a transaction fills, in order.\<close>

definition read_offsets :: "i2c_op list \<Rightarrow> int list" where
  "read_offsets ops =
     concat (map (\<lambda>x. case x of I2cRead k n \<Rightarrow> map (\<lambda>i. k + int i) [0..<n] | I2cReadByte k \<Rightarrow> [k] | _ \<Rightarrow> []) ops)"

text \<open>Reading \<open>len\<close> bytes is one transaction that selects the register and fills the buffer from
  offset 0 to \<open>len - 1\<close>, each once and in order; with \<open>len = 0\<close> it reads one byte to the address
  before the buffer.\<close>

theorem i2c_driver_read_covers:
  "\<exists>ops. i2c_driver_read r dev reg len True = (r, [Ext (I2cBegin ops)]) \<and>
     take 3 ops = [I2cStart, I2cWriteByte (addr_write dev), I2cWriteByte reg] \<and>
     read_offsets ops = (if len = 0 then [- 1] else map int [0..<len])"
proof (cases "1 < len")
  case True
  then have "[0..<len] = [0..<len - 1] @ [len - 1]" by (metis One_nat_def Suc_diff_1 le0 less_imp_Suc_add upt_Suc_append zero_less_Suc)
  then have "map int [0..<len] = map int [0..<len - 1] @ [int len - 1]" using True by (simp add: of_nat_diff)
  then show ?thesis using True by (auto simp: i2c_driver_read_def read_offsets_def)
next
  case False
  then have "len = 0 \<or> len = 1" by auto
  then show ?thesis by (auto simp: i2c_driver_read_def read_offsets_def)
qed

text \<open>An address is sent in 7 bits: the high bit of the argument is lost.\<close>

lemma addr_write_high_bit: "addr_write (or a 0x80) = addr_write a"
proof -
  have "push_bit 1 (0x80 :: 8 word) = 0" by simp
  then show ?thesis by (simp only: addr_write_def push_bit_or or.right_neutral)
qed

text \<open>A second initialisation of SPI forgets the first device: it is never removed.\<close>

lemma spi_second_init_forgets:
  assumes "spi_driver_init b1 (Inr h1) a b c d f s = (ESP_OK, s1, t1)"
    and "spi_driver_init ESP_ERR_INVALID_STATE (Inr h2) a' b' c' d' f' s1 = (ESP_OK, s2, t2)"
    and "spi_driver_deinit s2 = (s3, t3)" and "h1 \<noteq> h2"
  shows "SpiRemoveDevice (Some h1) \<notin> set (ext_calls (t1 @ t2 @ t3))"
  using assms by (auto simp: spi_driver_init_def spi_driver_deinit_def Let_def split: if_splits)
end
