(* ===== verification/LineEdit.thy ===== *)
theory LineEdit
  imports Ring Fmt
begin

text \<open>
  The line editor and the line history of the shell, \<^verbatim>\<open>src/components/os_shell/src/os_shell.c\<close>
  (\<^verbatim>\<open>history_t\<close>, \<^verbatim>\<open>shell_redraw_line\<close>, \<^verbatim>\<open>shell_readline\<close>).

  The line buffer is its 256 characters, with what is left behind the end of the line; a byte
  read is a word of 8 bits.  What the editor writes to the session is a list of texts.  The
  specification of the editor is a zipper: the text before and after the cursor, and the
  remembered lines as a list.
\<close>

section \<open>History\<close>

definition SHELL_HISTORY_DEPTH :: nat where "SHELL_HISTORY_DEPTH = 20"

record history =
  h_lines :: "string list"
  h_head :: nat
  h_count :: nat
  h_nav :: int

text \<open>\<^verbatim>\<open>calloc\<close>, then \<^verbatim>\<open>nav = -1\<close>.\<close>

definition history_new :: history where
  "history_new = \<lparr>h_lines = replicate SHELL_HISTORY_DEPTH [], h_head = 0, h_count = 0, h_nav = -1\<rparr>"

definition history_push :: "string \<Rightarrow> history \<Rightarrow> history" where
  "history_push line h =
     h\<lparr>h_lines := (h_lines h)[h_head h := line],
       h_head := (h_head h + 1) mod SHELL_HISTORY_DEPTH,
       h_count := (if h_count h < SHELL_HISTORY_DEPTH then h_count h + 1 else h_count h),
       h_nav := -1\<rparr>"

definition history_add :: "string \<Rightarrow> history \<Rightarrow> history" where
  "history_add line h =
     (if line = [] then h
      else if 0 < h_count h \<and>
        take SHELL_MAX_LINE_LEN (h_lines h ! ((h_head h + SHELL_HISTORY_DEPTH - 1) mod SHELL_HISTORY_DEPTH))
          = take SHELL_MAX_LINE_LEN line
      then h\<lparr>h_nav := -1\<rparr>
      else history_push (cstr SHELL_MAX_LINE_LEN line) h)"

definition history_idx :: "history \<Rightarrow> nat" where
  "history_idx h = nat ((int (h_head h) - 1 - h_nav h + int SHELL_HISTORY_DEPTH * 2) mod int SHELL_HISTORY_DEPTH)"

definition history_prev :: "history \<Rightarrow> string option \<times> history" where
  "history_prev h =
     (if h_count h = 0 then (None, h)
      else
        let h' = (if h_nav h < 0 then h\<lparr>h_nav := int (h_count h) - 1\<rparr>
                  else if 0 < h_nav h then h\<lparr>h_nav := h_nav h - 1\<rparr> else h)
        in (Some (h_lines h' ! history_idx h'), h'))"

definition history_next :: "history \<Rightarrow> string option \<times> history" where
  "history_next h =
     (if h_nav h < 0 then (None, h)
      else if h_nav h = 0 then (Some [], h\<lparr>h_nav := -1\<rparr>)
      else let h' = h\<lparr>h_nav := h_nav h - 1\<rparr> in (Some (h_lines h' ! history_idx h'), h'))"

section \<open>The history as a list\<close>

definition hist_inv :: "nat \<Rightarrow> history \<Rightarrow> bool" where
  "hist_inv n h \<longleftrightarrow> length (h_lines h) = SHELL_HISTORY_DEPTH \<and> h_head h < SHELL_HISTORY_DEPTH \<and>
     h_count h \<le> SHELL_HISTORY_DEPTH \<and> (h_count h < SHELL_HISTORY_DEPTH \<longrightarrow> h_head h = h_count h) \<and>
     - 1 \<le> h_nav h \<and> h_nav h < int (h_count h)"

lemmas depth_def = SHELL_HISTORY_DEPTH_def

interpretation hist: ring SHELL_HISTORY_DEPTH h_lines h_head h_count hist_inv history_push
  by unfold_locales (auto simp: hist_inv_def history_push_def depth_def)

abbreviation hist_lines :: "history \<Rightarrow> string list" where
  "hist_lines \<equiv> hist.contents"

lemma hist_length: "length (hist_lines h) = h_count h"
  by (simp add: hist.contents_def)

text \<open>The entry a navigation index stands for, counted from the newest line.\<close>

lemma hist_at:
  assumes "hist_inv n h" and "0 \<le> h_nav h" and "h_nav h < int (h_count h)"
  shows "h_lines h ! history_idx h = hist_lines h ! (h_count h - 1 - nat (h_nav h))"
proof -
  obtain k where k: "h_nav h = int k" "k < h_count h" using assms(2,3) nonneg_int_cases by fastforce
  let ?j = "h_count h - 1 - k"
  have j: "?j < h_count h" using k by simp
  have c: "hist_lines h ! ?j =
      h_lines h ! (((if h_count h < SHELL_HISTORY_DEPTH then 0 else h_head h) + ?j) mod SHELL_HISTORY_DEPTH)"
    using j by (simp add: hist.contents_def ring_contents_def)
  have i: "history_idx h = (h_head h + 39 - k) mod 20"
  proof -
    have "k \<le> 20" using k assms(1) by (simp add: hist_inv_def depth_def)
    then have "int (h_head h) - 1 - int k + 40 = int (h_head h + 39 - k)" by simp
    then have "history_idx h = nat (int (h_head h + 39 - k) mod 20)"
      unfolding history_idx_def k depth_def by simp
    then show ?thesis by (simp only: nat_mod_distrib) simp
  qed
  have "(h_head h + 39 - k) mod 20 = ((if h_count h < SHELL_HISTORY_DEPTH then 0 else h_head h) + ?j) mod SHELL_HISTORY_DEPTH"
  proof (cases "h_count h < SHELL_HISTORY_DEPTH")
    case True
    then have "h_head h + 39 - k = ?j + 20 * 2" using assms(1) k by (simp add: hist_inv_def depth_def)
    then have "(h_head h + 39 - k) mod 20 = ?j mod 20" by (simp only: mod_mult_self2)
    with True show ?thesis by (simp add: depth_def)
  next
    case False
    then have n: "h_count h = 20" using assms(1) by (simp add: hist_inv_def depth_def)
    then have "h_head h + 39 - k = h_head h + ?j + 20 * 1" using k by simp
    then have "(h_head h + 39 - k) mod 20 = (h_head h + ?j) mod 20" by (simp only: mod_mult_self2)
    with False show ?thesis by (simp add: depth_def)
  qed
  with c i k show ?thesis by simp
qed

text \<open>
  The list a session remembers and where it stands in it, \<open>None\<close> when it is not looking at
  the history.
\<close>

type_synonym hist_abs = "string list \<times> nat option"

definition hist_abs :: "history \<Rightarrow> hist_abs" where
  "hist_abs h = (hist_lines h, if h_nav h < 0 then None else Some (h_count h - 1 - nat (h_nav h)))"

definition spec_add :: "string \<Rightarrow> hist_abs \<Rightarrow> hist_abs" where
  "spec_add line a =
     (let (ls, p) = a
      in if line = [] then a
         else if ls \<noteq> [] \<and> last ls = line then (ls, None)
         else (keep_last SHELL_HISTORY_DEPTH (ls @ [line]), None))"

definition spec_prev :: "hist_abs \<Rightarrow> string option \<times> hist_abs" where
  "spec_prev a =
     (let (ls, p) = a
      in if ls = [] then (None, a)
         else let q = (case p of None \<Rightarrow> 0 | Some j \<Rightarrow> if Suc j < length ls then Suc j else j)
              in (Some (ls ! q), (ls, Some q)))"

definition spec_next :: "hist_abs \<Rightarrow> string option \<times> hist_abs" where
  "spec_next a =
     (let (ls, p) = a
      in case p of
           None \<Rightarrow> (None, a)
         | Some j \<Rightarrow> if Suc j < length ls then (Some (ls ! Suc j), (ls, Some (Suc j))) else (Some [], (ls, None)))"

lemma hist_lines_nav [simp]: "hist_lines (h\<lparr>h_nav := k\<rparr>) = hist_lines h"
  by (simp add: hist.contents_def)

lemma hist_inv_nav: "hist_inv n h \<Longrightarrow> - 1 \<le> k \<Longrightarrow> k < int (h_count h) \<Longrightarrow> hist_inv n (h\<lparr>h_nav := k\<rparr>)"
  by (simp add: hist_inv_def)

lemma hist_goto:
  assumes "hist_inv n h" and "j < h_count h"
  shows "hist_inv n (h\<lparr>h_nav := int j\<rparr>)"
    and "h_lines h ! history_idx (h\<lparr>h_nav := int j\<rparr>) = hist_lines h ! (h_count h - 1 - j)"
    and "hist_abs (h\<lparr>h_nav := int j\<rparr>) = (hist_lines h, Some (h_count h - 1 - j))"
  using hist_inv_nav [OF assms(1), of "int j"] hist_at [of n "h\<lparr>h_nav := int j\<rparr>"] assms
  by (simp_all add: hist_abs_def)

lemma history_prev_sim:
  assumes "hist_inv n h"
  shows "spec_prev (hist_abs h) = (fst (history_prev h), hist_abs (snd (history_prev h)))"
    and "hist_inv n (snd (history_prev h))"
proof -
  have c: "h_nav h < int (h_count h)" "- 1 \<le> h_nav h" using assms by (simp_all add: hist_inv_def)
  have "spec_prev (hist_abs h) = (fst (history_prev h), hist_abs (snd (history_prev h))) \<and>
    hist_inv n (snd (history_prev h))"
  proof (cases "h_count h = 0")
    case True
    then have "hist_lines h = []" using hist_length [of h] by simp
    with True assms show ?thesis by (simp add: history_prev_def spec_prev_def hist_abs_def)
  next
    case False
    then have ne: "hist_lines h \<noteq> []" using hist_length [of h] by auto
    define j where "j = (if h_nav h < 0 then h_count h - 1 else nat (h_nav h) - 1)"
    have j: "j < h_count h" using False c by (auto simp: j_def)
    have e: "(if h_nav h < 0 then h\<lparr>h_nav := int (h_count h) - 1\<rparr>
              else if 0 < h_nav h then h\<lparr>h_nav := h_nav h - 1\<rparr> else h) = h\<lparr>h_nav := int j\<rparr>"
      using False c by (auto simp: j_def)
    obtain p where p: "hist_abs h = (hist_lines h, p)" "p = (if h_nav h < 0 then None else Some (h_count h - 1 - nat (h_nav h)))"
      by (simp add: hist_abs_def)
    have q: "(case p of None \<Rightarrow> 0 | Some i \<Rightarrow> if Suc i < length (hist_lines h) then Suc i else i) = h_count h - 1 - j"
      using False c by (auto simp: p(2) j_def hist_length)
    have "history_prev h = (Some (hist_lines h ! (h_count h - 1 - j)), h\<lparr>h_nav := int j\<rparr>)"
      using False hist_goto(2) [OF assms j] by (simp add: history_prev_def e Let_def)
    then show ?thesis
      using hist_goto(1,3) [OF assms j] ne
      by (simp add: spec_prev_def p(1) q Let_def)
  qed
  then show "spec_prev (hist_abs h) = (fst (history_prev h), hist_abs (snd (history_prev h)))"
    and "hist_inv n (snd (history_prev h))" by blast+
qed

lemma history_next_sim:
  assumes "hist_inv n h"
  shows "spec_next (hist_abs h) = (fst (history_next h), hist_abs (snd (history_next h)))"
    and "hist_inv n (snd (history_next h))"
proof -
  have c: "h_nav h < int (h_count h)" "- 1 \<le> h_nav h" using assms by (simp_all add: hist_inv_def)
  have "spec_next (hist_abs h) = (fst (history_next h), hist_abs (snd (history_next h))) \<and>
    hist_inv n (snd (history_next h))"
  proof (cases "h_nav h \<le> 0")
    case True
    with assms c hist_inv_nav [OF assms, of "- 1"] show ?thesis
      by (auto simp: history_next_def spec_next_def hist_abs_def hist_length)
  next
    case False
    define j where "j = nat (h_nav h - 1)"
    have j: "j < h_count h" "Suc j < h_count h" "h_nav h = int j + 1" using False c by (simp_all add: j_def)
    then have e: "h\<lparr>h_nav := h_nav h - 1\<rparr> = h\<lparr>h_nav := int j\<rparr>" by simp
    have s: "Suc (h_count h - 1 - nat (h_nav h)) = h_count h - 1 - j" using j by simp
    have "history_next h = (Some (hist_lines h ! (h_count h - 1 - j)), h\<lparr>h_nav := int j\<rparr>)"
      using False hist_goto(2) [OF assms j(1)] by (simp add: history_next_def e Let_def)
    then show ?thesis
      using hist_goto(1,3) [OF assms j(1)] False j s
      by (simp add: spec_next_def hist_abs_def hist_length)
  qed
  then show "spec_next (hist_abs h) = (fst (history_next h), hist_abs (snd (history_next h)))"
    and "hist_inv n (snd (history_next h))" by blast+
qed

text \<open>A line as the editor makes them: it fits the buffers and has no terminator inside.\<close>

definition hist_line_ok :: "string \<Rightarrow> bool" where
  "hist_line_ok l \<longleftrightarrow> length l < SHELL_MAX_LINE_LEN \<and> nul \<notin> set l"

definition hist_ok :: "history \<Rightarrow> bool" where
  "hist_ok h \<longleftrightarrow> hist_inv 0 h \<and> list_all hist_line_ok (hist_lines h)"

lemma hist_inv_any: "hist_inv n h = hist_inv 0 h"
  by (simp add: hist_inv_def)

lemma hist_last:
  assumes "hist_inv n h" and "0 < h_count h"
  shows "h_lines h ! ((h_head h + SHELL_HISTORY_DEPTH - 1) mod SHELL_HISTORY_DEPTH) = last (hist_lines h)"
proof -
  have "hist_lines h \<noteq> []" using hist_length [of h] assms(2) by auto
  then have l: "last (hist_lines h) = hist_lines h ! (h_count h - 1)" by (simp add: last_conv_nth hist_length)
  have "history_idx (h\<lparr>h_nav := int 0\<rparr>) = (h_head h + SHELL_HISTORY_DEPTH - 1) mod SHELL_HISTORY_DEPTH"
  proof -
    have "int (h_head h) - 1 - int 0 + 40 = int (h_head h + 20 - 1 + 20 * 1)" by simp
    then have "history_idx (h\<lparr>h_nav := int 0\<rparr>) = nat (int (h_head h + 20 - 1 + 20 * 1) mod 20)"
      unfolding history_idx_def depth_def by simp
    also have "\<dots> = (h_head h + 20 - 1 + 20 * 1) mod 20"
      using nat_int [of "(h_head h + 20 - 1 + 20 * 1) mod 20"] by (simp only: zmod_int of_nat_numeral)
    also have "\<dots> = (h_head h + 20 - 1) mod 20" by (rule mod_mult_self2)
    finally show ?thesis by (simp only: depth_def)
  qed
  with hist_goto(2) [OF assms(1), of 0] assms(2) l show ?thesis by simp
qed

lemma keep_last_set: "set (keep_last n xs) \<subseteq> set xs"
  by (auto simp: keep_last_def dest: in_set_dropD)

lemma history_add_sim:
  assumes "hist_ok h" and "hist_line_ok line"
  shows "spec_add line (hist_abs h) = hist_abs (history_add line h)" and "hist_ok (history_add line h)"
proof -
  have i: "hist_inv (Suc 0) h" "hist_inv 0 h" using assms(1) hist_inv_any by (auto simp: hist_ok_def)
  have cut: "take SHELL_MAX_LINE_LEN l = l" "cstr SHELL_MAX_LINE_LEN l = l" if "hist_line_ok l" for l
    using that by (auto simp: hist_line_ok_def cstr_def)
  have ne: "hist_lines h = [] \<longleftrightarrow> h_count h = 0" using hist_length [of h] by auto
  have push: "hist_lines (history_push line h) = keep_last SHELL_HISTORY_DEPTH (hist_lines h @ [line])"
    by (rule hist.contents_push [OF i(1)])
  have "spec_add line (hist_abs h) = hist_abs (history_add line h) \<and> hist_ok (history_add line h)"
  proof (cases "line = [] \<or> (hist_lines h \<noteq> [] \<and> last (hist_lines h) = line)")
    case True
    have "take SHELL_MAX_LINE_LEN (last (hist_lines h)) = take SHELL_MAX_LINE_LEN line"
      if "last (hist_lines h) = line" using that by simp
    with True ne hist_last [OF i(2)] assms(1) hist_inv_nav [OF i(2), of "- 1"]
    show ?thesis by (auto simp: history_add_def spec_add_def hist_abs_def hist_ok_def)
  next
    case False
    have "\<not> (0 < h_count h \<and> take SHELL_MAX_LINE_LEN (last (hist_lines h)) = take SHELL_MAX_LINE_LEN line)"
    proof
      assume h: "0 < h_count h \<and> take SHELL_MAX_LINE_LEN (last (hist_lines h)) = take SHELL_MAX_LINE_LEN line"
      then have "hist_line_ok (last (hist_lines h))"
        using assms(1) ne by (auto simp: hist_ok_def list_all_iff)
      with h False ne cut assms(2) show False by simp
    qed
    with False hist_last [OF i(2)] have a: "history_add line h = history_push line h"
      using cut(2) [OF assms(2)] by (auto simp: history_add_def)
    have "list_all hist_line_ok (keep_last SHELL_HISTORY_DEPTH (hist_lines h @ [line]))"
      using assms keep_last_set [of SHELL_HISTORY_DEPTH "hist_lines h @ [line]"] by (auto simp: hist_ok_def list_all_iff)
    with a False push hist.push_inv [OF i(1), of line] show ?thesis
      by (auto simp: spec_add_def hist_abs_def hist_ok_def history_push_def)
  qed
  then show "spec_add line (hist_abs h) = hist_abs (history_add line h)" and "hist_ok (history_add line h)" by blast+
qed

lemma history_new_ok: "hist_ok history_new" "hist_lines history_new = []" "hist_abs history_new = ([], None)"
proof -
  show n: "hist_lines history_new = []" using hist_length [of history_new] by (simp add: history_new_def)
  have "hist_inv 0 history_new" by (simp add: hist_inv_def history_new_def depth_def)
  with n show "hist_ok history_new" "hist_abs history_new = ([], None)"
    by (simp_all add: hist_ok_def hist_abs_def) (simp add: history_new_def)
qed

lemma last_remdups_adj: "xs \<noteq> [] \<Longrightarrow> last (remdups_adj xs) = last xs"
  by (induction xs rule: remdups_adj.induct) auto

lemma remdups_adj_snoc:
  "remdups_adj (xs @ [x]) = (if xs \<noteq> [] \<and> last xs = x then remdups_adj xs else remdups_adj xs @ [x])"
  by (induction xs rule: remdups_adj.induct) auto

lemma keep_last_last: "xs \<noteq> [] \<Longrightarrow> 0 < n \<Longrightarrow> keep_last n xs \<noteq> [] \<and> last (keep_last n xs) = last xs"
  by (cases xs) (auto simp: keep_last_def)

lemma history_adds:
  assumes "list_all hist_line_ok ls"
  shows "hist_ok (fold history_add ls history_new) \<and>
    hist_abs (fold history_add ls history_new) = (keep_last SHELL_HISTORY_DEPTH (remdups_adj (filter (\<lambda>l. l \<noteq> []) ls)), None)"
  using assms
proof (induction ls rule: rev_induct)
  case Nil
  then show ?case by (simp add: history_new_ok keep_last_def)
next
  case (snoc l ls)
  let ?h = "fold history_add ls history_new" and ?R = "remdups_adj (filter (\<lambda>l. l \<noteq> []) ls)"
  have IH: "hist_ok ?h" "hist_abs ?h = (keep_last SHELL_HISTORY_DEPTH ?R, None)" "hist_line_ok l" using snoc by simp_all
  have "hist_abs (history_add l ?h) = spec_add l (hist_abs ?h)"
    by (rule history_add_sim(1) [OF IH(1,3), symmetric])
  also have "\<dots> = (keep_last SHELL_HISTORY_DEPTH (remdups_adj (filter (\<lambda>l. l \<noteq> []) (ls @ [l]))), None)"
  proof (cases "l = []")
    case True
    then show ?thesis using IH(2) by (simp add: spec_add_def)
  next
    case False
    have "0 < SHELL_HISTORY_DEPTH" by (simp add: depth_def)
    then have "(keep_last SHELL_HISTORY_DEPTH ?R \<noteq> [] \<and> last (keep_last SHELL_HISTORY_DEPTH ?R) = l) \<longleftrightarrow>
        filter (\<lambda>l. l \<noteq> []) ls \<noteq> [] \<and> last (filter (\<lambda>l. l \<noteq> []) ls) = l"
      using keep_last_last [of ?R SHELL_HISTORY_DEPTH] last_remdups_adj [of "filter (\<lambda>l. l \<noteq> []) ls"]
      by (cases "filter (\<lambda>l. l \<noteq> []) ls = []") (auto simp: keep_last_def)
    with False IH(2) show ?thesis
      by (simp add: spec_add_def remdups_adj_snoc keep_last_append)
  qed
  finally show ?case using history_add_sim(2) [OF IH(1,3)] by simp
qed

text \<open>A session remembers the last 20 lines it was given, in order, without the empty ones and
  without immediate repetitions; the first press of the Up key shows the oldest of them (not the newest), and
  the next presses, like those of the Down key, move towards the newest.\<close>

theorem history_keeps_last:
  assumes "list_all hist_line_ok ls" and "h = fold history_add ls history_new"
    and "kept = keep_last SHELL_HISTORY_DEPTH (remdups_adj (filter (\<lambda>l. l \<noteq> []) ls))"
  shows "hist_abs h = (kept, None) \<and>
    fst (history_prev h) = (if kept = [] then None else Some (hd kept)) \<and>
    (Suc 0 < length kept \<longrightarrow> fst (history_prev (snd (history_prev h))) = Some (kept ! 1) \<and>
       fst (history_next (snd (history_prev h))) = Some (kept ! 1))"
proof -
  have h: "hist_ok h" "hist_abs h = (kept, None)"
    using history_adds [OF assms(1)] assms(2,3) by simp_all
  then have i: "hist_inv 0 h" by (simp add: hist_ok_def)
  note p = history_prev_sim [OF i]
  note pp = history_prev_sim(1) [OF p(2)] and pn = history_next_sim(1) [OF p(2)]
  show ?thesis
  proof (cases "kept = []")
    case True
    with h(2) p(1) show ?thesis by (simp add: spec_prev_def)
  next
    case False
    with h(2) p(1) have one: "fst (history_prev h) = Some (hd kept)" "hist_abs (snd (history_prev h)) = (kept, Some 0)"
      by (simp_all add: spec_prev_def hd_conv_nth)
    with pp pn False h(2) show ?thesis by (auto simp: spec_prev_def spec_next_def)
  qed
qed

theorem history_keeps_last_witness:
  "fst (history_prev (fold history_add [''ls'', ''ls'', [], ''ps'', ''top''] history_new)) = Some ''ls''"
proof -
  let ?ls = "[''ls'', ''ls'', [], ''ps'', ''top'']"
  have "list_all hist_line_ok ?ls" by (simp add: hist_line_ok_def SHELL_MAX_LINE_LEN_def nul_def)
  moreover have "keep_last SHELL_HISTORY_DEPTH (remdups_adj (filter (\<lambda>l. l \<noteq> []) ?ls)) = [''ls'', ''ps'', ''top'']"
    by (simp add: keep_last_def depth_def)
  ultimately show ?thesis using history_keeps_last [of ?ls _ "[''ls'', ''ps'', ''top'']"] by simp
qed

section \<open>The line buffer\<close>

text \<open>The C string that starts at an index of a buffer.\<close>

definition cstr_at :: "nat \<Rightarrow> string \<Rightarrow> string" where
  "cstr_at i b = takeWhile (\<lambda>c. c \<noteq> nul) (drop i b)"

text \<open>\<^verbatim>\<open>memmove(buf + dst, buf + src, n)\<close>, inside the buffer.\<close>

definition memmove :: "nat \<Rightarrow> nat \<Rightarrow> nat \<Rightarrow> string \<Rightarrow> string" where
  "memmove dst src n b = take dst b @ take n (drop src b) @ drop (dst + n) b"

text \<open>\<^verbatim>\<open>strncpy(buf, s, n)\<close>: the string, filled up with terminators, and no terminator if it is too long.\<close>

definition strncpy :: "nat \<Rightarrow> string \<Rightarrow> string \<Rightarrow> string" where
  "strncpy n s b = take n (s @ replicate n nul) @ drop n b"

section \<open>The editor\<close>

datatype esc_state = ES_NONE | ES_ESC | ES_BRACKET

record editor =
  ed_buf :: string
  ed_len :: nat
  ed_cursor :: nat
  ed_es :: esc_state
  ed_hist :: history

text \<open>What is written to the session: texts for \<^verbatim>\<open>shell_write\<close>, and the echo of a single character.\<close>

datatype out = W string | Echo "8 word"

definition editor_new :: "history \<Rightarrow> editor" where
  "editor_new h = \<lparr>ed_buf = replicate SHELL_MAX_LINE_LEN nul, ed_len = 0, ed_cursor = 0, ed_es = ES_NONE, ed_hist = h\<rparr>"

definition ESC :: string where "ESC = [CHR 0x1B]"
definition cr :: string where "cr = [CHR 0x0D]"

definition SHELL_PROMPT :: string where "SHELL_PROMPT = ''esp32os> ''"

text \<open>\<^verbatim>\<open>shell_printf\<close>: formatted into 512 bytes.\<close>

definition shell_text :: "string \<Rightarrow> out" where
  "shell_text s = W (cstr 512 s)"

definition left_by :: "nat \<Rightarrow> out" where
  "left_by n = shell_text (ESC @ ''['' @ dec n @ ''D'')"

definition right_by :: "nat \<Rightarrow> out" where
  "right_by n = shell_text (ESC @ ''['' @ dec n @ ''C'')"

text \<open>The prompt, blanks over the line, and the prompt again.\<close>

definition wipe :: "nat \<Rightarrow> out" where
  "wipe n = shell_text (cr @ SHELL_PROMPT @ padl n [] @ cr @ SHELL_PROMPT)"

definition shell_redraw_line :: "editor \<Rightarrow> out list" where
  "shell_redraw_line e =
     [W (cr @ SHELL_PROMPT), W (cstr_at 0 (ed_buf e))] @
     (if ed_cursor e < ed_len e then [left_by (ed_len e - ed_cursor e)] else [])"

text \<open>Showing a line of the history, if there is one.\<close>

definition show_history :: "nat \<Rightarrow> string option \<times> history \<Rightarrow> editor \<Rightarrow> editor \<times> out list" where
  "show_history buf_sz x e =
     (case x of
        (None, h) \<Rightarrow> (e\<lparr>ed_hist := h\<rparr>, [])
      | (Some l, h) \<Rightarrow>
          let b = strncpy (buf_sz - 1) l (ed_buf e); n = length (cstr_at 0 b)
          in (e\<lparr>ed_hist := h, ed_buf := b, ed_len := n, ed_cursor := n\<rparr>, [wipe (ed_len e), W (cstr_at 0 b)]))"

definition ed_home :: "editor \<Rightarrow> editor \<times> out list" where
  "ed_home e = (if 0 < ed_cursor e then (e\<lparr>ed_cursor := 0\<rparr>, [left_by (ed_cursor e)]) else (e, []))"

definition ed_end :: "editor \<Rightarrow> editor \<times> out list" where
  "ed_end e =
     (if ed_cursor e < ed_len e then (e\<lparr>ed_cursor := ed_len e\<rparr>, [right_by (ed_len e - ed_cursor e)]) else (e, []))"

definition ed_delete :: "editor \<Rightarrow> editor \<times> out list" where
  "ed_delete e =
     (if ed_cursor e < ed_len e
      then let b = memmove (ed_cursor e) (ed_cursor e + 1) (ed_len e - ed_cursor e - 1) (ed_buf e);
               e' = e\<lparr>ed_buf := b[ed_len e - 1 := nul], ed_len := ed_len e - 1\<rparr>
           in (e', W (ESC @ ''[P'') # shell_redraw_line e')
      else (e, []))"

text \<open>The character after ESC and a bracket.\<close>

definition edit_bracket :: "nat \<Rightarrow> 8 word \<Rightarrow> editor \<Rightarrow> editor \<times> out list" where
  "edit_bracket buf_sz c e =
     (if c = 65 then show_history buf_sz (history_prev (ed_hist e)) e
      else if c = 66 then show_history buf_sz (history_next (ed_hist e)) e
      else if c = 67 then
        (if ed_cursor e < ed_len e then (e\<lparr>ed_cursor := ed_cursor e + 1\<rparr>, [W (ESC @ ''[C'')]) else (e, []))
      else if c = 68 then
        (if 0 < ed_cursor e then (e\<lparr>ed_cursor := ed_cursor e - 1\<rparr>, [W (ESC @ ''[D'')]) else (e, []))
      else if c = 72 \<or> c = 49 then ed_home e
      else if c = 70 \<or> c = 52 then ed_end e
      else if c = 51 then ed_delete e
      else (e, []))"

definition ed_backspace :: "editor \<Rightarrow> editor \<times> out list" where
  "ed_backspace e =
     (if 0 < ed_cursor e \<and> 0 < ed_len e
      then let b = memmove (ed_cursor e - 1) (ed_cursor e) (ed_len e - ed_cursor e) (ed_buf e);
               e' = e\<lparr>ed_buf := b[ed_len e - 1 := nul], ed_cursor := ed_cursor e - 1, ed_len := ed_len e - 1\<rparr>
           in (e', W (CHR 0x08 # '' '' @ [CHR 0x08]) #
                (if ed_cursor e' < ed_len e'
                 then [W (cstr_at (ed_cursor e') (ed_buf e')),
                       shell_text ('' '' @ ESC @ ''['' @ dec (ed_len e' - ed_cursor e' + 1) @ ''D'')]
                 else []))
      else (e, []))"

definition ed_insert :: "nat \<Rightarrow> 8 word \<Rightarrow> editor \<Rightarrow> editor \<times> out list" where
  "ed_insert buf_sz c e =
     (if 0x20 \<le> c \<and> c < 0x7F \<and> ed_len e < buf_sz - 1
      then
        if ed_cursor e < ed_len e
        then let b = memmove (ed_cursor e + 1) (ed_cursor e) (ed_len e - ed_cursor e) (ed_buf e);
                 e' = e\<lparr>ed_buf := b[ed_cursor e := char_of (unat c)], ed_len := ed_len e + 1, ed_cursor := ed_cursor e + 1\<rparr>
             in (e', [W (cstr_at (ed_cursor e' - 1) (ed_buf e')), left_by (ed_len e' - ed_cursor e')])
        else (e\<lparr>ed_buf := (ed_buf e)[ed_cursor e := char_of (unat c)], ed_cursor := ed_cursor e + 1, ed_len := ed_len e + 1\<rparr>,
              [Echo c])
      else (e, []))"

text \<open>Reading on, or the return value and the line copied to the caller's buffer.\<close>

datatype edit_result = More | Return int "string option"

definition edit_normal :: "nat \<Rightarrow> 8 word \<Rightarrow> editor \<Rightarrow> edit_result \<times> editor \<times> out list" where
  "edit_normal buf_sz c e =
     (if c = 0x1B then (More, e\<lparr>ed_es := ES_ESC\<rparr>, [])
      else if c = 0x0D \<or> c = 0x0A then
        (let b = (ed_buf e)[ed_len e := nul]; l = cstr_at 0 b
         in (Return (int (ed_len e)) (Some (cstr buf_sz l)), e\<lparr>ed_buf := b, ed_hist := history_add l (ed_hist e)\<rparr>, [W crlf]))
      else if c = 0x7F \<or> c = 0x08 then (More, ed_backspace e)
      else if c = 0x03 then
        (More, e\<lparr>ed_buf := (ed_buf e)[0 := nul], ed_len := 0, ed_cursor := 0\<rparr>, [W (''^C'' @ crlf), W SHELL_PROMPT])
      else if c = 0x04 then (if ed_len e = 0 then Return (- 1) None else More, e, [])
      else if c = 0x0C then (More, e, W (ESC @ ''[2J'' @ ESC @ ''[H'') # shell_redraw_line e)
      else if c = 0x15 then
        (More,
         if 0 < ed_len e
         then (e\<lparr>ed_buf := replicate SHELL_MAX_LINE_LEN nul, ed_len := 0, ed_cursor := 0\<rparr>, [wipe (ed_len e)]) else (e, []))
      else if c = 0x01 then (More, ed_home e)
      else if c = 0x05 then (More, ed_end e)
      else (More, ed_insert buf_sz c e))"

definition edit_key :: "nat \<Rightarrow> 8 word \<Rightarrow> editor \<Rightarrow> edit_result \<times> editor \<times> out list" where
  "edit_key buf_sz c e =
     (case ed_es e of
        ES_NONE \<Rightarrow> edit_normal buf_sz c e
      | ES_ESC \<Rightarrow> if c = 0x5B then (More, e\<lparr>ed_es := ES_BRACKET\<rparr>, []) else edit_normal buf_sz c (e\<lparr>ed_es := ES_NONE\<rparr>)
      | ES_BRACKET \<Rightarrow> (More, edit_bracket buf_sz c (e\<lparr>ed_es := ES_NONE\<rparr>)))"

text \<open>
  The loop, over what reading a byte with the 100 ms timeout returns each time: a byte, 0 (nothing
  in time, or disconnected), or an error.  \<open>None\<close> when what was read did not end the line; then
  the rest of the input and the history as left.
\<close>

datatype input = Got "8 word" | Nothing | Failed

fun readline_loop ::
  "int \<Rightarrow> nat \<Rightarrow> input list \<Rightarrow> editor \<Rightarrow> (int \<times> string option) option \<times> input list \<times> history \<times> out list" where
  "readline_loop fd buf_sz [] e = (None, [], ed_hist e, [])"
| "readline_loop fd buf_sz (Got c # xs) e =
     (case edit_key buf_sz c e of
        (Return n l, e', o1) \<Rightarrow> (Some (n, l), xs, ed_hist e', o1)
      | (More, e', o1) \<Rightarrow> (let (r, ys, h, o2) = readline_loop fd buf_sz xs e' in (r, ys, h, o1 @ o2)))"
| "readline_loop fd buf_sz (Nothing # xs) e =
     (if 0 \<le> fd then (Some (- 1, None), xs, ed_hist e, []) else readline_loop fd buf_sz xs e)"
| "readline_loop fd buf_sz (Failed # xs) e = readline_loop fd buf_sz xs e"

definition shell_readline ::
  "int \<Rightarrow> nat \<Rightarrow> input list \<Rightarrow> history \<Rightarrow> (int \<times> string option) option \<times> input list \<times> history \<times> out list" where
  "shell_readline fd buf_sz xs h =
     (let (r, ys, h', outs) = readline_loop fd buf_sz xs (editor_new h) in (r, ys, h', W SHELL_PROMPT # outs))"

section \<open>The editor as a zipper\<close>

record zipper =
  z_left :: string
  z_right :: string
  z_es :: esc_state
  z_hist :: hist_abs

definition zip_new :: "hist_abs \<Rightarrow> zipper" where
  "zip_new h = \<lparr>z_left = [], z_right = [], z_es = ES_NONE, z_hist = h\<rparr>"

definition zip_text :: "zipper \<Rightarrow> string" where
  "zip_text z = z_left z @ z_right z"

definition zip_show :: "nat \<Rightarrow> string option \<times> hist_abs \<Rightarrow> zipper \<Rightarrow> zipper" where
  "zip_show cap x z =
     (case x of
        (None, h) \<Rightarrow> z\<lparr>z_hist := h\<rparr>
      | (Some l, h) \<Rightarrow> z\<lparr>z_hist := h, z_left := take cap l, z_right := []\<rparr>)"

definition zip_home :: "zipper \<Rightarrow> zipper" where
  "zip_home z = z\<lparr>z_left := [], z_right := zip_text z\<rparr>"

definition zip_end :: "zipper \<Rightarrow> zipper" where
  "zip_end z = z\<lparr>z_left := zip_text z, z_right := []\<rparr>"

text \<open>Up, Down, Right, Left, Home, End and Delete.\<close>

definition zip_bracket :: "nat \<Rightarrow> 8 word \<Rightarrow> zipper \<Rightarrow> zipper" where
  "zip_bracket cap c z =
     (if c = 65 then zip_show cap (spec_prev (z_hist z)) z
      else if c = 66 then zip_show cap (spec_next (z_hist z)) z
      else if c = 67 then
        (case z_right z of [] \<Rightarrow> z | r # rs \<Rightarrow> z\<lparr>z_left := z_left z @ [r], z_right := rs\<rparr>)
      else if c = 68 then
        (if z_left z = [] then z else z\<lparr>z_left := butlast (z_left z), z_right := last (z_left z) # z_right z\<rparr>)
      else if c = 72 \<or> c = 49 then zip_home z
      else if c = 70 \<or> c = 52 then zip_end z
      else if c = 51 then z\<lparr>z_right := tl (z_right z)\<rparr>
      else z)"

definition zip_normal :: "nat \<Rightarrow> 8 word \<Rightarrow> zipper \<Rightarrow> edit_result \<times> zipper" where
  "zip_normal cap c z =
     (if c = 0x1B then (More, z\<lparr>z_es := ES_ESC\<rparr>)
      else if c = 0x0D \<or> c = 0x0A
      then (Return (int (length (zip_text z))) (Some (zip_text z)), z\<lparr>z_hist := spec_add (zip_text z) (z_hist z)\<rparr>)
      else if c = 0x7F \<or> c = 0x08 then (More, z\<lparr>z_left := butlast (z_left z)\<rparr>)
      else if c = 0x03 \<or> c = 0x15 then (More, z\<lparr>z_left := [], z_right := []\<rparr>)
      else if c = 0x04 then (if zip_text z = [] then Return (- 1) None else More, z)
      else if c = 0x01 then (More, zip_home z)
      else if c = 0x05 then (More, zip_end z)
      else if 0x20 \<le> c \<and> c < 0x7F \<and> length (zip_text z) < cap
      then (More, z\<lparr>z_left := z_left z @ [char_of (unat c)]\<rparr>)
      else (More, z))"

definition zip_key :: "nat \<Rightarrow> 8 word \<Rightarrow> zipper \<Rightarrow> edit_result \<times> zipper" where
  "zip_key cap c z =
     (case z_es z of
        ES_NONE \<Rightarrow> zip_normal cap c z
      | ES_ESC \<Rightarrow> if c = 0x5B then (More, z\<lparr>z_es := ES_BRACKET\<rparr>) else zip_normal cap c (z\<lparr>z_es := ES_NONE\<rparr>)
      | ES_BRACKET \<Rightarrow> (More, zip_bracket cap c (z\<lparr>z_es := ES_NONE\<rparr>)))"

definition ed_text :: "editor \<Rightarrow> string" where
  "ed_text e = take (ed_len e) (ed_buf e)"

definition ed_abs :: "editor \<Rightarrow> zipper" where
  "ed_abs e = \<lparr>z_left = take (ed_cursor e) (ed_text e), z_right = drop (ed_cursor e) (ed_text e),
     z_es = ed_es e, z_hist = hist_abs (ed_hist e)\<rparr>"

definition ed_inv :: "nat \<Rightarrow> editor \<Rightarrow> bool" where
  "ed_inv buf_sz e \<longleftrightarrow> 0 < buf_sz \<and> buf_sz \<le> SHELL_MAX_LINE_LEN \<and> length (ed_buf e) = SHELL_MAX_LINE_LEN \<and>
     ed_cursor e \<le> ed_len e \<and> ed_len e < buf_sz \<and> nul \<notin> set (ed_text e) \<and>
     ed_buf e ! (buf_sz - 1) = nul \<and> hist_ok (ed_hist e)"

text \<open>An operation that keeps the invariant and does on the text what the zipper does.\<close>

definition ed_does :: "nat \<Rightarrow> editor \<Rightarrow> zipper \<Rightarrow> bool" where
  "ed_does buf_sz e z \<longleftrightarrow> ed_inv buf_sz e \<and> ed_abs e = z"

lemma zip_abs [simp]:
  "z_left (ed_abs e) = take (ed_cursor e) (ed_text e)" "z_right (ed_abs e) = drop (ed_cursor e) (ed_text e)"
  "z_es (ed_abs e) = ed_es e" "z_hist (ed_abs e) = hist_abs (ed_hist e)" "zip_text (ed_abs e) = ed_text e"
  by (simp_all add: ed_abs_def zip_text_def)

lemma ed_text_simps [simp]:
  "ed_text (e\<lparr>ed_cursor := k\<rparr>) = ed_text e" "ed_text (e\<lparr>ed_es := s\<rparr>) = ed_text e" "ed_text (e\<lparr>ed_hist := h\<rparr>) = ed_text e"
  by (simp_all add: ed_text_def)

lemma ed_length: "ed_inv buf_sz e \<Longrightarrow> length (ed_text e) = ed_len e"
  by (auto simp: ed_text_def ed_inv_def)

lemma takeWhile_nul: "nul \<notin> set s \<Longrightarrow> takeWhile (\<lambda>c. c \<noteq> nul) (s @ nul # t) = s"
  by (induction s) auto

lemma length_memmove:
  "dst + n \<le> length b \<Longrightarrow> src + n \<le> length b \<Longrightarrow> length (memmove dst src n b) = length b"
  by (simp add: memmove_def)

lemma nth_memmove:
  "dst + n \<le> length b \<Longrightarrow> src + n \<le> length b \<Longrightarrow> i < length b \<Longrightarrow>
   memmove dst src n b ! i = (if dst \<le> i \<and> i < dst + n then b ! (src + (i - dst)) else b ! i)"
proof -
  assume a: "dst + n \<le> length b" "src + n \<le> length b" "i < length b"
  have "length (take n (drop src b)) = n" using a(2) by simp
  with a show ?thesis by (auto simp: memmove_def nth_append)
qed

lemmas move_simps = length_memmove nth_memmove nth_list_update

text \<open>Moving the cursor.\<close>

lemma ed_cursor_does:
  "ed_inv buf_sz e \<Longrightarrow> k \<le> ed_len e \<Longrightarrow>
   ed_does buf_sz (e\<lparr>ed_cursor := k\<rparr>) (ed_abs e\<lparr>z_left := take k (ed_text e), z_right := drop k (ed_text e)\<rparr>)"
  by (simp add: ed_does_def ed_inv_def ed_abs_def)

lemma ed_same: "ed_inv buf_sz e \<Longrightarrow> ed_does buf_sz e (ed_abs e)"
  by (simp add: ed_does_def)

lemma ed_es_does: "ed_inv buf_sz e \<Longrightarrow> ed_does buf_sz (e\<lparr>ed_es := s\<rparr>) (ed_abs e\<lparr>z_es := s\<rparr>)"
  by (simp add: ed_does_def ed_inv_def ed_abs_def)

lemma ed_home_does: "ed_inv buf_sz e \<Longrightarrow> ed_does buf_sz (fst (ed_home e)) (zip_home (ed_abs e))"
  using ed_cursor_does [of buf_sz e 0] ed_same [of buf_sz e]
  by (auto simp: ed_home_def zip_home_def ed_abs_def zip_text_def ed_does_def)

lemma ed_end_does: "ed_inv buf_sz e \<Longrightarrow> ed_does buf_sz (fst (ed_end e)) (zip_end (ed_abs e))"
  using ed_cursor_does [of buf_sz e "ed_len e"] ed_same [of buf_sz e] ed_length [of buf_sz e]
  by (auto simp: ed_end_def zip_end_def ed_abs_def zip_text_def ed_does_def ed_inv_def)

text \<open>Changing the text: a longer or shorter one laid out in the buffer.\<close>

lemma ed_text_does:
  assumes "ed_inv buf_sz e" and "length b = SHELL_MAX_LINE_LEN" and "length l + length r < buf_sz"
    and "take (length l + length r) b = l @ r" and "nul \<notin> set (l @ r)" and "b ! (buf_sz - 1) = nul"
  shows "ed_does buf_sz (e\<lparr>ed_buf := b, ed_len := length l + length r, ed_cursor := length l\<rparr>)
    (ed_abs e\<lparr>z_left := l, z_right := r\<rparr>)"
  using assms by (simp add: ed_does_def ed_inv_def ed_abs_def ed_text_def)

lemma ed_text_nth: "ed_inv buf_sz e \<Longrightarrow> i < ed_len e \<Longrightarrow> ed_text e ! i = ed_buf e ! i"
  by (simp add: ed_text_def)

lemma ed_bounds:
  assumes "ed_inv buf_sz e"
  shows "ed_len e < buf_sz" "buf_sz \<le> length (ed_buf e)" "length (ed_buf e) = SHELL_MAX_LINE_LEN" "ed_cursor e \<le> ed_len e"
    "ed_buf e ! (buf_sz - 1) = nul" "nul \<notin> set (ed_text e)"
  using assms by (auto simp: ed_inv_def)

lemma ed_backspace_does:
  assumes "ed_inv buf_sz e"
  shows "ed_does buf_sz (fst (ed_backspace e)) (ed_abs e\<lparr>z_left := butlast (take (ed_cursor e) (ed_text e))\<rparr>)"
proof (cases "0 < ed_cursor e")
  case False
  with ed_same [OF assms] show ?thesis by (simp add: ed_backspace_def ed_abs_def)
next
  case True
  let ?C = "ed_cursor e" and ?L = "ed_len e" and ?t = "ed_text e"
  let ?l = "take (?C - 1) ?t" and ?r = "drop ?C ?t"
  let ?b = "(memmove (?C - 1) ?C (?L - ?C) (ed_buf e))[?L - 1 := nul]"
  note B = ed_bounds [OF assms]
  have len: "length ?t = ?L" by (rule ed_length [OF assms])
  then have lens: "length ?l = ?C - 1" "length ?r = ?L - ?C" using B True by simp_all
  have same: "take (length ?l + length ?r) ?b = ?l @ ?r"
  proof (rule nth_equalityI)
    show "length (take (length ?l + length ?r) ?b) = length (?l @ ?r)"
      using B True lens by (simp add: length_memmove)
    fix i
    assume "i < length (take (length ?l + length ?r) ?b)"
    with B True lens have i: "i < ?L - 1" by simp
    with B True lens len show "take (length ?l + length ?r) ?b ! i = (?l @ ?r) ! i"
      by (auto simp: move_simps nth_append ed_text_def)
  qed
  have "?b ! (buf_sz - 1) = nul" using B True by (auto simp: move_simps)
  moreover have "nul \<notin> set (?l @ ?r)" using B(6) by (auto dest: in_set_takeD in_set_dropD)
  moreover have "length ?l + length ?r < buf_sz" using B True lens by simp
  ultimately have "ed_does buf_sz (e\<lparr>ed_buf := ?b, ed_len := length ?l + length ?r, ed_cursor := length ?l\<rparr>)
      (ed_abs e\<lparr>z_left := ?l, z_right := ?r\<rparr>)"
    using B True same by (intro ed_text_does [OF assms]) (simp_all add: length_memmove)
  moreover have "fst (ed_backspace e) = e\<lparr>ed_buf := ?b, ed_len := length ?l + length ?r, ed_cursor := length ?l\<rparr>"
    using B True lens by (simp add: ed_backspace_def Let_def)
  moreover have "butlast (take ?C ?t) = ?l" using len B by (simp add: butlast_take)
  ultimately show ?thesis by (simp add: ed_abs_def)
qed

lemma ed_delete_does:
  assumes "ed_inv buf_sz e"
  shows "ed_does buf_sz (fst (ed_delete e)) (ed_abs e\<lparr>z_right := tl (drop (ed_cursor e) (ed_text e))\<rparr>)"
proof (cases "ed_cursor e < ed_len e")
  case False
  with ed_same [OF assms] ed_length [OF assms] show ?thesis by (simp add: ed_delete_def ed_abs_def)
next
  case True
  let ?C = "ed_cursor e" and ?L = "ed_len e" and ?t = "ed_text e"
  let ?l = "take ?C ?t" and ?r = "drop (Suc ?C) ?t"
  let ?b = "(memmove ?C (?C + 1) (?L - ?C - 1) (ed_buf e))[?L - 1 := nul]"
  note B = ed_bounds [OF assms]
  have len: "length ?t = ?L" by (rule ed_length [OF assms])
  then have lens: "length ?l = ?C" "length ?r = ?L - ?C - 1" using B True by simp_all
  have same: "take (length ?l + length ?r) ?b = ?l @ ?r"
  proof (rule nth_equalityI)
    show "length (take (length ?l + length ?r) ?b) = length (?l @ ?r)"
      using B True lens by (simp add: length_memmove)
    fix i
    assume "i < length (take (length ?l + length ?r) ?b)"
    with B True lens have i: "i < ?L - 1" by simp
    with B True lens len show "take (length ?l + length ?r) ?b ! i = (?l @ ?r) ! i"
      by (auto simp: move_simps nth_append ed_text_def)
  qed
  have "?b ! (buf_sz - 1) = nul" using B True by (auto simp: move_simps)
  moreover have "nul \<notin> set (?l @ ?r)" using B(6) by (auto dest: in_set_takeD in_set_dropD)
  moreover have "length ?l + length ?r < buf_sz" using B True lens by simp
  ultimately have "ed_does buf_sz (e\<lparr>ed_buf := ?b, ed_len := length ?l + length ?r, ed_cursor := length ?l\<rparr>)
      (ed_abs e\<lparr>z_left := ?l, z_right := ?r\<rparr>)"
    using B True same by (intro ed_text_does [OF assms]) (simp_all add: length_memmove)
  moreover have "fst (ed_delete e) = e\<lparr>ed_buf := ?b, ed_len := length ?l + length ?r, ed_cursor := length ?l\<rparr>"
    using B True lens by (simp add: ed_delete_def Let_def)
  ultimately show ?thesis by (simp add: ed_abs_def tl_drop drop_Suc)
qed

lemma char_of_printable: "0x20 \<le> (c :: 8 word) \<Longrightarrow> char_of (unat c) \<noteq> nul"
proof
  assume "0x20 \<le> c" and "char_of (unat c) = nul"
  then have "of_char (char_of (unat c) :: char) = (0 :: nat)" by (simp add: nul_def)
  then have "unat c mod 256 = 0" by simp
  then have "unat c = 0" using unsigned_less [of c, where 'a = nat] by simp
  with \<open>0x20 \<le> c\<close> show False by (simp add: word_le_nat_alt)
qed

lemma ed_insert_does:
  assumes "ed_inv buf_sz e"
  shows "ed_does buf_sz (fst (ed_insert buf_sz c e))
    (if 0x20 \<le> c \<and> c < 0x7F \<and> ed_len e < buf_sz - 1
     then ed_abs e\<lparr>z_left := take (ed_cursor e) (ed_text e) @ [char_of (unat c)]\<rparr> else ed_abs e)"
proof (cases "0x20 \<le> c \<and> c < 0x7F \<and> ed_len e < buf_sz - 1")
  case False
  then have "fst (ed_insert buf_sz c e) = e" by (auto simp: ed_insert_def)
  with False ed_same [OF assms] show ?thesis by auto
next
  case True
  let ?C = "ed_cursor e" and ?L = "ed_len e" and ?t = "ed_text e" and ?ch = "char_of (unat c) :: char"
  let ?l = "take ?C ?t @ [?ch]" and ?r = "drop ?C ?t"
  let ?b = "if ?C < ?L then (memmove (?C + 1) ?C (?L - ?C) (ed_buf e))[?C := ?ch] else (ed_buf e)[?C := ?ch]"
  note B = ed_bounds [OF assms]
  have len: "length ?t = ?L" by (rule ed_length [OF assms])
  then have lens: "length ?l = ?C + 1" "length ?r = ?L - ?C" using B by simp_all
  have same: "take (length ?l + length ?r) ?b = ?l @ ?r"
  proof (rule nth_equalityI)
    show "length (take (length ?l + length ?r) ?b) = length (?l @ ?r)"
      using B True lens by (simp add: length_memmove)
    fix i
    assume "i < length (take (length ?l + length ?r) ?b)"
    with B True lens have i: "i < ?L + 1" by (simp split: if_splits)
    with B True lens len show "take (length ?l + length ?r) ?b ! i = (?l @ ?r) ! i"
      by (cases "?C < ?L") (auto simp: move_simps nth_append ed_text_def)
  qed
  have "?b ! (buf_sz - 1) = nul" using B True by (auto simp: move_simps)
  moreover have "nul \<notin> set (?l @ ?r)"
    using B(6) char_of_printable [of c] True by (auto dest: in_set_takeD in_set_dropD)
  moreover have "length ?l + length ?r < buf_sz" using B True lens by auto
  ultimately have "ed_does buf_sz (e\<lparr>ed_buf := ?b, ed_len := length ?l + length ?r, ed_cursor := length ?l\<rparr>)
      (ed_abs e\<lparr>z_left := ?l, z_right := ?r\<rparr>)"
    using B True same by (intro ed_text_does [OF assms]) (simp_all add: length_memmove)
  moreover have "fst (ed_insert buf_sz c e) = e\<lparr>ed_buf := ?b, ed_len := length ?l + length ?r, ed_cursor := length ?l\<rparr>"
    using B True lens by (simp add: ed_insert_def Let_def)
  ultimately show ?thesis using True by (simp add: ed_abs_def)
qed

text \<open>A line of the history replaces the text.\<close>

lemma strncpy_text:
  assumes "length b = SHELL_MAX_LINE_LEN" and "n < SHELL_MAX_LINE_LEN" and "b ! n = nul" and "nul \<notin> set l"
  shows "cstr_at 0 (strncpy n l b) = take n l" and "length (strncpy n l b) = SHELL_MAX_LINE_LEN"
    and "strncpy n l b ! n = nul"
proof -
  have d: "drop n b = nul # drop (Suc n) b" using Cons_nth_drop_Suc [of n b] assms(1-3) by simp
  have e: "strncpy n l b = take n l @ nul # (replicate (n - length l) nul @ drop (Suc n) b)"
    by (simp add: strncpy_def d replicate_app_Cons_same replicate_append_same)
  have "nul \<notin> set (take n l)" using assms(4) by (auto dest: in_set_takeD)
  then show "cstr_at 0 (strncpy n l b) = take n l"
    unfolding cstr_at_def e drop_0 by (rule takeWhile_nul)
  show "length (strncpy n l b) = SHELL_MAX_LINE_LEN" using assms(1,2) by (simp add: strncpy_def)
  have "length (take n (l @ replicate n nul)) = n" by simp
  then show "strncpy n l b ! n = nul"
    using nth_append_length_plus [of "take n (l @ replicate n nul)" "drop n b" 0] assms(1-3)
    by (simp only: strncpy_def) simp
qed

lemma show_history_does:
  assumes "ed_inv buf_sz e" and "hist_ok h" and "\<And>l. fst x = Some l \<Longrightarrow> hist_line_ok l" and "snd x = h"
  shows "ed_does buf_sz (fst (show_history buf_sz x e)) (zip_show (buf_sz - 1) (fst x, hist_abs h) (ed_abs e))"
proof (cases "fst x")
  case None
  with assms show ?thesis
    by (cases x) (simp add: show_history_def zip_show_def ed_does_def ed_inv_def ed_abs_def)
next
  case (Some l)
  let ?b = "strncpy (buf_sz - 1) l (ed_buf e)" and ?l = "take (buf_sz - 1) l"
  note B = ed_bounds [OF assms(1)]
  have "hist_line_ok l" by (rule assms(3) [OF Some])
  then have l: "nul \<notin> set l" "nul \<notin> set ?l" by (auto simp: hist_line_ok_def dest: in_set_takeD)
  have n: "buf_sz - 1 < SHELL_MAX_LINE_LEN" using B by simp
  note S = strncpy_text [OF B(3) n B(5) l(1)]
  have i: "ed_inv buf_sz (e\<lparr>ed_hist := h\<rparr>)" using assms(1,2) by (simp add: ed_inv_def)
  have "take (length ?l) ?b = ?l"
    using S(1) takeWhile_eq_take [of "\<lambda>c. c \<noteq> nul" ?b] by (metis cstr_at_def drop_0)
  then have "take (length ?l + length ([] :: string)) ?b = ?l @ []" by (simp only: list.size add_0_right append_Nil2)
  then have "ed_does buf_sz (e\<lparr>ed_hist := h, ed_buf := ?b, ed_len := length ?l + length ([] :: string), ed_cursor := length ?l\<rparr>)
      (ed_abs (e\<lparr>ed_hist := h\<rparr>)\<lparr>z_left := ?l, z_right := []\<rparr>)"
    using B S l by (intro ed_text_does [OF i]) auto
  moreover have "fst (show_history buf_sz x e) = e\<lparr>ed_hist := h, ed_buf := ?b, ed_len := length ?l + length ([] :: string), ed_cursor := length ?l\<rparr>"
    using Some assms(4) S(1) by (cases x) (simp add: show_history_def Let_def)
  ultimately show ?thesis using Some by (simp add: zip_show_def ed_abs_def)
qed

lemma hist_result_ok:
  assumes "hist_ok h"
  shows "fst (history_prev h) = Some l \<Longrightarrow> hist_line_ok l" "fst (history_next h) = Some l \<Longrightarrow> hist_line_ok l"
    and "hist_ok (snd (history_prev h))" "hist_ok (snd (history_next h))"
proof -
  have i: "hist_inv 0 h" and ls: "list_all hist_line_ok (hist_lines h)" using assms by (simp_all add: hist_ok_def)
  note p = history_prev_sim [OF i] and n = history_next_sim [OF i]
  have at: "hist_line_ok (hist_lines h ! j)" if "j < length (hist_lines h)" for j
    using ls that by (simp add: list_all_length)
  have e: "hist_line_ok []" by (simp add: hist_line_ok_def SHELL_MAX_LINE_LEN_def)
  have pos: "snd (hist_abs h) = Some j \<Longrightarrow> j < length (hist_lines h)" for j
    using i by (auto simp: hist_abs_def hist_length hist_inv_def split: if_splits)
  obtain q where q: "hist_abs h = (hist_lines h, q)" by (simp add: hist_abs_def)
  show "fst (history_prev h) = Some l \<Longrightarrow> hist_line_ok l"
    using p(1) pos by (auto simp: spec_prev_def q split: option.splits if_splits intro!: at)
  show "fst (history_next h) = Some l \<Longrightarrow> hist_line_ok l"
    using n(1) e by (auto simp: spec_next_def q split: option.splits if_splits intro!: at)
  have "hist_lines (snd (history_prev h)) = hist_lines h" "hist_lines (snd (history_next h)) = hist_lines h"
    by (auto simp: history_prev_def history_next_def Let_def)
  with p(2) n(2) ls show "hist_ok (snd (history_prev h))" "hist_ok (snd (history_next h))"
    by (simp_all add: hist_ok_def)
qed

lemma edit_bracket_does:
  assumes "ed_inv buf_sz e"
  shows "ed_does buf_sz (fst (edit_bracket buf_sz c e)) (zip_bracket (buf_sz - 1) c (ed_abs e))"
proof -
  note B = ed_bounds [OF assms] and len = ed_length [OF assms]
  have h: "hist_ok (ed_hist e)" using assms by (simp add: ed_inv_def)
  then have i: "hist_inv 0 (ed_hist e)" by (simp add: hist_ok_def)
  have up: "ed_does buf_sz (fst (show_history buf_sz (history_prev (ed_hist e)) e))
      (zip_show (buf_sz - 1) (spec_prev (hist_abs (ed_hist e))) (ed_abs e))"
    unfolding history_prev_sim(1) [OF i]
    by (rule show_history_does [OF assms hist_result_ok(3) [OF h] hist_result_ok(1) [OF h] refl])
  have down: "ed_does buf_sz (fst (show_history buf_sz (history_next (ed_hist e)) e))
      (zip_show (buf_sz - 1) (spec_next (hist_abs (ed_hist e))) (ed_abs e))"
    unfolding history_next_sim(1) [OF i]
    by (rule show_history_does [OF assms hist_result_ok(4) [OF h] hist_result_ok(2) [OF h] refl])
  have right: "ed_does buf_sz (fst (if ed_cursor e < ed_len e then (e\<lparr>ed_cursor := ed_cursor e + 1\<rparr>, [W (ESC @ ''[C'')]) else (e, [])))
      (case z_right (ed_abs e) of [] \<Rightarrow> ed_abs e
       | r # rs \<Rightarrow> ed_abs e\<lparr>z_left := z_left (ed_abs e) @ [r], z_right := rs\<rparr>)"
  proof (cases "ed_cursor e < ed_len e")
    case True
    then have "drop (ed_cursor e) (ed_text e) = ed_text e ! ed_cursor e # drop (Suc (ed_cursor e)) (ed_text e)"
      "take (Suc (ed_cursor e)) (ed_text e) = take (ed_cursor e) (ed_text e) @ [ed_text e ! ed_cursor e]"
      using len by (simp_all add: Cons_nth_drop_Suc take_Suc_conv_app_nth)
    with ed_cursor_does [OF assms, of "ed_cursor e + 1"] True show ?thesis by simp
  next
    case False
    with B len ed_same [OF assms] show ?thesis by simp
  qed
  have left: "ed_does buf_sz (fst (if 0 < ed_cursor e then (e\<lparr>ed_cursor := ed_cursor e - 1\<rparr>, [W (ESC @ ''[D'')]) else (e, [])))
      (if z_left (ed_abs e) = [] then ed_abs e
       else ed_abs e\<lparr>z_left := butlast (z_left (ed_abs e)), z_right := last (z_left (ed_abs e)) # z_right (ed_abs e)\<rparr>)"
  proof (cases "ed_cursor e")
    case 0
    with ed_same [OF assms] show ?thesis by simp
  next
    case (Suc k)
    then have k: "k < length (ed_text e)" using B len by simp
    then have "butlast (take (ed_cursor e) (ed_text e)) = take k (ed_text e)"
      "last (take (ed_cursor e) (ed_text e)) # drop (ed_cursor e) (ed_text e) = drop k (ed_text e)"
      by (simp_all add: Suc take_Suc_conv_app_nth Cons_nth_drop_Suc)
    moreover have "take (ed_cursor e) (ed_text e) \<noteq> []" using k Suc by (simp add: take_Suc_conv_app_nth)
    ultimately show ?thesis using ed_cursor_does [OF assms, of k] Suc B by simp
  qed
  show ?thesis
    unfolding edit_bracket_def zip_bracket_def
    using up down right left ed_home_does [OF assms] ed_end_does [OF assms] ed_delete_does [OF assms] ed_same [OF assms]
    by auto
qed

text \<open>The other keys, and the end of a line.\<close>

lemma ed_clear_does:
  assumes "ed_inv buf_sz e" and "length b = SHELL_MAX_LINE_LEN" and "b ! (buf_sz - 1) = nul"
  shows "ed_does buf_sz (e\<lparr>ed_buf := b, ed_len := 0, ed_cursor := 0\<rparr>) (ed_abs e\<lparr>z_left := [], z_right := []\<rparr>)"
  using ed_text_does [OF assms(1,2), of "[]" "[]"] assms ed_bounds(1) [OF assms(1)] by simp

lemma ed_line:
  assumes "ed_inv buf_sz e"
  shows "cstr_at 0 ((ed_buf e)[ed_len e := nul]) = ed_text e" and "cstr buf_sz (ed_text e) = ed_text e"
    and "hist_line_ok (ed_text e)"
proof -
  note B = ed_bounds [OF assms] and len = ed_length [OF assms]
  have "ed_len e < length (ed_buf e)" using B by simp
  then have "(ed_buf e)[ed_len e := nul] = ed_text e @ nul # drop (Suc (ed_len e)) (ed_buf e)"
    by (simp add: upd_conv_take_nth_drop ed_text_def)
  with B(6) show "cstr_at 0 ((ed_buf e)[ed_len e := nul]) = ed_text e"
    by (simp add: cstr_at_def takeWhile_nul)
  show "cstr buf_sz (ed_text e) = ed_text e" "hist_line_ok (ed_text e)"
    using B len by (simp_all add: hist_line_ok_def)
qed

lemma edit_normal_does:
  assumes "ed_inv buf_sz e"
  shows "fst (edit_normal buf_sz c e) = fst (zip_normal (buf_sz - 1) c (ed_abs e)) \<and>
    (fst (edit_normal buf_sz c e) = More \<longrightarrow>
       ed_does buf_sz (fst (snd (edit_normal buf_sz c e))) (snd (zip_normal (buf_sz - 1) c (ed_abs e)))) \<and>
    hist_ok (ed_hist (fst (snd (edit_normal buf_sz c e)))) \<and>
    hist_abs (ed_hist (fst (snd (edit_normal buf_sz c e)))) = z_hist (snd (zip_normal (buf_sz - 1) c (ed_abs e)))"
proof -
  note B = ed_bounds [OF assms] and len = ed_length [OF assms]
  have h: "hist_ok (ed_hist e)" using assms by (simp add: ed_inv_def)
  have does: "hist_ok (ed_hist e') \<and> hist_abs (ed_hist e') = z_hist z" if "ed_does buf_sz e' z" for e' z
    using that by (auto simp: ed_does_def ed_inv_def)
  consider "c = 0x0D \<or> c = 0x0A" | "c = 0x1B" | "c = 0x7F \<or> c = 0x08" | "c = 0x03" | "c = 0x15" | "c = 0x04"
    | "c = 0x0C" | "c = 0x01" | "c = 0x05"
    | "c \<notin> {0x0D, 0x0A, 0x1B, 0x7F, 0x08, 0x03, 0x15, 0x04, 0x0C, 0x01, 0x05}"
    by auto
  then show ?thesis
  proof cases
    case 1
    with ed_line [OF assms] history_add_sim [OF h ed_line(3) [OF assms]] len show ?thesis
      by (auto simp: edit_normal_def zip_normal_def Let_def)
  next
    case 2
    with ed_es_does [OF assms] h show ?thesis by (simp add: edit_normal_def zip_normal_def)
  next
    case 3
    with ed_backspace_does [OF assms] does show ?thesis by (auto simp: edit_normal_def zip_normal_def)
  next
    case 4
    have "(ed_buf e)[0 := nul] ! (buf_sz - 1) = nul" using B by (cases "buf_sz - 1") auto
    from ed_clear_does [OF assms _ this] B 4 h show ?thesis by (auto simp: edit_normal_def zip_normal_def)
  next
    case 5
    show ?thesis
    proof (cases "ed_len e = 0")
      case True
      then have "ed_text e = []" using len by simp
      then have "ed_abs e = ed_abs e\<lparr>z_left := [], z_right := []\<rparr>" by (simp add: ed_abs_def)
      with ed_same [OF assms] h 5 True show ?thesis by (simp add: edit_normal_def zip_normal_def)
    next
      case False
      with ed_clear_does [OF assms, of "replicate SHELL_MAX_LINE_LEN nul"] B 5 h show ?thesis
        by (simp add: edit_normal_def zip_normal_def)
    qed
  next
    case 6
    have "ed_len e = 0 \<longleftrightarrow> ed_text e = []" using len by auto
    with ed_same [OF assms] 6 h show ?thesis by (auto simp: edit_normal_def zip_normal_def)
  next
    case 7
    with ed_same [OF assms] h show ?thesis by (simp add: edit_normal_def zip_normal_def)
  next
    case 8
    with ed_home_does [OF assms] does show ?thesis by (simp add: edit_normal_def zip_normal_def)
  next
    case 9
    with ed_end_does [OF assms] does show ?thesis by (simp add: edit_normal_def zip_normal_def)
  next
    case 10
    then have n: "edit_normal buf_sz c e = (More, ed_insert buf_sz c e)"
      "zip_normal (buf_sz - 1) c (ed_abs e) = (More, if 0x20 \<le> c \<and> c < 0x7F \<and> ed_len e < buf_sz - 1
         then ed_abs e\<lparr>z_left := take (ed_cursor e) (ed_text e) @ [char_of (unat c)]\<rparr> else ed_abs e)"
      using len by (simp_all add: edit_normal_def zip_normal_def)
    have d: "ed_does buf_sz (fst (ed_insert buf_sz c e)) (snd (zip_normal (buf_sz - 1) c (ed_abs e)))"
      unfolding n(2) snd_conv by (rule ed_insert_does [OF assms])
    have "fst (zip_normal (buf_sz - 1) c (ed_abs e)) = More" unfolding n(2) by simp
    with d does [OF d] show ?thesis unfolding n(1) by simp
  qed
qed

lemma edit_key_does:
  assumes "ed_inv buf_sz e"
  shows "fst (edit_key buf_sz c e) = fst (zip_key (buf_sz - 1) c (ed_abs e)) \<and>
    (fst (edit_key buf_sz c e) = More \<longrightarrow>
       ed_does buf_sz (fst (snd (edit_key buf_sz c e))) (snd (zip_key (buf_sz - 1) c (ed_abs e)))) \<and>
    hist_ok (ed_hist (fst (snd (edit_key buf_sz c e)))) \<and>
    hist_abs (ed_hist (fst (snd (edit_key buf_sz c e)))) = z_hist (snd (zip_key (buf_sz - 1) c (ed_abs e)))"
proof -
  have es: "ed_inv buf_sz (e\<lparr>ed_es := ES_NONE\<rparr>)" "ed_abs (e\<lparr>ed_es := ES_NONE\<rparr>) = ed_abs e\<lparr>z_es := ES_NONE\<rparr>"
    using ed_es_does [OF assms] by (simp_all add: ed_does_def)
  have does: "hist_ok (ed_hist e') \<and> hist_abs (ed_hist e') = z_hist z" if "ed_does buf_sz e' z" for e' z
    using that by (auto simp: ed_does_def ed_inv_def)
  show ?thesis
  proof (cases "ed_es e")
    case ES_NONE
    with edit_normal_does [OF assms] show ?thesis by (simp add: edit_key_def zip_key_def)
  next
    case ES_ESC
    moreover have "hist_ok (ed_hist e)" using assms by (simp add: ed_inv_def)
    ultimately show ?thesis using edit_normal_does [OF es(1), of c] ed_es_does [OF assms, of ES_BRACKET]
      by (simp add: edit_key_def zip_key_def es(2))
  next
    case ES_BRACKET
    with edit_bracket_does [OF es(1), of c] does show ?thesis by (simp add: edit_key_def zip_key_def es(2))
  qed
qed

text \<open>
  A session reads line after line with one history: the loop of the UART shell, and of a telnet
  session once logged in.  The answers are what each key returns.
\<close>

definition session_key :: "nat \<Rightarrow> 8 word \<Rightarrow> editor \<Rightarrow> edit_result \<times> editor" where
  "session_key buf_sz c e =
     (case edit_key buf_sz c e of
        (More, e', _) \<Rightarrow> (More, e')
      | (Return n l, e', _) \<Rightarrow> (Return n l, editor_new (ed_hist e')))"

definition zip_session :: "nat \<Rightarrow> 8 word \<Rightarrow> zipper \<Rightarrow> edit_result \<times> zipper" where
  "zip_session cap c z =
     (case zip_key cap c z of
        (More, z') \<Rightarrow> (More, z')
      | (Return n l, z') \<Rightarrow> (Return n l, zip_new (z_hist z')))"

lemma editor_new_does:
  assumes "0 < buf_sz" and "buf_sz \<le> SHELL_MAX_LINE_LEN" and "hist_ok h"
  shows "ed_does buf_sz (editor_new h) (zip_new (hist_abs h))"
  using assms by (simp add: ed_does_def ed_inv_def ed_abs_def editor_new_def zip_new_def ed_text_def)

lemma session_does:
  assumes "ed_inv buf_sz e"
  shows "zip_session (buf_sz - 1) c (ed_abs e) = (fst (session_key buf_sz c e), ed_abs (snd (session_key buf_sz c e)))"
    and "ed_inv buf_sz (snd (session_key buf_sz c e))"
proof -
  obtain r e' o1 where k: "edit_key buf_sz c e = (r, e', o1)" by (metis prod.collapse)
  obtain z' where z: "zip_key (buf_sz - 1) c (ed_abs e) = (r, z')"
    using edit_key_does [OF assms, of c] k by (metis fst_conv prod.collapse)
  note d = edit_key_does [OF assms, of c, unfolded k z fst_conv snd_conv]
  have n: "ed_does buf_sz (editor_new (ed_hist e')) (zip_new (z_hist z'))"
    using editor_new_does [of buf_sz "ed_hist e'"] d assms by (simp add: ed_inv_def)
  show "zip_session (buf_sz - 1) c (ed_abs e) = (fst (session_key buf_sz c e), ed_abs (snd (session_key buf_sz c e)))"
    and "ed_inv buf_sz (snd (session_key buf_sz c e))"
  proof (atomize (full), cases r)
    case More
    with d have "ed_inv buf_sz e'" "ed_abs e' = z'" by (auto simp: ed_does_def)
    with More show "zip_session (buf_sz - 1) c (ed_abs e) = (fst (session_key buf_sz c e), ed_abs (snd (session_key buf_sz c e))) \<and>
        ed_inv buf_sz (snd (session_key buf_sz c e))"
      by (simp add: session_key_def zip_session_def k z del: One_nat_def)
  next
    case (Return m l)
    from n have "ed_inv buf_sz (editor_new (ed_hist e'))" "ed_abs (editor_new (ed_hist e')) = zip_new (z_hist z')"
      by (auto simp: ed_does_def)
    with Return show "zip_session (buf_sz - 1) c (ed_abs e) = (fst (session_key buf_sz c e), ed_abs (snd (session_key buf_sz c e))) \<and>
        ed_inv buf_sz (snd (session_key buf_sz c e))"
      by (simp add: session_key_def zip_session_def k z del: One_nat_def)
  qed
qed

interpretation editor: simulates "session_key buf_sz" "\<lambda>_. True" "ed_inv buf_sz" "zip_session (buf_sz - 1)" ed_abs
  by unfold_locales (rule session_does(2) session_does(1); assumption)+

section \<open>Reading a line\<close>

text \<open>Editing leaves the remembered lines alone; ending a line adds it.\<close>

lemma zip_key_hist:
  "fst (zip_key cap c z) = More \<Longrightarrow> fst (z_hist (snd (zip_key cap c z))) = fst (z_hist z)"
  "fst (zip_key cap c z) = Return n (Some l) \<Longrightarrow> n = int (length (zip_text z)) \<and> l = zip_text z \<and>
     z_hist (snd (zip_key cap c z)) = spec_add l (z_hist z)"
  "fst (zip_key cap c z) = Return n None \<Longrightarrow> n = - 1 \<and> z_hist (snd (zip_key cap c z)) = z_hist z"
proof -
  have b: "fst (z_hist (zip_bracket cap c y)) = fst (z_hist y)" for y
    by (auto simp: zip_bracket_def zip_show_def spec_prev_def spec_next_def Let_def split_beta zip_home_def zip_end_def
        split: option.splits list.splits prod.splits)
  have m: "fst (zip_normal cap c y) = More \<Longrightarrow> fst (z_hist (snd (zip_normal cap c y))) = fst (z_hist y)" for y
    by (auto simp: zip_normal_def zip_home_def zip_end_def split: if_splits)
  have r: "fst (zip_normal cap c y) = Return n (Some l) \<Longrightarrow> n = int (length (zip_text y)) \<and> l = zip_text y \<and>
     z_hist (snd (zip_normal cap c y)) = spec_add l (z_hist y)" for y
    by (auto simp: zip_normal_def split: if_splits)
  have e: "fst (zip_normal cap c y) = Return n None \<Longrightarrow> n = - 1 \<and> z_hist (snd (zip_normal cap c y)) = z_hist y" for y
    by (auto simp: zip_normal_def split: if_splits)
  have t: "zip_text (z\<lparr>z_es := ES_NONE\<rparr>) = zip_text z" by (simp add: zip_text_def)
  show "fst (zip_key cap c z) = More \<Longrightarrow> fst (z_hist (snd (zip_key cap c z))) = fst (z_hist z)"
    "fst (zip_key cap c z) = Return n (Some l) \<Longrightarrow> n = int (length (zip_text z)) \<and> l = zip_text z \<and>
     z_hist (snd (zip_key cap c z)) = spec_add l (z_hist z)"
    "fst (zip_key cap c z) = Return n None \<Longrightarrow> n = - 1 \<and> z_hist (snd (zip_key cap c z)) = z_hist z"
    using b [of "z\<lparr>z_es := ES_NONE\<rparr>"] m [of z] m [of "z\<lparr>z_es := ES_NONE\<rparr>"] r [of z] r [of "z\<lparr>z_es := ES_NONE\<rparr>"]
      e [of z] e [of "z\<lparr>z_es := ES_NONE\<rparr>"] t
    by (auto simp: zip_key_def split: esc_state.splits if_splits)
qed

lemma spec_add_lines: "fst a = fst b \<Longrightarrow> fst (spec_add l a) = fst (spec_add l b)"
  by (cases a; cases b) (auto simp: spec_add_def Let_def)

definition line_result :: "nat \<Rightarrow> history \<Rightarrow> int \<times> string option \<Rightarrow> history \<Rightarrow> bool" where
  "line_result buf_sz h r h' \<longleftrightarrow> hist_ok h' \<and>
     (case r of
        (n, None) \<Rightarrow> n = - 1 \<and> fst (hist_abs h') = fst (hist_abs h)
      | (n, Some l) \<Rightarrow> n = int (length l) \<and> length l < buf_sz \<and> hist_line_ok l \<and>
          fst (hist_abs h') = fst (spec_add l (hist_abs h)))"

lemma readline_loop_result:
  assumes "readline_loop fd buf_sz xs e = (Some r, ys, h', o1)" and "ed_inv buf_sz e"
    and "fst (hist_abs (ed_hist e)) = fst (hist_abs h)"
  shows "line_result buf_sz h r h' \<and> length ys < length xs"
  using assms
proof (induction fd buf_sz xs e arbitrary: o1 rule: readline_loop.induct)
  case (1 fd buf_sz e)
  then show ?case by simp
next
  case (2 fd buf_sz c xs e)
  obtain q e' o2 where k: "edit_key buf_sz c e = (q, e', o2)" by (metis prod.collapse)
  obtain z' where z: "zip_key (buf_sz - 1) c (ed_abs e) = (q, z')"
    using edit_key_does [OF "2.prems"(2), of c] k by (metis fst_conv prod.collapse)
  note d = edit_key_does [OF "2.prems"(2), of c, unfolded k z fst_conv snd_conv]
  note zh = zip_key_hist [where cap = "buf_sz - 1" and c = c and z = "ed_abs e", unfolded z fst_conv snd_conv]
  show ?case
  proof (cases q)
    case More
    with "2.prems"(1) k obtain o3 where rest: "readline_loop fd buf_sz xs e' = (Some r, ys, h', o3)"
      by (auto simp: split_beta prod_eq_iff Let_def)
    from d More have "ed_inv buf_sz e'" by (auto simp: ed_does_def)
    moreover have "fst (hist_abs (ed_hist e')) = fst (hist_abs h)" using d zh(1) More "2.prems"(3) by simp
    ultimately show ?thesis using "2.IH" [OF k [symmetric] More refl rest] by simp
  next
    case (Return n l)
    with "2.prems"(1) k have r: "r = (n, l)" "ys = xs" "h' = ed_hist e'" by auto
    show ?thesis
    proof (cases l)
      case None
      with zh(3) d Return r "2.prems"(3) show ?thesis by (simp add: line_result_def)
    next
      case (Some t)
      with zh(2) Return have t: "n = int (length (ed_text e))" "t = ed_text e" "z_hist z' = spec_add t (hist_abs (ed_hist e))"
        by simp_all
      with Some d r ed_line(3) [OF "2.prems"(2)] ed_length [OF "2.prems"(2)] ed_bounds(1) [OF "2.prems"(2)]
        spec_add_lines [OF "2.prems"(3)]
      show ?thesis by (simp add: line_result_def)
    qed
  qed
next
  case (3 fd buf_sz xs e)
  then show ?case
    by (auto simp: line_result_def ed_inv_def less_SucI split: if_splits)
next
  case (4 fd buf_sz xs e)
  then show ?case by (auto simp: less_SucI)
qed

lemma shell_readline_ok:
  assumes "0 < buf_sz" and "buf_sz \<le> SHELL_MAX_LINE_LEN" and "hist_ok h"
    and "shell_readline fd buf_sz xs h = (Some r, ys, h', o1)"
  shows "line_result buf_sz h r h' \<and> length ys < length xs"
proof -
  have e: "ed_inv buf_sz (editor_new h)" using editor_new_does [OF assms(1-3)] by (simp add: ed_does_def)
  obtain o2 where "readline_loop fd buf_sz xs (editor_new h) = (Some r, ys, h', o2)"
    using assms(4) by (auto simp: shell_readline_def split_beta prod_eq_iff)
  from readline_loop_result [OF this e] show ?thesis by (simp add: editor_new_def)
qed

section \<open>Properties of the editor\<close>

text \<open>Claim C7: the line editor is a zipper.  For any sequence of keys, from any history, a session gives the
  same returns as the zipper: a printable character is inserted before the cursor while the text is shorter than
  the buffer allows, Backspace and Delete remove the character before and after it, the arrows, Home and End move
  it, Up and Down replace the text by a remembered line cut to the buffer, and Return gives the text, which is
  remembered.  (Delete leaves its final tilde to be inserted, in the zipper as in the code.)\<close>

theorem editor_refines_zipper:
  assumes "0 < buf_sz" and "buf_sz \<le> SHELL_MAX_LINE_LEN" and "hist_ok h"
  shows "answers (zip_session (buf_sz - 1)) keys (zip_new (hist_abs h)) =
    (fst (answers (session_key buf_sz) keys (editor_new h)), ed_abs (snd (answers (session_key buf_sz) keys (editor_new h))))"
proof -
  have "ed_inv buf_sz (editor_new h)" "ed_abs (editor_new h) = zip_new (hist_abs h)"
    using editor_new_does [OF assms] by (simp_all add: ed_does_def)
  then show ?thesis using editor.answers_sim [where ops = keys and s = "editor_new h" and buf_sz = buf_sz]
    by (simp add: list_all_iff)
qed

text \<open>Typing \<^verbatim>\<open>ac\<close>, Left, \<^verbatim>\<open>b\<close>, Return.\<close>

theorem editor_refines_zipper_witness:
  "last (fst (answers (session_key 256) [97, 99, 27, 91, 68, 98, 13] (editor_new history_new))) = Return 3 (Some ''abc'')"
proof -
  have "fst (answers (zip_session 255) [97, 99, 27, 91, 68, 98, 13] (zip_new ([], None))) =
      [More, More, More, More, More, More, Return 3 (Some ''abc'')]"
    by code_simp
  then show ?thesis
    using editor_refines_zipper [of 256 history_new "[97, 99, 27, 91, 68, 98, 13]"] history_new_ok
    by (simp add: SHELL_MAX_LINE_LEN_def)
qed

text \<open>Whatever bytes, timeouts and errors come in, reading a line returns either -1, or a line of
  at most \<open>buf_sz - 1\<close> characters with its length, which is remembered as the history specifies; the history
  stays well formed, and at least one input was used up.\<close>

theorem shell_readline_result:
  assumes "0 < buf_sz" and "buf_sz \<le> SHELL_MAX_LINE_LEN" and "hist_ok h"
    and "shell_readline fd buf_sz xs h = (Some r, ys, h', o1)"
  shows "line_result buf_sz h r h' \<and> length ys < length xs"
  using assms by (rule shell_readline_ok)

theorem shell_readline_result_witness:
  "fst (shell_readline (- 1) 256 [Got 104, Nothing, Got 105, Got 13] history_new) = Some (2, Some ''hi'') \<and>
   hist_lines (fst (snd (snd (shell_readline (- 1) 256 [Got 104, Nothing, Got 105, Got 13] history_new)))) = [''hi'']"
proof -
  have r: "fst (shell_readline (- 1) 256 [Got 104, Nothing, Got 105, Got 13] history_new) = Some (2, Some ''hi'')"
    by code_simp
  then obtain ys h' o1 where c: "shell_readline (- 1) 256 [Got 104, Nothing, Got 105, Got 13] history_new = (Some (2, Some ''hi''), ys, h', o1)"
    by (metis prod.collapse)
  from shell_readline_result [OF _ _ history_new_ok(1) this] have "fst (hist_abs h') = [''hi'']"
    by (simp add: line_result_def history_new_ok spec_add_def keep_last_def SHELL_MAX_LINE_LEN_def depth_def)
  then show ?thesis by (simp add: c hist_abs_def)
qed

text \<open>On a socket, 100 ms without a byte end the session.\<close>

lemma telnet_idle_hangs_up: "0 \<le> fd \<Longrightarrow> fst (shell_readline fd buf_sz (Nothing # xs) h) = Some (- 1, None)"
  by (simp add: shell_readline_def split_beta)

text \<open>After Ctrl+C the old text is still in the buffer behind the new end, and a redraw shows it.\<close>

lemma ctrl_c_stale_text:
  "snd (snd (snd (readline_loop (- 1) 256 [Got 97, Got 98, Got 99, Got 3, Got 120, Got 12] (editor_new history_new)))) =
   [Echo 97, Echo 98, Echo 99, W (''^C'' @ crlf), W SHELL_PROMPT, Echo 120,
    W (ESC @ ''[2J'' @ ESC @ ''[H''), W (cr @ SHELL_PROMPT), W ''xbc'']"
  by code_simp

end
