(* ===== verification/Shell.thy ===== *)
theory Shell
  imports LineEdit EnvExpand
begin

text \<open>
  The rest of the shell, \<^verbatim>\<open>src/components/os_shell/src/os_shell.c\<close>: the command table, the
  splitting of a line into arguments, execution, output capture, and the loops of the UART
  shell and of a telnet session, which read with the line editor of \<open>LineEdit\<close>.

  A command's handler is a number; what the handlers do is a parameter: given the handler, the
  session and the arguments, the value returned and the texts written.
\<close>

section \<open>Commands\<close>

definition SHELL_MAX_ARGS :: nat where "SHELL_MAX_ARGS = 16"
definition SHELL_MAX_COMMANDS :: nat where "SHELL_MAX_COMMANDS = 64"

definition SHELL_CMD_OK :: int where "SHELL_CMD_OK = 0"
definition SHELL_CMD_ERROR :: int where "SHELL_CMD_ERROR = - 1"
definition SHELL_CMD_EXIT :: int where "SHELL_CMD_EXIT = - 99"

record shell_command =
  cmd_name :: string
  cmd_description :: "string option"
  cmd_usage :: "string option"
  cmd_handler :: nat

text \<open>The entries of \<^verbatim>\<open>s_cmds\<close> below \<^verbatim>\<open>s_cmd_count\<close>.\<close>

type_synonym commands = "shell_command list"

text \<open>A registration may lack the name or the handler.\<close>

record shell_registration =
  reg_name :: "string option"
  reg_description :: "string option"
  reg_usage :: "string option"
  reg_handler :: "nat option"

definition shell_register_command :: "shell_registration option \<Rightarrow> commands \<Rightarrow> esp_err \<times> commands" where
  "shell_register_command reg cmds =
     (case reg of
        None \<Rightarrow> (ESP_ERR_INVALID_ARG, cmds)
      | Some r \<Rightarrow>
          (case (reg_name r, reg_handler r) of
             (Some n, Some f) \<Rightarrow>
               let c = \<lparr>cmd_name = n, cmd_description = reg_description r, cmd_usage = reg_usage r, cmd_handler = f\<rparr>
               in if SHELL_MAX_COMMANDS \<le> length cmds then (ESP_ERR_NO_MEM, cmds)
                  else
                    (case find_idx (\<lambda>d. cmd_name d = n) cmds of
                       Some i \<Rightarrow> (ESP_OK, cmds[i := c])
                     | None \<Rightarrow> (ESP_OK, cmds @ [c]))
           | _ \<Rightarrow> (ESP_ERR_INVALID_ARG, cmds)))"

definition shell_find_command :: "string \<Rightarrow> commands \<Rightarrow> shell_command option" where
  "shell_find_command name cmds = map_option ((!) cmds) (find_idx (\<lambda>d. cmd_name d = name) cmds)"

definition opt_text :: "string option \<Rightarrow> string" where
  "opt_text x = (case x of None \<Rightarrow> [] | Some s \<Rightarrow> s)"

definition shell_print_help :: "commands \<Rightarrow> out list" where
  "shell_print_help cmds =
     [W (crlf @ ESC @ ''[1mAvailable Commands:'' @ ESC @ ''[0m'' @ crlf @ crlf)] @
     map (\<lambda>c. shell_text (''  '' @ ESC @ ''[32m'' @ padr 18 (cmd_name c) @ ESC @ ''[0m  '' @ opt_text (cmd_description c) @ crlf)) cmds @
     [W (crlf @ ''Type '' @ quote @ ''<cmd> --help'' @ quote @ '' for usage details.'' @ crlf @ crlf)]"

section \<open>Arguments\<close>

text \<open>
  The loop of \<^verbatim>\<open>parse_args\<close> with room for \<open>n\<close> more arguments.  The pointers into the line and the
  terminators written there make each argument the text up to the next blank, or quote.
\<close>

fun parse_loop :: "nat \<Rightarrow> string \<Rightarrow> string list" where
  "parse_loop 0 s = []"
| "parse_loop (Suc n) s =
     (case dropWhile is_space s of
        [] \<Rightarrow> []
      | c # cs \<Rightarrow>
          if c = CHR 0x22
          then takeWhile (\<lambda>c. c \<noteq> CHR 0x22) cs # parse_loop n (tl (dropWhile (\<lambda>c. c \<noteq> CHR 0x22) cs))
          else takeWhile (\<lambda>c. \<not> is_space c) (c # cs) # parse_loop n (tl (dropWhile (\<lambda>c. \<not> is_space c) (c # cs))))"

definition parse_args :: "string \<Rightarrow> nat \<Rightarrow> string list" where
  "parse_args line max_argc = parse_loop (max_argc - 1) line"

section \<open>Execution\<close>

text \<open>\<^verbatim>\<open>while (tlen > 0 && isspace(line[tlen - 1])) line[--tlen] = '\0';\<close>\<close>

definition trim_end :: "string \<Rightarrow> string" where
  "trim_end s = rev (dropWhile is_space (rev s))"

text \<open>A handler gives the value it returns and the texts it writes.\<close>

type_synonym handlers = "nat \<Rightarrow> int \<Rightarrow> string list \<Rightarrow> int \<times> string list"

definition line_buffer :: "string \<Rightarrow> string" where
  "line_buffer raw = (let l = cstr SHELL_MAX_LINE_LEN raw in l @ replicate (SHELL_MAX_LINE_LEN - length l) nul)"

text \<open>
  The value returned, the texts written, and the arguments a handler was called with, if one was.
  The result is \<open>None\<close> when the expansion reads past the end of the line's buffer.
\<close>

definition shell_dispatch ::
  "handlers \<Rightarrow> commands \<Rightarrow> int \<Rightarrow> string list \<Rightarrow> int \<times> string list \<times> (nat \<times> string list) option" where
  "shell_dispatch run_handler cmds fd argv =
     (if argv = [] then (SHELL_CMD_OK, [], None)
      else if 2 \<le> length argv \<and> argv ! 1 = ''--help''
      then (SHELL_CMD_OK,
            case shell_find_command (argv ! 0) cmds of
              None \<Rightarrow> []
            | Some c \<Rightarrow>
                [cstr 512 (crlf @ ''Usage: '' @ (case cmd_usage c of None \<Rightarrow> cmd_name c | Some u \<Rightarrow> u) @ crlf @
                   opt_text (cmd_description c) @ crlf @ crlf)], None)
      else
        case shell_find_command (argv ! 0) cmds of
          None \<Rightarrow> (SHELL_CMD_ERROR,
                   [cstr 512 (''Command not found: '' @ quote @ argv ! 0 @ quote @ ''  (type '' @ quote @ ''help'' @ quote @ '')'' @ crlf)],
                   None)
        | Some c \<Rightarrow> (case run_handler (cmd_handler c) fd argv of (ret, texts) \<Rightarrow> (ret, texts, Some (cmd_handler c, argv))))"

definition shell_execute ::
  "handlers \<Rightarrow> commands \<Rightarrow> env_state \<Rightarrow> int \<Rightarrow> string option \<Rightarrow> (int \<times> string list \<times> (nat \<times> string list) option) option" where
  "shell_execute run_handler cmds env fd raw_line =
     (case raw_line of
        None \<Rightarrow> Some (SHELL_CMD_OK, [], None)
      | Some raw \<Rightarrow>
          if raw = [] \<or> hd raw = CHR ''#'' then Some (SHELL_CMD_OK, [], None)
          else
            (case os_env_expand (Some (line_buffer raw)) True SHELL_MAX_LINE_LEN env of
               Some (_, Some expanded) \<Rightarrow>
                 Some (shell_dispatch run_handler cmds fd
                   (parse_args (trim_end (cstr SHELL_MAX_LINE_LEN expanded)) SHELL_MAX_ARGS))
             | _ \<Rightarrow> None))"

section \<open>Output capture\<close>

record capture =
  cap_active :: bool
  cap_buffer :: string
  cap_size :: nat
  cap_length :: nat

definition capture_zero :: capture where
  "capture_zero = \<lparr>cap_active = False, cap_buffer = [], cap_size = 0, cap_length = 0\<rparr>"

text \<open>The captured text so far is the buffer's C string; \<open>cap_length\<close> is its length.\<close>

definition shell_capture_append :: "string \<Rightarrow> capture \<Rightarrow> capture" where
  "shell_capture_append s c =
     (if cap_active c \<and> 0 < cap_size c
      then
        let available = (if cap_length c < cap_size c - 1 then cap_size c - 1 - cap_length c else 0);
            len = min (length s) available
        in if 0 < available
           then c\<lparr>cap_buffer := take (cap_length c) (cap_buffer c) @ take len s, cap_length := cap_length c + len\<rparr>
           else c
      else c)"

datatype shell_out = ToUart string | ToSocket int string

definition shell_write :: "int \<Rightarrow> string option \<Rightarrow> capture \<Rightarrow> capture \<times> shell_out list" where
  "shell_write fd str c =
     (case str of
        None \<Rightarrow> (c, [])
      | Some s \<Rightarrow>
          if cap_active c then (shell_capture_append s c, [])
          else (c, [if fd < 0 then ToUart s else ToSocket fd s]))"

text \<open>The text captured, the command's value, and the result code.\<close>

definition shell_execute_capture ::
  "handlers \<Rightarrow> commands \<Rightarrow> env_state \<Rightarrow> string option \<Rightarrow> bool \<Rightarrow> nat \<Rightarrow> capture
   \<Rightarrow> (esp_err \<times> (string \<times> int) option \<times> capture) option" where
  "shell_execute_capture run_handler cmds env line out_buf out_sz c =
     (if line = None \<or> \<not> out_buf \<or> out_sz = 0 then Some (ESP_ERR_INVALID_ARG, None, c)
      else if cap_active c then Some (ESP_ERR_INVALID_STATE, None, c)
      else
        map_option (\<lambda>(ret, texts, _).
            let c1 = \<lparr>cap_active = True, cap_buffer = [], cap_size = out_sz, cap_length = 0\<rparr>;
                c2 = fold (\<lambda>s c. fst (shell_write (- 1) (Some s) c)) texts c1
            in (ESP_OK, Some (cap_buffer c2, ret), capture_zero))
          (shell_execute run_handler cmds env (- 1) line))"

section \<open>Sessions\<close>

text \<open>
  What a session does, in order: writing, executing a line, logging, waiting, setting the timeout of its socket in
  seconds and closing it, deleting its task.
  \<open>exec\<close> stands for \<^verbatim>\<open>shell_execute\<close> on the session: it takes and returns the state of the
  system, which the commands may change.  A session whose input has run out is still reading.
\<close>

datatype session_event =
    Out out | Exec string | SLog os_log_level string | Wait | RecvTimeout int nat | Close int | EndTask

lemma readline_loop_shorter: "readline_loop fd buf_sz xs e = (Some r, ys, h', o1) \<Longrightarrow> length ys < length xs"
  by (induction fd buf_sz xs e arbitrary: o1 rule: readline_loop.induct)
    (auto split: prod.splits edit_result.splits if_splits simp: less_SucI Let_def)

lemma shell_readline_shorter: "shell_readline fd buf_sz xs h = (Some r, ys, h', o1) \<Longrightarrow> length ys < length xs"
  by (auto simp: shell_readline_def split_beta prod_eq_iff intro: readline_loop_shorter)

definition SHELL_BANNER :: string where
  "SHELL_BANNER = crlf @ ESC @ ''[1;36m'' @
     ''  _____  ____  ____  ____  ____  ___  ____'' @ crlf @
     '' | ____|/ ___||  _ '' @ [CHR 0x5C] @ ''|___ '' @ [CHR 0x5C] @ ''|___ '' @ [CHR 0x5C] @ ''/ _ '' @ [CHR 0x5C] @ ''/ ___|'' @ crlf @
     '' |  _|  '' @ [CHR 0x5C] @ ''___ '' @ [CHR 0x5C] @ ''| |_) | __) | __) | | | '' @ [CHR 0x5C] @ ''___ '' @ [CHR 0x5C] @ crlf @
     '' | |___  ___) |  __/ / __/ / __/| |_| |___) |'' @ crlf @
     '' |_____|____/|_|   |_____|_____|'' @ [CHR 0x5C] @ ''___/|____/'' @ crlf @
     ESC @ ''[0m'' @ crlf @ ''  ESP32 Embedded OS  v1.0.0'' @ crlf @
     ''  Type '' @ quote @ ''help'' @ quote @ '' for commands'' @ crlf @ crlf"

text \<open>The loop of the UART shell; its result is also the history it is left with.\<close>

function uart_loop ::
  "('w \<Rightarrow> string \<Rightarrow> int \<times> 'w) \<Rightarrow> input list \<Rightarrow> history \<Rightarrow> 'w \<Rightarrow> session_event list \<times> history \<times> 'w" where
  "uart_loop exec xs h w =
     (case shell_readline (- 1) SHELL_MAX_LINE_LEN xs h of
        (None, _, h', outs) \<Rightarrow> (map Out outs, h', w)
      | (Some (n, l), ys, h', outs) \<Rightarrow>
          (let (w', tr) = (if n < 0 then (w, [Wait])
                           else if 0 < n then (snd (exec w (opt_text l)), [Exec (opt_text l)]) else (w, []));
               (tr', h'', w'') = uart_loop exec ys h' w'
           in (map Out outs @ tr @ tr', h'', w'')))"
  by pat_completeness auto
termination
  by (relation "measure (\<lambda>(exec, xs, h, w). length xs)") (auto dest: shell_readline_shorter [OF sym])

declare uart_loop.simps [simp del]

definition uart_shell_task ::
  "('w \<Rightarrow> string \<Rightarrow> int \<times> 'w) \<Rightarrow> bool \<Rightarrow> input list \<Rightarrow> 'w \<Rightarrow> session_event list \<times> 'w" where
  "uart_shell_task exec hist_mem xs w =
     (if \<not> hist_mem then ([Out (W SHELL_BANNER), SLog OS_LOG_ERROR ''Failed to allocate shell history'', EndTask], w)
      else let (tr, _, w') = uart_loop exec xs history_new w in (Out (W SHELL_BANNER) # tr, w'))"

text \<open>The loop of a telnet session after its login; the flag says that it ended.\<close>

function telnet_loop ::
  "('w \<Rightarrow> string \<Rightarrow> int \<times> 'w) \<Rightarrow> int \<Rightarrow> input list \<Rightarrow> history \<Rightarrow> 'w \<Rightarrow> bool \<times> session_event list \<times> 'w" where
  "telnet_loop exec fd xs h w =
     (case shell_readline fd SHELL_MAX_LINE_LEN xs h of
        (None, _, h', outs) \<Rightarrow> (False, map Out outs, w)
      | (Some (n, l), ys, h', outs) \<Rightarrow>
          if n < 0 then (True, map Out outs, w)
          else if n = 0
          then (let (fin, tr, w') = telnet_loop exec fd ys h' w in (fin, map Out outs @ tr, w'))
          else
            (let (ret, w') = exec w (opt_text l); tr0 = map Out outs @ [Exec (opt_text l)]
             in if ret = SHELL_CMD_EXIT then (True, tr0, w')
                else (let (fin, tr, w'') = telnet_loop exec fd ys h' w' in (fin, tr0 @ tr, w''))))"
  by pat_completeness auto
termination
  by (relation "measure (\<lambda>(exec, fd, xs, h, w). length xs)") (auto dest: shell_readline_shorter [OF sym])

declare telnet_loop.simps [simp del]

text \<open>The two lines of the login are read into buffers of 48 bytes, with the session's history.\<close>

definition telnet_session_task ::
  "string \<Rightarrow> string \<Rightarrow> ('w \<Rightarrow> string \<Rightarrow> int \<times> 'w) \<Rightarrow> bool \<Rightarrow> int \<Rightarrow> input list \<Rightarrow> 'w \<Rightarrow> session_event list \<times> 'w" where
  "telnet_session_task username password exec hist_mem fd xs w =
     (let start = [SLog OS_LOG_INFO ''Telnet session started from %s''];
          fin = [SLog OS_LOG_INFO ''Telnet session closed (%s)'', Close fd, EndTask]
      in if \<not> hist_mem then (start @ [SLog OS_LOG_ERROR ''Failed to allocate telnet history'', Close fd, EndTask], w)
         else
           let tr0 = start @ [RecvTimeout fd 300, Out (W (crlf @ ESC @ ''[1mesp32os login:'' @ ESC @ ''[0m ''))]
           in case shell_readline fd 48 xs history_new of
                (None, _, _, outs) \<Rightarrow> (tr0 @ map Out outs, w)
              | (Some (n1, user), ys, h1, outs1) \<Rightarrow>
                  let tr1 = tr0 @ map Out outs1
                  in if n1 < 0 then (tr1 @ fin, w)
                     else
                       case shell_readline fd 48 ys h1 of
                         (None, _, _, outs2) \<Rightarrow> (tr1 @ [Out (W ''Password: '')] @ map Out outs2, w)
                       | (Some (n2, pass), zs, h2, outs2) \<Rightarrow>
                           let tr2 = tr1 @ [Out (W ''Password: '')] @ map Out outs2
                           in if n2 < 0 then (tr2 @ fin, w)
                              else if opt_text user \<noteq> username \<or> opt_text pass \<noteq> password
                              then (tr2 @ [Out (W (crlf @ ''Login incorrect.'' @ crlf)),
                                           SLog OS_LOG_WARN (''Auth failed from %s (user='' @ quote @ ''%s'' @ quote @ '')'')] @ fin, w)
                              else
                                let (ended, tr, w') = telnet_loop exec fd zs h2 w
                                in (tr2 @ [SLog OS_LOG_INFO (''Auth OK from %s (user='' @ quote @ ''%s'' @ quote @ '')''),
                                           Out (W SHELL_BANNER)] @ tr @ (if ended then fin else []), w'))"

definition TELNET_PORT_DEFAULT :: "16 word" where "TELNET_PORT_DEFAULT = 2222"

definition shell_init :: "esp_err \<times> session_event list" where
  "shell_init = (ESP_OK, [SLog OS_LOG_INFO ''Shell init  (cmds max=%d)''])"

text \<open>\<open>created\<close>: \<^verbatim>\<open>xTaskCreate\<close> succeeds.\<close>

definition shell_start_uart :: "bool \<Rightarrow> esp_err" where
  "shell_start_uart created = (if created then ESP_OK else ESP_ERR_NO_MEM)"

text \<open>The result, and the port a server task was asked for.\<close>

definition shell_start_telnet :: "bool \<Rightarrow> string \<Rightarrow> string \<Rightarrow> bool \<Rightarrow> 16 word \<Rightarrow> esp_err \<times> 16 word option" where
  "shell_start_telnet enabled username password created port =
     (if \<not> enabled then (ESP_ERR_NOT_SUPPORTED, None)
      else if username = [] \<or> password = [] then (ESP_ERR_INVALID_STATE, None)
      else (if created then ESP_OK else ESP_ERR_NO_MEM, Some (if port = 0 then TELNET_PORT_DEFAULT else port)))"

section \<open>Arguments: round trip\<close>

text \<open>How an argument is written on a line: as it is, or in quotes.\<close>

definition plain :: "string \<Rightarrow> bool" where
  "plain t \<longleftrightarrow> t \<noteq> [] \<and> hd t \<noteq> CHR 0x22 \<and> list_all (\<lambda>c. \<not> is_space c) t"

definition arg_ok :: "string \<Rightarrow> bool" where
  "arg_ok t \<longleftrightarrow> plain t \<or> CHR 0x22 \<notin> set t"

definition show_arg :: "string \<Rightarrow> string" where
  "show_arg t = (if plain t then t else CHR 0x22 # t @ [CHR 0x22])"

definition show_args :: "string list \<Rightarrow> string" where
  "show_args ts = concat (map (\<lambda>t. show_arg t @ '' '') ts)"

lemma blank_space: "is_space CHR '' ''" "\<not> is_space CHR 0x22"
  by (simp_all add: is_space_def)

lemma takeWhile_dropWhile_stop:
  "list_all P xs \<Longrightarrow> \<not> P y \<Longrightarrow> takeWhile P (xs @ y # ys) = xs \<and> dropWhile P (xs @ y # ys) = y # ys"
  by (induction xs) auto

lemma parse_loop_blank: "parse_loop n (CHR '' '' # s) = parse_loop n s"
  by (cases n) (simp_all add: blank_space)

lemma parse_loop_arg:
  assumes "arg_ok t"
  shows "parse_loop (Suc n) (show_arg t @ CHR '' '' # s) = t # parse_loop n s"
proof (cases "plain t")
  case True
  then obtain c cs where t: "t = c # cs" "\<not> is_space c" "c \<noteq> CHR 0x22" "list_all (\<lambda>c. \<not> is_space c) t"
    by (cases t) (auto simp: plain_def)
  with takeWhile_dropWhile_stop [of "\<lambda>c. \<not> is_space c" t "CHR '' ''" s] True show ?thesis
    by (simp add: show_arg_def blank_space)
next
  case False
  then have "list_all (\<lambda>c. c \<noteq> CHR 0x22) t" using assms by (auto simp: arg_ok_def list_all_iff)
  from takeWhile_dropWhile_stop [OF this, of "CHR 0x22" "CHR '' '' # s"] False show ?thesis
    by (simp add: show_arg_def blank_space parse_loop_blank)
qed

lemma parse_loop_args:
  "list_all arg_ok ts \<Longrightarrow> parse_loop n (show_args ts) = take n ts"
proof (induction ts arbitrary: n)
  case Nil
  then show ?case by (cases n) (simp_all add: show_args_def)
next
  case (Cons t ts)
  then show ?case
    by (cases n) (simp_all add: show_args_def parse_loop_arg del: parse_loop.simps(2))
qed

lemma parse_loop_length: "length (parse_loop n s) \<le> n"
  by (induction n s rule: parse_loop.induct) (auto split: list.split)

text \<open>Claim C21: splitting a line undoes writing it: arguments without blanks as they are, others (also empty
  ones) in quotes, come back in order, up to the 15 there is room for; from any line whatever there are at most
  15 arguments.\<close>

theorem parse_args_roundtrip:
  assumes "list_all arg_ok ts"
  shows "parse_args (show_args ts) SHELL_MAX_ARGS = take 15 ts \<and> length (parse_args line SHELL_MAX_ARGS) \<le> 15"
  using parse_loop_args [OF assms, of 15] parse_loop_length [of 15 line]
  by (simp add: parse_args_def SHELL_MAX_ARGS_def)

theorem parse_args_roundtrip_witness:
  "parse_args (''echo '' @ [CHR 0x22] @ ''a b'' @ [CHR 0x22] @ '' c '') SHELL_MAX_ARGS = [''echo'', ''a b'', ''c'']"
proof -
  have "list_all arg_ok [''echo'', ''a b'', ''c'']" by code_simp
  moreover have "show_args [''echo'', ''a b'', ''c''] = ''echo '' @ [CHR 0x22] @ ''a b'' @ [CHR 0x22] @ '' c ''"
    by code_simp
  ultimately show ?thesis using parse_args_roundtrip [of "[''echo'', ''a b'', ''c'']"] by simp
qed

section \<open>The command table\<close>

definition commands_ok :: "commands \<Rightarrow> bool" where
  "commands_ok cmds \<longleftrightarrow> distinct (map cmd_name cmds) \<and> length cmds \<le> SHELL_MAX_COMMANDS"

lemma find_command_None: "shell_find_command n cmds = None \<longleftrightarrow> n \<notin> cmd_name ` set cmds"
  by (auto simp: shell_find_command_def find_idx_None)

lemma find_command_Some:
  assumes "commands_ok cmds"
  shows "shell_find_command n cmds = Some c \<longleftrightarrow> c \<in> set cmds \<and> cmd_name c = n"
proof
  assume "shell_find_command n cmds = Some c"
  then obtain i where "find_idx (\<lambda>d. cmd_name d = n) cmds = Some i" "c = cmds ! i"
    by (auto simp: shell_find_command_def)
  with find_idx_SomeD [OF this(1)] show "c \<in> set cmds \<and> cmd_name c = n" by auto
next
  assume c: "c \<in> set cmds \<and> cmd_name c = n"
  then obtain i where i: "i < length cmds" "cmds ! i = c" by (auto simp: in_set_conv_nth)
  have "find_idx (\<lambda>d. cmd_name d = n) cmds = Some i"
  proof (rule find_idx_unique)
    fix j
    assume "j < length cmds" "cmd_name (cmds ! j) = n"
    with i c assms show "j = i"
      by (auto simp: commands_ok_def distinct_conv_nth)
  qed (use i c in auto)
  with i show "shell_find_command n cmds = Some c" by (simp add: shell_find_command_def)
qed

lemma register_ok: "commands_ok cmds \<Longrightarrow> commands_ok (snd (shell_register_command reg cmds))"
proof -
  assume ok: "commands_ok cmds"
  have upd: "commands_ok (cmds[i := c])" if "find_idx (\<lambda>d. cmd_name d = cmd_name c) cmds = Some i" for i c
  proof -
    have "i < length cmds" "cmd_name (cmds ! i) = cmd_name c" using find_idx_SomeD [OF that] by auto
    then have "map cmd_name (cmds[i := c]) = map cmd_name cmds" by (auto simp: map_update list_update_same_conv)
    with ok show ?thesis by (simp add: commands_ok_def)
  qed
  have new: "commands_ok (cmds @ [c])"
    if "find_idx (\<lambda>d. cmd_name d = cmd_name c) cmds = None" "\<not> SHELL_MAX_COMMANDS \<le> length cmds" for c
    using that ok by (auto simp: commands_ok_def find_idx_None)
  show ?thesis
    using ok upd [of "\<lparr>cmd_name = n, cmd_description = a, cmd_usage = b, cmd_handler = f\<rparr>" for n a b f]
      new [of "\<lparr>cmd_name = n, cmd_description = a, cmd_usage = b, cmd_handler = f\<rparr>" for n a b f]
    by (auto simp: shell_register_command_def Let_def split: option.split)
qed

interpretation shell_table: guarded "\<lambda>r cmds. snd (shell_register_command r cmds)" "\<lambda>_. True" commands_ok
  by unfold_locales (rule register_ok)

text \<open>The value of a registration, if it is one.\<close>

definition registered :: "shell_registration \<Rightarrow> shell_command option" where
  "registered r =
     (case (reg_name r, reg_handler r) of
        (Some n, Some f) \<Rightarrow> Some \<lparr>cmd_name = n, cmd_description = reg_description r, cmd_usage = reg_usage r, cmd_handler = f\<rparr>
      | _ \<Rightarrow> None)"

text \<open>After any sequence of registrations there are at most 64 commands with distinct names; one more
  registration is refused and changes nothing when it lacks a name or handler, or when the table is full (even
  for a name it holds); otherwise its name finds the new command and every other name finds what it did.\<close>

theorem shell_register_find:
  assumes "cmds = run (\<lambda>r cmds. snd (shell_register_command r cmds)) regs []"
  shows "commands_ok cmds \<and>
    (case registered r of
       None \<Rightarrow> shell_register_command (Some r) cmds = (ESP_ERR_INVALID_ARG, cmds)
     | Some c \<Rightarrow>
         if length cmds = SHELL_MAX_COMMANDS then shell_register_command (Some r) cmds = (ESP_ERR_NO_MEM, cmds)
         else fst (shell_register_command (Some r) cmds) = ESP_OK \<and>
           (\<forall>n. shell_find_command n (snd (shell_register_command (Some r) cmds)) =
              (if n = cmd_name c then Some c else shell_find_command n cmds)))"
proof -
  have ok: "commands_ok cmds"
    unfolding assms by (rule shell_table.run_inv) (simp_all add: list_all_iff commands_ok_def)
  show ?thesis
  proof (cases "registered r")
    case None
    with ok show ?thesis by (auto simp: registered_def shell_register_command_def Let_def split: option.splits)
  next
    case (Some c)
    then have e: "shell_register_command (Some r) cmds =
        (if SHELL_MAX_COMMANDS \<le> length cmds then (ESP_ERR_NO_MEM, cmds)
         else case find_idx (\<lambda>d. cmd_name d = cmd_name c) cmds of Some i \<Rightarrow> (ESP_OK, cmds[i := c]) | None \<Rightarrow> (ESP_OK, cmds @ [c]))"
      by (auto simp: registered_def shell_register_command_def Let_def split: option.splits)
    show ?thesis
    proof (cases "SHELL_MAX_COMMANDS \<le> length cmds")
      case True
      with ok Some e show ?thesis by (simp add: commands_ok_def)
    next
      case False
      let ?cmds = "snd (shell_register_command (Some r) cmds)"
      have ok': "commands_ok ?cmds" by (rule register_ok [OF ok])
      have s: "d \<in> set ?cmds \<longleftrightarrow> d = c \<or> (d \<in> set cmds \<and> cmd_name d \<noteq> cmd_name c)" for d
      proof (cases "find_idx (\<lambda>d. cmd_name d = cmd_name c) cmds")
        case None
        with e False show ?thesis by (auto simp: find_idx_None)
      next
        case (Some i)
        then have i: "i < length cmds" "cmd_name (cmds ! i) = cmd_name c" using find_idx_SomeD [OF Some] by auto
        have "set (cmds[i := c]) = insert c (set cmds - {cmds ! i})"
          using i ok by (intro set_update_distinct) (auto simp: commands_ok_def distinct_map)
        moreover have "d = cmds ! i" if "d \<in> set cmds" "cmd_name d = cmd_name c"
          using find_command_Some [OF ok, of "cmd_name c"] that i by (metis nth_mem option.inject)
        ultimately show ?thesis using e False Some i by auto
      qed
      have "shell_find_command n ?cmds = (if n = cmd_name c then Some c else shell_find_command n cmds)" for n
      proof (cases "n = cmd_name c")
        case True
        with find_command_Some [OF ok'] s show ?thesis by auto
      next
        case False
        then have "shell_find_command n ?cmds = Some d \<longleftrightarrow> shell_find_command n cmds = Some d" for d
          using find_command_Some [OF ok'] find_command_Some [OF ok] s by auto
        with False show ?thesis by (metis not_None_eq)
      qed
      with ok Some e False show ?thesis by (auto split: option.splits)
    qed
  qed
qed

theorem shell_register_find_witness:
  "shell_find_command ''ls'' (snd (shell_register_command (Some \<lparr>reg_name = Some ''ls'', reg_description = None, reg_usage = None, reg_handler = Some 4\<rparr>) [])) =
   Some \<lparr>cmd_name = ''ls'', cmd_description = None, cmd_usage = None, cmd_handler = 4\<rparr>"
  using shell_register_find [of "[]" "[]" "\<lparr>reg_name = Some ''ls'', reg_description = None, reg_usage = None, reg_handler = Some 4\<rparr>"]
  by (simp add: registered_def SHELL_MAX_COMMANDS_def)

section \<open>Expansion of a line's buffer\<close>

text \<open>
  A buffer that ends in two terminators is never read past its end: the scans stop at the first,
  and an unterminated reference steps over one only.
\<close>

definition padded :: "string \<Rightarrow> bool" where
  "padded buf \<longleftrightarrow> (\<exists>l k. buf = l @ replicate (Suc (Suc k)) nul \<and> nul \<notin> set l)"

definition text_length :: "string \<Rightarrow> nat" where
  "text_length buf = length (takeWhile (\<lambda>c. c \<noteq> nul) buf)"

lemma padded_rd:
  assumes "padded buf" and "i \<le> text_length buf + 1"
  shows "\<exists>c. rd buf i = Some c \<and> (c = nul \<longleftrightarrow> text_length buf \<le> i)"
proof -
  obtain l k where b: "buf = l @ replicate (Suc (Suc k)) nul" "nul \<notin> set l"
    using assms(1) by (auto simp: padded_def)
  have n: "text_length buf = length l"
    using takeWhile_nul [OF b(2), of "replicate (Suc k) nul"] by (simp add: text_length_def b(1))
  have "buf ! i = nul \<longleftrightarrow> length l \<le> i" if "i < length buf"
    using b(2) that by (auto simp: b(1) nth_append nth_Cons' in_set_conv_nth)
  then show ?thesis using assms(2) n by (auto simp: rd_def b(1))
qed

lemma brace_scan_in:
  "padded buf \<Longrightarrow> i \<le> text_length buf \<Longrightarrow>
   \<exists>k name'. brace_scan buf i name = Some (k, name') \<and> k \<le> text_length buf"
proof (induction buf i name rule: brace_scan.induct)
  case (1 buf i name)
  obtain c where c: "rd buf i = Some c" "c = nul \<longleftrightarrow> text_length buf \<le> i"
    using padded_rd [OF "1.prems"(1), of i] "1.prems"(2) by auto
  show ?case
  proof (cases "c \<noteq> nul \<and> c \<noteq> CHR ''}'' \<and> length name + 1 < OS_ENV_NAME_LEN")
    case True
    with c "1.IH" [OF c(1) True "1.prems"(1)] show ?thesis by (subst brace_scan.simps) simp
  next
    case False
    with c(1) have "brace_scan buf i name = Some (i, name)" by (subst brace_scan.simps) auto
    with "1.prems"(2) show ?thesis by simp
  qed
qed

lemma ident_scan_in:
  "padded buf \<Longrightarrow> j \<le> text_length buf \<Longrightarrow>
   \<exists>k name'. ident_scan buf j name = Some (k, name') \<and> k \<le> text_length buf \<and> k + length name = j + length name'"
proof (induction buf j name rule: ident_scan.induct)
  case (1 buf j name)
  obtain c where c: "rd buf j = Some c" "c = nul \<longleftrightarrow> text_length buf \<le> j"
    using padded_rd [OF "1.prems"(1), of j] "1.prems"(2) by auto
  show ?case
  proof (cases "c \<noteq> nul \<and> ident_char c \<and> length name + 1 < OS_ENV_NAME_LEN")
    case True
    with c "1.IH" [OF c(1) True "1.prems"(1)] show ?thesis by (subst ident_scan.simps) auto
  next
    case False
    with c(1) have "ident_scan buf j name = Some (j, name)" by (subst ident_scan.simps) auto
    with "1.prems"(2) show ?thesis by simp
  qed
qed

lemma dollar_at_in:
  assumes "padded buf" and "i < text_length buf"
  shows "\<exists>d. dollar_at buf i = Some d \<and> (\<forall>k n. d \<in> {Skip k, Literal k, Lookup k n} \<longrightarrow> k \<le> text_length buf)"
proof -
  obtain c where c: "rd buf (i + 1) = Some c" "c = nul \<longleftrightarrow> text_length buf \<le> i + 1"
    using padded_rd [OF assms(1), of "i + 1"] assms(2) by auto
  show ?thesis
  proof (cases "c = CHR ''{''")
    case True
    then have "i + 2 \<le> text_length buf" using c(2) by (auto simp: nul_def)
    from brace_scan_in [OF assms(1) this, of "[]"] c(1) True show ?thesis by (auto simp: dollar_at_def)
  next
    case False
    have "i + 1 \<le> text_length buf" using assms(2) by simp
    from ident_scan_in [OF assms(1) this, of "[]"] c(1) False assms(2) show ?thesis
      by (auto simp: dollar_at_def)
  qed
qed

lemma expand_loop_in:
  "padded buf \<Longrightarrow> i \<le> text_length buf + 1 \<Longrightarrow> expand_loop get out_sz buf i out \<noteq> None"
proof (induction get out_sz buf i out rule: expand_loop.induct)
  case (1 get out_sz buf i out)
  obtain c where c: "rd buf i = Some c" "c = nul \<longleftrightarrow> text_length buf \<le> i"
    using padded_rd [OF "1.prems"] by auto
  show ?case
  proof (cases "c = nul \<or> \<not> length out + 1 < out_sz")
    case True
    with c(1) show ?thesis by (subst expand_loop.simps) simp
  next
    case False
    then have i: "i < text_length buf" using c(2) by simp
    show ?thesis
    proof (cases "c = CHR ''$''")
      case False
      with c(1) i \<open>\<not> (c = nul \<or> \<not> length out + 1 < out_sz)\<close> "1.IH"(1) [OF c(1)] "1.prems"(1)
      show ?thesis by (subst expand_loop.simps) simp
    next
      case True
      obtain d where d: "dollar_at buf i = Some d" "\<forall>k n. d \<in> {Skip k, Literal k, Lookup k n} \<longrightarrow> k \<le> text_length buf"
        using dollar_at_in [OF "1.prems"(1) i] by blast
      have n: "\<not> c \<noteq> CHR ''$''" using True by simp
      note IH = "1.IH"(2-4) [OF c(1) False n d(1)]
      show ?thesis
      proof (cases d)
        case (Skip k)
        with d(2) IH(1) [OF Skip "1.prems"(1)] c(1) False True d(1) show ?thesis by (subst expand_loop.simps) simp
      next
        case (Literal k)
        with d(2) IH(2) [OF Literal "1.prems"(1)] c(1) False True d(1) show ?thesis by (subst expand_loop.simps) simp
      next
        case (Lookup k nm)
        with d(2) IH(3) [OF Lookup "1.prems"(1)] c(1) False True d(1) show ?thesis by (subst expand_loop.simps) simp
      qed
    qed
  qed
qed

text \<open>A line without references is its own expansion.\<close>

lemma expand_plain:
  assumes "CHR ''$'' \<notin> set l" and "nul \<notin> set l" and "length l < out_sz"
  shows "os_env_expand (Some (l @ nul # ks)) True out_sz s = Some (length l, Some l)"
proof -
  have "expand_loop get out_sz (pre @ l @ nul # ks) (length pre) out = Some (out @ l)"
    if "CHR ''$'' \<notin> set l" "nul \<notin> set l" "length out + length l < out_sz" for get pre out l
    using that
  proof (induction l arbitrary: pre out)
    case Nil
    then show ?case by (subst expand_loop.simps) (simp add: rd_def)
  next
    case (Cons c cs)
    have "expand_loop get out_sz (pre @ (c # cs) @ nul # ks) (length pre + 1) (out @ [c]) = Some ((out @ [c]) @ cs)"
      using Cons.IH [where pre = "pre @ [c]" and out = "out @ [c]"] Cons.prems by simp
    moreover have "c \<noteq> CHR ''$''" "c \<noteq> nul" "length out + 1 < out_sz" using Cons.prems by auto
    ultimately show ?case by (subst expand_loop.simps) (simp add: rd_def)
  qed
  from this [OF assms(1,2), of "[]" "env_value_of s" "[]"] assms(3) show ?thesis
    by (simp add: os_env_expand_def)
qed

lemma line_buffer_short:
  assumes "length raw < SHELL_MAX_LINE_LEN - 1" and "nul \<notin> set raw"
  shows "line_buffer raw = raw @ nul # replicate (SHELL_MAX_LINE_LEN - length raw - 1) nul" and "padded (line_buffer raw)"
proof -
  obtain k where k: "SHELL_MAX_LINE_LEN - length raw = Suc (Suc k)"
    using assms(1) by (metis Suc_diff_Suc diff_Suc_1 less_imp_Suc_add add_Suc_right diff_add_inverse less_diff_conv
        Suc_eq_plus1 diff_commute zero_less_diff)
  have l: "line_buffer raw = raw @ replicate (SHELL_MAX_LINE_LEN - length raw) nul"
    using assms(1) by (simp add: line_buffer_def Let_def)
  show "padded (line_buffer raw)" unfolding padded_def l k using assms(2) by blast
  show "line_buffer raw = raw @ nul # replicate (SHELL_MAX_LINE_LEN - length raw - 1) nul" unfolding l k by simp
qed

section \<open>Properties of execution\<close>

lemma shell_execute_defined:
  assumes "length raw < SHELL_MAX_LINE_LEN - 1" and "nul \<notin> set raw"
  shows "shell_execute run_handler cmds env fd (Some raw) \<noteq> None"
proof -
  note b = line_buffer_short [OF assms]
  have m: "0 < SHELL_MAX_LINE_LEN" by (simp add: SHELL_MAX_LINE_LEN_def)
  obtain out where "expand_loop (env_value_of env) SHELL_MAX_LINE_LEN (line_buffer raw) 0 [] = Some out"
    using expand_loop_in [OF b(2), of 0 "env_value_of env" SHELL_MAX_LINE_LEN "[]"] by auto
  with m show ?thesis
    by (simp add: shell_execute_def os_env_expand_def) (metis prod_cases3)
qed

lemma shell_execute_plain:
  assumes "length raw < SHELL_MAX_LINE_LEN - 1" and "nul \<notin> set raw" and "raw \<noteq> []" "hd raw \<noteq> CHR ''#''" "CHR ''$'' \<notin> set raw"
  shows "shell_execute run_handler cmds env fd (Some raw) =
    Some (shell_dispatch run_handler cmds fd (parse_args (trim_end raw) SHELL_MAX_ARGS))"
  using expand_plain [of raw SHELL_MAX_LINE_LEN] assms line_buffer_short(1) [OF assms(1,2)]
  by (simp add: shell_execute_def)

text \<open>Claim C22: a line of at most 254 characters is always executed to a result: the expansion of variables
  stays inside the line's buffer, whatever references it has, closed or not.  And a line without references
  that is not a comment runs the command of its first argument with its arguments.\<close>

theorem shell_execute_total:
  assumes "length raw < SHELL_MAX_LINE_LEN - 1" and "nul \<notin> set raw"
  shows "shell_execute run_handler cmds env fd (Some raw) \<noteq> None \<and>
    (raw \<noteq> [] \<longrightarrow> hd raw \<noteq> CHR ''#'' \<longrightarrow> CHR ''$'' \<notin> set raw \<longrightarrow>
       shell_execute run_handler cmds env fd (Some raw) =
         Some (shell_dispatch run_handler cmds fd (parse_args (trim_end raw) SHELL_MAX_ARGS)))"
  using shell_execute_defined [OF assms] shell_execute_plain [OF assms] by blast

theorem shell_execute_total_witness:
  "shell_execute (\<lambda>f fd args. (7, args)) [\<lparr>cmd_name = ''echo'', cmd_description = None, cmd_usage = None, cmd_handler = 2\<rparr>]
     env_started 5 (Some ''echo  a b'') = Some (7, [''echo'', ''a'', ''b''], Some (2, [''echo'', ''a'', ''b'']))"
proof -
  have h: "length ''echo  a b'' < SHELL_MAX_LINE_LEN - 1" "nul \<notin> set ''echo  a b''"
    by (simp_all add: SHELL_MAX_LINE_LEN_def nul_def)
  have "parse_args (trim_end ''echo  a b'') SHELL_MAX_ARGS = [''echo'', ''a'', ''b'']" by code_simp
  with shell_execute_total [OF h, of "\<lambda>f fd args. (7, args)"] show ?thesis
    by (simp add: shell_dispatch_def shell_find_command_def)
qed

lemma capture_append:
  assumes "cap_active c" and "0 < cap_size c" and "cap_length c = length (cap_buffer c)" and "length (cap_buffer c) < cap_size c"
  shows "shell_capture_append s c =
    c\<lparr>cap_buffer := take (cap_size c - 1) (cap_buffer c @ s), cap_length := length (take (cap_size c - 1) (cap_buffer c @ s))\<rparr>"
proof (cases "cap_length c < cap_size c - 1")
  case True
  with assms show ?thesis by (simp add: shell_capture_append_def Let_def min_def take_all)
next
  case False
  then have "cap_size c - 1 = length (cap_buffer c)" using assms by simp
  with assms False show ?thesis by (simp add: shell_capture_append_def)
qed

lemma capture_texts:
  "cap_active c \<Longrightarrow> 0 < cap_size c \<Longrightarrow> cap_length c = length (cap_buffer c) \<Longrightarrow> length (cap_buffer c) < cap_size c \<Longrightarrow>
   cap_buffer (fold (\<lambda>s c. fst (shell_write (- 1) (Some s) c)) texts c) = take (cap_size c - 1) (cap_buffer c @ concat texts)"
proof (induction texts arbitrary: c)
  case Nil
  then show ?case by simp
next
  case (Cons s texts)
  let ?c = "fst (shell_write (- 1) (Some s) c)"
  have c: "?c = c\<lparr>cap_buffer := take (cap_size c - 1) (cap_buffer c @ s), cap_length := length (take (cap_size c - 1) (cap_buffer c @ s))\<rparr>"
    using Cons.prems by (simp add: shell_write_def capture_append)
  have "cap_buffer (fold (\<lambda>s c. fst (shell_write (- 1) (Some s) c)) texts ?c) =
      take (cap_size ?c - 1) (cap_buffer ?c @ concat texts)"
    using Cons.prems by (intro Cons.IH) (simp_all add: c)
  also have "\<dots> = take (cap_size c - 1) (cap_buffer c @ concat (s # texts))"
    by (simp add: c min_def)
  finally show ?case by simp
qed

text \<open>Capturing the output of a line gives the command's own value and exactly the texts it wrote, in
  order, cut to the caller's buffer with its terminator; nothing is written past it, and the capture is over
  afterwards.  A second capture at the same time is refused and leaves the first alone.\<close>

theorem shell_execute_capture_spec:
  assumes "0 < out_sz" and "shell_execute run_handler cmds env (- 1) (Some line) = Some (ret, texts, called)"
  shows "shell_execute_capture run_handler cmds env (Some line) True out_sz c =
    (if cap_active c then Some (ESP_ERR_INVALID_STATE, None, c)
     else Some (ESP_OK, Some (take (out_sz - 1) (concat texts), ret), capture_zero))"
proof (cases "cap_active c")
  case True
  with assms(1) show ?thesis by (simp add: shell_execute_capture_def)
next
  case False
  have "cap_buffer (fold (\<lambda>s c. fst (shell_write (- 1) (Some s) c)) texts
      \<lparr>cap_active = True, cap_buffer = [], cap_size = out_sz, cap_length = 0\<rparr>) = take (out_sz - 1) (concat texts)"
    using capture_texts [of "\<lparr>cap_active = True, cap_buffer = [], cap_size = out_sz, cap_length = 0\<rparr>" texts] assms(1)
    by simp
  with False assms show ?thesis by (simp add: shell_execute_capture_def Let_def)
qed

theorem shell_execute_capture_spec_witness:
  "shell_execute_capture (\<lambda>f fd args. (0, args)) [\<lparr>cmd_name = ''echo'', cmd_description = None, cmd_usage = None, cmd_handler = 2\<rparr>]
     env_started (Some ''echo abc'') True 6 capture_zero = Some (ESP_OK, Some (''echoa'', 0), capture_zero)"
proof -
  have "shell_execute (\<lambda>f fd args. (0, args)) [\<lparr>cmd_name = ''echo'', cmd_description = None, cmd_usage = None, cmd_handler = 2\<rparr>]
      env_started (- 1) (Some ''echo abc'') = Some (0, [''echo'', ''abc''], Some (2, [''echo'', ''abc'']))"
    by code_simp
  from shell_execute_capture_spec [OF _ this, of 6 capture_zero] show ?thesis by (simp add: capture_zero_def)
qed

section \<open>Logging in\<close>

text \<open>Claim C10: a telnet session executes a line only after a login: the first two lines it read were the
  configured user name and password.\<close>

theorem telnet_login_required:
  assumes "telnet_session_task username password exec True fd xs w = (events, w')" and "Exec l \<in> set events"
  shows "\<exists>n1 ys h1 o1 n2 zs h2 o2. shell_readline fd 48 xs history_new = (Some (n1, Some username), ys, h1, o1) \<and>
    shell_readline fd 48 ys h1 = (Some (n2, Some password), zs, h2, o2)"
proof -
  have "0 < (48 :: nat)" "48 \<le> SHELL_MAX_LINE_LEN" by (simp_all add: SHELL_MAX_LINE_LEN_def)
  note result = shell_readline_ok [OF this]
  obtain r1 ys h1 o1 where a: "shell_readline fd 48 xs history_new = (r1, ys, h1, o1)" by (metis prod_cases4)
  obtain r2 zs h2 o2 where b: "shell_readline fd 48 ys h1 = (r2, zs, h2, o2)" by (metis prod_cases4)
  obtain n1 l1 where r1: "r1 = Some (n1, l1)" "\<not> n1 < 0"
    using assms a by (cases r1) (auto simp: telnet_session_task_def Let_def split: if_splits)
  obtain n2 l2 where r2: "r2 = Some (n2, l2)" "\<not> n2 < 0"
    using assms a b r1 by (cases r2) (auto simp: telnet_session_task_def Let_def split: if_splits)
  have ok: "opt_text l1 = username \<and> opt_text l2 = password"
    using assms a b r1 r2 by (auto simp: telnet_session_task_def Let_def split: if_splits)
  have 1: "line_result 48 history_new (n1, l1) h1" using result [OF history_new_ok(1)] a r1 by blast
  then have "hist_ok h1" by (simp add: line_result_def)
  with result b r2 have 2: "line_result 48 h1 (n2, l2) h2" by blast
  have "l1 = Some username" "l2 = Some password"
    using 1 2 r1 r2 ok by (auto simp: line_result_def opt_text_def split: option.splits)
  with a b r1 r2 show ?thesis by blast
qed

definition telnet_keys :: "input list" where
  "telnet_keys = map Got [117, 13, 112, 119, 13, 108, 115, 13]"

text \<open>User name \<^verbatim>\<open>u\<close>, password \<^verbatim>\<open>pw\<close>, then the command \<^verbatim>\<open>ls\<close>.\<close>

theorem telnet_login_required_witness:
  "Exec ''ls'' \<in> set (fst (telnet_session_task ''u'' ''pw'' (\<lambda>w l. (0, w)) True 4 telnet_keys ())) \<and>
   fst (shell_readline 4 48 telnet_keys history_new) = Some (1, Some ''u'')"
proof -
  have e: "Exec ''ls'' \<in> set (fst (telnet_session_task ''u'' ''pw'' (\<lambda>w l. (0, w)) True 4 telnet_keys ()))"
    by code_simp
  obtain events w' where t: "telnet_session_task ''u'' ''pw'' (\<lambda>w l. (0, w)) True 4 telnet_keys () = (events, w')"
    by (metis prod.collapse)
  with e have "Exec ''ls'' \<in> set events" by simp
  from telnet_login_required [OF t this] obtain n1 ys h1 o1 where
    r: "shell_readline 4 48 telnet_keys history_new = (Some (n1, Some ''u''), ys, h1, o1)"
    by blast
  have "0 < (48 :: nat)" "48 \<le> SHELL_MAX_LINE_LEN" by (simp_all add: SHELL_MAX_LINE_LEN_def)
  from shell_readline_ok [OF this history_new_ok(1) r] have "n1 = 1" by (simp add: line_result_def)
  with e r show ?thesis by simp
qed

text \<open>The login reads the password with the history of the session: the Up key shows it afterwards.\<close>

lemma telnet_password_remembered:
  assumes "shell_readline fd 48 xs history_new = (Some (n1, Some user), ys, h1, o1)"
    and "shell_readline fd 48 ys h1 = (Some (n2, Some pass), zs, h2, o2)" and "pass \<noteq> []"
  shows "pass \<in> set (hist_lines h2)"
proof -
  have "0 < (48 :: nat)" "48 \<le> SHELL_MAX_LINE_LEN" by (simp_all add: SHELL_MAX_LINE_LEN_def)
  note result = shell_readline_ok [OF this]
  from result [OF history_new_ok(1) assms(1)] have "hist_ok h1" by (simp add: line_result_def)
  from result [OF this assms(2)] have "hist_lines h2 = fst (spec_add pass (hist_abs h1))"
    by (simp add: line_result_def hist_abs_def)
  moreover have "last (keep_last SHELL_HISTORY_DEPTH (hist_lines h1 @ [pass])) = pass"
    "keep_last SHELL_HISTORY_DEPTH (hist_lines h1 @ [pass]) \<noteq> []"
    using keep_last_last [of "hist_lines h1 @ [pass]" SHELL_HISTORY_DEPTH] by (simp_all add: depth_def)
  ultimately show ?thesis
    using assms(3) last_in_set by (fastforce simp: spec_add_def hist_abs_def split: if_splits)
qed

text \<open>A comment runs nothing.\<close>

lemma comment_does_nothing:
  "shell_execute run_handler cmds env fd (Some (CHR ''#'' # s)) = Some (SHELL_CMD_OK, [], None)"
  by (simp add: shell_execute_def)

end
