(* ===== verification/CmdBase.thy ===== *)
theory CmdBase
  imports EnvExpand Kernel Ipc Timer Scheduler Logging Pwm Mqtt Fs Ota Net Drivers Shell
begin

text \<open>
  What the built-in commands of \<^verbatim>\<open>src/components/os_shell/src/shell_commands.c\<close> share: the state of
  the whole system, the answers of the platform, the output of a command, and the helpers of the file.

  A command is a function of the platform's answers, the descriptor of its session, its arguments and the
  state of the system to the value it returns, the new state and what it did, in order.  What it writes with
  \<^verbatim>\<open>shell_write\<close> and \<^verbatim>\<open>shell_printf\<close> is \<open>Say\<close>; the rest are the traces of the components it called.
  \<^verbatim>\<open>argv[i]\<close> is \<open>args ! i\<close>, and \<^verbatim>\<open>argc\<close> its length.
\<close>

record 'v sys =
  y_cmds :: commands
  y_kernel :: kernel
  y_log :: log_state
  y_fs :: "'v fs"
  y_env :: env_state
  y_timer :: timer_state
  y_sched :: sched_state
  y_ipc :: ipc
  y_pwm :: pwm
  y_mqtt :: mqtt
  y_ota :: ota
  y_net :: net
  y_drv :: drivers

record chip_info =
  ch_model :: nat
  ch_wifi :: bool
  ch_cores :: nat
  ch_idf :: string
  ch_flash :: "32 word"

text \<open>The answers of the platform while one command runs; each command makes at most the calls it needs.\<close>

record 'v platform =
  pl_vfs :: "'v vfs"
  pl_read :: readings
  pl_ticks :: "32 word \<Rightarrow> 32 word"
  pl_err_name :: "esp_err \<Rightarrow> string"
  pl_chip :: chip_info
  pl_handle :: "nat option"          \<comment> \<open>the timer, queue, event group, client or task that is created\<close>
  pl_done :: bool                    \<comment> \<open>whether the FreeRTOS call succeeds\<close>
  pl_ret :: esp_err                  \<comment> \<open>results of ESP-IDF calls\<close>
  pl_ret2 :: esp_err
  pl_msg_id :: int
  pl_mac :: "8 word \<times> 8 word \<times> 8 word"
  pl_bits :: "32 word"               \<comment> \<open>event bits read or returned by the wait\<close>
  pl_text :: string                  \<comment> \<open>what the receive buffer then holds, and the memory behind it\<close>
  pl_address :: nat                  \<comment> \<open>the address of \<open>argv[3]\<close>\<close>
  pl_boot :: "partition option"
  pl_running :: "partition option"
  pl_img :: img_query
  pl_events :: "net_event list"      \<comment> \<open>network events while a connection is awaited\<close>
  pl_scan :: "bool \<times> bool \<times> 16 word \<times> bool \<times> (nat \<Rightarrow> ap_record list)"
  pl_rssi :: "int option"
  pl_ap_ip :: "(ip4 \<times> ip4 \<times> ip4) option"
  pl_ping :: "bool \<times> bool \<times> bool \<times> (nat \<Rightarrow> ping_answer)"
  pl_http :: "bool \<times> bool \<times> (nat \<Rightarrow> string option)"
  pl_gpio_ok :: "8 word \<Rightarrow> bool"
  pl_level :: "nat \<Rightarrow> nat"
  pl_adc :: "bool \<times> nat option \<times> nat option"
  pl_adc_read :: "nat option \<Rightarrow> nat \<Rightarrow> int option"
  pl_adc_mv :: "nat \<Rightarrow> int \<Rightarrow> int option"
  pl_acks :: "nat \<Rightarrow> bool"
  pl_bytes :: "8 word list"          \<comment> \<open>the buffer after an I2C read\<close>
  pl_nvs :: "string \<Rightarrow> string option"
  pl_float :: "nat \<Rightarrow> int \<Rightarrow> int \<Rightarrow> string" \<comment> \<open>so many decimals of a quotient\<close>
  pl_now_us :: nat                   \<comment> \<open>\<^verbatim>\<open>esp_timer_get_time()\<close>\<close>
  pl_logfile :: "nat option"
  pl_got :: bool                     \<comment> \<open>whether the log's mutex was free in time\<close>
  pl_stack :: "32 word \<times> 32 word"    \<comment> \<open>stack unit and tick of a created task\<close>

datatype plat_call =
    PDelay "32 word" | PEspRestart | PNvsErase | PNvsInit | PNvsOpen string | PNvsGet string | PNvsSet string string
  | PNvsEraseKey string | PNvsCommit | PNvsClose | PRunTests string

datatype cmd_out =
    Say string
  | DKernel "kernel_call eff" | DLog "log_call eff" | DFs "fs_call eff" | DEnv "env_call eff"
  | DTimer "timer_call eff" | DSched "sched_call eff" | DIpc "ipc_call eff" | DPwm "pwm_call eff"
  | DMqtt "mqtt_call eff" | DOta "ota_call eff" | DNet "net_call eff" | DHw "hw_call eff" | DPlat plat_call
  | DAbort   \<comment> \<open>the device aborts\<close>

type_synonym 'v cmd = "'v platform \<Rightarrow> int \<Rightarrow> string list \<Rightarrow> 'v sys \<Rightarrow> int \<times> 'v sys \<times> cmd_out list"

text \<open>\<^verbatim>\<open>SH_PRINTF\<close>, which formats into 512 bytes.\<close>

definition say :: "string \<Rightarrow> cmd_out" where "say t = Say (cstr 512 t)"

text \<open>The texts that go through \<^verbatim>\<open>shell_write\<close>, which are the ones a capture sees.\<close>

definition said :: "cmd_out list \<Rightarrow> string list" where
  "said outs = concat (map (\<lambda>x. case x of Say t \<Rightarrow> [t] | _ \<Rightarrow> []) outs)"

abbreviation nl :: "string \<Rightarrow> string" where "nl t \<equiv> t @ crlf"

definition q1 :: "string \<Rightarrow> string" where "q1 s = quote @ s @ quote"

definition green :: "string \<Rightarrow> string" where "green t = ESC @ ''[32m'' @ t @ ESC @ ''[0m''"
definition red :: "string \<Rightarrow> string" where "red t = ESC @ ''[31m'' @ t @ ESC @ ''[0m''"

definition fails :: "cmd_out list \<Rightarrow> 'v sys \<Rightarrow> int \<times> 'v sys \<times> cmd_out list" where
  "fails outs s = (SHELL_CMD_ERROR, s, outs)"

definition succeeds :: "cmd_out list \<Rightarrow> 'v sys \<Rightarrow> int \<times> 'v sys \<times> cmd_out list" where
  "succeeds outs s = (SHELL_CMD_OK, s, outs)"

definition pr_u32 :: "32 word \<Rightarrow> string" where "pr_u32 w = dec (unat w)"

text \<open>\<^verbatim>\<open>(uint32_t)atoi(s)\<close> and the other casts.\<close>

definition atou32 :: "string \<Rightarrow> 32 word" where "atou32 s = word_of_int (atoi s)"
definition atou8 :: "string \<Rightarrow> 8 word" where "atou8 s = word_of_int (atoi s)"
definition atopid :: "string \<Rightarrow> os_pid" where "atopid s = word_of_int (atoi s)"

section \<open>Hexadecimal payloads\<close>

definition hex_nibble :: "char \<Rightarrow> int" where
  "hex_nibble c =
     (let n = of_char c :: nat in
      if 48 \<le> n \<and> n \<le> 57 then int n - 48
      else if 97 \<le> n \<and> n \<le> 102 then 10 + (int n - 97)
      else if 65 \<le> n \<and> n \<le> 70 then 10 + (int n - 65)
      else - 1)"

text \<open>The loop over the pairs; \<open>None\<close> is its early return.\<close>

fun hex_loop :: "string \<Rightarrow> 8 word list option" where
  "hex_loop (h # l # rest) =
     (if hex_nibble h < 0 \<or> hex_nibble l < 0 then None
      else map_option ((#) (word_of_int (or (push_bit 4 (hex_nibble h)) (hex_nibble l)))) (hex_loop rest))"
| "hex_loop _ = Some []"

text \<open>The bytes stored; none where the function returns 0.\<close>

definition hex_to_bytes :: "string option \<Rightarrow> nat \<Rightarrow> 8 word list" where
  "hex_to_bytes hex out_max =
     (case hex of
        None \<Rightarrow> []
      | Some h \<Rightarrow>
          if odd (length h) \<or> out_max < length h div 2 then []
          else (case hex_loop h of None \<Rightarrow> [] | Some bs \<Rightarrow> bs))"

section \<open>Joining arguments\<close>

text \<open>
  \<^verbatim>\<open>strncat(content, a, sizeof(content) - strlen(content) - 2)\<close>.  The size is a \<^verbatim>\<open>size_t\<close>: when one
  byte is left it wraps around, and a non-empty argument is written past the end (\<open>None\<close>).
\<close>

definition cat_arg :: "nat \<Rightarrow> string \<Rightarrow> string \<Rightarrow> string option" where
  "cat_arg cap c a =
     (if length c + 2 \<le> cap then Some (c @ take (cap - length c - 2) a) else if a = [] then Some c else None)"

definition cat_end :: "nat \<Rightarrow> string \<Rightarrow> string \<Rightarrow> string" where
  "cat_end cap c a = c @ take (cap - length c - 1) a"

fun join_args :: "nat \<Rightarrow> string list \<Rightarrow> string \<Rightarrow> string option" where
  "join_args cap [] c = Some c"
| "join_args cap [a] c = cat_arg cap c a"
| "join_args cap (a # b # as) c =
     Option.bind (cat_arg cap c a) (\<lambda>c'. join_args cap (b # as) (cat_end cap c' '' ''))"

end
