(* ===== verification/CmdSystem.thy ===== *)
theory CmdSystem
  imports CmdBase
begin

text \<open>
  The built-in commands for the system, processes, files, the log, the network, the hardware and
  the non-volatile storage (\<^verbatim>\<open>shell_commands.c\<close>), one definition per \<^verbatim>\<open>cmd_*\<close> function.
\<close>

section \<open>System\<close>

definition cmd_help :: "'v cmd" where
  "cmd_help p fd args s = succeeds (map (\<lambda>o'. case o' of W t \<Rightarrow> Say t | Echo b \<Rightarrow> Say [char_of (unat b)]) (shell_print_help (y_cmds s))) s"

definition cmd_clear :: "'v cmd" where
  "cmd_clear p fd args s = succeeds [Say (ESC @ ''[2J'' @ ESC @ ''[H'')] s"

definition chip_model :: "nat \<Rightarrow> string" where
  "chip_model m = (if m = 1 then ''ESP32'' else if m = 2 then ''ESP32-S2'' else if m = 9 then ''ESP32-S3''
     else if m = 5 then ''ESP32-C3'' else ''ESP32xx'')"

definition cmd_uname :: "'v cmd" where
  "cmd_uname p fd args s =
     (let c = pl_chip p in
      if 2 \<le> length args \<and> args ! 1 = ''-a''
      then succeeds [say (nl (''esp32os '' @ chip_model (ch_model c) @ ''  '' @ (if ch_wifi c then ''WiFi'' else []) @ ''  IDF-'' @
             ch_idf c @ ''  '' @ dec (ch_cores c) @ '' core(s)  Flash:'' @ pr_u32 (ch_flash c div (1024 * 1024)) @ ''MB''))] s
      else succeeds [say (nl ''esp32os'')] s)"

text \<open>Days, hours, minutes and seconds of an uptime in milliseconds.\<close>

definition uptime_parts :: "32 word \<Rightarrow> 32 word \<times> 32 word \<times> 32 word \<times> 32 word" where
  "uptime_parts ms =
     (let sec = ms div 1000; m = sec div 60; sec = sec mod 60; h = m div 60; m = m mod 60; d = h div 24; h = h mod 24
      in (d, h, m, sec))"

definition cmd_uptime :: "'v cmd" where
  "cmd_uptime p fd args s =
     (let st = stats_at (pl_read p) (y_kernel s); (d, h, m, sec) = uptime_parts (ks_uptime_ms st)
      in succeeds [say (nl (''up '' @ pr_u32 d @ '' days, '' @ zpad 2 (pr_u32 h) @ '':'' @ zpad 2 (pr_u32 m) @ '':'' @
            zpad 2 (pr_u32 sec) @ ''  procs: '' @ dec (unat (ks_process_count st))))] s)"

definition cmd_free :: "'v cmd" where
  "cmd_free p fd args s =
     (let st = stats_at (pl_read p) (y_kernel s);
          row = (\<lambda>a b c d. say (nl (padr 20 a @ ''  '' @ padl 10 b @ ''  '' @ padl 10 c @ ''  '' @ padl 10 d)))
      in succeeds
           [say (crlf @ nl (padl 20 [] @ ''  '' @ padl 10 ''total'' @ ''  '' @ padl 10 ''used'' @ ''  '' @ padl 10 ''free'')),
            row ''Heap:'' (pr_u32 (ks_total_heap st)) (pr_u32 (ks_total_heap st - ks_free_heap st)) (pr_u32 (ks_free_heap st)),
            row ''Min free:'' [] [] (pr_u32 (ks_min_free_heap st)),
            row ''Largest block:'' [] [] (pr_u32 (ks_largest_free st)), Say crlf] s)"

definition cmd_reboot :: "'v cmd" where
  "cmd_reboot p fd args s = succeeds [Say (nl ''System rebooting...''), DPlat (PDelay (pl_ticks p 300)), DPlat PEspRestart] s"

definition cmd_echo :: "'v cmd" where
  "cmd_echo p fd args s =
     succeeds (map (\<lambda>i. say (args ! i @ (if i < length args - 1 then '' '' else []))) [1..<length args] @ [Say crlf]) s"

definition cmd_exit :: "'v cmd" where
  "cmd_exit p fd args s = (SHELL_CMD_EXIT, s, [Say (nl ''Goodbye.'')])"

definition cmd_history :: "'v cmd" where
  "cmd_history p fd args s = succeeds [Say (nl ''(History stored per-session in shell task)'')] s"

definition cmd_sleep :: "'v cmd" where
  "cmd_sleep p fd args s =
     (if length args < 2 then fails [Say (nl ''Usage: sleep <seconds>'')] s
      else succeeds [DPlat (PDelay (pl_ticks p (word_of_int (atoi (args ! 1) * 1000))))] s)"

section \<open>Processes\<close>

definition cmd_ps :: "'v cmd" where
  "cmd_ps p fd args s =
     (let r = pl_read p; (k, tr) = os_kernel_print_ps (rd_stack_unit r) (rd_probe r) fd (y_kernel s)
      in succeeds (map DKernel tr) (s\<lparr>y_kernel := k\<rparr>))"

definition cmd_top :: "'v cmd" where
  "cmd_top p fd args s =
     (let r = pl_read p;
          (k, tr) = os_kernel_print_top (rd_stack_unit r) (rd_probe r) (rd_free r) (rd_min_free r) (rd_total r) (rd_largest r)
            (rd_now r) fd (y_kernel s)
      in succeeds (map DKernel tr) (s\<lparr>y_kernel := k\<rparr>))"

definition cmd_kill :: "'v cmd" where
  "cmd_kill p fd args s =
     (if length args < 2 then fails [Say (nl ''Usage: kill <pid>'')] s
      else
        let pid = atopid (args ! 1); (ret, k, tr) = os_process_kill pid (y_kernel s); s1 = s\<lparr>y_kernel := k\<rparr>
        in if ret = ESP_ERR_NOT_FOUND
           then fails (map DKernel tr @ [say (nl (''kill: no process with pid '' @ dec (unat pid)))]) s1
           else succeeds (map DKernel tr @ [say (nl (''Killed process '' @ dec (unat pid)))]) s1)"

definition cmd_suspend :: "'v cmd" where
  "cmd_suspend p fd args s =
     (if length args < 2 then fails [Say (nl ''Usage: suspend <pid>'')] s
      else
        let pid = atopid (args ! 1); (ret, k, tr) = os_process_suspend pid (y_kernel s); s1 = s\<lparr>y_kernel := k\<rparr>
        in if ret \<noteq> ESP_OK then fails (map DKernel tr @ [say (nl (''suspend: failed for pid '' @ dec (unat pid)))]) s1
           else succeeds (map DKernel tr) s1)"

definition cmd_resume :: "'v cmd" where
  "cmd_resume p fd args s =
     (if length args < 2 then fails [Say (nl ''Usage: resume <pid>'')] s
      else
        let pid = atopid (args ! 1); (ret, k, tr) = os_process_resume pid (y_kernel s); s1 = s\<lparr>y_kernel := k\<rparr>
        in if ret \<noteq> ESP_OK then fails (map DKernel tr @ [say (nl (''resume: failed for pid '' @ dec (unat pid)))]) s1
           else succeeds (map DKernel tr) s1)"

section \<open>Files\<close>

definition cmd_ls :: "'v cmd" where
  "cmd_ls p fd args s =
     succeeds (map DFs (os_fs_print_ls (pl_vfs p) fd (Some (if 2 \<le> length args then args ! 1 else os_fs_getcwd (y_fs s))) (y_fs s))) s"

definition cmd_pwd :: "'v cmd" where
  "cmd_pwd p fd args s = succeeds [say (nl (os_fs_getcwd (y_fs s)))] s"

definition cmd_cd :: "'v cmd" where
  "cmd_cd p fd args s =
     (if length args < 2 then succeeds [] (s\<lparr>y_fs := snd (os_fs_chdir (pl_vfs p) (Some ''/'') (y_fs s))\<rparr>)
      else
        let (ret, f) = os_fs_chdir (pl_vfs p) (Some (args ! 1)) (y_fs s); s1 = s\<lparr>y_fs := f\<rparr>
        in if ret \<noteq> ESP_OK then fails [say (nl (''cd: '' @ args ! 1 @ '': No such directory''))] s1 else succeeds [] s1)"

definition cmd_cat :: "'v cmd" where
  "cmd_cat p fd args s =
     (if length args < 2 then fails [Say (nl ''Usage: cat <file>'')] s
      else
        let (ret, res, f, tr) = os_fs_read_file (pl_vfs p) (args ! 1) 1024 (y_fs s); s1 = s\<lparr>y_fs := f\<rparr>
        in if ret \<noteq> ESP_OK then fails (map DFs tr @ [say (nl (''cat: '' @ args ! 1 @ '': No such file''))]) s1
           else
             case res of
               None \<Rightarrow> succeeds (map DFs tr) s1
             | Some (buf, rsz) \<Rightarrow>
                 succeeds (map DFs tr @ [Say (takeWhile (\<lambda>c. c \<noteq> nul) buf)] @
                   (if 0 < rsz \<and> buf ! (rsz - 1) \<noteq> CHR 0x0A then [Say crlf] else [])) s1)"

text \<open>The content of \<open>write\<close> and \<open>append\<close>: the arguments joined and a newline, in 512 bytes.\<close>

definition file_content :: "string list \<Rightarrow> string option" where
  "file_content args = map_option (\<lambda>c. cat_end 512 c [CHR 0x0A]) (join_args 512 (drop 2 args) [])"

definition write_with :: "string \<Rightarrow> bool \<Rightarrow> 'v cmd" where
  "write_with name app p fd args s =
     (if length args < 3 then fails [Say (nl (''Usage: '' @ name @ '' <file> <content...>''))] s
      else
        case file_content args of
          None \<Rightarrow> fails [DAbort] s
        | Some content \<Rightarrow>
            let (ret, f, tr) = os_fs_write_file (pl_vfs p) (args ! 1) content app (y_fs s); s1 = s\<lparr>y_fs := f\<rparr>
            in if ret \<noteq> ESP_OK then fails (map DFs tr @ [say (nl (name @ '': cannot write to '' @ q1 (args ! 1)))]) s1
               else succeeds (map DFs tr) s1)"

definition cmd_write :: "'v cmd" where "cmd_write = write_with ''write'' False"
definition cmd_append :: "'v cmd" where "cmd_append = write_with ''append'' True"

definition cmd_rm :: "'v cmd" where
  "cmd_rm p fd args s =
     (if length args < 2 then fails [Say (nl ''Usage: rm <file>'')] s
      else
        let (ret, f, tr) = os_fs_remove (pl_vfs p) (args ! 1) (y_fs s); s1 = s\<lparr>y_fs := f\<rparr>
        in if ret \<noteq> ESP_OK then fails (map DFs tr @ [say (nl (''rm: cannot remove '' @ q1 (args ! 1)))]) s1
           else succeeds (map DFs tr) s1)"

definition cmd_mkdir :: "'v cmd" where
  "cmd_mkdir p fd args s =
     (if length args < 2 then fails [Say (nl ''Usage: mkdir <dir>'')] s
      else
        let (ret, f, tr) = os_fs_mkdir (pl_vfs p) (args ! 1) (y_fs s); s1 = s\<lparr>y_fs := f\<rparr>
        in if ret \<noteq> ESP_OK then fails (map DFs tr @ [say (nl (''mkdir: cannot create '' @ q1 (args ! 1)))]) s1
           else succeeds (map DFs tr) s1)"

definition cmd_df :: "'v cmd" where
  "cmd_df p fd args s =
     (let (tot, usd) = os_fs_usage (pl_vfs p) (y_fs s); t = of_nat tot :: 32 word; u = of_nat usd :: 32 word;
          row = (\<lambda>a b c d e. nl (padr 20 a @ '' '' @ padl 10 b @ '' '' @ padl 10 c @ '' '' @ padl 10 d @ ''  '' @ e))
      in succeeds
           [say (crlf @ row ''Filesystem'' ''Size'' ''Used'' ''Avail'' ''Mounted on''),
            say (row ''spiffs'' (pr_u32 t) (pr_u32 u) (pr_u32 (t - u)) ''/''),
            say ([CHR 0x0A] @ ''Used: '' @ pr_u32 (if 0 < t then u * 100 div t else 0) @ ''%'' @ crlf @ crlf)] s)"

definition cmd_mv :: "'v cmd" where
  "cmd_mv p fd args s =
     (if length args < 3 then fails [Say (nl ''Usage: mv <src> <dst>'')] s
      else
        let (ret, f) = os_fs_rename (pl_vfs p) (args ! 1) (args ! 2) (y_fs s); s1 = s\<lparr>y_fs := f\<rparr>
        in if ret \<noteq> ESP_OK then fails [say (nl ''mv: failed'')] s1 else succeeds [] s1)"

section \<open>The log\<close>

definition cmd_dmesg :: "'v cmd" where
  "cmd_dmesg p fd args s = succeeds (map DLog (os_log_dump fd (if 2 \<le> length args then atou32 (args ! 1) else 0) (y_log s))) s"

definition level_names :: "(string \<times> os_log_level) list" where
  "level_names = [(''debug'', OS_LOG_DEBUG), (''info'', OS_LOG_INFO), (''warn'', OS_LOG_WARN), (''error'', OS_LOG_ERROR),
     (''none'', OS_LOG_NONE)]"

definition cmd_loglevel :: "'v cmd" where
  "cmd_loglevel p fd args s =
     (if length args < 2
      then succeeds [say (nl (''Current log level: '' @ fst (level_names ! level_code (os_log_get_level (y_log s))))),
             Say (nl ''Usage: loglevel <debug|info|warn|error|none>'')] s
      else
        case map_of level_names (args ! 1) of
          None \<Rightarrow> fails [Say (nl ''Unknown level. Use: debug|info|warn|error|none'')] s
        | Some lv \<Rightarrow> succeeds [say (nl (''Log level set to '' @ q1 (args ! 1)))] (s\<lparr>y_log := os_log_set_level lv (y_log s)\<rparr>))"

definition cmd_logfile :: "'v cmd" where
  "cmd_logfile p fd args s =
     (if length args < 2
      then succeeds [say (nl (''File logging: '' @ (if os_log_get_file_output (y_log s) then ''enabled'' else ''disabled''))),
             Say (nl ''Usage: logfile <on|off>'')] s
      else
        let en = (args ! 1 = ''on'' \<or> args ! 1 = ''1'');
            (l, tr) = os_log_set_file_output (pl_logfile p) (pl_got p) (rd_now (pl_read p)) en (y_log s)
        in succeeds (map DLog tr @ [say (nl (''File logging '' @ (if en then ''enabled'' else ''disabled'')))]) (s\<lparr>y_log := l\<rparr>))"

section \<open>The network\<close>

definition hex2uw :: "8 word \<Rightarrow> string" where "hex2uw b = hex2u (unat b)"

definition mac_text :: "8 word list \<Rightarrow> string" where
  "mac_text m = hex2uw (m ! 0) @ concat (map (\<lambda>b. '':'' @ hex2uw b) (drop 1 (take 6 m)))"

definition status_at :: "'v platform \<Rightarrow> 'v sys \<Rightarrow> os_net_status" where
  "status_at p s = os_wifi_get_status (pl_rssi p) (pl_ap_ip p) (y_net s)"

definition scan_row_text :: "os_wifi_scan_result \<Rightarrow> string" where
  "scan_row_text r =
     nl (padr 32 (sr_ssid r) @ '' '' @ hex2uw (sr_bssid r ! 3) @ '':'' @ hex2uw (sr_bssid r ! 4) @ '':'' @ hex2uw (sr_bssid r ! 5) @
       '' '' @ padr 6 (dec_int (sr_rssi r)) @ '' '' @ (if sr_open r then ''Open'' else ''WPA''))"

definition wifi_scan :: "'v cmd" where
  "wifi_scan p fd args s =
     (let (st, fin, cnt, mem, recs) = pl_scan p;
          (n, results, tr) = os_wifi_scan st fin cnt mem recs True 16 (y_net s);
          outs = [Say (nl ''Scanning for networks...'')] @ map DNet tr;
          head = (\<lambda>a b c d. nl (padr 32 a @ '' '' @ padr 8 b @ '' '' @ padr 6 c @ '' '' @ d))
      in if n \<le> 0 then succeeds (outs @ [Say (nl ''No networks found.'')]) s
         else succeeds (outs @ [say (crlf @ head ''SSID'' ''BSSID'' ''RSSI'' ''AUTH''), say (head ''----'' ''-----'' ''----'' ''----'')] @
                map (\<lambda>r. say (scan_row_text r)) results @ [say (crlf @ dec_int n @ '' network(s) found'' @ crlf)]) s)"

definition wifi_connect :: "'v cmd" where
  "wifi_connect p fd args s =
     (if length args < 3 then fails [Say (nl ''wifi connect <ssid> [password]'')] s
      else
        let hello = [say (nl (''Connecting to '' @ q1 (args ! 2) @ ''...''))] in
        case os_wifi_connect (pl_ret p) (pl_events p) (Some (args ! 2)) (Some (if 4 \<le> length args then args ! 3 else [])) (y_net s) of
          None \<Rightarrow> fails (hello @ [DAbort]) s
        | Some (ret, n, tr) \<Rightarrow>
            let s1 = s\<lparr>y_net := n\<rparr>; outs = hello @ map DNet tr in
            if ret = ESP_OK then succeeds (outs @ [Say (nl (green ''Connected!''))]) s1
            else fails (outs @ [Say (nl (red ''Connection failed.''))]) s1)"

definition wifi_disconnect :: "'v cmd" where
  "wifi_disconnect p fd args s =
     (let (n, tr) = os_wifi_disconnect (y_net s)
      in succeeds (map DNet tr @ [Say (nl ''WiFi disconnected'')]) (s\<lparr>y_net := n\<rparr>))"

definition wifi_status :: "'v cmd" where
  "wifi_status p fd args s =
     (let st = status_at p s in
      succeeds ([say (crlf @ nl (''WiFi Status:  '' @ (if ns_connected st then green ''Connected'' else red ''Disconnected'')))] @
        (if ns_connected st
         then [say (nl (''SSID:         '' @ ns_ssid st)), say (nl (''IP Address:   '' @ ns_ip st)), say (nl (''Gateway:      '' @ ns_gw st)),
               say (nl (''Netmask:      '' @ ns_netmask st)), say (nl (''RSSI:         '' @ dec_int (ns_rssi st) @ '' dBm'')),
               say (nl (''MAC:          '' @ mac_text (ns_mac st)))]
         else []) @ [Say crlf]) s)"

definition cmd_wifi :: "'v cmd" where
  "cmd_wifi p fd args s =
     (if length args < 2
      then fails [Say (nl ''Usage: wifi <scan|connect|disconnect|status>''), Say (nl ''       wifi connect <ssid> [password]'')] s
      else if args ! 1 = ''scan'' then wifi_scan p fd args s
      else if args ! 1 = ''connect'' then wifi_connect p fd args s
      else if args ! 1 = ''disconnect'' then wifi_disconnect p fd args s
      else if args ! 1 = ''status'' then wifi_status p fd args s
      else fails [say (nl (''wifi: unknown subcommand '' @ q1 (args ! 1)))] s)"

definition cmd_ifconfig :: "'v cmd" where
  "cmd_ifconfig p fd args s =
     (let st = status_at p s in
      succeeds ([Say (crlf @ ''wlan0: '')] @
        (if ns_connected st
         then [say (nl (''inet '' @ ns_ip st @ ''  netmask '' @ ns_netmask st @ ''  bcast '' @ ns_gw st)),
               say (nl (''        ether '' @ mac_text (ns_mac st)))]
         else [Say (nl ''DOWN'')]) @ [Say crlf]) s)"

definition cmd_ping :: "'v cmd" where
  "cmd_ping p fd args s =
     (if length args < 2 then fails [Say (nl ''Usage: ping <host>'')] s
      else
        let n = (if 4 \<le> length args \<and> args ! 2 = ''-c'' then atoi (args ! 3) else 4);
            (resolved, sock, tmo, ans) = pl_ping p;
            (ret, res, tr) = os_ping resolved sock tmo ans (Some (args ! 1)) n True;
            outs = [say (nl (''PING '' @ args ! 1 @ '' ('' @ dec_int n @ '' packets)''))] @ map DNet tr
        in if ret \<noteq> ESP_OK then fails (outs @ [Say (nl ''ping: network unreachable or host down'')]) s
           else
             let r = the res;
                 loss = (if 0 < pr_sent r then (pr_sent r - pr_received r) * 100 div pr_sent r else 100)
             in succeeds (outs @ [say (crlf @ nl (''--- '' @ args ! 1 @ '' ping statistics ---'')),
                  say (nl (pr_u32 (pr_sent r) @ '' packets transmitted, '' @ pr_u32 (pr_received r) @ '' received, '' @ pr_u32 loss @
                    ''% packet loss''))] @
                  (if 0 < pr_received r
                   then [say (nl (''rtt min/avg/max = '' @ pr_u32 (pr_min_ms r) @ ''/'' @ pr_u32 (pr_avg_ms r) @ ''/'' @
                           pr_u32 (pr_max_ms r) @ '' ms''))]
                   else [])) s)"

definition cmd_http :: "'v cmd" where
  "cmd_http p fd args s =
     (if length args < 2 then fails [Say (nl ''Usage: http <url>'')] s
      else
        let (client, opened, rd) = pl_http p;
            (len, res, tr) = os_http_get client opened rd (Some (args ! 1)) True 2048
        in if len < 0 then fails (map DNet tr @ [Say (nl ''http: request failed'')]) s
           else succeeds (map DNet tr @ [Say (takeWhile (\<lambda>c. c \<noteq> nul) (the res)), Say crlf]) s)"

section \<open>The hardware\<close>

definition set_gpio :: "gpio \<Rightarrow> 'v sys \<Rightarrow> 'v sys" where
  "set_gpio g s = s\<lparr>y_drv := (y_drv s)\<lparr>dr_gpio := g\<rparr>\<rparr>"

definition gpio_modes :: "(string \<times> gpio_dir) list" where
  "gpio_modes = [(''out'', GPIO_DIR_OUTPUT), (''in'', GPIO_DIR_INPUT), (''in_pullup'', GPIO_DIR_INPUT_PULLUP),
     (''in_pulldown'', GPIO_DIR_INPUT_PULLDOWN)]"

definition cmd_gpio :: "'v cmd" where
  "cmd_gpio p fd args s =
     (if length args < 3
      then fails [Say (nl ''Usage: gpio read  <pin>''), Say (nl ''       gpio write <pin> <0|1>''),
             Say (nl ''       gpio mode  <pin> <in|out|in_pullup|in_pulldown>''), Say (nl ''       gpio info'')] s
      else
        let pin = atoi (args ! 2); g = dr_gpio (y_drv s); pt = dec_int pin in
        if args ! 1 = ''read'' then
          (let (val, tr) = gpio_driver_read (pl_level p) pin
           in if val < 0 then fails (map DHw tr @ [say (nl (''gpio: invalid pin '' @ pt))]) s
              else succeeds (map DHw tr @ [say (nl (''GPIO'' @ pt @ '' = '' @ dec_int val))]) s)
        else if args ! 1 = ''write'' then
          (if length args < 4 then fails [Say (nl ''gpio write <pin> <0|1>'')] s
           else
             let val = atoi (args ! 3); (ret, g', tr) = gpio_driver_write (pl_ret p) (pl_ret2 p) pin val g
             in if ret \<noteq> ESP_OK then fails (map DHw tr @ [say (nl (''gpio: write failed on pin '' @ pt))]) (set_gpio g' s)
                else succeeds (map DHw tr @ [say (nl (''GPIO'' @ pt @ '' <= '' @ dec_int val))]) (set_gpio g' s))
        else if args ! 1 = ''mode'' then
          (if length args < 4 then fails [Say (nl ''gpio mode <pin> <in|out|in_pullup|in_pulldown>'')] s
           else
             case map_of gpio_modes (args ! 3) of
               None \<Rightarrow> fails [Say (nl ''gpio mode: in|out|in_pullup|in_pulldown'')] s
             | Some d \<Rightarrow>
                 let (ret, g', tr) = gpio_driver_set_dir (pl_ret p) pin d g
                 in if ret \<noteq> ESP_OK then fails (map DHw tr @ [say (nl (''gpio: mode failed on pin '' @ pt))]) (set_gpio g' s)
                    else succeeds (map DHw tr @ [say (nl (''GPIO'' @ pt @ '' mode = '' @ args ! 3))]) (set_gpio g' s))
        else if args ! 1 = ''info'' then
          succeeds (map (\<lambda>t. DHw (Ext (HwPrint fd t))) (gpio_driver_print_info (pl_level p) g)) s
        else fails [say (nl (''gpio: unknown subcommand '' @ q1 (args ! 1)))] s)"

definition bar_line :: string where "bar_line = concat (replicate 29 [CHR 0xE2, CHR 0x94, CHR 0x80])"
definition full_bar :: string where "full_bar = concat (replicate 20 bar_full)"
definition empty_bar :: string where "empty_bar = concat (replicate 20 bar_empty)"

text \<open>\<^verbatim>\<open>%.*s\<close>: so many bytes of the text, all of it when the number is negative.\<close>

definition prec :: "int \<Rightarrow> string \<Rightarrow> string" where
  "prec n t = (if n < 0 then t else take (nat n) t)"

definition adc_raw_at :: "'v platform \<Rightarrow> int \<Rightarrow> 'v sys \<Rightarrow> int \<times> 'v sys \<times> cmd_out list" where
  "adc_raw_at p ch s =
     (let (cali, u, c) = pl_adc p; (raw, a, tr) = adc_driver_read_raw cali u c (pl_adc_read p) ch (dr_adc (y_drv s))
      in (raw, s\<lparr>y_drv := (y_drv s)\<lparr>dr_adc := a\<rparr>\<rparr>, map DHw tr))"

definition adc_mv_at :: "'v platform \<Rightarrow> int \<Rightarrow> 'v sys \<Rightarrow> int \<times> 'v sys \<times> cmd_out list" where
  "adc_mv_at p ch s =
     (let (cali, u, c) = pl_adc p;
          (mv, a, tr) = adc_driver_read_mv cali u c (pl_adc_read p) (pl_adc_mv p) ch (dr_adc (y_drv s))
      in (mv, s\<lparr>y_drv := (y_drv s)\<lparr>dr_adc := a\<rparr>\<rparr>, map DHw tr))"

fun adc_readall :: "'v platform \<Rightarrow> nat list \<Rightarrow> 'v sys \<Rightarrow> 'v sys \<times> cmd_out list" where
  "adc_readall p [] s = (s, [])"
| "adc_readall p (ch # chs) s =
     (let (raw, s1, t1) = adc_raw_at p (int ch) s; (mv, s2, t2) = adc_mv_at p (int ch) s1;
          n = raw * 20 div 4095;
          row = (if 0 \<le> raw
                 then [say (nl (''  ch'' @ padr 2 (dec ch) @ ''  raw='' @ padl 4 (dec_int raw) @ ''  '' @ padl 4 (dec_int mv) @
                         '' mV  ['' @ prec n full_bar @ prec (20 - n) empty_bar @ '']''))]
                 else []);
          (s3, t3) = adc_readall p chs s2
      in (s3, t1 @ t2 @ row @ t3))"

definition cmd_adc :: "'v cmd" where
  "cmd_adc p fd args s =
     (if length args < 2
      then fails [Say (nl ''Usage: adc read  <channel>   (channel 0-9)''), Say (nl ''       adc readv <channel>   (returns millivolts)''),
             Say (nl ''       adc readall'')] s
      else if args ! 1 = ''read'' then
        (if length args < 3 then fails [Say (nl ''adc read <channel>'')] s
         else
           let ch = atoi (args ! 2); (raw, s1, tr) = adc_raw_at p ch s
           in if raw < 0 then fails (tr @ [say (nl (''adc: invalid channel '' @ dec_int ch))]) s1
              else succeeds (tr @ [say (nl (''ADC ch'' @ dec_int ch @ '' raw = '' @ dec_int raw @ ''  ('' @
                     pl_float p 1 (raw * 100) 4095 @ ''%)''))]) s1)
      else if args ! 1 = ''readv'' then
        (if length args < 3 then fails [Say (nl ''adc readv <channel>'')] s
         else
           let ch = atoi (args ! 2); (mv, s1, tr) = adc_mv_at p ch s
           in if mv < 0 then fails (tr @ [say (nl (''adc: invalid channel '' @ dec_int ch))]) s1
              else succeeds (tr @ [say (nl (''ADC ch'' @ dec_int ch @ '' = '' @ dec_int mv @ '' mV  ('' @
                     pl_float p 2 mv 1000 @ '' V)''))]) s1)
      else if args ! 1 = ''readall'' then
        (let (s1, tr) = adc_readall p [0..<8] s
         in succeeds ([Say (crlf @ nl ''ADC Channel Readings:''), Say (nl bar_line)] @ tr @ [Say crlf]) s1)
      else succeeds [] s)"

definition ato_byte :: "string \<Rightarrow> 8 word" where "ato_byte t = word_of_int (strtol 0 t)"

definition cmd_i2c :: "'v cmd" where
  "cmd_i2c p fd args s =
     (if length args < 2
      then fails [Say (nl ''Usage: i2c scan  [sda_pin] [scl_pin]''), Say (nl ''       i2c read  <addr> <reg> <len>''),
             Say (nl ''       i2c write <addr> <reg> <byte...>'')] s
      else if args ! 1 = ''scan'' then
        (let sda = (if 3 \<le> length args then atoi (args ! 2) else I2C_DEFAULT_SDA);
             scl = (if 4 \<le> length args then atoi (args ! 3) else I2C_DEFAULT_SCL);
             (texts, ini, tr) = i2c_driver_scan (pl_ret p) (pl_ret2 p) (pl_acks p) sda scl (dr_i2c (y_drv s))
         in succeeds ([say (crlf @ nl (''I2C scan (SDA='' @ dec_int sda @ '' SCL='' @ dec_int scl @ ''):'')),
                Say (nl ''     0  1  2  3  4  5  6  7  8  9  a  b  c  d  e  f'')] @ map DHw tr @
                map (\<lambda>t. DHw (Ext (HwPrint fd t))) texts) (s\<lparr>y_drv := (y_drv s)\<lparr>dr_i2c := ini\<rparr>\<rparr>))
      else if args ! 1 = ''read'' then
        (if length args < 5 then fails [Say (nl ''i2c read <addr> <reg> <len>'')] s
         else
           let addr = ato_byte (args ! 2); reg = ato_byte (args ! 3); l = atoi (args ! 4);
               len = (if l \<le> 0 \<or> 64 < l then 1 else l);
               (ret, tr) = i2c_driver_read (pl_ret p) addr reg (nat len) (dr_i2c (y_drv s))
           in if ret \<noteq> ESP_OK then fails (map DHw tr @ [say (nl (''i2c read failed (addr=0x'' @ hex2uw addr @ '')''))]) s
              else succeeds (map DHw tr @ [say (''I2C 0x'' @ hex2uw addr @ '' reg 0x'' @ hex2uw reg @ '':'')] @
                     map (\<lambda>i. say ('' '' @ hex2uw (pl_bytes p ! i))) [0..<nat len] @ [Say crlf]) s)
      else if args ! 1 = ''write'' then
        (if length args < 5 then fails [Say (nl ''i2c write <addr> <reg> <byte...>'')] s
         else
           let addr = ato_byte (args ! 2); reg = ato_byte (args ! 3); bytes = map ato_byte (take 16 (drop 4 args));
               (ret, tr) = i2c_driver_write (pl_ret p) addr reg bytes (dr_i2c (y_drv s))
           in if ret \<noteq> ESP_OK then fails (map DHw tr @ [say (nl (''i2c write failed (addr=0x'' @ hex2uw addr @ '')''))]) s
              else succeeds (map DHw tr @ [say (nl (''I2C 0x'' @ hex2uw addr @ '' reg 0x'' @ hex2uw reg @ '' <- '' @
                     dec (length bytes) @ '' byte(s)''))]) s)
      else succeeds [] s)"

section \<open>Non-volatile storage\<close>

definition cmd_nvs :: "'v cmd" where
  "cmd_nvs p fd args s =
     (if length args < 2
      then fails [Say (nl ''Usage: nvs get <key>''), Say (nl ''       nvs set <key> <value>''), Say (nl ''       nvs del <key>''),
             Say (nl ''       nvs erase'')] s
      else if args ! 1 = ''erase''
      then succeeds [DPlat PNvsErase, DPlat PNvsInit, Say (nl ''NVS erased and reinitialized.'')] s
      else if length args < 3 then fails [Say (nl ''nvs: missing key argument'')] s
      else if args ! 1 = ''get''
      then succeeds [DPlat (PNvsOpen ''esp32os''), DPlat (PNvsGet (args ! 2)),
             (case pl_nvs p (args ! 2) of
                Some v \<Rightarrow> say (nl (args ! 2 @ '' = '' @ v)) | None \<Rightarrow> say (nl (''nvs: key '' @ q1 (args ! 2) @ '' not found''))),
             DPlat PNvsClose] s
      else if args ! 1 = ''set'' then
        (if length args < 4 then fails [DPlat (PNvsOpen ''esp32os''), Say (nl ''nvs set <key> <value>''), DPlat PNvsClose] s
         else succeeds [DPlat (PNvsOpen ''esp32os''), DPlat (PNvsSet (args ! 2) (args ! 3)), DPlat PNvsCommit,
                say (nl (''nvs: '' @ args ! 2 @ '' = '' @ args ! 3)), DPlat PNvsClose] s)
      else if args ! 1 = ''del''
      then succeeds [DPlat (PNvsOpen ''esp32os''), DPlat (PNvsEraseKey (args ! 2)), DPlat PNvsCommit,
             say (nl (''nvs: deleted '' @ q1 (args ! 2))), DPlat PNvsClose] s
      else succeeds [DPlat (PNvsOpen ''esp32os''), DPlat PNvsClose] s)"

end
