(* ===== verification/CmdServices.thy ===== *)
theory CmdServices
  imports CmdBase
begin

text \<open>
  The built-in commands for PWM, timers, variables, scheduled commands, IPC objects, MQTT, updates and
  the test suites (\<^verbatim>\<open>shell_commands.c\<close>), one definition per \<^verbatim>\<open>cmd_*\<close> function.  A usage text is the
  list of its lines.
\<close>

definition usage :: "string list \<Rightarrow> cmd_out list" where "usage ls = map (\<lambda>t. Say (nl t)) ls"

section \<open>PWM\<close>

definition pwm_status_line :: "'v sys \<Rightarrow> nat \<Rightarrow> cmd_out list" where
  "pwm_status_line s i =
     (let (act, t1) = os_pwm_channel_is_active (of_nat i) (y_pwm s) in
      map DPwm t1 @
      (if act
       then (let (_, res, t2) = os_pwm_get_config (of_nat i) (y_pwm s)
             in map DPwm t2 @
                (case res of None \<Rightarrow> []
                 | Some (pin, f, d) \<Rightarrow> [say (nl (''  Channel '' @ dec i @ '': GPIO'' @ dec (unat pin) @ '' @ '' @ pr_u32 f @ '' Hz, duty='' @
                     dec (unat d) @ ''%''))]))
       else []))"

definition cmd_pwm :: "'v cmd" where
  "cmd_pwm p fd args s =
     (if length args < 2
      then fails (usage [''Usage: pwm init <channel> <pin> <freq_hz>'', ''       pwm duty <channel> <percent>'',
             ''       pwm freq <channel> <freq_hz>'', ''       pwm deinit <channel>'', ''       pwm status'']) s
      else if args ! 1 = ''init'' then
        (if length args < 5 then fails (usage [''Usage: pwm init <channel> <pin> <freq_hz>'']) s
         else
           let ch = atoi (args ! 2); pin = atoi (args ! 3); f = atou32 (args ! 4);
               (ret, w, tr) = os_pwm_channel_init (pl_gpio_ok p) (pl_ret p) (pl_ret2 p) (word_of_int ch) (word_of_int pin) f (y_pwm s);
               s1 = s\<lparr>y_pwm := w\<rparr>
           in if ret = ESP_OK
              then succeeds (map DPwm tr @ [say (nl (''PWM channel '' @ dec_int ch @ '' initialized on GPIO'' @ dec_int pin @ '' @ '' @ pr_u32 f @ '' Hz''))]) s1
              else fails (map DPwm tr @ [say (nl (''Failed to init PWM: '' @ pl_err_name p ret))]) s1)
      else if args ! 1 = ''duty'' then
        (if length args < 4 then fails (usage [''Usage: pwm duty <channel> <percent>'']) s
         else
           let ch = atoi (args ! 2); duty = atoi (args ! 3);
               (ret, w, tr) = os_pwm_set_duty (pl_ret p) (word_of_int ch) (word_of_int duty) (y_pwm s); s1 = s\<lparr>y_pwm := w\<rparr>
           in if ret = ESP_OK
              then succeeds (map DPwm tr @ [say (nl (''PWM channel '' @ dec_int ch @ '' duty set to '' @ dec_int duty @ ''%''))]) s1
              else fails (map DPwm tr @ [say (nl (''Failed to set duty: '' @ pl_err_name p ret))]) s1)
      else if args ! 1 = ''freq'' then
        (if length args < 4 then fails (usage [''Usage: pwm freq <channel> <freq_hz>'']) s
         else
           let ch = atoi (args ! 2); f = atou32 (args ! 3);
               (ret, w, tr) = os_pwm_set_freq (pl_ret p) (word_of_int ch) f (y_pwm s); s1 = s\<lparr>y_pwm := w\<rparr>
           in if ret = ESP_OK
              then succeeds (map DPwm tr @ [say (nl (''PWM channel '' @ dec_int ch @ '' frequency set to '' @ pr_u32 f @ '' Hz''))]) s1
              else fails (map DPwm tr @ [say (nl (''Failed to set frequency: '' @ pl_err_name p ret))]) s1)
      else if args ! 1 = ''deinit'' then
        (if length args < 3 then fails (usage [''Usage: pwm deinit <channel>'']) s
         else
           let ch = atoi (args ! 2); (ret, w, tr) = os_pwm_channel_deinit (word_of_int ch) (y_pwm s); s1 = s\<lparr>y_pwm := w\<rparr>
           in if ret = ESP_OK then succeeds (map DPwm tr @ [say (nl (''PWM channel '' @ dec_int ch @ '' deinitialized''))]) s1
              else fails (map DPwm tr @ [say (nl (''Failed to deinit: '' @ pl_err_name p ret))]) s1)
      else if args ! 1 = ''status'' then
        (let (n, tr) = os_pwm_get_active_count (y_pwm s)
         in succeeds (map DPwm tr @ [say (nl (''Active PWM channels: '' @ dec (unat n) @ ''/'' @ dec OS_PWM_MAX_CHANNELS))] @
              concat (map (pwm_status_line s) [0..<OS_PWM_MAX_CHANNELS])) s)
      else fails [say (nl (''pwm: unknown subcommand '' @ q1 (args ! 1)))] s)"

section \<open>Timers\<close>

definition timer_on_words :: "string list" where "timer_on_words = [''1'', ''true'', ''yes'', ''on'']"

text \<open>The operations on a timer that is looked up by its name.\<close>

definition with_timer ::
  "string \<Rightarrow> string \<Rightarrow> (nat option \<Rightarrow> timer_state \<Rightarrow> esp_err \<times> timer_state \<times> timer_call eff list) \<Rightarrow> string \<Rightarrow> 'v sys
   \<Rightarrow> int \<times> 'v sys \<times> cmd_out list" where
  "with_timer name what oper success_text s =
     (let (t, t1) = os_timer_find (Some name) (y_timer s) in
      if t = None then fails (map DTimer t1 @ [say (nl (''timer: '' @ q1 name @ '' not found''))]) s
      else
        let (ret, w, t2) = oper t (y_timer s); s1 = s\<lparr>y_timer := w\<rparr>; outs = map DTimer (t1 @ t2)
        in if ret \<noteq> ESP_OK then fails (outs @ [say (nl (''timer: '' @ what @ '' failed for '' @ q1 name))]) s1
           else succeeds (outs @ [say (nl (''Timer '' @ q1 name @ '' '' @ success_text))]) s1)"

definition cmd_timer :: "'v cmd" where
  "cmd_timer p fd args s =
     (if length args < 2
      then fails (usage [''Usage: timer create <name> <period_ms> <reload>'', ''       timer start <name>'', ''       timer stop <name>'',
             ''       timer restart <name> <period_ms>'', ''       timer delete <name>'', ''       timer list'']) s
      else if args ! 1 = ''create'' then
        (if length args < 5 then fails (usage [''Usage: timer create <name> <period_ms> <reload>'']) s
         else
           let cfg = \<lparr>tc_name = Some (args ! 2), tc_period_ms = atou32 (args ! 3), tc_reload = (args ! 4 \<in> set timer_on_words),
                 tc_callback = None, tc_arg = 0\<rparr>;
               (t, w, tr) = os_timer_create (pl_ticks p) (pl_handle p) (Some cfg) (y_timer s); s1 = s\<lparr>y_timer := w\<rparr>
           in if t = None then fails (map DTimer tr @ [Say (nl ''timer: create failed'')]) s1
              else succeeds (map DTimer tr @ [say (nl (''Timer '' @ q1 (opt_text (os_timer_get_name t w)) @ '' created ('' @
                     pr_u32 (tc_period_ms cfg) @ '' ms, '' @ (if tc_reload cfg then ''auto'' else ''oneshot'') @ '')''))]) s1)
      else if args ! 1 = ''start'' then
        (if length args < 3 then fails (usage [''Usage: timer start <name>'']) s
         else with_timer (args ! 2) ''start'' (os_timer_start (pl_done p)) ''started'' s)
      else if args ! 1 = ''stop'' then
        (if length args < 3 then fails (usage [''Usage: timer stop <name>'']) s
         else with_timer (args ! 2) ''stop'' (os_timer_stop (pl_done p)) ''stopped'' s)
      else if args ! 1 = ''restart'' then
        (if length args < 4 then fails (usage [''Usage: timer restart <name> <period_ms>'']) s
         else
           let ms = atou32 (args ! 3)
           in with_timer (args ! 2) ''restart'' (\<lambda>t. os_timer_restart (pl_ticks p) (pl_done p) t ms)
                (''restarted at '' @ pr_u32 ms @ '' ms'') s)
      else if args ! 1 = ''delete'' then
        (if length args < 3 then fails (usage [''Usage: timer delete <name>'']) s
         else with_timer (args ! 2) ''delete'' os_timer_delete ''deleted'' s)
      else if args ! 1 = ''list'' then succeeds (map DTimer (os_timer_list fd (y_timer s))) s
      else fails [say (nl (''timer: unknown subcommand '' @ q1 (args ! 1)))] s)"

section \<open>Variables\<close>

definition cmd_env :: "'v cmd" where
  "cmd_env p fd args s = succeeds (map DEnv (snd (os_env_list fd (y_env s)))) s"

definition cmd_export :: "'v cmd" where
  "cmd_export p fd args s =
     (if length args < 2 then fails (usage [''Usage: export NAME=VALUE'']) s
      else
        let a = args ! 1; name = takeWhile (\<lambda>c. c \<noteq> CHR ''='') a; value = drop (length name + 1) a
        in if CHR ''='' \<notin> set a \<or> name = [] then fails (usage [''Usage: export NAME=VALUE'']) s
           else
             let (ret, e, tr) = os_env_set (Some name) (Some value) (y_env s); s1 = s\<lparr>y_env := e\<rparr>
             in if ret \<noteq> ESP_OK then fails (map DEnv tr @ [say (nl (''export: failed for '' @ q1 name))]) s1
                else succeeds (map DEnv tr @ [say (nl (name @ ''='' @ value))]) s1)"

definition cmd_unset :: "'v cmd" where
  "cmd_unset p fd args s =
     (if length args < 2 then fails (usage [''Usage: unset NAME'']) s
      else
        let (ret, e, tr) = os_env_unset (Some (args ! 1)) (y_env s); s1 = s\<lparr>y_env := e\<rparr>
        in if ret \<noteq> ESP_OK then fails (map DEnv tr @ [say (nl (''unset: '' @ q1 (args ! 1) @ '' not found''))]) s1
           else succeeds (map DEnv tr) s1)"

definition cmd_printenv :: "'v cmd" where
  "cmd_printenv p fd args s =
     (if length args < 2 then fails (usage [''Usage: printenv NAME'']) s
      else
        let (ret, v, tr) = os_env_get (Some (args ! 1)) True OS_ENV_VALUE_LEN (y_env s)
        in if ret \<noteq> ESP_OK then fails (map DEnv tr @ [say (nl (''printenv: '' @ q1 (args ! 1) @ '' not found''))]) s
           else succeeds (map DEnv tr @ [Say (opt_text v), Say crlf]) s)"

section \<open>Scheduled and background commands\<close>

definition job_label :: "string \<Rightarrow> nat \<Rightarrow> string" where
  "job_label pre us = cstr OS_SCHED_NAME_LEN (pre @ pr_u32 (of_nat us))"

definition cmd_run :: "'v cmd" where
  "cmd_run p fd args s =
     (if length args < 2 then fails (usage [''Usage: run <command...>'']) s
      else
        case join_args SHELL_MAX_LINE_LEN (drop 1 args) [] of
          None \<Rightarrow> fails [DAbort] s
        | Some command \<Rightarrow>
            let (ret, k, tr) = os_scheduler_run_background (fst (pl_stack p)) (snd (pl_stack p)) (pl_handle p) (Some (pl_address p)) 0
                  (Some (job_label ''run_'' (pl_now_us p))) (Some command) fd (y_sched s) (y_kernel s);
                s1 = s\<lparr>y_kernel := k\<rparr>
            in if ret \<noteq> ESP_OK then fails (map DSched tr @ [Say (nl ''run: failed to launch background task'')]) s1
               else succeeds (map DSched tr @ [say (nl (''Started background task: '' @ command))]) s1)"

definition schedule_with :: "bool \<Rightarrow> string \<Rightarrow> (string \<Rightarrow> 32 word \<Rightarrow> string) \<Rightarrow> 'v cmd" where
  "schedule_with repeat name success p fd args s =
     (let ms = atou32 (args ! 1) in
      case join_args SHELL_MAX_LINE_LEN (drop 2 args) [] of
        None \<Rightarrow> fails [DAbort] s
      | Some command \<Rightarrow>
          let (ret, w, tr) = os_scheduler_schedule (pl_ticks p) (pl_handle p) (pl_done p) (Some (job_label ''job_'' (pl_now_us p)))
                (Some command) ms repeat fd (y_sched s);
              s1 = s\<lparr>y_sched := w\<rparr>
          in if ret \<noteq> ESP_OK then fails (map DSched tr @ [Say (nl (name @ '': failed to schedule job''))]) s1
             else succeeds (map DSched tr @ [say (nl (success command ms))]) s1)"

definition cmd_at :: "'v cmd" where
  "cmd_at p fd args s =
     (if length args < 3 then fails (usage [''Usage: at <delay_ms> <command...>'']) s
      else schedule_with False ''at'' (\<lambda>c ms. ''Scheduled '' @ q1 c @ '' in '' @ pr_u32 ms @ '' ms'') p fd args s)"

definition cmd_every :: "'v cmd" where
  "cmd_every p fd args s =
     (if length args < 3 then fails (usage [''Usage: every <period_ms> <command...>'']) s
      else schedule_with True ''every'' (\<lambda>c ms. ''Scheduled repeating job '' @ q1 c @ '' every '' @ pr_u32 ms @ '' ms'') p fd args s)"

definition cmd_jobs :: "'v cmd" where
  "cmd_jobs p fd args s = succeeds (map DSched (os_scheduler_list fd (y_sched s))) s"

definition cmd_killjob :: "'v cmd" where
  "cmd_killjob p fd args s =
     (if length args < 2 then fails (usage [''Usage: killjob <name>'']) s
      else
        let (ret, w, tr) = os_scheduler_cancel (Some (args ! 1)) (y_sched s); s1 = s\<lparr>y_sched := w\<rparr>
        in if ret \<noteq> ESP_OK then fails (map DSched tr @ [say (nl (''killjob: '' @ q1 (args ! 1) @ '' not found''))]) s1
           else succeeds (map DSched tr @ [say (nl (''Cancelled job '' @ q1 (args ! 1)))]) s1)"

section \<open>Message queues and events\<close>

definition hex8u :: "32 word \<Rightarrow> string" where
  "hex8u w = (let n = unat w in hex2u (n div 16777216) @ hex2u (n div 65536 mod 256) @ hex2u (n div 256 mod 256) @ hex2u (n mod 256))"

definition msgq_send :: "'v cmd" where
  "msgq_send p fd args s =
     (let (q, t1) = os_msgq_find (Some (args ! 2)) (y_ipc s) in
      if q = None then fails (map DIpc t1 @ [say (nl (''Message queue '' @ q1 (args ! 2) @ '' not found''))]) s
      else
        let (ret, t2) = os_msgq_send (pl_ticks p) (pl_done p) q (Some (pl_address p)) portMAX_DELAY (y_ipc s); outs = map DIpc (t1 @ t2)
        in if ret = ESP_OK then succeeds (outs @ [say (nl (''Sent to '' @ q1 (args ! 2) @ '': '' @ args ! 3))]) s
           else fails (outs @ [say (nl (''Send failed: '' @ pl_err_name p ret))]) s)"

definition msgq_recv :: "'v cmd" where
  "msgq_recv p fd args s =
     (let (q, t1) = os_msgq_find (Some (args ! 2)) (y_ipc s) in
      if q = None then fails (map DIpc t1 @ [say (nl (''Message queue '' @ q1 (args ! 2) @ '' not found''))]) s
      else
        let timeout = (if 4 \<le> length args then atou32 (args ! 3) else 5000);
            (ret, t2) = os_msgq_receive (pl_ticks p) (pl_done p) q True timeout (y_ipc s); outs = map DIpc (t1 @ t2)
        in if ret = ESP_OK
           then succeeds (outs @ [say (nl (''Received from '' @ q1 (args ! 2) @ '': '' @ takeWhile (\<lambda>c. c \<noteq> nul) (pl_text p)))]) s
           else if ret = ESP_ERR_TIMEOUT then fails (outs @ [Say (nl ''Receive timeout'')]) s
           else fails (outs @ [say (nl (''Receive failed: '' @ pl_err_name p ret))]) s)"

definition cmd_msgq :: "'v cmd" where
  "cmd_msgq p fd args s =
     (if length args < 2
      then fails (usage [''Usage: msgq create <name> <size> <count>'', ''       msgq delete <name>'', ''       msgq send <name> <data>'',
             ''       msgq recv <name> [timeout_ms]'', ''       msgq list'']) s
      else if args ! 1 = ''create'' then
        (if length args < 5 then fails (usage [''Usage: msgq create <name> <size> <count>'']) s
         else
           let sz = unat (atou32 (args ! 3)); n = atou8 (args ! 4);
               (q, w, tr) = os_msgq_create (pl_handle p) (Some (args ! 2)) sz n (y_ipc s); s1 = s\<lparr>y_ipc := w\<rparr>
           in if q \<noteq> None
              then succeeds (map DIpc tr @ [say (nl (''Message queue '' @ q1 (args ! 2) @ '' created: size='' @ dec sz @ '', count='' @ dec (unat n)))]) s1
              else fails (map DIpc tr @ [Say (nl ''Failed to create message queue'')]) s1)
      else if args ! 1 = ''delete'' then
        (if length args < 3 then fails (usage [''Usage: msgq delete <name>'']) s
         else
           let (q, t1) = os_msgq_find (Some (args ! 2)) (y_ipc s) in
           if q = None then fails (map DIpc t1 @ [say (nl (''Message queue '' @ q1 (args ! 2) @ '' not found''))]) s
           else
             let (_, w, t2) = os_msgq_delete q (y_ipc s)
             in succeeds (map DIpc (t1 @ t2) @ [say (nl (''Message queue '' @ q1 (args ! 2) @ '' deleted''))]) (s\<lparr>y_ipc := w\<rparr>))
      else if args ! 1 = ''send'' then
        (if length args < 4 then fails (usage [''Usage: msgq send <name> <data>'']) s else msgq_send p fd args s)
      else if args ! 1 = ''recv'' then
        (if length args < 3 then fails (usage [''Usage: msgq recv <name> [timeout_ms]'']) s else msgq_recv p fd args s)
      else if args ! 1 = ''list'' then succeeds (map DIpc (os_msgq_list (y_ipc s))) s
      else fails [say (nl (''msgq: unknown subcommand '' @ q1 (args ! 1)))] s)"

text \<open>The event group of a name, or the complaint.\<close>

definition with_event ::
  "string \<Rightarrow> (nat option \<Rightarrow> ipc_call eff list \<Rightarrow> int \<times> 'v sys \<times> cmd_out list) \<Rightarrow> 'v sys \<Rightarrow> int \<times> 'v sys \<times> cmd_out list" where
  "with_event name k s =
     (let (ev, tr) = os_event_find (Some name) (y_ipc s)
      in if ev = None then fails (map DIpc tr @ [say (nl (''Event group '' @ q1 name @ '' not found''))]) s else k ev tr)"

definition cmd_event :: "'v cmd" where
  "cmd_event p fd args s =
     (if length args < 2
      then fails (usage [''Usage: event create <name>'', ''       event delete <name>'', ''       event set <name> <bits>'',
             ''       event clear <name> <bits>'', ''       event get <name>'', ''       event wait <name> <bits> [timeout_ms]'']) s
      else if args ! 1 = ''create'' then
        (if length args < 3 then fails (usage [''Usage: event create <name>'']) s
         else
           let (ev, w, tr) = os_event_create (pl_handle p) (Some (args ! 2)) (y_ipc s); s1 = s\<lparr>y_ipc := w\<rparr>
           in if ev \<noteq> None then succeeds (map DIpc tr @ [say (nl (''Event group '' @ q1 (args ! 2) @ '' created''))]) s1
              else fails (map DIpc tr @ [Say (nl ''Failed to create event group'')]) s1)
      else if args ! 1 = ''delete'' then
        (if length args < 3 then fails (usage [''Usage: event delete <name>'']) s
         else with_event (args ! 2) (\<lambda>ev t1.
             let (_, w, t2) = os_event_delete ev (y_ipc s)
             in succeeds (map DIpc (t1 @ t2) @ [say (nl (''Event group '' @ q1 (args ! 2) @ '' deleted''))]) (s\<lparr>y_ipc := w\<rparr>)) s)
      else if args ! 1 = ''set'' then
        (if length args < 4 then fails (usage [''Usage: event set <name> <bits>'']) s
         else with_event (args ! 2) (\<lambda>ev t1.
             let bits = strtoul 0 (args ! 3); (_, t2) = os_event_set ev bits (y_ipc s)
             in succeeds (map DIpc (t1 @ t2) @ [say (nl (''Event bits 0x'' @ hex8u bits @ '' set on '' @ q1 (args ! 2)))]) s) s)
      else if args ! 1 = ''clear'' then
        (if length args < 4 then fails (usage [''Usage: event clear <name> <bits>'']) s
         else with_event (args ! 2) (\<lambda>ev t1.
             let bits = strtoul 0 (args ! 3); (_, t2) = os_event_clear ev bits (y_ipc s)
             in succeeds (map DIpc (t1 @ t2) @ [say (nl (''Event bits 0x'' @ hex8u bits @ '' cleared on '' @ q1 (args ! 2)))]) s) s)
      else if args ! 1 = ''get'' then
        (if length args < 3 then fails (usage [''Usage: event get <name>'']) s
         else with_event (args ! 2) (\<lambda>ev t1.
             succeeds (map DIpc t1 @ [say (nl (''Event group '' @ q1 (args ! 2) @ '': bits=0x'' @
               hex8u (os_event_get (\<lambda>_. pl_bits p) ev (y_ipc s))))]) s) s)
      else if args ! 1 = ''wait'' then
        (if length args < 4 then fails (usage [''Usage: event wait <name> <bits> [timeout_ms]'']) s
         else with_event (args ! 2) (\<lambda>ev t1.
             let timeout = (if 5 \<le> length args then atou32 (args ! 4) else portMAX_DELAY);
                 (res, t2) = os_event_wait (pl_ticks p) (pl_bits p) ev (strtoul 0 (args ! 3)) True False timeout (y_ipc s);
                 outs = map DIpc (t1 @ t2)
             in if res \<noteq> 0 then succeeds (outs @ [say (nl (''Event wait returned: 0x'' @ hex8u res))]) s
                else fails (outs @ [Say (nl ''Event wait timeout'')]) s) s)
      else fails [say (nl (''event: unknown subcommand '' @ q1 (args ! 1)))] s)"

section \<open>MQTT\<close>

definition OS_MQTT_MAX_PAYLOAD_LEN :: nat where "OS_MQTT_MAX_PAYLOAD_LEN = 1024"

text \<open>The level of service after \<open>-q\<close> at position \<open>i\<close>; any other number is sent as level 0.\<close>

definition qos_arg :: "nat \<Rightarrow> string list \<Rightarrow> os_mqtt_qos" where
  "qos_arg i args =
     (if i + 2 \<le> length args \<and> args ! i = ''-q''
      then (let q = atoi (args ! (i + 1)) in if q = 2 then OS_MQTT_QOS_2 else if q = 1 then OS_MQTT_QOS_1 else OS_MQTT_QOS_0)
      else OS_MQTT_QOS_0)"

definition after_mqtt ::
  "esp_err \<times> mqtt \<times> mqtt_call eff list \<Rightarrow> string \<Rightarrow> string \<Rightarrow> 'v platform \<Rightarrow> 'v sys \<Rightarrow> int \<times> 'v sys \<times> cmd_out list" where
  "after_mqtt res good what p s =
     (let (ret, w, tr) = res; s1 = s\<lparr>y_mqtt := w\<rparr>
      in if ret = ESP_OK then succeeds (map DMqtt tr @ [say (nl good)]) s1
         else fails (map DMqtt tr @ [say (nl (what @ '' failed: '' @ pl_err_name p ret))]) s1)"

definition cmd_mqtt :: "'v cmd" where
  "cmd_mqtt p fd args s =
     (if length args < 2
      then fails (usage [''Usage: mqtt config <broker_url>'', ''       mqtt connect'', ''       mqtt disconnect'', ''       mqtt status'',
             ''       mqtt pub <topic> <message> [-q QoS]      (text payload)'',
             ''       mqtt pubhex <topic> <hex> [-q QoS]       (binary payload)'', ''       mqtt sub <topic> [-q QoS]'']) s
      else if args ! 1 = ''config'' then
        (if length args < 3 then fails (usage [''Usage: mqtt config <broker_url>'']) s
         else after_mqtt (os_mqtt_config (Some (config_zero\<lparr>m_broker_url := cstr OS_MQTT_URL_MAX_LEN (args ! 2)\<rparr>)) (y_mqtt s))
                (''MQTT configured: '' @ args ! 2) ''Config'' p s)
      else if args ! 1 = ''connect''
      then after_mqtt (os_mqtt_connect (pl_mac p) (pl_handle p) (pl_ret p) (pl_ret2 p) (y_mqtt s)) ''MQTT connecting...'' ''Connect'' p s
      else if args ! 1 = ''disconnect'' then after_mqtt (os_mqtt_disconnect (y_mqtt s)) ''MQTT disconnected'' ''Disconnect'' p s
      else if args ! 1 = ''status'' then
        (let (st, t1) = os_mqtt_get_state (y_mqtt s); (stats, t2) = os_mqtt_get_stats False (y_mqtt s)
         in succeeds (map DMqtt t1 @ [say (nl (''MQTT state: '' @ os_mqtt_get_state_str st))] @ map DMqtt t2 @
              [case stats of
                 None \<Rightarrow> Say (pl_text p)   \<comment> \<open>what the uninitialised structure prints\<close>
               | Some x \<Rightarrow> say (nl (''Messages: sent='' @ pr_u32 (messages_sent x) @ '', received='' @ pr_u32 (messages_received x) @
                   '', dropped='' @ pr_u32 (messages_dropped x)))]) s)
      else if args ! 1 = ''pub'' then
        (if length args < 4 then fails (usage [''Usage: mqtt pub <topic> <message> [-q QoS]'']) s
         else after_mqtt (os_mqtt_publish (pl_msg_id p) (Some (args ! 2)) (Some (args ! 3)) (of_nat (length (args ! 3))) (qos_arg 4 args)
                  False (y_mqtt s)) (''Published to '' @ q1 (args ! 2)) ''Publish'' p s)
      else if args ! 1 = ''pubhex'' then
        (if length args < 4 then fails (usage [''Usage: mqtt pubhex <topic> <hex> [-q QoS]'']) s
         else
           let bytes = hex_to_bytes (Some (args ! 3)) OS_MQTT_MAX_PAYLOAD_LEN in
           if bytes = []
           then fails (usage [''Invalid hex payload (must be even-length hex, max 2048 hex characters (1024 bytes binary))'']) s
           else after_mqtt (os_mqtt_publish (pl_msg_id p) (Some (args ! 2)) (Some (map (\<lambda>b. char_of (unat b)) bytes)) (of_nat (length bytes))
                    (qos_arg 4 args) False (y_mqtt s))
                  (''Published '' @ dec (length bytes) @ ''-byte binary payload to '' @ q1 (args ! 2)) ''Publish'' p s)
      else if args ! 1 = ''sub'' then
        (if length args < 3 then fails (usage [''Usage: mqtt sub <topic> [-q QoS]'']) s
         else after_mqtt (os_mqtt_subscribe (pl_msg_id p) (Some (args ! 2)) (qos_arg 3 args) (y_mqtt s))
                (''Subscribed to '' @ q1 (args ! 2)) ''Subscribe'' p s)
      else fails [say (nl (''mqtt: unknown subcommand '' @ q1 (args ! 1)))] s)"

section \<open>Updates and tests\<close>

definition ota_status :: "'v cmd" where
  "ota_status p fd args s =
     (let (info, tr) = os_ota_get_info (pl_boot p) (pl_running p) (pl_img p) True (y_ota s) in
      case info of
        None \<Rightarrow> succeeds (map DOta tr @ [Say (pl_text p)]) s   \<comment> \<open>what the uninitialised structure prints\<close>
      | Some i \<Rightarrow>
          succeeds (map DOta tr @
            [say (nl (''OTA State: '' @ os_ota_get_state_str (oi_state i) @ '' ('' @ dec (unat (oi_progress i)) @ ''%)'')),
             say (nl (''Running partition: '' @ oi_current_version i)),
             say (nl (''Can rollback: '' @ (if oi_can_rollback i then ''yes'' else ''no'')))] @
            (if os_ota_is_in_progress (y_ota s)
             then [say (nl (''Downloaded: '' @ dec (oi_bytes_downloaded i) @ ''/'' @ dec (oi_total_size i) @ '' bytes''))] else []) @
            (if oi_error_message i \<noteq> [] then [say (nl (''Last error: '' @ oi_error_message i))] else [])) s)"

definition cmd_ota :: "'v cmd" where
  "cmd_ota p fd args s =
     (if length args < 2
      then fails (usage [''Usage: ota update <url>'', ''       ota status'', ''       ota confirm'', ''       ota rollback'']) s
      else if args ! 1 = ''update'' then
        (if length args < 3 then fails (usage [''Usage: ota update <url>'']) s
         else if os_ota_is_in_progress (y_ota s) then fails [Say (nl ''OTA already in progress'')] s
         else
           let cfg = \<lparr>oc_url = Some (args ! 2), oc_ca_cert = None, oc_expected_sha256 = None, oc_disable_signature_check = False,
                 oc_download_timeout_sec = 300\<rparr>;
               (ret, w, tr) = os_ota_start (pl_handle p) (Some cfg) (y_ota s); s1 = s\<lparr>y_ota := w\<rparr>
           in if ret = ESP_OK
              then succeeds (map DOta tr @ [say (nl (''OTA started from: '' @ args ! 2)), Say (nl ''Check status with: ota status'')]) s1
              else fails (map DOta tr @ [say (nl (''OTA start failed: '' @ pl_err_name p ret))]) s1)
      else if args ! 1 = ''status'' then ota_status p fd args s
      else if args ! 1 = ''confirm'' then
        (let (ret, tr) = os_ota_confirm (pl_running p) (pl_img p) (pl_ret p) (y_ota s)
         in if ret = ESP_OK then succeeds (map DOta tr @ [Say (nl ''Firmware confirmed'')]) s
            else fails (map DOta tr @ [say (nl (''Confirm failed: '' @ pl_err_name p ret))]) s)
      else if args ! 1 = ''rollback'' then
        (if \<not> os_ota_can_rollback (pl_boot p) (pl_running p) (y_ota s) then fails [Say (nl ''No rollback available'')] s
         else
           let (ret, tr) = os_ota_rollback (pl_boot p) (pl_running p) (pl_ret p) (y_ota s);
               outs = [Say (nl ''Initiating rollback...'')] @ map DOta tr
           in if ret \<noteq> ESP_OK then fails (outs @ [say (nl (''Rollback failed: '' @ pl_err_name p ret))]) s
              else succeeds outs s)
      else fails [say (nl (''ota: unknown subcommand '' @ q1 (args ! 1)))] s)"

definition test_suites :: "string list" where
  "test_suites = [''mqtt'', ''ipc'', ''ota'', ''pwm'', ''timer'', ''env'', ''sched'']"

definition test_title :: "string \<Rightarrow> string" where
  "test_title n = (if n = ''sched'' then ''SCHEDULER'' else if n = ''mqtt'' then ''MQTT'' else if n = ''ipc'' then ''IPC''
     else if n = ''ota'' then ''OTA'' else if n = ''pwm'' then ''PWM'' else if n = ''timer'' then ''TIMER'' else ''ENV'')"

definition cmd_test :: "'v cmd" where
  "cmd_test p fd args s =
     (let end_text = [Say (nl ''Test suite execution complete.'')] in
      if length args < 2 then fails (usage [''Usage: test <mqtt|ipc|ota|pwm|timer|env|sched|all>'']) s
      else if args ! 1 \<in> set test_suites
      then succeeds ([Say (nl (''Running '' @ test_title (args ! 1) @ '' test suite...'')), DPlat (PRunTests (args ! 1))] @ end_text) s
      else if args ! 1 = ''all''
      then succeeds ([Say (nl ''Running all feature test suites (MQTT, IPC, OTA, PWM, TIMER, ENV, SCHED)...'')] @
             map (\<lambda>t. DPlat (PRunTests t)) test_suites @ end_text) s
      else fails [say (nl (''test: unknown suite '' @ q1 (args ! 1)))] s)"

end
