(* ===== verification/CmdTable.thy ===== *)
theory CmdTable
  imports CmdSystem CmdServices
begin

text \<open>
  The table of built-in commands (\<^verbatim>\<open>shell_commands_register_all\<close>), running one, executing a line, and what
  holds of the commands as they are registered and of the helpers for hexadecimal payloads, joined arguments
  and numbers.
\<close>

section \<open>The table\<close>

text \<open>Name, description, usage and function, in the order of the array.  A handler is an index into it.\<close>

definition builtins :: "(string \<times> string \<times> string \<times> 'v cmd) list" where
  "builtins = [
     (''help'', ''Show available commands'', ''help'', cmd_help),
     (''clear'', ''Clear terminal screen'', ''clear'', cmd_clear),
     (''uname'', ''Print system information'', ''uname [-a]'', cmd_uname),
     (''uptime'', ''Show system uptime'', ''uptime'', cmd_uptime),
     (''free'', ''Display memory usage'', ''free'', cmd_free),
     (''reboot'', ''Reboot the system'', ''reboot'', cmd_reboot),
     (''echo'', ''Print text to terminal'', ''echo [text...]'', cmd_echo),
     (''exit'', ''Close current session'', ''exit'', cmd_exit),
     (''sleep'', ''Sleep for N seconds'', ''sleep <seconds>'', cmd_sleep),
     (''history'', ''Show command history'', ''history'', cmd_history),
     (''ps'', ''List running processes'', ''ps'', cmd_ps),
     (''top'', ''Show CPU/memory usage'', ''top'', cmd_top),
     (''kill'', ''Terminate a process by PID'', ''kill <pid>'', cmd_kill),
     (''suspend'', ''Suspend a process'', ''suspend <pid>'', cmd_suspend),
     (''resume'', ''Resume a suspended process'', ''resume <pid>'', cmd_resume),
     (''ls'', ''List directory contents'', ''ls [path]'', cmd_ls),
     (''pwd'', ''Print working directory'', ''pwd'', cmd_pwd),
     (''cd'', ''Change directory'', ''cd [path]'', cmd_cd),
     (''cat'', ''Print file contents'', ''cat <file>'', cmd_cat),
     (''write'', ''Write text to file (overwrite)'', ''write <file> <text...>'', cmd_write),
     (''append'', ''Append text to file'', ''append <file> <text...>'', cmd_append),
     (''rm'', ''Remove a file'', ''rm <file>'', cmd_rm),
     (''mkdir'', ''Create a directory'', ''mkdir <dir>'', cmd_mkdir),
     (''mv'', ''Move/rename a file'', ''mv <src> <dst>'', cmd_mv),
     (''df'', ''Show filesystem usage'', ''df'', cmd_df),
     (''dmesg'', ''Show kernel log buffer'', ''dmesg [lines]'', cmd_dmesg),
     (''loglevel'', ''Get or set log level'', ''loglevel [debug|info|warn|error|none]'', cmd_loglevel),
     (''logfile'', ''Enable/disable file logging'', ''logfile <on|off>'', cmd_logfile),
     (''wifi'', ''WiFi management'', ''wifi <scan|connect|disconnect|status>'', cmd_wifi),
     (''ifconfig'', ''Show network interface info'', ''ifconfig'', cmd_ifconfig),
     (''ping'', ''Ping a host'', ''ping <host> [-c count]'', cmd_ping),
     (''http'', ''HTTP GET request'', ''http <url>'', cmd_http),
     (''gpio'', ''GPIO read/write/mode control'', ''gpio <read|write|mode|info>'', cmd_gpio),
     (''adc'', ''ADC channel read'', ''adc <read|readv|readall> [ch]'', cmd_adc),
     (''i2c'', ''I2C scan and communicate'', ''i2c <scan|read|write>'', cmd_i2c),
     (''pwm'', ''PWM control for motors/LEDs'', ''pwm <init|duty|freq|deinit|status>'', cmd_pwm),
     (''timer'', ''Software timer control'', ''timer <create|start|stop|restart|delete|list>'', cmd_timer),
     (''msgq'', ''Message queue operations'', ''msgq <create|delete|send|recv|list>'', cmd_msgq),
     (''event'', ''Event group operations'', ''event <create|delete|set|clear|get|wait>'', cmd_event),
     (''env'', ''List environment variables'', ''env'', cmd_env),
     (''export'', ''Set environment variable'', ''export NAME=VALUE'', cmd_export),
     (''unset'', ''Unset environment variable'', ''unset NAME'', cmd_unset),
     (''printenv'', ''Print environment variable'', ''printenv NAME'', cmd_printenv),
     (''run'', ''Run a command in the background'', ''run <command...>'', cmd_run),
     (''at'', ''Schedule a one-shot command'', ''at <delay_ms> <command...>'', cmd_at),
     (''every'', ''Schedule a repeating command'', ''every <period_ms> <command...>'', cmd_every),
     (''jobs'', ''List scheduled jobs'', ''jobs'', cmd_jobs),
     (''killjob'', ''Cancel a scheduled job'', ''killjob <name>'', cmd_killjob),
     (''mqtt'', ''MQTT client operations'', ''mqtt <config|connect|disconnect|status|pub|sub>'', cmd_mqtt),
     (''ota'', ''OTA firmware update'', ''ota <update|status|confirm|rollback>'', cmd_ota),
     (''test'', ''Run feature test suites'', ''test <mqtt|ipc|ota|pwm|all>'', cmd_test),
     (''nvs'', ''Non-volatile storage key/value'', ''nvs <get|set|del|erase>'', cmd_nvs)]"

text \<open>The registrations do not depend on the type of the file system's state.\<close>

definition builtin_registration :: "nat \<Rightarrow> shell_registration" where
  "builtin_registration h =
     (case (builtins :: (string \<times> string \<times> string \<times> unit cmd) list) ! h of
        (n, d, u, _) \<Rightarrow> \<lparr>reg_name = Some n, reg_description = Some d, reg_usage = Some u, reg_handler = Some h\<rparr>)"

definition shell_commands_register_all :: "commands \<Rightarrow> commands" where
  "shell_commands_register_all cmds =
     fold (\<lambda>h cmds. snd (shell_register_command (Some (builtin_registration h)) cmds))
       [0..<length (builtins :: (string \<times> string \<times> string \<times> unit cmd) list)] cmds"

definition run_builtin :: "'v platform \<Rightarrow> nat \<Rightarrow> int \<Rightarrow> string list \<Rightarrow> 'v sys \<Rightarrow> int \<times> 'v sys \<times> cmd_out list" where
  "run_builtin p h fd args s =
     (if h < length (builtins :: (string \<times> string \<times> string \<times> 'v cmd) list)
      then snd (snd (snd (builtins ! h))) p fd args s else (SHELL_CMD_OK, s, []))"

text \<open>
  A line executed with the built-in commands: \<^verbatim>\<open>shell_execute\<close> on the current state, and the state its handler
  leaves, if it called one.
\<close>

definition builtin_handlers :: "'v platform \<Rightarrow> 'v sys \<Rightarrow> handlers" where
  "builtin_handlers p s h fd args = (case run_builtin p h fd args s of (ret, _, outs) \<Rightarrow> (ret, said outs))"

definition execute_line :: "'v platform \<Rightarrow> int \<Rightarrow> string option \<Rightarrow> 'v sys \<Rightarrow> (int \<times> 'v sys \<times> string list) option" where
  "execute_line p fd line s =
     (case shell_execute (builtin_handlers p s) (y_cmds s) (y_env s) fd line of
        None \<Rightarrow> None
      | Some (ret, texts, called) \<Rightarrow>
          Some (ret, (case called of None \<Rightarrow> s | Some (h, args) \<Rightarrow> fst (snd (run_builtin p h fd args s))), texts))"

section \<open>Registration\<close>

lemma length_builtins [simp]: "length builtins = 52"
  by (simp add: builtins_def)

definition builtin_names :: "string list" where
  "builtin_names = map fst (builtins :: (string \<times> string \<times> string \<times> unit cmd) list)"

lemma builtin_names_eq:
  "builtin_names = [''help'', ''clear'', ''uname'', ''uptime'', ''free'', ''reboot'', ''echo'', ''exit'', ''sleep'', ''history'',
     ''ps'', ''top'', ''kill'', ''suspend'', ''resume'', ''ls'', ''pwd'', ''cd'', ''cat'', ''write'', ''append'', ''rm'', ''mkdir'',
     ''mv'', ''df'', ''dmesg'', ''loglevel'', ''logfile'', ''wifi'', ''ifconfig'', ''ping'', ''http'', ''gpio'', ''adc'', ''i2c'',
     ''pwm'', ''timer'', ''msgq'', ''event'', ''env'', ''export'', ''unset'', ''printenv'', ''run'', ''at'', ''every'', ''jobs'',
     ''killjob'', ''mqtt'', ''ota'', ''test'', ''nvs'']"
  by (simp add: builtin_names_def builtins_def)

lemma distinct_builtins: "distinct builtin_names"
  unfolding builtin_names_eq by code_simp

definition builtin_command :: "nat \<Rightarrow> shell_command" where
  "builtin_command h =
     (case (builtins :: (string \<times> string \<times> string \<times> unit cmd) list) ! h of
        (n, d, u, _) \<Rightarrow> \<lparr>cmd_name = n, cmd_description = Some d, cmd_usage = Some u, cmd_handler = h\<rparr>)"

lemma builtin_command_name: "h < 52 \<Longrightarrow> cmd_name (builtin_command h) = builtin_names ! h"
  by (simp add: builtin_command_def builtin_names_def split_beta)

lemma builtin_command_handler [simp]: "cmd_handler (builtin_command h) = h"
  by (simp add: builtin_command_def split_beta)

lemma register_prefix:
  "n \<le> 52 \<Longrightarrow> fold (\<lambda>h cmds. snd (shell_register_command (Some (builtin_registration h)) cmds)) [0..<n] []
     = map builtin_command [0..<n]"
proof (induction n)
  case (Suc n)
  let ?cs = "map builtin_command [0..<n]"
  have n: "n < 52" using Suc.prems by simp
  have "cmd_name (builtin_command i) \<noteq> cmd_name (builtin_command n)" if "i < n" for i
    using that n nth_eq_iff_index_eq [OF distinct_builtins, of i n]
    by (simp add: builtin_command_name builtin_names_def)
  then have "find_idx (\<lambda>d. cmd_name d = cmd_name (builtin_command n)) ?cs = None" by (auto simp: find_idx_None)
  then have "snd (shell_register_command (Some (builtin_registration n)) ?cs) = ?cs @ [builtin_command n]"
    using n by (simp add: shell_register_command_def builtin_registration_def builtin_command_def split_beta Let_def SHELL_MAX_COMMANDS_def)
  then show ?case using Suc by simp
qed simp

lemma registered_all: "shell_commands_register_all [] = map builtin_command [0..<52]"
  using register_prefix [of 52] by (simp add: shell_commands_register_all_def del: upt_rec_numeral)

lemma commands_ok_builtins: "commands_ok (shell_commands_register_all [])"
proof -
  have "map cmd_name (map builtin_command [0..<52]) = builtin_names"
    by (rule nth_equalityI) (simp_all add: builtin_command_name builtin_names_def del: upt_rec_numeral)
  then show ?thesis
    using distinct_builtins by (simp add: commands_ok_def registered_all SHELL_MAX_COMMANDS_def del: upt_rec_numeral map_map)
qed

lemma find_builtin:
  assumes "h < 52"
  shows "\<exists>c. shell_find_command (builtin_names ! h) (shell_commands_register_all []) = Some c \<and>
    cmd_name c = builtin_names ! h \<and> cmd_handler c = h"
proof -
  have "find_idx (\<lambda>d. cmd_name d = builtin_names ! h) (map builtin_command [0..<52]) = Some h"
  proof (rule find_idx_unique)
    fix j
    assume "j < length (map builtin_command [0..<52])" "cmd_name (map builtin_command [0..<52] ! j) = builtin_names ! h"
    then show "j = h"
      using assms nth_eq_iff_index_eq [OF distinct_builtins, of j h]
      by (simp add: builtin_command_name builtin_names_def del: upt_rec_numeral)
  qed (use assms in \<open>simp_all add: builtin_command_name del: upt_rec_numeral\<close>)
  then show ?thesis
    using assms by (simp add: shell_find_command_def registered_all builtin_command_name del: upt_rec_numeral)
qed



section \<open>Hexadecimal payloads\<close>

lemma hex_nibble_digit: "n < 16 \<Longrightarrow> hex_nibble (hex_digit n) = int n"
proof -
  have "\<forall>n < 16. hex_nibble (hex_digit n) = int n"
    by (simp add: hex_digit_def hex_nibble_def Let_def All_less_Suc2 numeral_eq_Suc)
  then show "n < 16 \<Longrightarrow> hex_nibble (hex_digit n) = int n" by blast
qed

lemma nibbles_byte: "word_of_int (or (push_bit 4 (int (unat b div 16))) (int (unat b mod 16))) = (b :: 8 word)"
proof -
  let ?x = "int (unat b)"
  have "int (unat b div 16) = drop_bit 4 ?x" "int (unat b mod 16) = take_bit 4 ?x"
    by (simp_all add: drop_bit_eq_div take_bit_eq_mod zdiv_int zmod_int)
  moreover have "or (push_bit 4 (drop_bit 4 x)) (take_bit 4 x) = x" for x :: int
    by (rule bit_eqI) (auto simp: bit_simps)
  ultimately show ?thesis by simp
qed

lemma hex_loop_bytes: "hex_loop (concat (map hex2 bs)) = Some bs"
proof (induction bs)
  case (Cons b bs)
  have "unat b < 256" using unsigned_less [of b, where 'a = nat] by simp
  then have "unat b div 16 < 16" by (simp add: less_mult_imp_div_less)
  with Cons show ?case by (simp add: hex2_def hex_nibble_digit nibbles_byte)
qed simp

lemma length_hex_text: "length (concat (map hex2 bs)) = 2 * length bs"
  by (induction bs) simp_all

lemma hex_nibble_bound: "hex_nibble c < 16"
  by (simp add: hex_nibble_def Let_def)

lemma hex_loop_length: "even (length h) \<Longrightarrow> hex_loop h = Some bs \<Longrightarrow> length h = 2 * length bs"
  by (induction h arbitrary: bs rule: hex_loop.induct) (auto split: if_splits)

lemma hex_loop_None: "even (length h) \<Longrightarrow> hex_loop h = None \<longleftrightarrow> (\<exists>c \<in> set h. hex_nibble c < 0)"
  by (induction h rule: hex_loop.induct) auto

text \<open>Claim C30: a payload written in hexadecimal is read back exactly, if it fits; everything else (an odd
  number of digits, a character that is no digit, too many bytes) gives the empty payload, which is refused.\<close>

theorem hex_roundtrip:
  "hex_to_bytes (Some (concat (map hex2 bs))) n = (if length bs \<le> n then bs else []) \<and>
   (hex_to_bytes (Some h) n \<noteq> [] \<longleftrightarrow> h \<noteq> [] \<and> even (length h) \<and> length h \<le> 2 * n \<and> \<not> (\<exists>c \<in> set h. hex_nibble c < 0))"
proof (intro conjI)
  show "hex_to_bytes (Some (concat (map hex2 bs))) n = (if length bs \<le> n then bs else [])"
    by (simp add: hex_to_bytes_def length_hex_text hex_loop_bytes)
  show "hex_to_bytes (Some h) n \<noteq> [] \<longleftrightarrow> h \<noteq> [] \<and> even (length h) \<and> length h \<le> 2 * n \<and> \<not> (\<exists>c \<in> set h. hex_nibble c < 0)"
  proof (cases "even (length h) \<and> length h div 2 \<le> n")
    case True
    then have e: "even (length h)" and l: "length h \<le> 2 * n" by auto
    show ?thesis
    proof (cases "hex_loop h")
      case None
      then show ?thesis using True hex_loop_None [OF e] by (simp add: hex_to_bytes_def not_less)
    next
      case (Some xs)
      have "xs \<noteq> [] \<longleftrightarrow> h \<noteq> []" using hex_loop_length [OF e Some] by auto
      then show ?thesis using True Some l hex_loop_None [OF e] by (simp add: hex_to_bytes_def not_less)
    qed
  next
    case False
    then show ?thesis by (auto simp: hex_to_bytes_def not_less)
  qed
qed

section \<open>Joined arguments\<close>

fun unwords :: "string list \<Rightarrow> string" where
  "unwords [] = []"
| "unwords [a] = a"
| "unwords (a # b # as) = a @ '' '' @ unwords (b # as)"

lemma join_args_fits:
  "length c + length (unwords args) + 2 \<le> cap \<Longrightarrow> join_args cap args c = Some (c @ unwords args)"
proof (induction cap args c rule: join_args.induct)
  case (3 cap a b as c)
  have a: "cat_arg cap c a = Some (c @ a)" using "3.prems" by (simp add: cat_arg_def)
  have e: "cat_end cap (c @ a) '' '' = c @ a @ '' ''" using "3.prems" by (simp add: cat_end_def)
  have "length (c @ a @ '' '') + length (unwords (b # as)) + 2 \<le> cap" using "3.prems" by simp
  with "3.IH" [of "c @ a"] have "join_args cap (b # as) (c @ a @ '' '') = Some ((c @ a @ '' '') @ unwords (b # as))"
    by (simp only: e a)
  then show ?case by (simp add: a e)
qed (simp_all add: cat_arg_def)

text \<open>An argument that leaves a single byte free makes the size of the next \<^verbatim>\<open>strncat\<close> wrap around.\<close>

lemma join_args_wraps:
  assumes "length a + 2 = cap" and "b \<noteq> []"
  shows "join_args cap [a, b] [] = None"
  using assms by (auto simp: cat_arg_def cat_end_def)

lemma unwords_Cons: "as \<noteq> [] \<Longrightarrow> unwords (a # as) = a @ '' '' @ unwords as"
  by (cases as) simp_all

lemma length_unwords_Cons: "length (unwords (a # as)) \<le> length a + 1 + length (unwords as)"
  by (cases as) simp_all

lemma length_unwords_drop: "length (unwords (drop k as)) \<le> length (unwords as)"
proof (induction k arbitrary: as)
  case (Suc k)
  show ?case
  proof (cases as)
    case (Cons a bs)
    have "length (unwords bs) \<le> length (unwords (a # bs))" by (cases bs) simp_all
    then show ?thesis using Suc [of bs] Cons by simp
  qed simp
qed simp

lemma split_at: "length (takeWhile P s) + length (tl (dropWhile P s)) + 1 \<le> length s \<or> takeWhile P s = s"
proof (cases "dropWhile P s")
  case Nil
  then show ?thesis by (metis append_Nil2 takeWhile_dropWhile_id)
next
  case (Cons x xs)
  have "length s = length (takeWhile P s) + length (dropWhile P s)" by (metis length_append takeWhile_dropWhile_id)
  then show ?thesis using Cons by simp
qed

lemma piece_length:
  assumes "length (unwords (parse_loop n (tl (dropWhile P s)))) \<le> length (tl (dropWhile P s))"
  shows "length (unwords (takeWhile P s # parse_loop n (tl (dropWhile P s)))) \<le> length s"
proof (cases "takeWhile P s = s")
  case True
  then have d: "dropWhile P s = []" by (metis append_self_conv takeWhile_dropWhile_id)
  have "parse_loop n [] = []" by (cases n) simp_all
  then show ?thesis using length_takeWhile_le [of P s] by (simp add: d)
next
  case False
  then show ?thesis
    using split_at [of P s] length_unwords_Cons [of "takeWhile P s" "parse_loop n (tl (dropWhile P s))"] assms by linarith
qed

lemma parse_loop_pieces: "length (unwords (parse_loop n s)) \<le> length s"
proof (induction n s rule: parse_loop.induct)
  case (2 n s)
  have d: "length (dropWhile is_space s) \<le> length s" by (rule length_dropWhile_le)
  show ?case
  proof (cases "dropWhile is_space s")
    case (Cons c cs)
    show ?thesis
    proof (cases "c = CHR 0x22")
      case True
      have "length (unwords (takeWhile (\<lambda>c. c \<noteq> CHR 0x22) cs # parse_loop n (tl (dropWhile (\<lambda>c. c \<noteq> CHR 0x22) cs)))) \<le> length cs"
        by (rule piece_length) (rule "2.IH"(1) [OF Cons True])
      then show ?thesis using Cons True d by simp
    next
      case False
      have "length (unwords (takeWhile (\<lambda>c. \<not> is_space c) (c # cs) # parse_loop n (tl (dropWhile (\<lambda>c. \<not> is_space c) (c # cs)))))
          \<le> length (c # cs)"
        by (rule piece_length) (rule "2.IH"(2) [OF Cons False])
      then show ?thesis using Cons False d by (simp only: parse_loop.simps list.case if_False)
    qed
  next
    case Nil
    show ?thesis by (simp only: parse_loop.simps Nil list.case) simp
  qed
qed simp

text \<open>For the arguments of any line of the shell the joins are complete: \<open>run\<close>, \<open>at\<close> and \<open>every\<close> get their
  whole command, \<open>write\<close> and \<open>append\<close> the whole text with its newline; nothing is cut and no size wraps around.\<close>

theorem joined_arguments_complete:
  assumes "args = parse_args line n" and "length line < SHELL_MAX_LINE_LEN" and "args \<noteq> []" and "args ! 0 \<noteq> []" and "0 < k"
  shows "join_args SHELL_MAX_LINE_LEN (drop k args) [] = Some (unwords (drop k args)) \<and>
    file_content args = Some (unwords (drop 2 args) @ [CHR 0x0A])"
proof -
  have t: "length (unwords args) \<le> 255"
    using parse_loop_pieces [of "n - 1" line] assms(1,2) by (simp add: parse_args_def SHELL_MAX_LINE_LEN_def)
  obtain a as where args: "args = a # as" "a \<noteq> []" using assms(3,4) by (cases args) auto
  have "0 < length a" using args by simp
  then have "length (unwords as) + 2 \<le> 255 \<or> as = []"
  proof (cases "as = []")
    case False
    then have "length (unwords args) = length a + 1 + length (unwords as)" by (simp add: args(1) unwords_Cons)
    with t \<open>0 < length a\<close> show ?thesis by linarith
  qed simp
  moreover obtain j where k: "k = Suc j" using assms(5) by (cases k) auto
  ultimately have "length (unwords (drop k args)) + 2 \<le> SHELL_MAX_LINE_LEN"
    using length_unwords_drop [of j as] args by (auto simp: SHELL_MAX_LINE_LEN_def)
  then have "join_args SHELL_MAX_LINE_LEN (drop k args) [] = Some (unwords (drop k args))" using join_args_fits [of "[]"] by simp
  moreover have w: "length (unwords (drop 2 args)) \<le> 255" using length_unwords_drop [of 2 args] t by simp
  then have "join_args 512 (drop 2 args) [] = Some (unwords (drop 2 args))" using join_args_fits [of "[]"] by simp
  then have "file_content args = Some (unwords (drop 2 args) @ [CHR 0x0A])"
    using w by (simp add: file_content_def cat_end_def)
  ultimately show ?thesis by simp
qed

theorem joined_arguments_complete_witness:
  "join_args SHELL_MAX_LINE_LEN [''echo'', ''hi''] [] = Some ''echo hi''"
proof -
  have p: "parse_args ''at  50 echo hi'' 16 = [''at'', ''50'', ''echo'', ''hi'']" by code_simp
  show ?thesis using joined_arguments_complete [OF refl, of "''at  50 echo hi''" 16 2] by (simp add: p SHELL_MAX_LINE_LEN_def)
qed

section \<open>Numbers\<close>

text \<open>The four parts of an uptime are its days, hours, minutes and seconds.\<close>

lemma uptime_parts_exact:
  assumes "uptime_parts ms = (d, h, m, sec)"
  shows "unat ms div 1000 = ((unat d * 24 + unat h) * 60 + unat m) * 60 + unat sec \<and> unat h < 24 \<and> unat m < 60 \<and> unat sec < 60"
proof -
  let ?t = "unat ms div 1000"
  have "unat sec = ?t mod 60" "unat m = ?t div 60 mod 60" "unat h = ?t div 60 div 60 mod 24" "unat d = ?t div 60 div 60 div 24"
    using assms by (auto simp: uptime_parts_def Let_def unat_div unat_mod)
  moreover have "?t = ?t div 60 * 60 + ?t mod 60" "?t div 60 = ?t div 60 div 60 * 60 + ?t div 60 mod 60"
    "?t div 60 div 60 = ?t div 60 div 60 div 24 * 24 + ?t div 60 div 60 mod 24" by simp_all
  ultimately show ?thesis by simp
qed

text \<open>A process number is cut to 16 bits: \<open>kill 65537\<close> kills process 1 and says so.\<close>

lemma kill_truncates: "cmd_kill p fd [c, dec (n + 65536)] s = cmd_kill p fd [c, dec n] s"
proof -
  have "(word_of_int (int (n + 65536)) :: 16 word) = word_of_int (int n)"
    by (simp add: word_of_int_eq_iff take_bit_eq_mod)
  then show ?thesis by (simp add: cmd_kill_def atopid_def atoi_dec del: of_nat_add)
qed

text \<open>The usage text offers \<open>gpio info\<close>, which has two arguments; two are never enough.\<close>

lemma gpio_info_refused: "fst (cmd_gpio p fd [''gpio'', ''info''] s) = SHELL_CMD_ERROR"
  by (simp add: cmd_gpio_def fails_def)

text \<open>What a component prints itself does not go through \<^verbatim>\<open>shell_write\<close>, so a capture of \<open>ps\<close>, \<open>jobs\<close>, \<open>env\<close> or
  \<open>timer list\<close> is empty.\<close>

lemma said_components [simp]:
  "said (map DKernel tr) = []" "said (map DSched tr') = []" "said (map DEnv tr'') = []" "said (map DTimer tr''') = []"
  by (simp_all add: said_def concat_eq_Nil_conv)

lemma capture_misses_listings:
  "said (snd (snd (cmd_ps p fd args s))) = []" "said (snd (snd (cmd_jobs p fd args s))) = []"
  "said (snd (snd (cmd_env p fd args s))) = []" "said (snd (snd (cmd_timer p fd [''timer'', ''list''] s))) = []"
  by (simp_all add: cmd_ps_def cmd_jobs_def cmd_env_def cmd_timer_def succeeds_def split_beta Let_def)

end
