(* ===== verification/WebPortal.thy ===== *)
theory WebPortal
  imports Kernel Net Ota Ring Shell
begin

text \<open>
  The web dashboard, \<^verbatim>\<open>src/components/webportal/src/webportal.c\<close>: the telemetry ring and its
  sampler, the parser of form parameters, and one definition per request handler.

  The HTTP server of ESP-IDF is outside: what it received is an argument, the response is a value.  Responses
  are built in a buffer of 4096 bytes by repeated \<^verbatim>\<open>off += snprintf(buf + off, 4096 - off, ...)\<close>; \<open>None\<close>
  says that \<^verbatim>\<open>4096 - off\<close> wrapped around and the next \<^verbatim>\<open>snprintf\<close> wrote outside the buffer.
\<close>

section \<open>Telemetry\<close>

definition TELEMETRY_HISTORY_DEPTH :: nat where "TELEMETRY_HISTORY_DEPTH = 24"
definition TELEMETRY_SAMPLE_PERIOD_MS :: nat where "TELEMETRY_SAMPLE_PERIOD_MS = 5000"

text \<open>The array of processes and its count are the list of its used part.\<close>

record telemetry_sample =
  tm_kernel :: kernel_stats
  tm_processes :: "process list"
  tm_ts_s :: "32 word"

record portal =
  wp_server :: "nat option"
  wp_samples :: "telemetry_sample list"
  wp_head :: nat
  wp_count :: nat
  wp_sampler :: bool

definition sample_zero :: telemetry_sample where
  "sample_zero = \<lparr>tm_kernel = \<lparr>ks_free_heap = 0, ks_min_free_heap = 0, ks_total_heap = 0, ks_largest_free = 0,
     ks_uptime_ms = 0, ks_cpu_load_pct = 0, ks_process_count = 0\<rparr>, tm_processes = [], tm_ts_s = 0\<rparr>"

definition portal_boot :: portal where
  "portal_boot = \<lparr>wp_server = None, wp_samples = replicate TELEMETRY_HISTORY_DEPTH sample_zero, wp_head = 0,
     wp_count = 0, wp_sampler = False\<rparr>"

primrec proc_state_text :: "proc_state \<Rightarrow> string" where
  "proc_state_text PROC_STATE_RUNNING = ''RUN''"
| "proc_state_text PROC_STATE_READY = ''RDY''"
| "proc_state_text PROC_STATE_BLOCKED = ''BLK''"
| "proc_state_text PROC_STATE_SUSPENDED = ''SUSP''"
| "proc_state_text PROC_STATE_DELETED = ''DEAD''"
| "proc_state_text PROC_STATE_INVALID = ''UNK''"

definition store_sample :: "telemetry_sample \<Rightarrow> portal \<Rightarrow> portal" where
  "store_sample x s = s\<lparr>wp_samples := (wp_samples s)[wp_head s := x],
     wp_head := (wp_head s + 1) mod TELEMETRY_HISTORY_DEPTH,
     wp_count := (if wp_count s < TELEMETRY_HISTORY_DEPTH then wp_count s + 1 else wp_count s)\<rparr>"

definition telemetry_capture_sample :: "readings \<Rightarrow> kernel \<Rightarrow> portal \<Rightarrow> portal \<times> kernel \<times> kernel_call eff list" where
  "telemetry_capture_sample r k s =
     (let st = stats_at r k; (ps, k', tr) = list_at r k
      in (store_sample \<lparr>tm_kernel = st, tm_processes = ps, tm_ts_s = ks_uptime_ms st div 1000\<rparr> s, k', tr))"

text \<open>The sampler task: a capture every 5 seconds, for as many rounds as there are readings.\<close>

fun telemetry_sampler_task :: "readings list \<Rightarrow> kernel \<Rightarrow> portal \<Rightarrow> portal \<times> kernel" where
  "telemetry_sampler_task [] k s = (s, k)"
| "telemetry_sampler_task (r # rs) k s =
     (let (s', k', _) = telemetry_capture_sample r k s in telemetry_sampler_task rs k' s')"

definition telemetry_get_sample :: "nat \<Rightarrow> portal \<Rightarrow> telemetry_sample option" where
  "telemetry_get_sample i s =
     (if wp_count s \<le> i then None
      else
        let start = (wp_head s + TELEMETRY_HISTORY_DEPTH - wp_count s) mod TELEMETRY_HISTORY_DEPTH
        in Some (wp_samples s ! ((start + i) mod TELEMETRY_HISTORY_DEPTH)))"

section \<open>Form parameters\<close>

text \<open>\<^verbatim>\<open>strstr\<close>: what follows the first occurrence of the key.\<close>

fun after_key :: "string \<Rightarrow> string \<Rightarrow> string option" where
  "after_key key body =
     (if take (length key) body = key then Some (drop (length key) body)
      else case body of [] \<Rightarrow> None | c # cs \<Rightarrow> after_key key cs)"

declare after_key.simps [simp del]

definition parse_param_u32 :: "string option \<Rightarrow> string \<Rightarrow> 32 word option" where
  "parse_param_u32 body key =
     (case body of
        None \<Rightarrow> None
      | Some b \<Rightarrow>
          (case after_key key b of
             None \<Rightarrow> None
           | Some r \<Rightarrow> (case r of [] \<Rightarrow> None | c # cs \<Rightarrow> if c \<noteq> CHR ''='' then None else Some (strtoul 10 cs))))"

definition parse_param_str :: "string option \<Rightarrow> string \<Rightarrow> nat \<Rightarrow> string option" where
  "parse_param_str body key out_sz =
     (case body of
        None \<Rightarrow> None
      | Some b \<Rightarrow>
          if out_sz = 0 then None
          else
            (case after_key key b of
               None \<Rightarrow> None
             | Some r \<Rightarrow>
                 (case r of
                    [] \<Rightarrow> None
                  | c # cs \<Rightarrow> if c \<noteq> CHR ''='' then None else Some (take (out_sz - 1) (takeWhile (\<lambda>c. c \<noteq> CHR ''&'') cs)))))"

section \<open>Responses\<close>

datatype http_response = RespHtml | RespJson string | RespText string | RespErr nat string

definition send_text :: "string \<Rightarrow> http_response" where "send_text t = RespText t"
definition send_json :: "string \<Rightarrow> http_response" where "send_json t = RespJson t"

definition qq :: "string \<Rightarrow> string" where "qq s = CHR 0x22 # s @ [CHR 0x22]"
definition jkey :: "string \<Rightarrow> string" where "jkey k = qq k @ '':''"
definition u32 :: "32 word \<Rightarrow> string" where "u32 w = dec (unat w)"
definition tf :: "bool \<Rightarrow> string" where "tf b = (if b then ''true'' else ''false'')"

text \<open>\<^verbatim>\<open>off += snprintf(buf + off, 4096 - off, ...)\<close> on the text in the buffer and \<open>off\<close>, which counts what
  would have been written.\<close>

definition JSON_BUF :: nat where "JSON_BUF = 4096"
definition JSON_STOP :: nat where "JSON_STOP = 4000"

definition jput :: "string \<Rightarrow> string \<times> nat \<Rightarrow> (string \<times> nat) option" where
  "jput t st =
     (case st of (b, off) \<Rightarrow>
        if JSON_BUF < off then None
        else Some (b @ (if off = JSON_BUF then [] else cstr (JSON_BUF - off) t), off + length t))"

text \<open>The loops over entries stop early when the buffer is nearly full.\<close>

fun jloop :: "string list \<Rightarrow> string \<times> nat \<Rightarrow> (string \<times> nat) option" where
  "jloop [] st = Some st"
| "jloop (t # ts) st = (if snd st < JSON_STOP then Option.bind (jput t st) (jloop ts) else Some st)"

definition jbuild :: "string list \<Rightarrow> string list \<Rightarrow> string \<Rightarrow> string option" where
  "jbuild heads entries tail =
     map_option fst
       (Option.bind (fold (\<lambda>t st. Option.bind st (jput t)) heads (Some ([], 0)))
         (\<lambda>st. Option.bind (jloop entries st) (jput tail)))"

definition with_commas :: "string list \<Rightarrow> string list" where
  "with_commas es = map (\<lambda>i. es ! i @ (if i + 1 < length es then '','' else '''')) [0..<length es]"

section \<open>Request handlers\<close>

definition handle_root :: http_response where "handle_root = RespHtml"

definition handle_status :: "readings \<Rightarrow> int option \<Rightarrow> (ip4 \<times> ip4 \<times> ip4) option \<Rightarrow> kernel \<Rightarrow> net \<Rightarrow> http_response" where
  "handle_status r rssi ap_ip k n =
     (let st = stats_at r k; ns = os_wifi_get_status rssi ap_ip n in
      send_json (cstr 768 (''{'' @ jkey ''free_heap'' @ u32 (ks_free_heap st) @ '','' @
        jkey ''total_heap'' @ u32 (ks_total_heap st) @ '','' @ jkey ''min_free_heap'' @ u32 (ks_min_free_heap st) @ '','' @
        jkey ''largest_free_block'' @ u32 (ks_largest_free st) @ '','' @
        jkey ''cpu_load_pct'' @ dec (unat (ks_cpu_load_pct st)) @ '','' @
        jkey ''procs'' @ dec (unat (ks_process_count st)) @ '','' @ jkey ''uptime_s'' @ u32 (ks_uptime_ms st div 1000) @ '','' @
        jkey ''net'' @ ''{'' @ jkey ''connected'' @ tf (ns_connected ns) @ '','' @
        jkey ''ip'' @ qq (if ns_connected ns then ns_ip ns else []) @ '','' @
        jkey ''gw'' @ qq (if ns_connected ns then ns_gw ns else []) @ ''}}'')))"

definition process_json :: "process \<Rightarrow> string" where
  "process_json p =
     ''{'' @ jkey ''pid'' @ dec (unat (p_pid p)) @ '','' @ jkey ''name'' @ qq (p_name p) @ '','' @
     jkey ''state'' @ qq (proc_state_text (p_state p)) @ '','' @ jkey ''priority'' @ u32 (p_priority p) @ '','' @
     jkey ''stack_high_water'' @ u32 (p_stack_high_water p) @ '','' @
     jkey ''runtime_ticks'' @ dec (unat (p_runtime_ticks p)) @ '','' @ jkey ''is_system'' @ tf (p_is_system p) @ ''}''"

definition oom :: http_response where "oom = RespErr 500 ''oom''"

text \<open>\<open>mem\<close> says whether the buffer could be allocated.\<close>

definition handle_processes :: "bool \<Rightarrow> readings \<Rightarrow> kernel \<Rightarrow> http_response option \<times> kernel" where
  "handle_processes mem r k =
     (let (ps, k', _) = list_at r k in
      (if \<not> mem then Some oom else map_option send_json (jbuild [''[''] (with_commas (map process_json ps)) '']''), k'))"

definition sample_json :: "telemetry_sample \<Rightarrow> string" where
  "sample_json x =
     ''{'' @ jkey ''ts_s'' @ u32 (tm_ts_s x) @ '','' @ jkey ''free_heap'' @ u32 (ks_free_heap (tm_kernel x)) @ '','' @
     jkey ''cpu_load_pct'' @ dec (unat (ks_cpu_load_pct (tm_kernel x))) @ '','' @
     jkey ''procs'' @ dec (length (tm_processes x)) @ ''}''"

definition samples_of :: "portal \<Rightarrow> telemetry_sample list" where
  "samples_of s = map (\<lambda>i. the (telemetry_get_sample i s)) [0..<wp_count s]"

definition handle_telemetry_history :: "bool \<Rightarrow> portal \<Rightarrow> http_response option" where
  "handle_telemetry_history mem s =
     (if \<not> mem then Some oom
      else map_option send_json (jbuild [''{'' @ jkey ''samples'' @ ''[''] (with_commas (map sample_json (samples_of s))) '']}''))"

text \<open>The first entry of the process in a sample.\<close>

definition process_in :: "os_pid \<Rightarrow> telemetry_sample \<Rightarrow> process option" where
  "process_in pid x = find (\<lambda>p. p_pid p = pid) (tm_processes x)"

definition history_json :: "telemetry_sample \<Rightarrow> process \<Rightarrow> string" where
  "history_json x p =
     ''{'' @ jkey ''ts_s'' @ u32 (tm_ts_s x) @ '','' @ jkey ''stack_high_water'' @ u32 (p_stack_high_water p) @ '','' @
     jkey ''runtime_ticks'' @ dec (unat (p_runtime_ticks p)) @ '','' @
     jkey ''state'' @ qq (proc_state_text (p_state p)) @ '','' @ jkey ''priority'' @ u32 (p_priority p) @ ''}''"

definition process_history :: "os_pid \<Rightarrow> portal \<Rightarrow> (telemetry_sample \<times> process) list" where
  "process_history pid s =
     List.map_filter (\<lambda>x. map_option (\<lambda>p. (x, p)) (process_in pid x)) (samples_of s)"

text \<open>Here the comma is written before every entry but the first.\<close>

definition commas_before :: "string list \<Rightarrow> string list" where
  "commas_before es = map (\<lambda>i. (if i = 0 then '''' else '','') @ es ! i) [0..<length es]"

text \<open>\<open>query\<close> is the value of \<open>pid\<close> in the query string (at most 15 characters), when it could be read.\<close>

definition handle_process_history :: "bool \<Rightarrow> string option \<Rightarrow> portal \<Rightarrow> http_response option" where
  "handle_process_history mem query s =
     (case query of
        None \<Rightarrow> Some (RespErr 400 ''missing pid'')
      | Some q \<Rightarrow>
          let pid = ucast (strtoul 10 q) :: os_pid in
          if \<not> mem then Some oom
          else
            let hist = process_history pid s;
                name = (case hist of [] \<Rightarrow> ''unknown'' | (x, p) # _ \<Rightarrow> p_name p)
            in map_option send_json
                 (jbuild [''{'' @ jkey ''pid'' @ dec (unat pid) @ '','' @ jkey ''name'' @ [CHR 0x22],
                          name @ [CHR 0x22] @ '','' @ jkey ''samples'' @ ''['']
                   (commas_before (map (\<lambda>(x, p). history_json x p) hist)) '']}''))"

definition handle_ota :: "partition option \<Rightarrow> partition option \<Rightarrow> img_query \<Rightarrow> ota \<Rightarrow> http_response" where
  "handle_ota boot running img o' =
     send_json (cstr 256 (''{'' @ jkey ''can_rollback'' @ tf (os_ota_can_rollback boot running o') @ '','' @
       jkey ''needs_confirmation'' @ tf (os_ota_needs_confirmation running img o') @ ''}''))"

text \<open>What \<^verbatim>\<open>httpd_req_recv\<close> leaves in the zeroed buffer of \<open>n\<close> bytes, as a C string.\<close>

definition request_body :: "nat \<Rightarrow> string \<Rightarrow> string" where
  "request_body n data = takeWhile (\<lambda>c. c \<noteq> nul) (take (n - 1) data)"

definition handle_process_action ::
  "(esp_err \<Rightarrow> string) \<Rightarrow> string option \<Rightarrow> kernel \<Rightarrow> http_response \<times> kernel \<times> kernel_call eff list" where
  "handle_process_action err_name recv k =
     (case recv of
        None \<Rightarrow> (RespErr 400 ''bad request'', k, [])
      | Some data \<Rightarrow>
          let body = request_body 128 data in
          case (parse_param_u32 (Some body) ''pid'', parse_param_str (Some body) ''action'' 16) of
            (Some pid, Some action) \<Rightarrow>
              if action \<in> {''kill'', ''suspend'', ''resume''} then
                let (ret, k', tr) =
                  (if action = ''kill'' then os_process_kill (ucast pid) k
                   else if action = ''suspend'' then os_process_suspend (ucast pid) k
                   else os_process_resume (ucast pid) k)
                in if ret \<noteq> ESP_OK then (RespErr 500 (err_name ret), k', tr)
                   else (send_text (cstr 96 (''ok pid='' @ u32 pid @ '' action='' @ action)), k', tr)
              else (RespErr 400 ''unknown action'', k, [])
          | _ \<Rightarrow> (RespErr 400 ''missing pid/action'', k, []))"

text \<open>\<open>None\<close> where \<open>shell_execute\<close> would read outside its buffer.\<close>

definition handle_command ::
  "(esp_err \<Rightarrow> string) \<Rightarrow> handlers \<Rightarrow> commands \<Rightarrow> env_state \<Rightarrow> string option \<Rightarrow> capture \<Rightarrow> (http_response \<times> capture) option" where
  "handle_command err_name run_handler cmds env recv c =
     (case recv of
        None \<Rightarrow> Some (RespErr 400 ''bad request'', c)
      | Some data \<Rightarrow>
          map_option (\<lambda>(ret, res, c').
              if ret \<noteq> ESP_OK then (RespErr 500 (err_name ret), c')
              else
                let (out, val) = the res
                in (send_text (if out = [] then ''command returned '' @ dec_int val @ '' but produced no text'' @ [CHR 0x0A]
                               else out), c'))
            (shell_execute_capture run_handler cmds env (Some (request_body 256 data)) True 2048 c))"

definition handle_ota_confirm ::
  "(esp_err \<Rightarrow> string) \<Rightarrow> partition option \<Rightarrow> img_query \<Rightarrow> esp_err \<Rightarrow> ota \<Rightarrow> http_response \<times> ota_call eff list" where
  "handle_ota_confirm err_name running img mark o' =
     (let (ret, tr) = os_ota_confirm running img mark o'
      in (if ret \<noteq> ESP_OK then RespErr 500 (err_name ret) else send_text ''firmware confirmed'', tr))"

definition handle_ota_rollback ::
  "(esp_err \<Rightarrow> string) \<Rightarrow> partition option \<Rightarrow> partition option \<Rightarrow> esp_err \<Rightarrow> ota \<Rightarrow> http_response \<times> ota_call eff list" where
  "handle_ota_rollback err_name boot running mark o' =
     (let (ret, tr) = os_ota_rollback boot running mark o'
      in (if ret \<noteq> ESP_OK then RespErr 500 (err_name ret) else send_text ''rollback requested; device rebooting'', tr))"

datatype http_method = HTTP_GET | HTTP_POST

datatype portal_call =
    PSamplerCreate | PHttpdStart nat nat | PRegister string http_method | PHttpdStop nat | PWait nat | PRestart

definition handle_reboot :: "http_response \<times> portal_call eff list" where
  "handle_reboot = (send_text ''rebooting'', [Ext (PWait 100), Ext PRestart])"

definition portal_uris :: "(string \<times> http_method) list" where
  "portal_uris =
     [(''/'', HTTP_GET), (''/api/status'', HTTP_GET), (''/api/processes'', HTTP_GET), (''/api/telemetry/history'', HTTP_GET),
      (''/api/process/history'', HTTP_GET), (''/api/ota'', HTTP_GET), (''/api/process/action'', HTTP_POST),
      (''/api/command'', HTTP_POST), (''/api/ota/confirm'', HTTP_POST), (''/api/ota/rollback'', HTTP_POST),
      (''/api/system/reboot'', HTTP_POST)]"

text \<open>\<open>task\<close>: the sampler task was created; \<open>start\<close>: the handle of the server, or the error.  \<open>enabled\<close> is
  \<^verbatim>\<open>WEB_PORTAL_ENABLED\<close>.\<close>

definition webportal_start ::
  "bool \<Rightarrow> bool \<Rightarrow> esp_err + nat \<Rightarrow> readings \<Rightarrow> kernel \<Rightarrow> portal \<Rightarrow> esp_err \<times> portal \<times> kernel \<times> portal_call eff list" where
  "webportal_start enabled task start r k s =
     (if \<not> enabled then (ESP_ERR_NOT_SUPPORTED, s, k, [])
      else if wp_server s \<noteq> None then (ESP_OK, s, k, [])
      else
        let (s1, k1, t1) =
          (if wp_sampler s then (s, k, [])
           else
             let (s', k', _) = telemetry_capture_sample r k s
             in if task then (s'\<lparr>wp_sampler := True\<rparr>, k', [Ext PSamplerCreate])
                else (s', k', [Ext PSamplerCreate, Log OS_LOG_WARN ''Telemetry sampler task could not start'']))
        in case start of
             Inl e \<Rightarrow> (e, s1\<lparr>wp_server := None\<rparr>, k1,
               t1 @ [Ext (PHttpdStart 12 8192), Log OS_LOG_ERROR ''Failed to start HTTP server: %s''])
           | Inr h \<Rightarrow> (ESP_OK, s1\<lparr>wp_server := Some h\<rparr>, k1,
               t1 @ [Ext (PHttpdStart 12 8192)] @ map (\<lambda>(u, m). Ext (PRegister u m)) portal_uris @
               [Log OS_LOG_INFO ''Web portal started'']))"

definition webportal_stop :: "bool \<Rightarrow> portal \<Rightarrow> portal \<times> portal_call eff list" where
  "webportal_stop enabled s =
     (if \<not> enabled then (s, [])
      else case wp_server s of None \<Rightarrow> (s, []) | Some h \<Rightarrow> (s\<lparr>wp_server := None\<rparr>, [Ext (PHttpdStop h)]))"

section \<open>The telemetry ring\<close>

definition portal_inv :: "nat \<Rightarrow> portal \<Rightarrow> bool" where
  "portal_inv n s \<longleftrightarrow> length (wp_samples s) = TELEMETRY_HISTORY_DEPTH \<and> wp_head s < TELEMETRY_HISTORY_DEPTH \<and>
     wp_count s \<le> TELEMETRY_HISTORY_DEPTH \<and> (wp_count s < TELEMETRY_HISTORY_DEPTH \<longrightarrow> wp_head s = wp_count s)"

interpretation telemetry: ring TELEMETRY_HISTORY_DEPTH wp_samples wp_head wp_count portal_inv store_sample
  by unfold_locales
    (auto simp: portal_inv_def store_sample_def TELEMETRY_HISTORY_DEPTH_def mod_Suc)

lemma portal_inv_boot: "portal_inv n portal_boot"
  by (simp add: portal_inv_def portal_boot_def TELEMETRY_HISTORY_DEPTH_def)

lemma telemetry_get_sample_eq:
  assumes "portal_inv n s"
  shows "telemetry_get_sample i s = (if i < wp_count s then Some (telemetry.contents s ! i) else None)"
proof (cases "i < wp_count s")
  case True
  have "((wp_head s + TELEMETRY_HISTORY_DEPTH - wp_count s) mod TELEMETRY_HISTORY_DEPTH + i) mod TELEMETRY_HISTORY_DEPTH
      = ((if wp_count s < TELEMETRY_HISTORY_DEPTH then 0 else wp_head s) + i) mod TELEMETRY_HISTORY_DEPTH"
    using assms by (auto simp: portal_inv_def mod_add_left_eq)
  then show ?thesis
    using True by (simp add: telemetry_get_sample_def telemetry.contents_def ring_contents_def Let_def del: upt_Suc)
qed (simp add: telemetry_get_sample_def)

lemma samples_of_eq: "portal_inv n s \<Longrightarrow> samples_of s = telemetry.contents s"
  by (rule nth_equalityI) (simp_all add: samples_of_def telemetry_get_sample_eq telemetry.contents_def)

text \<open>The samples taken, one per round, and the kernel after them: listing refreshes its entries.\<close>

fun captures :: "readings list \<Rightarrow> kernel \<Rightarrow> telemetry_sample list" where
  "captures [] k = []"
| "captures (r # rs) k =
     (let st = stats_at r k; (ps, k', _) = list_at r k
      in \<lparr>tm_kernel = st, tm_processes = ps, tm_ts_s = ks_uptime_ms st div 1000\<rparr> # captures rs k')"

lemma length_captures [simp]: "length (captures rs k) = length rs"
  by (induction rs arbitrary: k) (simp_all add: split_beta Let_def)

lemma sampler_folds: "fst (telemetry_sampler_task rs k s) = fold store_sample (captures rs k) s"
  by (induction rs arbitrary: k s)
    (simp_all add: telemetry_capture_sample_def split_beta Let_def)

lemma portal_inv_any: "portal_inv n s \<Longrightarrow> portal_inv m s"
  by (simp add: portal_inv_def)

lemma portal_inv_fold: "portal_inv n s \<Longrightarrow> portal_inv m (fold store_sample xs s)"
proof (induction xs arbitrary: s)
  case (Cons x xs)
  then show ?case using telemetry.push_inv [OF portal_inv_any [OF Cons.prems]] by simp
qed (simp add: portal_inv_any)

lemma sampler_contents:
  "samples_of (fst (telemetry_sampler_task rs k portal_boot)) = keep_last TELEMETRY_HISTORY_DEPTH (captures rs k)"
proof -
  have "telemetry.contents portal_boot = []"
    by (simp add: telemetry.contents_def ring_contents_def portal_boot_def)
  then show ?thesis
    using telemetry.contents_pushes [OF portal_inv_boot, of "captures rs k"]
      samples_of_eq [OF portal_inv_fold [OF portal_inv_boot], of "captures rs k"] by (simp add: sampler_folds)
qed

text \<open>Claim C39: however long the sampler has run, the dashboard sees the last 24 samples, the oldest first, and
  nothing beyond them.\<close>

theorem telemetry_oldest_first:
  "telemetry_get_sample i (fst (telemetry_sampler_task rs k portal_boot)) =
     (if i < min 24 (length rs) then Some (captures rs k ! (length rs - min 24 (length rs) + i)) else None)"
proof -
  let ?s = "fst (telemetry_sampler_task rs k portal_boot)"
  have inv: "portal_inv 0 ?s" using portal_inv_fold [OF portal_inv_boot] by (simp add: sampler_folds)
  have c: "telemetry.contents ?s = keep_last 24 (captures rs k)"
    using sampler_contents [of rs k] samples_of_eq [OF inv] by (simp add: TELEMETRY_HISTORY_DEPTH_def)
  have "wp_count ?s = length (telemetry.contents ?s)" by (simp add: telemetry.contents_def)
  then have n: "wp_count ?s = min 24 (length rs)" by (simp add: c length_keep_last)
  show ?thesis
    using telemetry_get_sample_eq [OF inv, of i] by (auto simp: n c keep_last_def min_def)
qed

section \<open>Responses are complete\<close>

text \<open>The entries separated by commas, as both kinds of loop write them.\<close>

fun commas :: "string list \<Rightarrow> string" where
  "commas [] = []"
| "commas [e] = e"
| "commas (e # f # es) = e @ '','' @ commas (f # es)"

lemma map_upt_Suc0: "map f [0..<Suc n] = f 0 # map (\<lambda>i. f (Suc i)) [0..<n]"
  by (simp add: upt_conv_Cons map_Suc_upt [symmetric] del: upt_Suc)

lemma with_commas_eq: "concat (with_commas es) = commas es"
proof (induction es rule: commas.induct)
  case (3 e f es)
  then show ?case by (simp add: with_commas_def map_upt_Suc0 del: upt_Suc)
qed (simp_all add: with_commas_def)

lemma commas_before_eq: "concat (commas_before es) = commas es"
proof (induction es rule: commas.induct)
  case (3 e f es)
  then show ?case by (simp add: commas_before_def map_upt_Suc0 del: upt_Suc)
qed (simp_all add: commas_before_def)

lemma length_commas: "list_all (\<lambda>e. length e \<le> b) es \<Longrightarrow> length (commas es) \<le> length es * (b + 1)"
  by (induction es rule: commas.induct) auto

lemma jput_fits: "off + length t < JSON_BUF \<Longrightarrow> jput t (b, off) = Some (b @ t, off + length t)"
  by (simp add: jput_def)

lemma jloop_fits:
  "off + length (concat ts) < JSON_STOP \<Longrightarrow> jloop ts (b, off) = Some (b @ concat ts, off + length (concat ts))"
proof (induction ts arbitrary: b off)
  case (Cons t ts)
  then have "off + length t < JSON_BUF" by (simp add: JSON_BUF_def JSON_STOP_def)
  then show ?case using Cons by (simp add: jput_fits)
qed simp

lemma heads_fit:
  "off + length (concat hs) < JSON_BUF \<Longrightarrow>
   fold (\<lambda>t st. Option.bind st (jput t)) hs (Some (b, off)) = Some (b @ concat hs, off + length (concat hs))"
  by (induction hs arbitrary: b off) (simp_all add: jput_fits)

lemma jbuild_fits:
  assumes "length (concat hs) + length (concat es) < JSON_STOP" and "length t < JSON_BUF - JSON_STOP"
  shows "jbuild hs es t = Some (concat hs @ concat es @ t)"
proof -
  have "length (concat hs) < JSON_BUF" "length (concat hs) + length (concat es) + length t < JSON_BUF"
    using assms by (simp_all add: JSON_BUF_def JSON_STOP_def)
  then show ?thesis using assms(1) by (simp add: jbuild_def heads_fit jloop_fits jput_fits)
qed

lemma length_u32: "length (u32 w) \<le> 10"
proof -
  have "unat w < 10 ^ 10" using unsigned_less [of w, where 'a = nat] by simp
  then show ?thesis unfolding u32_def by (rule length_dec) simp
qed

lemma length_dec16: "length (dec (unat (w :: 16 word))) \<le> 5"
proof -
  have "unat w < 10 ^ 5" using unsigned_less [of w, where 'a = nat] by simp
  then show ?thesis by (rule length_dec) simp
qed

lemma length_dec8: "length (dec (unat (w :: 8 word))) \<le> 3"
proof -
  have "unat w < 10 ^ 3" using unsigned_less [of w, where 'a = nat] by simp
  then show ?thesis by (rule length_dec) simp
qed

lemma length_dec64: "length (dec (unat (w :: 64 word))) \<le> 20"
proof -
  have "unat w < 10 ^ 20" using unsigned_less [of w, where 'a = nat] by simp
  then show ?thesis by (rule length_dec) simp
qed

lemma length_state_text: "length (proc_state_text st) \<le> 4"
  by (cases st) simp_all

lemma length_tf: "length (tf b) \<le> 5"
  by (simp add: tf_def)

lemma length_process_json: "length (p_name p) \<le> 23 \<Longrightarrow> length (process_json p) \<le> 190"
  using length_dec16 [of "p_pid p"] length_u32 [of "p_priority p"] length_u32 [of "p_stack_high_water p"]
    length_dec64 [of "p_runtime_ticks p"] length_state_text [of "p_state p"] length_tf [of "p_is_system p"]
  by (simp add: process_json_def jkey_def qq_def)

lemma length_sample_json: "length (tm_processes x) \<le> 20 \<Longrightarrow> length (sample_json x) \<le> 150"
proof -
  assume "length (tm_processes x) \<le> 20"
  then have "length (dec (length (tm_processes x))) \<le> 2" by (intro length_dec) simp_all
  then show ?thesis
    using length_u32 [of "tm_ts_s x"] length_u32 [of "ks_free_heap (tm_kernel x)"] length_dec8 [of "ks_cpu_load_pct (tm_kernel x)"]
    by (simp add: sample_json_def jkey_def qq_def)
qed

lemma length_history_json: "length (history_json x p) \<le> 150"
  using length_u32 [of "tm_ts_s x"] length_u32 [of "p_stack_high_water p"] length_dec64 [of "p_runtime_ticks p"]
    length_state_text [of "p_state p"] length_u32 [of "p_priority p"]
  by (simp add: history_json_def jkey_def qq_def)

lemma list_loop_bound: "length buf \<le> m \<Longrightarrow> length (list_loop m ps buf) \<le> m"
  by (induction m ps buf rule: list_loop.induct) auto

lemma list_loop_set: "set (list_loop m ps buf) \<subseteq> set buf \<union> set ps"
  by (induction m ps buf rule: list_loop.induct) auto

text \<open>What the JSON printers need of a list of processes.\<close>

definition procs_ok :: "process list \<Rightarrow> bool" where
  "procs_ok ps \<longleftrightarrow> length ps \<le> 20 \<and> list_all (\<lambda>p. length (p_name p) \<le> 23) ps"

lemma list_at_ok:
  assumes "kernel_wf k"
  shows "procs_ok (fst (list_at r k)) \<and> kernel_wf (fst (snd (list_at r k)))"
proof -
  have wf: "kernel_wf (refresh_entries_locked (rd_stack_unit r) (rd_probe r) k)"
    using assms by (simp add: kernel_wf_def refresh_entries_locked_def list_all_iff)
  let ?t = "k_table (refresh_entries_locked (rd_stack_unit r) (rd_probe r) k)"
  have nm: "\<forall>p \<in> set ?t. length (p_name p) \<le> 23"
    using wf by (auto simp: kernel_wf_def list_all_iff OS_PROC_NAME_LEN_def)
  have "set (list_loop 20 ?t []) \<subseteq> set ?t" using list_loop_set [of 20 ?t "[]"] by simp
  then have "\<forall>p \<in> set (list_loop 20 ?t []). length (p_name p) \<le> 23" using nm by blast
  then have "procs_ok (list_loop 20 ?t [])" using list_loop_bound [of "[]" 20 ?t] by (simp add: procs_ok_def list_all_iff)
  then show ?thesis
    using assms wf by (simp add: list_at_def os_process_list_def Let_def OS_MAX_PROCESSES_def procs_ok_def)
qed

lemma captures_ok: "kernel_wf k \<Longrightarrow> list_all (\<lambda>x. procs_ok (tm_processes x)) (captures rs k)"
proof (induction rs arbitrary: k)
  case (Cons r rs)
  then show ?case using list_at_ok [OF Cons.prems, of r] by (simp add: split_beta Let_def)
qed simp

lemma list_all_keep_last: "list_all P xs \<Longrightarrow> list_all P (keep_last n xs)"
  by (auto simp: keep_last_def list_all_iff dest: in_set_dropD)

lemma process_history_ok:
  assumes "length (samples_of s) \<le> 24" and "list_all (\<lambda>x. procs_ok (tm_processes x)) (samples_of s)"
  shows "length (process_history pid s) \<le> 24 \<and> list_all (\<lambda>(x, p). length (p_name p) \<le> 23) (process_history pid s)"
proof -
  have "length (List.map_filter f xs) \<le> length xs" for f :: "telemetry_sample \<Rightarrow> (telemetry_sample \<times> process) option" and xs
    by (induction xs) (auto simp: List.map_filter_simps split: option.split)
  then have "length (process_history pid s) \<le> 24"
    unfolding process_history_def using assms(1) le_trans by blast
  moreover have "length (p_name p) \<le> 23" if "process_in pid x = Some p" "procs_ok (tm_processes x)" for x p
    using that by (auto simp: process_in_def procs_ok_def list_all_iff find_Some_iff)
  ultimately show ?thesis
    using assms(2) by (auto simp: process_history_def List.map_filter_def list_all_iff)
qed

lemma json_array_fits:
  assumes "list_all (\<lambda>e. length e \<le> b) es" and "length (concat hs) + length es * (b + 1) < JSON_STOP" and "length t < 96"
  shows "jbuild hs (with_commas es) t = Some (concat hs @ commas es @ t)"
    and "jbuild hs (commas_before es) t = Some (concat hs @ commas es @ t)"
proof -
  have "length (concat hs) + length (commas es) < JSON_STOP" using length_commas [OF assms(1)] assms(2) by simp
  moreover have "length t < JSON_BUF - JSON_STOP" using assms(3) by (simp add: JSON_BUF_def JSON_STOP_def)
  ultimately show "jbuild hs (with_commas es) t = Some (concat hs @ commas es @ t)"
    "jbuild hs (commas_before es) t = Some (concat hs @ commas es @ t)"
    by (simp_all add: jbuild_fits with_commas_eq commas_before_eq)
qed

definition process_history_text :: "os_pid \<Rightarrow> (telemetry_sample \<times> process) list \<Rightarrow> string" where
  "process_history_text pid hist =
     ''{'' @ jkey ''pid'' @ dec (unat pid) @ '','' @ jkey ''name'' @ qq (case hist of [] \<Rightarrow> ''unknown'' | (x, p) # _ \<Rightarrow> p_name p) @ '','' @
     jkey ''samples'' @ ''['' @ commas (map (\<lambda>(x, p). history_json x p) hist) @ '']}''"

text \<open>Claim C27: the JSON responses are never cut and never leave their buffer: a listing prints every process of
  the table, and the histories print every sample the sampler has kept, with the entries separated by commas.\<close>

theorem web_responses_complete:
  assumes "kernel_wf k" and "s = fst (telemetry_sampler_task rs k portal_boot)"
  shows "fst (handle_processes True r k) =
      Some (RespJson (''['' @ commas (map process_json (fst (list_at r k))) @ '']'')) \<and>
    handle_telemetry_history True s =
      Some (RespJson (''{'' @ jkey ''samples'' @ ''['' @ commas (map sample_json (samples_of s)) @ '']}'')) \<and>
    handle_process_history True (Some q) s =
      Some (RespJson (process_history_text (ucast (strtoul 10 q)) (process_history (ucast (strtoul 10 q)) s)))"
proof (intro conjI)
  let ?ps = "fst (list_at r k)"
  have ps: "procs_ok ?ps" using list_at_ok [OF assms(1)] by simp
  then have "list_all (\<lambda>e. length e \<le> 190) (map process_json ?ps)"
    by (auto simp: procs_ok_def list_all_iff intro: length_process_json)
  from json_array_fits(1) [OF this, of "[''['']" "'']''"] ps
  show "fst (handle_processes True r k) = Some (RespJson (''['' @ commas (map process_json ?ps) @ '']''))"
    by (simp add: handle_processes_def split_beta send_json_def procs_ok_def JSON_STOP_def)
next
  have so: "samples_of s = keep_last TELEMETRY_HISTORY_DEPTH (captures rs k)" using assms(2) sampler_contents by simp
  have n: "length (samples_of s) \<le> 24" by (simp add: so length_keep_last TELEMETRY_HISTORY_DEPTH_def)
  have ok: "list_all (\<lambda>x. procs_ok (tm_processes x)) (samples_of s)"
    unfolding so by (rule list_all_keep_last [OF captures_ok [OF assms(1)]])
  then have "list_all (\<lambda>e. length e \<le> 150) (map sample_json (samples_of s))"
    by (auto simp: procs_ok_def list_all_iff intro: length_sample_json)
  from json_array_fits(1) [OF this, of "[''{'' @ jkey ''samples'' @ ''['']" "'']}''"] n
  show "handle_telemetry_history True s =
      Some (RespJson (''{'' @ jkey ''samples'' @ ''['' @ commas (map sample_json (samples_of s)) @ '']}''))"
    by (simp add: handle_telemetry_history_def send_json_def JSON_STOP_def jkey_def qq_def)
  let ?pid = "ucast (strtoul 10 q) :: os_pid"
  let ?h = "process_history ?pid s"
  let ?name = "case ?h of [] \<Rightarrow> ''unknown'' | (x, p) # _ \<Rightarrow> p_name p"
  have h: "length ?h \<le> 24" "list_all (\<lambda>(x, p). length (p_name p) \<le> 23) ?h" using process_history_ok [OF n ok] by auto
  then have nm: "length ?name \<le> 23" by (cases ?h) auto
  let ?hs = "[''{'' @ jkey ''pid'' @ dec (unat ?pid) @ '','' @ jkey ''name'' @ [CHR 0x22],
    ?name @ [CHR 0x22] @ '','' @ jkey ''samples'' @ ''['']"
  have es: "list_all (\<lambda>e. length e \<le> 150) (map (\<lambda>(x, p). history_json x p) ?h)"
    by (auto simp: list_all_iff intro: length_history_json)
  have "length (concat ?hs) \<le> 80" using nm length_dec16 [of ?pid] by (simp add: jkey_def qq_def)
  moreover have "length (map (\<lambda>(x, p). history_json x p) ?h) * (150 + 1) \<le> 3624" using h(1) by simp
  ultimately have "length (concat ?hs) + length (map (\<lambda>(x, p). history_json x p) ?h) * (150 + 1) < JSON_STOP"
    by (simp add: JSON_STOP_def)
  from json_array_fits(2) [OF es this, of "'']}''"]
  have "jbuild ?hs (commas_before (map (\<lambda>(x, p). history_json x p) ?h)) '']}'' = Some (process_history_text ?pid ?h)"
    by (simp add: process_history_text_def qq_def)
  then show "handle_process_history True (Some q) s = Some (RespJson (process_history_text ?pid ?h))"
    by (simp add: handle_process_history_def send_json_def Let_def)
qed

definition demo_readings :: readings where
  "demo_readings = \<lparr>rd_free = 100, rd_min_free = 80, rd_total = 300, rd_largest = 90, rd_now = 5000000,
     rd_stack_unit = 4, rd_probe = (\<lambda>_. (ERunning, 0, 0))\<rparr>"

theorem web_responses_complete_witness:
  "fst (handle_processes True demo_readings kernel_boot) = Some (RespJson ''[]'') \<and>
   handle_process_history True (Some ''7'') (fst (telemetry_sampler_task [demo_readings] kernel_boot portal_boot)) =
     Some (RespJson (process_history_text 7 []))"
proof -
  have wf: "kernel_wf kernel_boot"
    by (simp add: kernel_wf_def kernel_boot_def proc_zero_def OS_PROC_NAME_LEN_def list_all_iff)
  let ?s = "fst (telemetry_sampler_task [demo_readings] kernel_boot portal_boot)"
  have so: "samples_of ?s = captures [demo_readings] kernel_boot"
    by (simp only: sampler_contents) (simp add: keep_last_short TELEMETRY_HISTORY_DEPTH_def del: captures.simps)
  have e: "fst (list_at demo_readings kernel_boot) = []"
    by (simp add: list_at_def os_process_list_def kernel_boot_def)
  then have "process_history 7 ?s = []"
    unfolding process_history_def so by (simp add: split_beta Let_def List.map_filter_simps process_in_def)
  moreover have "strtoul 10 ''7'' = 7"
    by (simp add: strtoul_def scan_signed_def scan_number_def scan_digits_def digit_of_def is_space_def)
  ultimately show ?thesis using web_responses_complete [OF wf refl, of demo_readings "[demo_readings]" "''7''"] e by simp
qed

section \<open>Process actions\<close>

lemma after_key_here: "after_key key (key @ rest) = Some rest"
  by (simp add: after_key.simps [of key "key @ rest"])

lemma after_key_skip:
  "c \<notin> set pre \<Longrightarrow> after_key (c # key) (pre @ (c # key) @ rest) = Some rest"
proof (induction pre)
  case Nil
  then show ?case using after_key_here [of "c # key" rest] by simp
next
  case (Cons x pre)
  then have "c \<noteq> x" "after_key (c # key) (pre @ (c # key) @ rest) = Some rest" by auto
  then show ?case by (simp add: after_key.simps [of "c # key" "x # _"] eq_commute [of x c])
qed

lemma dec_chars: "is_digit c \<or> c \<notin> set (dec n)"
  using dec_digits [of n] by (auto simp: list_all_iff)

text \<open>A form with a process number and an action is carried out on the process whose number is the
  given one modulo 65536: any larger number acts on a process nobody named.\<close>

theorem process_action_truncates:
  assumes "n < 4294967296" and "a \<in> {''kill'', ''suspend'', ''resume''}"
  shows "handle_process_action err_name (Some (''pid='' @ dec n @ ''&action='' @ a)) k =
    (let (ret, k', tr) =
       (if a = ''kill'' then os_process_kill (of_nat (n mod 65536)) k
        else if a = ''suspend'' then os_process_suspend (of_nat (n mod 65536)) k
        else os_process_resume (of_nat (n mod 65536)) k)
     in (if ret \<noteq> ESP_OK then RespErr 500 (err_name ret) else RespText (''ok pid='' @ dec n @ '' action='' @ a), k', tr))"
proof -
  let ?b = "''pid='' @ dec n @ ''&action='' @ a"
  have "length (dec n) \<le> 10" using assms(1) by (intro length_dec) simp_all
  moreover have "length a \<le> 7" "nul \<notin> set a" "CHR ''&'' \<notin> set a" using assms(2) by (auto simp: nul_def)
  moreover have "\<not> is_digit nul" "\<not> is_digit CHR ''a''" by (simp_all add: nul_def is_digit_def)
  then have d: "nul \<notin> set (dec n)" "CHR ''a'' \<notin> set (dec n)" using dec_chars by blast+
  ultimately have "length ?b \<le> 127" "nul \<notin> set ?b" by (auto simp: nul_def)
  then have body: "request_body 128 ?b = ?b"
    unfolding request_body_def by (simp only: take_all diff_Suc_1) (auto simp: takeWhile_eq_all_conv)
  have "after_key ''pid'' ?b = Some (CHR ''='' # dec n @ ''&action='' @ a)"
    using after_key_here [of "''pid''"] by simp
  moreover have "strtoul 10 (dec n @ ''&action='' @ a) = of_nat n"
    by (rule strtoul_dec [OF assms(1)]) (simp add: is_digit_def)
  ultimately have p: "parse_param_u32 (Some ?b) ''pid'' = Some (of_nat n)" by (simp add: parse_param_u32_def)
  have ak: "after_key ''action'' ((''pid='' @ dec n @ ''&'') @ ''action'' @ (''='' @ a)) = Some (''='' @ a)"
    by (rule after_key_skip) (simp add: d)
  have tw: "takeWhile (\<lambda>c. c \<noteq> CHR ''&'') a = a" using assms(2) by auto
  have q: "parse_param_str (Some ?b) ''action'' 16 = Some a"
    using ak \<open>length a \<le> 7\<close> by (simp add: parse_param_str_def tw del: takeWhile_eq_all_conv)
  have u: "ucast (of_nat n :: 32 word) = (of_nat (n mod 65536) :: 16 word)"
    using assms(1) by (simp add: word_unat_eq_iff unsigned_ucast_eq unat_of_nat take_bit_eq_mod)
  have t: "u32 (of_nat n) = dec n" using assms(1) by (simp add: u32_def unat_of_nat take_bit_nat_eq_self)
  have c: "cstr 96 (''ok pid='' @ dec n @ '' action='' @ a) = ''ok pid='' @ dec n @ '' action='' @ a"
    using \<open>length (dec n) \<le> 10\<close> \<open>length a \<le> 7\<close> by (intro cstr_short) simp
  show ?thesis
    unfolding handle_process_action_def
    by (simp only: option.case body Let_def p q prod.case u t send_text_def c if_P [OF assms(2)])
      (simp split: prod.split)
qed

theorem process_action_truncates_witness:
  "handle_process_action err_name (Some ''pid=65537&action=kill'') k =
    (let (ret, k', tr) = os_process_kill 1 k
     in (if ret \<noteq> ESP_OK then RespErr 500 (err_name ret) else RespText ''ok pid=65537 action=kill'', k', tr))"
proof -
  have "dec 65537 = ''65537''" by (simp add: dec.simps digit_def) code_simp
  then show ?thesis using process_action_truncates [of 65537 "''kill''" err_name k] by (simp cong: if_cong)
qed

text \<open>A key is searched in the whole body: the value is taken from the first parameter whose name ends in it.\<close>

lemma parse_param_other_key: "parse_param_u32 (Some ''lastpid=5&pid=7'') ''pid'' = Some 5"
proof -
  have "after_key ''pid'' ''lastpid=5&pid=7'' = Some ''=5&pid=7''" by (simp add: after_key.simps)
  moreover have "strtoul 10 ''5&pid=7'' = 5"
    by (simp add: strtoul_def scan_signed_def scan_number_def scan_digits_def digit_of_def is_space_def)
  ultimately show ?thesis by (simp add: parse_param_u32_def)
qed
end
