(* ===== verification/System.thy ===== *)
theory System
  imports CmdTable WebPortal
begin

text \<open>
  The whole system: the invariant of all components together, that every built-in command keeps it, and the
  steps of the running system, which keep it and of which none gets stuck on lines that fit.
\<close>

section \<open>The invariant of the system\<close>

definition drivers_ok :: "drivers \<Rightarrow> bool" where
  "drivers_ok d \<longleftrightarrow> length (g_dir (dr_gpio d)) = GPIO_MAX_PIN + 1"

definition sys_inv :: "'v sys \<Rightarrow> bool" where
  "sys_inv s \<longleftrightarrow> commands_ok (y_cmds s) \<and> kernel_wf (y_kernel s) \<and> fs_wf (y_fs s) \<and> env_wf (y_env s) \<and>
     timer_slots_ok (y_timer s) \<and> sched_wf (y_sched s) \<and> ipc_wf (y_ipc s) \<and> pwm_inv (y_pwm s) \<and> mqtt_wf (y_mqtt s) \<and>
     net_ok (y_net s) \<and> drivers_ok (y_drv s)"

named_theorems sys_keep \<open>operations keep the invariants of their components\<close>

lemma kernel_keeps [sys_keep]:
  "kernel_wf k \<Longrightarrow> kernel_wf (fst (snd (os_process_kill pid k)))"
  "kernel_wf k \<Longrightarrow> kernel_wf (fst (snd (os_process_suspend pid k)))"
  "kernel_wf k \<Longrightarrow> kernel_wf (fst (snd (os_process_resume pid k)))"
  "kernel_wf k \<Longrightarrow> kernel_wf (fst (snd (os_process_list a b c d k)))"
  "kernel_wf k \<Longrightarrow> kernel_wf (fst (snd (os_process_create e f g h i j l m n k)))"
  using k_step_wf [of k "KSignal pid OS_SIG_KILL"] k_step_wf [of k "KSignal pid OS_SIG_SUSPEND"]
    k_step_wf [of k "KSignal pid OS_SIG_CONT"] k_step_wf [of k "KList a b c d"] k_step_wf [of k "KCreate e f g h i j l m n"]
  by (simp_all add: os_process_kill_def os_process_suspend_def os_process_resume_def)

lemma kernel_print_keeps [sys_keep]:
  "kernel_wf k \<Longrightarrow> kernel_wf (fst (os_kernel_print_ps a b fd k))"
  "kernel_wf k \<Longrightarrow> kernel_wf (fst (os_kernel_print_top a b c d e f g fd k))"
  by (simp_all add: os_kernel_print_ps_def os_kernel_print_top_def split_beta Let_def kernel_keeps)

lemma background_keeps [sys_keep]:
  "kernel_wf k \<Longrightarrow> kernel_wf (fst (snd (os_scheduler_run_background a b c d e name cmd fd w k)))"
  using kernel_keeps(5) [of k]
  by (auto simp: os_scheduler_run_background_def split_beta Let_def split: option.split)

lemma fs_exec_wf: "fs_wf f \<Longrightarrow> fs_wf (fs_exec V x f)"
  by (rule fs_calls.step_inv) simp_all

lemma fs_keeps [sys_keep]:
  "fs_wf f \<Longrightarrow> fs_wf (snd (os_fs_chdir V q f))"
  "fs_wf f \<Longrightarrow> fs_wf (fst (snd (os_fs_mkdir V r f)))"
  "fs_wf f \<Longrightarrow> fs_wf (fst (snd (os_fs_remove V r f)))"
  "fs_wf f \<Longrightarrow> fs_wf (snd (os_fs_rename V r t f))"
  "fs_wf f \<Longrightarrow> fs_wf (fst (snd (snd (os_fs_read_file V r n f))))"
  "fs_wf f \<Longrightarrow> fs_wf (fst (snd (os_fs_write_file V r d a f)))"
  "fs_wf f \<Longrightarrow> fs_wf (fst (snd (os_fs_init V f)))"
  using fs_exec_wf [of f V "FsChdir q"] fs_exec_wf [of f V "FsMkdir r"] fs_exec_wf [of f V "FsRemove r"]
    fs_exec_wf [of f V "FsRename r t"] fs_exec_wf [of f V "FsRead r n"] fs_exec_wf [of f V "FsWrite r d a"]
    fs_exec_wf [of f V FsInit] by simp_all

lemma env_keeps [sys_keep]:
  "env_wf e \<Longrightarrow> env_wf (fst (snd (os_env_set n v e)))"
  "env_wf e \<Longrightarrow> env_wf (fst (snd (os_env_unset n e)))"
  using env_step_wf [of "EnvSet n v" e] env_step_wf [of "EnvUnset n" e] by simp_all

lemma timer_keeps [sys_keep]:
  "timer_slots_ok t \<Longrightarrow> timer_slots_ok (fst (snd (os_timer_create ms h c t)))"
  "timer_slots_ok t \<Longrightarrow> timer_slots_ok (fst (snd (os_timer_delete i t)))"
  "timer_slots_ok t \<Longrightarrow> timer_slots_ok (fst (snd (os_timer_start rc i t)))"
  "timer_slots_ok t \<Longrightarrow> timer_slots_ok (fst (snd (os_timer_stop rc i t)))"
  "timer_slots_ok t \<Longrightarrow> timer_slots_ok (fst (snd (os_timer_restart ms rc i q t)))"
  "timer_slots_ok t \<Longrightarrow> timer_slots_ok (fst (snd (os_timer_init lk t)))"
  "timer_slots_ok t \<Longrightarrow> timer_slots_ok (fst (timer_callback i t))"
  using timer_step_ok [of t "TCreate ms h c"] timer_step_ok [of t "TDelete i"] timer_step_ok [of t "TStart rc i"]
    timer_step_ok [of t "TStop rc i"] timer_step_ok [of t "TRestart ms rc i q"] timer_step_ok [of t "TInit lk"]
    timer_step_ok [of t "TFire i"] by simp_all

lemma sched_keeps [sys_keep]:
  "sched_wf w \<Longrightarrow> sched_wf (fst (snd (os_scheduler_schedule ms h rc n c d r fd w)))"
  "sched_wf w \<Longrightarrow> sched_wf (fst (snd (os_scheduler_cancel n w)))"
  "sched_wf w \<Longrightarrow> sched_wf (fst (snd (os_scheduler_init lk q th w)))"
  "sched_wf w \<Longrightarrow> sched_wf (fst (sched_timer_callback i w))"
  "sched_wf w \<Longrightarrow> sched_wf (fst (worker_done j w))"
  using sched_step_wf [of w "SSchedule ms h rc n c d r fd"] sched_step_wf [of w "SCancel n"] sched_step_wf [of w "SInit lk q th"]
    sched_step_wf [of w "SFire i"] sched_step_wf [of w "SDone j"] by simp_all

lemma ipc_keeps [sys_keep]:
  "ipc_wf w \<Longrightarrow> ipc_wf (fst (snd (os_msgq_create q n sz m w)))"
  "ipc_wf w \<Longrightarrow> ipc_wf (fst (snd (os_msgq_delete i w)))"
  "ipc_wf w \<Longrightarrow> ipc_wf (fst (snd (os_event_create q n w)))"
  "ipc_wf w \<Longrightarrow> ipc_wf (fst (snd (os_event_delete i w)))"
  "ipc_wf w \<Longrightarrow> ipc_wf (fst (snd (os_ipc_init q w)))"
  using ipc_step_wf [of w "QCreate q n sz m"] ipc_step_wf [of w "QDelete i"] ipc_step_wf [of w "ECreate q n"]
    ipc_step_wf [of w "EDelete i"] ipc_step_wf [of w "IpcInit q"] by simp_all

lemma pwm_keeps [sys_keep]:
  "pwm_inv w \<Longrightarrow> pwm_inv (fst (snd (os_pwm_channel_init g a b ch pin f w)))"
  "pwm_inv w \<Longrightarrow> pwm_inv (fst (snd (os_pwm_channel_deinit ch w)))"
  "pwm_inv w \<Longrightarrow> pwm_inv (fst (snd (os_pwm_set_duty a ch d w)))"
  "pwm_inv w \<Longrightarrow> pwm_inv (fst (snd (os_pwm_set_freq a ch f w)))"
  "pwm_inv w \<Longrightarrow> pwm_inv (fst (snd (os_pwm_init lk w)))"
  using pwm_step_inv [of w g "PwmChannelInit a b ch pin f"] pwm_step_inv [of w g "PwmChannelDeinit ch"]
    pwm_step_inv [of w g "PwmSetDuty a ch d"] pwm_step_inv [of w g "PwmSetFreq a ch f"] pwm_step_inv [of w g "PwmInit lk"] by simp_all

lemma mqtt_keeps [sys_keep]:
  "mqtt_wf w \<Longrightarrow> mqtt_wf (fst (snd (os_mqtt_config c w)))"
  "mqtt_wf w \<Longrightarrow> mqtt_wf (fst (snd (os_mqtt_connect mac cl a b w)))"
  "mqtt_wf w \<Longrightarrow> mqtt_wf (fst (snd (os_mqtt_disconnect w)))"
  "mqtt_wf w \<Longrightarrow> mqtt_wf (fst (snd (os_mqtt_publish m t q l qos r w)))"
  "mqtt_wf w \<Longrightarrow> mqtt_wf (fst (snd (os_mqtt_subscribe m t qos w)))"
  "mqtt_wf w \<Longrightarrow> mqtt_wf (fst (snd (os_mqtt_init lk w)))"
  "mqtt_wf w \<Longrightarrow> mqtt_wf (fst (mqtt_event_handler ev w))"
  using mqtt_step_wf [of w "MqttConfig c"] mqtt_step_wf [of w "MqttConnect mac cl a b"] mqtt_step_wf [of w MqttDisconnect]
    mqtt_step_wf [of w "MqttPublish m t q l qos r"] mqtt_step_wf [of w "MqttSubscribe m t qos"] mqtt_step_wf [of w "MqttInit lk"]
    mqtt_step_wf [of w "MqttEvent ev"] by simp_all

lemma net_keeps [sys_keep]:
  "net_ok n \<Longrightarrow> net_ok (fst (net_event_step ev n))"
  "net_ok n \<Longrightarrow> net_ok (fst (os_wifi_disconnect n))"
  by (simp_all add: net_event_step_ok) (simp add: net_ok_def os_wifi_disconnect_def)

lemma gpio_length:
  "length (g_dir (fst (snd (gpio_driver_set_dir a pin d g)))) = length (g_dir g)"
  "length (g_dir (fst (snd (gpio_driver_write a b pin v g)))) = length (g_dir g)"
  by (auto simp: gpio_driver_write_def gpio_driver_set_dir_def split_beta Let_def split: option.split)

section \<open>Every command keeps it\<close>

lemma sys_inv_updates [sys_keep]:
  "sys_inv s \<Longrightarrow> kernel_wf k \<Longrightarrow> sys_inv (s\<lparr>y_kernel := k\<rparr>)"
  "sys_inv s \<Longrightarrow> fs_wf f \<Longrightarrow> sys_inv (s\<lparr>y_fs := f\<rparr>)"
  "sys_inv s \<Longrightarrow> env_wf e \<Longrightarrow> sys_inv (s\<lparr>y_env := e\<rparr>)"
  "sys_inv s \<Longrightarrow> timer_slots_ok t \<Longrightarrow> sys_inv (s\<lparr>y_timer := t\<rparr>)"
  "sys_inv s \<Longrightarrow> sched_wf w \<Longrightarrow> sys_inv (s\<lparr>y_sched := w\<rparr>)"
  "sys_inv s \<Longrightarrow> ipc_wf i \<Longrightarrow> sys_inv (s\<lparr>y_ipc := i\<rparr>)"
  "sys_inv s \<Longrightarrow> pwm_inv v \<Longrightarrow> sys_inv (s\<lparr>y_pwm := v\<rparr>)"
  "sys_inv s \<Longrightarrow> mqtt_wf m \<Longrightarrow> sys_inv (s\<lparr>y_mqtt := m\<rparr>)"
  "sys_inv s \<Longrightarrow> net_ok n \<Longrightarrow> sys_inv (s\<lparr>y_net := n\<rparr>)"
  "sys_inv s \<Longrightarrow> drivers_ok d \<Longrightarrow> sys_inv (s\<lparr>y_drv := d\<rparr>)"
  "sys_inv s \<Longrightarrow> sys_inv (s\<lparr>y_ota := o'\<rparr>)"
  "sys_inv s \<Longrightarrow> sys_inv (s\<lparr>y_log := l\<rparr>)"
  "sys_inv s \<Longrightarrow> commands_ok c \<Longrightarrow> sys_inv (s\<lparr>y_cmds := c\<rparr>)"
  by (simp_all add: sys_inv_def)

lemma sys_invD:
  "sys_inv s \<Longrightarrow> kernel_wf (y_kernel s)" "sys_inv s \<Longrightarrow> fs_wf (y_fs s)" "sys_inv s \<Longrightarrow> env_wf (y_env s)"
  "sys_inv s \<Longrightarrow> timer_slots_ok (y_timer s)" "sys_inv s \<Longrightarrow> sched_wf (y_sched s)" "sys_inv s \<Longrightarrow> ipc_wf (y_ipc s)"
  "sys_inv s \<Longrightarrow> pwm_inv (y_pwm s)" "sys_inv s \<Longrightarrow> mqtt_wf (y_mqtt s)" "sys_inv s \<Longrightarrow> net_ok (y_net s)"
  "sys_inv s \<Longrightarrow> drivers_ok (y_drv s)" "sys_inv s \<Longrightarrow> commands_ok (y_cmds s)"
  by (simp_all add: sys_inv_def)

definition keeps :: "'v cmd \<Rightarrow> bool" where
  "keeps c \<longleftrightarrow> (\<forall>p fd args s. sys_inv s \<longrightarrow> sys_inv (fst (snd (c p fd args s))))"

lemma ending_state [simp]: "fst (snd (fails outs s)) = s" "fst (snd (succeeds outs s)) = s"
  by (simp_all add: fails_def succeeds_def)

lemmas cmd_cases = keeps_def split_beta Let_def

lemma keeps_system:
  "keeps cmd_help" "keeps cmd_clear" "keeps cmd_uname" "keeps cmd_uptime" "keeps cmd_free" "keeps cmd_reboot"
  "keeps cmd_echo" "keeps cmd_exit" "keeps cmd_history" "keeps cmd_sleep"
  by (simp_all add: cmd_cases cmd_help_def cmd_clear_def cmd_uname_def cmd_uptime_def cmd_free_def cmd_reboot_def cmd_echo_def
      cmd_exit_def cmd_history_def cmd_sleep_def)

lemma keeps_process: "keeps cmd_ps" "keeps cmd_top" "keeps cmd_kill" "keeps cmd_suspend" "keeps cmd_resume"
  by (simp_all add: cmd_cases cmd_ps_def cmd_top_def cmd_kill_def cmd_suspend_def cmd_resume_def sys_keep sys_invD)

lemma keeps_files:
  "keeps cmd_ls" "keeps cmd_pwd" "keeps cmd_cd" "keeps cmd_cat" "keeps cmd_write" "keeps cmd_append" "keeps cmd_rm"
  "keeps cmd_mkdir" "keeps cmd_df" "keeps cmd_mv"
  by (simp_all add: cmd_cases cmd_ls_def cmd_pwd_def cmd_cd_def cmd_cat_def cmd_write_def cmd_append_def write_with_def cmd_rm_def
      cmd_mkdir_def cmd_df_def cmd_mv_def sys_keep sys_invD split: option.split)

lemma keeps_log: "keeps cmd_dmesg" "keeps cmd_loglevel" "keeps cmd_logfile"
  by (simp_all add: cmd_cases cmd_dmesg_def cmd_loglevel_def cmd_logfile_def sys_keep split: option.split)

lemma keeps_wifi: "keeps wifi_scan" "keeps wifi_connect" "keeps wifi_disconnect" "keeps wifi_status"
proof -
  show "keeps wifi_connect"
    unfolding cmd_cases wifi_connect_def
    by (auto simp: sys_keep sys_invD dest: os_wifi_connect_ok [rotated] split: option.split intro: sys_keep)
qed (simp_all add: cmd_cases wifi_scan_def wifi_disconnect_def wifi_status_def sys_keep sys_invD)

lemma keeps_net: "keeps cmd_wifi" "keeps cmd_ifconfig" "keeps cmd_ping" "keeps cmd_http"
proof -
  show "keeps cmd_wifi"
    by (simp add: keeps_def cmd_wifi_def keeps_wifi [unfolded keeps_def, rule_format])
qed (simp_all add: cmd_cases cmd_ifconfig_def cmd_ping_def cmd_http_def)

lemma drivers_ok_updates [sys_keep]:
  "drivers_ok d \<Longrightarrow> length (g_dir g) = length (g_dir (dr_gpio d)) \<Longrightarrow> drivers_ok (d\<lparr>dr_gpio := g\<rparr>)"
  "drivers_ok d \<Longrightarrow> drivers_ok (d\<lparr>dr_adc := a\<rparr>)" "drivers_ok d \<Longrightarrow> drivers_ok (d\<lparr>dr_i2c := i\<rparr>)"
  by (simp_all add: drivers_ok_def)

lemma adc_at_keeps [sys_keep]:
  "sys_inv s \<Longrightarrow> sys_inv (fst (snd (adc_raw_at p ch s)))" "sys_inv s \<Longrightarrow> sys_inv (fst (snd (adc_mv_at p ch s)))"
  by (simp_all add: adc_raw_at_def adc_mv_at_def split_beta Let_def sys_keep sys_invD)

lemma adc_readall_keeps [sys_keep]: "sys_inv s \<Longrightarrow> sys_inv (fst (adc_readall p chs s))"
  by (induction chs arbitrary: s) (simp_all add: split_beta Let_def sys_keep)

lemma keeps_hardware: "keeps cmd_gpio" "keeps cmd_adc" "keeps cmd_i2c" "keeps cmd_nvs"
  by (simp_all add: cmd_cases cmd_gpio_def cmd_adc_def cmd_i2c_def cmd_nvs_def set_gpio_def gpio_length sys_keep sys_invD
      del: adc_readall.simps upt_rec_numeral split: option.split)

lemma keeps_pwm: "keeps cmd_pwm"
  by (simp add: cmd_cases cmd_pwm_def sys_keep sys_invD)

lemma with_timer_keeps [sys_keep]:
  assumes "\<And>i t. timer_slots_ok t \<Longrightarrow> timer_slots_ok (fst (snd (oper i t)))" and "sys_inv s"
  shows "sys_inv (fst (snd (with_timer name what oper txt s)))"
  using assms by (simp add: with_timer_def split_beta Let_def sys_keep sys_invD)

lemma keeps_timer: "keeps cmd_timer"
  by (simp add: cmd_cases cmd_timer_def sys_keep sys_invD)

lemma keeps_env: "keeps cmd_env" "keeps cmd_export" "keeps cmd_unset" "keeps cmd_printenv"
  by (simp_all add: cmd_cases cmd_env_def cmd_export_def cmd_unset_def cmd_printenv_def sys_keep sys_invD)

lemma keeps_sched: "keeps cmd_run" "keeps cmd_at" "keeps cmd_every" "keeps cmd_jobs" "keeps cmd_killjob"
  by (simp_all add: cmd_cases cmd_run_def cmd_at_def cmd_every_def cmd_jobs_def cmd_killjob_def schedule_with_def sys_keep sys_invD
      split: option.split)

lemma keeps_msgq: "keeps msgq_send" "keeps msgq_recv" "keeps cmd_msgq"
  by (simp_all add: cmd_cases msgq_send_def msgq_recv_def cmd_msgq_def sys_keep sys_invD)

lemma keeps_event: "keeps cmd_event"
  by (simp add: cmd_cases cmd_event_def with_event_def sys_keep sys_invD)

lemma after_mqtt_keeps:
  "sys_inv s \<Longrightarrow> mqtt_wf (fst (snd res)) \<Longrightarrow> sys_inv (fst (snd (after_mqtt res good what p s)))"
  by (simp add: after_mqtt_def split_beta Let_def sys_keep)

lemma keeps_mqtt: "keeps cmd_mqtt"
  by (simp add: cmd_cases cmd_mqtt_def after_mqtt_keeps sys_keep sys_invD)

lemma keeps_ota: "keeps cmd_ota" "keeps cmd_test"
  by (simp_all add: cmd_cases cmd_ota_def ota_status_def cmd_test_def sys_keep split: option.split)

lemmas keeps_all = keeps_system keeps_process keeps_files keeps_log keeps_net keeps_hardware keeps_pwm keeps_timer keeps_env
  keeps_sched keeps_msgq keeps_event keeps_mqtt keeps_ota

lemma builtins_keep: "list_all (\<lambda>(_, _, _, c). keeps c) builtins"
  by (simp add: builtins_def keeps_all)

lemma run_builtin_keeps: "sys_inv s \<Longrightarrow> sys_inv (fst (snd (run_builtin p h fd args s)))"
proof -
  assume s: "sys_inv s"
  have "keeps (snd (snd (snd (builtins ! h :: string \<times> string \<times> string \<times> 'a cmd))))" if "h < 52"
    using list_all_nth [OF builtins_keep, of h] that by (simp add: split_beta)
  with s show ?thesis by (simp add: run_builtin_def keeps_def)
qed

lemma execute_line_keeps: "sys_inv s \<Longrightarrow> execute_line p fd line s = Some (ret, s', texts) \<Longrightarrow> sys_inv s'"
  by (auto simp: execute_line_def run_builtin_keeps split: option.splits)

section \<open>The running system\<close>

text \<open>
  The system with its web portal, and what can happen to it once it runs, each as one step: a session or a
  background task executes a line; a software timer expires; the timer of a scheduled job expires; the worker
  takes a job from its queue, executes its command and completes it; the MQTT client or the network reports an
  event; the update task takes a step; the telemetry sampler wakes up; the browser asks for the list of
  processes, for an action on one, or for a command.  \<open>None\<close> is a step the code does not survive: the
  expansion of a line reads outside its buffer, or the worker is handed a job that is not in the table.
\<close>

record 'v world =
  w_sys :: "'v sys"
  w_portal :: portal
  w_capture :: capture

datatype 'v sys_event =
    EvLine "'v platform" int "string option"
  | EvTimer "nat option" | EvJobTimer "nat option" | EvWorker "'v platform" nat
  | EvMqtt esp_event | EvNet net_event | EvOtaTask ota_answer ota_pc
  | EvSample readings | EvWebList bool readings
  | EvWebAction "esp_err \<Rightarrow> string" "string option" | EvWebCommand "'v platform" "string option"

definition sched_worker :: "'v platform \<Rightarrow> nat \<Rightarrow> 'v sys \<Rightarrow> 'v sys option" where
  "sched_worker p i s =
     (if length (s_jobs (y_sched s)) \<le> i then None
      else
        let j = s_jobs (y_sched s) ! i
        in map_option (\<lambda>(_, s1, _). s1\<lparr>y_sched := fst (worker_done i (y_sched s1))\<rparr>)
             (execute_line p (j_fd j) (Some (j_command j)) s))"

text \<open>The command of the browser's request runs with the output captured, unless another capture is going on.\<close>

definition web_command :: "'v platform \<Rightarrow> string option \<Rightarrow> 'v world \<Rightarrow> (http_response \<times> 'v world) option" where
  "web_command p recv w =
     Option.bind (handle_command (pl_err_name p) (builtin_handlers p (w_sys w)) (y_cmds (w_sys w)) (y_env (w_sys w)) recv (w_capture w))
       (\<lambda>(resp, c).
          case recv of
            None \<Rightarrow> Some (resp, w\<lparr>w_capture := c\<rparr>)
          | Some data \<Rightarrow>
              if cap_active (w_capture w) then Some (resp, w\<lparr>w_capture := c\<rparr>)
              else map_option (\<lambda>(_, s', _). (resp, w\<lparr>w_sys := s', w_capture := c\<rparr>))
                     (execute_line p (- 1) (Some (request_body 256 data)) (w_sys w)))"

definition on_sys :: "('v sys \<Rightarrow> 'v sys) \<Rightarrow> 'v world \<Rightarrow> 'v world" where
  "on_sys f w = w\<lparr>w_sys := f (w_sys w)\<rparr>"

primrec sys_step :: "'v sys_event \<Rightarrow> 'v world \<Rightarrow> 'v world option" where
  "sys_step (EvLine p fd line) w = map_option (\<lambda>(_, s', _). w\<lparr>w_sys := s'\<rparr>) (execute_line p fd line (w_sys w))"
| "sys_step (EvTimer i) w = Some (on_sys (\<lambda>s. s\<lparr>y_timer := fst (timer_callback i (y_timer s))\<rparr>) w)"
| "sys_step (EvJobTimer i) w = Some (on_sys (\<lambda>s. s\<lparr>y_sched := fst (sched_timer_callback i (y_sched s))\<rparr>) w)"
| "sys_step (EvWorker p i) w = map_option (\<lambda>s'. w\<lparr>w_sys := s'\<rparr>) (sched_worker p i (w_sys w))"
| "sys_step (EvMqtt ev) w = Some (on_sys (\<lambda>s. s\<lparr>y_mqtt := fst (mqtt_event_handler ev (y_mqtt s))\<rparr>) w)"
| "sys_step (EvNet ev) w = Some (on_sys (\<lambda>s. s\<lparr>y_net := fst (net_event_step ev (y_net s))\<rparr>) w)"
| "sys_step (EvOtaTask a pc) w = Some (on_sys (\<lambda>s. s\<lparr>y_ota := fst (snd (ota_task_step a pc (y_ota s)))\<rparr>) w)"
| "sys_step (EvSample r) w =
     (case telemetry_capture_sample r (y_kernel (w_sys w)) (w_portal w) of
        (q, k, _) \<Rightarrow> Some (w\<lparr>w_sys := (w_sys w)\<lparr>y_kernel := k\<rparr>, w_portal := q\<rparr>))"
| "sys_step (EvWebList mem r) w = Some (on_sys (\<lambda>s. s\<lparr>y_kernel := snd (handle_processes mem r (y_kernel s))\<rparr>) w)"
| "sys_step (EvWebAction err_name recv) w =
     Some (on_sys (\<lambda>s. s\<lparr>y_kernel := fst (snd (handle_process_action err_name recv (y_kernel s)))\<rparr>) w)"
| "sys_step (EvWebCommand p recv) w = map_option snd (web_command p recv w)"

fun sys_run :: "'v sys_event list \<Rightarrow> 'v world \<Rightarrow> 'v world option" where
  "sys_run [] w = Some w"
| "sys_run (e # es) w = Option.bind (sys_step e w) (sys_run es)"

definition world_inv :: "'v world \<Rightarrow> bool" where
  "world_inv w \<longleftrightarrow> sys_inv (w_sys w) \<and> portal_inv 0 (w_portal w) \<and> \<not> cap_active (w_capture w)"

lemma world_inv_on_sys: "world_inv w \<Longrightarrow> sys_inv (f (w_sys w)) \<Longrightarrow> world_inv (on_sys f w)"
  by (simp add: world_inv_def on_sys_def)

lemma list_at_keeps [sys_keep]: "kernel_wf k \<Longrightarrow> kernel_wf (fst (snd (list_at r k)))"
  by (simp add: list_at_def kernel_keeps)

lemma handle_processes_keeps [sys_keep]: "kernel_wf k \<Longrightarrow> kernel_wf (snd (handle_processes mem r k))"
  by (simp add: handle_processes_def split_beta Let_def list_at_keeps)

lemma handle_process_action_keeps [sys_keep]:
  assumes "kernel_wf k"
  shows "kernel_wf (fst (snd (handle_process_action err_name recv k)))"
proof (cases recv)
  case (Some data)
  let ?b = "Some (request_body 128 data)"
  show ?thesis
  proof (cases "parse_param_u32 ?b ''pid'' = None \<or> parse_param_str ?b ''action'' 16 = None")
    case False
    then obtain pid action where "parse_param_u32 ?b ''pid'' = Some pid" "parse_param_str ?b ''action'' 16 = Some action" by auto
    with Some assms show ?thesis by (simp add: handle_process_action_def split_beta Let_def kernel_keeps)
  next
    case True
    with Some assms show ?thesis by (auto simp: handle_process_action_def Let_def split: option.split)
  qed
qed (use assms in \<open>simp add: handle_process_action_def\<close>)

lemma capture_sample_keeps:
  "kernel_wf k \<Longrightarrow> kernel_wf (fst (snd (telemetry_capture_sample r k q)))"
  "portal_inv 0 q \<Longrightarrow> portal_inv 0 (fst (telemetry_capture_sample r k q))"
proof -
  show "kernel_wf k \<Longrightarrow> kernel_wf (fst (snd (telemetry_capture_sample r k q)))"
    by (simp add: telemetry_capture_sample_def split_beta Let_def list_at_keeps)
  assume "portal_inv 0 q"
  then have q: "portal_inv (Suc 0) q" unfolding portal_inv_def .
  show "portal_inv 0 (fst (telemetry_capture_sample r k q))"
    unfolding telemetry_capture_sample_def split_beta Let_def fst_conv by (rule telemetry.push_inv [OF q])
qed

lemma worker_done_keeps: "sys_inv s \<Longrightarrow> sys_inv (s\<lparr>y_sched := fst (worker_done i (y_sched s))\<rparr>)"
  by (rule sys_inv_updates(5)) (simp_all add: sched_keeps(5) sys_invD(5))

lemma sched_worker_keeps:
  assumes "sys_inv s" and "sched_worker p i s = Some s'"
  shows "sys_inv s'"
proof -
  obtain ret s1 texts where "execute_line p (j_fd (s_jobs (y_sched s) ! i)) (Some (j_command (s_jobs (y_sched s) ! i))) s = Some (ret, s1, texts)"
    and s': "s' = s1\<lparr>y_sched := fst (worker_done i (y_sched s1))\<rparr>"
    using assms(2) by (auto simp: sched_worker_def Let_def split: if_splits)
  with execute_line_keeps [OF assms(1)] have "sys_inv s1" by blast
  then show ?thesis unfolding s' by (rule worker_done_keeps)
qed

lemma execute_capture_ends:
  "shell_execute_capture h cmds env line ob sz c = Some (ret, res, c') \<Longrightarrow> \<not> cap_active c \<Longrightarrow> \<not> cap_active c'"
  by (auto simp: shell_execute_capture_def capture_zero_def split: if_splits)

lemma handle_command_capture:
  "handle_command e h cmds env recv c = Some (resp, c') \<Longrightarrow> \<not> cap_active c \<Longrightarrow> \<not> cap_active c'"
  by (auto simp: handle_command_def split_beta Let_def split: option.splits if_splits dest: execute_capture_ends)

lemma web_command_keeps:
  assumes "world_inv w" and "web_command p recv w = Some (resp, w')"
  shows "world_inv w'"
proof -
  let ?s = "w_sys w"
  obtain r c where h: "handle_command (pl_err_name p) (builtin_handlers p ?s) (y_cmds ?s) (y_env ?s) recv (w_capture w) = Some (r, c)"
    and next_: "(case recv of None \<Rightarrow> Some (r, w\<lparr>w_capture := c\<rparr>)
      | Some data \<Rightarrow> if cap_active (w_capture w) then Some (r, w\<lparr>w_capture := c\<rparr>)
          else map_option (\<lambda>(_, s', _). (r, w\<lparr>w_sys := s', w_capture := c\<rparr>))
            (execute_line p (- 1) (Some (request_body 256 data)) ?s)) = Some (resp, w')"
    using assms(2) by (auto simp: web_command_def split: bind_splits)
  have c: "\<not> cap_active c" using handle_command_capture [OF h] assms(1) by (simp add: world_inv_def)
  show ?thesis
  proof (cases recv)
    case None
    with next_ c assms(1) show ?thesis by (auto simp: world_inv_def)
  next
    case (Some data)
    with next_ assms(1) obtain ret s' texts where "execute_line p (- 1) (Some (request_body 256 data)) ?s = Some (ret, s', texts)"
      and w': "w' = w\<lparr>w_sys := s', w_capture := c\<rparr>"
      by (auto simp: world_inv_def)
    with execute_line_keeps [of ?s] assms(1) c show ?thesis unfolding world_inv_def by simp
  qed
qed

lemma sys_step_keeps:
  assumes "world_inv w" and "sys_step e w = Some w'"
  shows "world_inv w'"
proof -
  have s: "sys_inv (w_sys w)" using assms(1) by (simp add: world_inv_def)
  note on = world_inv_on_sys [OF assms(1)] sys_inv_updates [OF s] sys_invD [OF s]
  show ?thesis
  proof (cases e)
    case (EvLine p fd line)
    with assms(2) obtain ret s' texts where "execute_line p fd line (w_sys w) = Some (ret, s', texts)" "w' = w\<lparr>w_sys := s'\<rparr>"
      by auto
    with execute_line_keeps [OF s] assms(1) show ?thesis by (simp add: world_inv_def)
  next
    case (EvTimer i)
    with assms(2) have w': "w' = on_sys (\<lambda>s. s\<lparr>y_timer := fst (timer_callback i (y_timer s))\<rparr>) w" by simp
    show ?thesis unfolding w' by (intro on timer_keeps)
  next
    case (EvJobTimer i)
    with assms(2) have w': "w' = on_sys (\<lambda>s. s\<lparr>y_sched := fst (sched_timer_callback i (y_sched s))\<rparr>) w" by simp
    show ?thesis unfolding w' by (intro on sched_keeps)
  next
    case (EvWorker p i)
    with assms(2) obtain s' where "sched_worker p i (w_sys w) = Some s'" "w' = w\<lparr>w_sys := s'\<rparr>" by auto
    with sched_worker_keeps [OF s] assms(1) show ?thesis by (simp add: world_inv_def)
  next
    case (EvMqtt ev)
    with assms(2) have w': "w' = on_sys (\<lambda>s. s\<lparr>y_mqtt := fst (mqtt_event_handler ev (y_mqtt s))\<rparr>) w" by simp
    show ?thesis unfolding w' by (intro on mqtt_keeps)
  next
    case (EvNet ev)
    with assms(2) have w': "w' = on_sys (\<lambda>s. s\<lparr>y_net := fst (net_event_step ev (y_net s))\<rparr>) w" by simp
    show ?thesis unfolding w' by (intro on net_keeps)
  next
    case (EvOtaTask a pc)
    with assms(2) have w': "w' = on_sys (\<lambda>s. s\<lparr>y_ota := fst (snd (ota_task_step a pc (y_ota s)))\<rparr>) w" by simp
    show ?thesis unfolding w' by (rule on(1)) (rule on(12))
  next
    case (EvSample r)
    obtain q k tr where q: "telemetry_capture_sample r (y_kernel (w_sys w)) (w_portal w) = (q, k, tr)"
      by (metis prod_cases3)
    have "kernel_wf k" "portal_inv 0 q"
      using capture_sample_keeps(1) [of "y_kernel (w_sys w)" r "w_portal w"] capture_sample_keeps(2) [of "w_portal w" r "y_kernel (w_sys w)"]
        sys_invD(1) [OF s] assms(1) q by (simp_all add: world_inv_def)
    with EvSample assms q on(2) [of k] show ?thesis by (auto simp: world_inv_def)
  next
    case (EvWebList mem r)
    with assms(2) have w': "w' = on_sys (\<lambda>s. s\<lparr>y_kernel := snd (handle_processes mem r (y_kernel s))\<rparr>) w" by simp
    show ?thesis unfolding w' by (intro on handle_processes_keeps)
  next
    case (EvWebAction err_name recv)
    with assms(2) have w': "w' = on_sys (\<lambda>s. s\<lparr>y_kernel := fst (snd (handle_process_action err_name recv (y_kernel s)))\<rparr>) w"
      by simp
    show ?thesis unfolding w' by (intro on handle_process_action_keeps)
  next
    case (EvWebCommand p recv)
    with assms(2) obtain resp where "web_command p recv w = Some (resp, w')" by auto
    with web_command_keeps [OF assms(1)] show ?thesis by blast
  qed
qed

text \<open>As total steps: a step that is not survived leaves the world as it was.\<close>

interpretation system: guarded "\<lambda>e w. case sys_step e w of None \<Rightarrow> w | Some w' \<Rightarrow> w'" "\<lambda>_. True" world_inv
  by unfold_locales (auto split: option.split dest: sys_step_keeps)

lemma sys_run_total:
  "sys_run es w = Some w' \<Longrightarrow> run (\<lambda>e w. case sys_step e w of None \<Rightarrow> w | Some w' \<Rightarrow> w') es w = w'"
proof (induction es arbitrary: w)
  case (Cons e es)
  then obtain w1 where "sys_step e w = Some w1" "sys_run es w1 = Some w'" by (cases "sys_step e w") auto
  with Cons.IH [of w1] show ?case by simp
qed simp

lemma sys_run_keeps:
  assumes "world_inv w" and "sys_run es w = Some w'"
  shows "world_inv w'"
proof -
  have "list_all (\<lambda>_. True) es" by (simp add: list_all_iff)
  from system.run_inv [OF this assms(1)] show ?thesis unfolding sys_run_total [OF assms(2)] .
qed

section \<open>Which steps are always survived\<close>

text \<open>
  A line that leaves room for a second terminator in its buffer; an event whose line does, and whose job, for
  the worker, is in the table.
\<close>

definition line_fits :: "string \<Rightarrow> bool" where
  "line_fits l \<longleftrightarrow> length l < SHELL_MAX_LINE_LEN - 1 \<and> nul \<notin> set l"

primrec event_ok :: "'v sys_event \<Rightarrow> 'v world \<Rightarrow> bool" where
  "event_ok (EvLine p fd line) w = (case line of None \<Rightarrow> True | Some l \<Rightarrow> line_fits l)"
| "event_ok (EvTimer i) w = True"
| "event_ok (EvJobTimer i) w = True"
| "event_ok (EvWorker p i) w =
     (i < length (s_jobs (y_sched (w_sys w))) \<and> line_fits (j_command (s_jobs (y_sched (w_sys w)) ! i)))"
| "event_ok (EvMqtt ev) w = True"
| "event_ok (EvNet ev) w = True"
| "event_ok (EvOtaTask a pc) w = True"
| "event_ok (EvSample r) w = True"
| "event_ok (EvWebList mem r) w = True"
| "event_ok (EvWebAction err_name recv) w = True"
| "event_ok (EvWebCommand p recv) w = (case recv of None \<Rightarrow> True | Some data \<Rightarrow> length (request_body 256 data) < SHELL_MAX_LINE_LEN - 1)"

lemma execute_line_fits: "line_fits l \<Longrightarrow> \<exists>ret s' texts. execute_line p fd (Some l) s = Some (ret, s', texts)"
  using shell_execute_defined [of l] by (auto simp: execute_line_def line_fits_def split: option.split)

lemma execute_line_none: "\<exists>ret s' texts. execute_line p fd None s = Some (ret, s', texts)"
  by (simp add: execute_line_def shell_execute_def)

lemma request_body_fits: "length (request_body 256 data) < SHELL_MAX_LINE_LEN - 1 \<Longrightarrow> line_fits (request_body 256 data)"
  by (auto simp: line_fits_def request_body_def dest: set_takeWhileD)

lemma web_command_defined:
  assumes "event_ok (EvWebCommand p recv) w"
  shows "web_command p recv w \<noteq> None"
proof (cases recv)
  case None
  then show ?thesis by (simp add: web_command_def handle_command_def)
next
  case (Some data)
  let ?b = "request_body 256 data"
  have f: "line_fits ?b" using assms Some by (simp add: request_body_fits)
  then have "shell_execute rh c e (- 1) (Some ?b) \<noteq> None" for rh c e
    using shell_execute_defined by (simp add: line_fits_def)
  then have "handle_command en rh c e recv cap \<noteq> None" for en rh c e cap
    by (simp add: Some handle_command_def shell_execute_capture_def)
  moreover from execute_line_fits [OF f] have "execute_line p (- 1) (Some ?b) (w_sys w) \<noteq> None" by auto
  ultimately show ?thesis by (auto simp: web_command_def Some split: option.splits bind_splits)
qed

lemma sys_step_defined: "event_ok e w \<Longrightarrow> sys_step e w \<noteq> None"
proof (cases e)
  case (EvLine p fd line)
  moreover assume "event_ok e w"
  ultimately show ?thesis
    using execute_line_fits [of "the line" p fd "w_sys w"] execute_line_none [of p fd "w_sys w"] by (cases line) auto
next
  case (EvWorker p i)
  moreover assume "event_ok e w"
  ultimately show ?thesis
    using execute_line_fits [of "j_command (s_jobs (y_sched (w_sys w)) ! i)" p "j_fd (s_jobs (y_sched (w_sys w)) ! i)" "w_sys w"]
    by (auto simp: sched_worker_def Let_def)
next
  case (EvWebCommand p recv)
  moreover assume "event_ok e w"
  ultimately show ?thesis using web_command_defined [of p recv w] by simp
qed (simp_all add: split_beta)

end
