(* ===== verification/Boot.thy ===== *)
theory Boot
  imports System
begin

text \<open>
  The boot sequence (\<^verbatim>\<open>src/main/main.c\<close>) and the watchdog of \<^verbatim>\<open>src/components/os_kernel/src/os_kernel.c\<close>:
  the stages of \<open>app_main\<close> in their order, each on the state of the whole system, and what holds once they
  are through: which failures are survived, and that the running system keeps the invariant of all components.

  The record \<open>boot_env\<close> holds what the platform answers at each stage and the compile-time switches.  As in the
  commands, log lines stand in the trace; the ring of the log holds what the logging component itself writes.
\<close>

section \<open>What boot meets and does\<close>

datatype reset_reason =
    ESP_RST_POWERON | ESP_RST_EXT | ESP_RST_SW | ESP_RST_PANIC | ESP_RST_INT_WDT | ESP_RST_TASK_WDT | ESP_RST_WDT
  | ESP_RST_DEEPSLEEP | ESP_RST_BROWNOUT | ESP_RST_UNLISTED nat

datatype esp_chip_model = CHIP_ESP32 | CHIP_ESP32S2 | CHIP_ESP32S3 | CHIP_ESP32C3 | CHIP_UNLISTED nat

record boot_chip =
  bc_model :: esp_chip_model
  bc_revision :: "16 word"
  bc_cores :: "8 word"
  bc_embedded :: bool               \<comment> \<open>\<^verbatim>\<open>CHIP_FEATURE_EMB_FLASH\<close>\<close>
  bc_flash :: "32 word option"      \<comment> \<open>the size read, when it could be\<close>
  bc_idf :: string

record 'v boot_env =
  b_nvs_worn :: bool                \<comment> \<open>NVS reports no free pages or a new version\<close>
  b_log_lock :: "nat option"
  b_log_got :: bool
  b_log_file :: "nat option"
  b_chip :: boot_chip
  b_heap :: "32 word"
  b_reset :: reset_reason
  b_vfs :: "'v vfs"
  b_kernel_lock :: "nat option"
  b_now :: "64 word"
  b_hal :: "bool \<times> nat option \<times> nat option \<times> esp_err \<times> esp_err"
  b_pwm_lock :: "nat option"
  b_timer_lock :: "nat option"
  b_env_lock :: "nat option"
  b_env_nvs :: "esp_err \<times> nat"
  b_env_blob :: "esp_err \<times> env_blob \<times> nat"
  b_sched :: "nat option \<times> nat option \<times> nat option"
  b_ipc_lock :: "nat option"
  b_net_ap :: bool                  \<comment> \<open>the switch of the fallback access point\<close>
  b_net :: net_init_answer
  b_mqtt_lock :: "nat option"
  b_ota_lock :: "nat option"
  b_running :: "partition option"
  b_img :: img_query
  b_web :: bool                     \<comment> \<open>\<^verbatim>\<open>CONFIG_ESP32OS_ENABLE_WEB_PORTAL\<close>\<close>
  b_web_task :: bool
  b_web_start :: "esp_err + nat"
  b_readings :: readings
  b_rssi :: "int option"
  b_ap_ip :: "(ip4 \<times> ip4 \<times> ip4) option"
  b_wdt :: bool                     \<comment> \<open>\<^verbatim>\<open>CONFIG_ESP_TASK_WDT\<close>\<close>
  b_uart_task :: bool
  b_telnet :: bool                  \<comment> \<open>\<^verbatim>\<open>CONFIG_ESP32OS_ENABLE_TELNET\<close>\<close>
  b_credentials :: "string \<times> string"
  b_telnet_task :: bool
  b_monitor :: "32 word \<times> 32 word \<times> nat option" \<comment> \<open>stack unit, tick and handle of the monitor task\<close>

datatype boot_call =
    BNvsInit | BNvsErase | BRestart | BWdtReconfigure "32 word" | BWdtAdd | BWdtReset | BWdtDelete
  | BTelnetTask "16 word"

datatype boot_out =
    BSys cmd_out | BShell session_event | BPortal "portal_call eff" | BCall boot_call | BLog os_log_level string

datatype 'v boot_result =
    Booted "'v world"
  | Restarted    \<comment> \<open>\<^verbatim>\<open>esp_restart()\<close>\<close>
  | Aborted      \<comment> \<open>a failed \<^verbatim>\<open>ESP_ERROR_CHECK\<close>\<close>

section \<open>Watchdog\<close>

definition os_watchdog_feed :: "bool \<Rightarrow> boot_out list" where
  "os_watchdog_feed wdt = (if wdt then [BCall BWdtReset] else [])"

definition os_watchdog_enable :: "bool \<Rightarrow> 32 word \<Rightarrow> boot_out list" where
  "os_watchdog_enable wdt timeout_ms =
     (if wdt then [BCall (BWdtReconfigure timeout_ms), BCall BWdtAdd,
                   BLog OS_LOG_INFO (''Watchdog enabled ('' @ pr_u32 timeout_ms @ '' ms)'')] else [])"

definition os_watchdog_disable :: "bool \<Rightarrow> boot_out list" where
  "os_watchdog_disable wdt = (if wdt then [BCall BWdtDelete, BLog OS_LOG_INFO ''Watchdog disabled''] else [])"

section \<open>Reports\<close>

primrec reset_text :: "reset_reason \<Rightarrow> string" where
  "reset_text ESP_RST_POWERON = ''power-on''"
| "reset_text ESP_RST_EXT = ''external reset''"
| "reset_text ESP_RST_SW = ''software reset''"
| "reset_text ESP_RST_PANIC = ''panic/exception''"
| "reset_text ESP_RST_INT_WDT = ''interrupt watchdog''"
| "reset_text ESP_RST_TASK_WDT = ''task watchdog''"
| "reset_text ESP_RST_WDT = ''other watchdog''"
| "reset_text ESP_RST_DEEPSLEEP = ''deep-sleep wake''"
| "reset_text ESP_RST_BROWNOUT = ''brownout''"
| "reset_text (ESP_RST_UNLISTED n) = ''unknown''"

text \<open>The dash of the warning is three bytes of UTF-8.\<close>

definition check_reset_reason :: "reset_reason \<Rightarrow> boot_out list" where
  "check_reset_reason reason =
     BLog OS_LOG_INFO (''Reset reason: '' @ reset_text reason) #
     (if reason = ESP_RST_PANIC \<or> reason = ESP_RST_INT_WDT \<or> reason = ESP_RST_TASK_WDT
      then [BLog OS_LOG_WARN (''Previous crash detected '' @ [CHR 0xE2, CHR 0x80, CHR 0x94] @ '' check /spiffs/logs/crash.log'')]
      else [])"

primrec chip_text :: "esp_chip_model \<Rightarrow> string" where
  "chip_text CHIP_ESP32 = ''ESP32''"
| "chip_text CHIP_ESP32S2 = ''ESP32-S2''"
| "chip_text CHIP_ESP32S3 = ''ESP32-S3''"
| "chip_text CHIP_ESP32C3 = ''ESP32-C3''"
| "chip_text (CHIP_UNLISTED n) = ''ESP32xx''"

definition rule_text :: string where
  "rule_text = concat (replicate 34 [CHR 0xE2, CHR 0x94, CHR 0x81])"

definition print_boot_info :: "boot_chip \<Rightarrow> 32 word \<Rightarrow> boot_out list" where
  "print_boot_info chip free_heap =
     (let flash_sz = (case bc_flash chip of None \<Rightarrow> 0 | Some n \<Rightarrow> n)
      in map (BLog OS_LOG_INFO)
          [rule_text, ''  ESP32OS v1.0.0  starting up'', ''  IDF: '' @ bc_idf chip,
           ''  Chip: '' @ chip_text (bc_model chip) @ ''  rev '' @ dec (unat (bc_revision chip)) @ ''  cores: '' @
             dec (unat (bc_cores chip)),
           ''  Flash: '' @ pr_u32 (flash_sz div 1048576) @ '' MB  PSRAM: '' @
             (if bc_embedded chip then ''internal'' else ''external''),
           ''  Free heap: '' @ pr_u32 free_heap @ '' bytes'', rule_text])"

text \<open>One round of the monitor task, which then waits for 30 seconds.\<close>

definition system_monitor_round :: "readings \<Rightarrow> kernel \<Rightarrow> boot_out list" where
  "system_monitor_round r k =
     (let st = stats_at r k
      in BLog OS_LOG_DEBUG (''Monitor: heap='' @ pr_u32 (ks_free_heap st) @ ''/'' @ pr_u32 (ks_total_heap st) @
           '' procs='' @ dec (unat (ks_process_count st)) @ '' up='' @ pr_u32 (ks_uptime_ms st div 1000) @ ''s'') #
         (if ks_free_heap st < 8192
          then [BLog OS_LOG_WARN (''LOW HEAP WARNING: '' @ pr_u32 (ks_free_heap st) @ '' bytes free'')] else []))"

section \<open>The stages\<close>

definition sys_power_on :: "'v \<Rightarrow> 'v world" where
  "sys_power_on v =
     \<lparr>w_sys = \<lparr>y_cmds = [], y_kernel = kernel_boot, y_log = log_boot, y_fs = fs_boot v, y_env = env_boot,
        y_timer = timer_boot, y_sched = sched_boot, y_ipc = ipc_boot, y_pwm = pwm_boot, y_mqtt = mqtt_boot,
        y_ota = ota_boot, y_net = net_boot, y_drv = drivers_boot\<rparr>,
      w_portal = portal_boot, w_capture = capture_zero\<rparr>"

text \<open>The line logged for the result of a stage.\<close>

definition outcome :: "esp_err \<Rightarrow> string \<Rightarrow> string \<Rightarrow> boot_out list" where
  "outcome ret good bad = [if ret \<noteq> ESP_OK then BLog OS_LOG_WARN bad else BLog OS_LOG_INFO good]"

text \<open>Stages 1 to 3: non-volatile storage, logging, file system.\<close>

definition boot_storage :: "'v boot_env \<Rightarrow> 'v sys \<Rightarrow> 'v sys \<times> boot_out list" where
  "boot_storage b s =
     (let t1 = [BCall BNvsInit] @ (if b_nvs_worn b then [BCall BNvsErase, BCall BNvsInit] else []);
          (_, l, t2) = os_log_init (b_log_lock b) (b_log_got b) (b_now b) (y_log s);
          l = os_log_set_level OS_LOG_DEBUG l;
          t3 = print_boot_info (b_chip b) (b_heap b) @ check_reset_reason (b_reset b);
          (ret, f, t4) = os_fs_init (b_vfs b) (y_fs s);
          (l', t5) = (if ret \<noteq> ESP_OK then (l, [BLog OS_LOG_ERROR ''FS init failed: %s''])
            else
              let (l', t) = os_log_set_file_output (b_log_file b) (b_log_got b) (b_now b) True l
              in (l', map (BSys \<circ> DLog) t @ [BLog OS_LOG_INFO ''File logging active: /spiffs/system.log'']))
      in (s\<lparr>y_log := l', y_fs := f\<rparr>, t1 @ map (BSys \<circ> DLog) t2 @ t3 @ map (BSys \<circ> DFs) t4 @ t5))"

text \<open>Stages 5 to 5e: drivers, pulse width modulation, timers, environment, scheduler, communication.\<close>

definition boot_services :: "'v boot_env \<Rightarrow> 'v sys \<Rightarrow> 'v sys \<times> boot_out list" where
  "boot_services b s =
     (let (cali, new_unit, new_cali, param, install) = b_hal b;
          (_, d, t1) = os_hal_init cali new_unit new_cali param install (y_drv s);
          (r2, pwm, t2) = os_pwm_init (b_pwm_lock b) (y_pwm s);
          (r3, tm, t3) = os_timer_init (b_timer_lock b) (y_timer s);
          (r4, e, t4) = os_env_init (b_env_lock b) (b_env_nvs b) (b_env_blob b) (y_env s);
          (lk, q, th) = b_sched b;
          (r5, sch, t5) = os_scheduler_init lk q th (y_sched s);
          (r6, ipc, t6) = os_ipc_init (b_ipc_lock b) (y_ipc s)
      in (s\<lparr>y_drv := d, y_pwm := pwm, y_timer := tm, y_env := e, y_sched := sch, y_ipc := ipc\<rparr>,
          map (BSys \<circ> DHw) t1 @
          map (BSys \<circ> DPwm) t2 @ outcome r2 ''PWM initialized'' ''PWM init failed'' @
          map (BSys \<circ> DTimer) t3 @ outcome r3 ''Timer subsystem initialized'' ''Timer init failed'' @
          map (BSys \<circ> DEnv) t4 @ outcome r4 ''Environment store initialized'' ''Environment init failed'' @
          map (BSys \<circ> DSched) t5 @ outcome r5 ''Scheduler initialized'' ''Scheduler init failed'' @
          map (BSys \<circ> DIpc) t6 @ outcome r6 ''IPC initialized'' ''IPC init failed''))"

text \<open>The web portal, when it is compiled in.\<close>

definition boot_portal :: "'v boot_env \<Rightarrow> 'v world \<Rightarrow> 'v world \<times> boot_out list" where
  "boot_portal b w =
     (if \<not> b_web b then (w, [BLog OS_LOG_INFO ''Web portal disabled (secure default)''])
      else
        let s = w_sys w;
            (ret, q, k, t) = webportal_start True (b_web_task b) (b_web_start b) (b_readings b) (y_kernel s) (w_portal w);
            st = os_wifi_get_status (b_rssi b) (b_ap_ip b) (y_net s)
        in (w\<lparr>w_sys := s\<lparr>y_kernel := k\<rparr>, w_portal := q\<rparr>,
            map BPortal t @
            [if ret \<noteq> ESP_OK then BLog OS_LOG_WARN ''Web portal failed to start''
             else if ns_ip st \<noteq> [] then BLog OS_LOG_INFO (''Web portal: http://'' @ ns_ip st @ ''/'')
             else BLog OS_LOG_INFO ''Web portal started, but no IP assigned yet'']))"

text \<open>Stage 6, with MQTT, updates and the portal, which need the network.\<close>

definition boot_network :: "'v boot_env \<Rightarrow> 'v world \<Rightarrow> ('v world \<times> boot_out list) option" where
  "boot_network b w =
     (case os_net_init (b_net_ap b) (b_net b) (y_net (w_sys w)) of
        None \<Rightarrow> None
      | Some (ret, n, t1) \<Rightarrow>
          let s = (w_sys w)\<lparr>y_net := n\<rparr> in
          if ret \<noteq> ESP_OK
          then Some (w\<lparr>w_sys := s\<rparr>, map (BSys \<circ> DNet) t1 @
            [BLog OS_LOG_WARN (''Network init failed '' @ [CHR 0xE2, CHR 0x80, CHR 0x94] @ '' WiFi/telnet unavailable''),
             BLog OS_LOG_WARN ''Skipping MQTT init due to network initialization failure'',
             BLog OS_LOG_WARN ''Skipping OTA init due to network initialization failure''])
          else
            let (r2, m, t2) = os_mqtt_init (b_mqtt_lock b) (y_mqtt s);
                (r3, o', t3) = os_ota_init (b_ota_lock b) (b_running b) (b_img b) (y_ota s);
                confirm = (if r3 = ESP_OK \<and> os_ota_needs_confirmation (b_running b) (b_img b) o'
                  then [BLog OS_LOG_WARN ''Firmware needs confirmation! Run: ota confirm''] else []);
                (w', t4) = boot_portal b (w\<lparr>w_sys := s\<lparr>y_mqtt := m, y_ota := o'\<rparr>\<rparr>)
            in Some (w', map (BSys \<circ> DNet) t1 @
                 map (BSys \<circ> DMqtt) t2 @ outcome r2 ''MQTT initialized'' ''MQTT init failed'' @
                 map (BSys \<circ> DOta) t3 @ outcome r3 ''OTA initialized'' ''OTA init failed'' @ confirm @ t4))"

text \<open>Stages 7 to 11: watchdog, commands, the UART shell, telnet, the monitor task.\<close>

definition boot_shell :: "'v boot_env \<Rightarrow> 'v sys \<Rightarrow> 'v sys \<times> boot_out list" where
  "boot_shell b s =
     (let t1 = os_watchdog_enable (b_wdt b) 30000;
          (_, t2) = shell_init;
          r3 = shell_start_uart (b_uart_task b);
          t3 = [if r3 \<noteq> ESP_OK then BLog OS_LOG_ERROR ''Failed to start UART shell''
                else BLog OS_LOG_INFO ''UART shell started (115200 baud, UART0)''];
          t4 = (if b_telnet b
            then
              let (r, port) = shell_start_telnet True (fst (b_credentials b)) (snd (b_credentials b)) (b_telnet_task b) 2222
              in (case port of None \<Rightarrow> [] | Some q \<Rightarrow> [BCall (BTelnetTask q)]) @
                 [if r \<noteq> ESP_OK then BLog OS_LOG_WARN ''Telnet failed to start; check local credentials''
                  else BLog OS_LOG_WARN ''Telnet listening on port 2222; traffic is NOT encrypted'']
            else [BLog OS_LOG_INFO ''Telnet disabled (secure default); use UART shell'']);
          (stk, tick, task) = b_monitor b;
          (_, k, t5) = os_process_create stk tick task (Some ''sys_monitor'') (Some 0) 0 4096 3 True (y_kernel s)
      in (s\<lparr>y_cmds := shell_commands_register_all (y_cmds s), y_kernel := k\<rparr>,
          t1 @ map BShell t2 @ t3 @ t4 @ map (BSys \<circ> DKernel) t5 @
          [BLog OS_LOG_INFO ''Boot complete.  All services running.'']))"

text \<open>\<open>app_main\<close> up to the loop in which it feeds the watchdog every second.\<close>

definition app_main :: "'v boot_env \<Rightarrow> 'v world \<Rightarrow> 'v boot_result \<times> boot_out list" where
  "app_main b w =
     (let (s1, t1) = boot_storage b (w_sys w);
          (ret, k, t2) = os_kernel_init (b_kernel_lock b) (b_now b) (y_kernel s1);
          t = t1 @ map (BSys \<circ> DKernel) t2
      in if ret \<noteq> ESP_OK then (Restarted, t @ [BLog OS_LOG_ERROR ''Kernel init failed: %s'', BCall BRestart])
         else
           let (s3, t3) = boot_services b (s1\<lparr>y_kernel := k\<rparr>)
           in case boot_network b (w\<lparr>w_sys := s3\<rparr>) of
                None \<Rightarrow> (Aborted, t @ t3)
              | Some (w4, t4) \<Rightarrow>
                  let (s5, t5) = boot_shell b (w_sys w4)
                  in (Booted (w4\<lparr>w_sys := s5\<rparr>), t @ t3 @ t4 @ t5))"

section \<open>The system after boot\<close>

lemma power_on_inv: "world_inv (sys_power_on v)"
proof -
  have "kernel_wf kernel_boot"
    by (simp add: kernel_wf_def kernel_boot_def proc_zero_def OS_PROC_NAME_LEN_def list_all_iff)
  moreover have "fs_wf (fs_boot v)" by (simp add: fs_wf_def fs_boot_def OS_FS_CWD_MAX_def)
  moreover have "timer_slots_ok timer_boot" by (simp add: timer_slots_ok_def timer_boot_def list_all_iff)
  moreover have "sched_wf sched_boot" by (simp add: sched_wf_def sched_boot_def list_all_iff)
  moreover have "drivers_ok drivers_boot" by (simp add: drivers_ok_def drivers_boot_def gpio_boot_def)
  ultimately show ?thesis
    by (simp add: world_inv_def sys_power_on_def sys_inv_def commands_ok_def env_boot_wf ipc_boot_wf pwm_boot_inv
        mqtt_boot_wf net_ok_boot portal_inv_boot capture_zero_def)
qed

lemma os_kernel_init_wf: "kernel_wf k \<Longrightarrow> kernel_wf (fst (snd (os_kernel_init lk now k)))"
  using k_step_wf [of k "KInit lk now"] by simp

lemma net_ok_updates:
  "net_ok (n\<lparr>n_netif_sta := x\<rparr>) = net_ok n" "net_ok (n\<lparr>n_netif_ap := x\<rparr>) = net_ok n"
  "net_ok (n\<lparr>n_events := g\<rparr>) = net_ok n" "net_ok (n\<lparr>n_initialised := i\<rparr>) = net_ok n"
  by (simp_all add: net_ok_def)

lemma os_net_init_ok:
  assumes "os_net_init ap a s = Some (r, s', tr)" and "net_ok s"
  shows "net_ok s'"
  using assms
  apply (simp add: os_net_init_def Let_def split: if_split_asm option.split_asm prod.split_asm)
  apply (auto simp: net_ok_updates)
  apply ((drule os_wifi_connect_ok [rotated], simp add: net_ok_updates, simp)+)
  done

lemma os_hal_init_ok: "drivers_ok d \<Longrightarrow> drivers_ok (fst (snd (os_hal_init a b c e f d)))"
  by (simp add: os_hal_init_def split_beta Let_def drivers_ok_def gpio_driver_init_def)

lemma boot_storage_keeps: "sys_inv s \<Longrightarrow> sys_inv (fst (boot_storage b s))"
  by (simp add: boot_storage_def split_beta Let_def sys_inv_updates sys_invD fs_keeps)

lemma boot_services_keeps:
  assumes "sys_inv s" and "blob_ok (fst (snd (b_env_blob b)))"
  shows "sys_inv (fst (boot_services b s))"
  using assms os_env_init_wf [OF sys_invD(3) [OF assms(1)] assms(2)]
  by (simp add: boot_services_def split_beta Let_def sys_inv_updates sys_invD os_hal_init_ok pwm_keeps timer_keeps sched_keeps ipc_keeps)

lemma webportal_start_keeps:
  assumes "kernel_wf k" and "portal_inv 0 q" and "webportal_start en task st r k q = (ret, q', k', tr)"
  shows "kernel_wf k' \<and> portal_inv 0 q'"
proof -
  let ?c = "telemetry_capture_sample r k q"
  have "kernel_wf (fst (snd ?c))" "portal_inv 0 (fst ?c)" using capture_sample_keeps assms(1,2) by auto
  then have "portal_inv 0 (fst ?c\<lparr>wp_server := h\<rparr>)" "portal_inv 0 (fst ?c\<lparr>wp_sampler := True, wp_server := h\<rparr>)"
      "portal_inv 0 (q\<lparr>wp_server := h\<rparr>)" for h
    using assms(2) by (simp_all add: portal_inv_def)
  with assms \<open>kernel_wf (fst (snd ?c))\<close> show ?thesis
    by (auto simp: webportal_start_def split_beta split: if_splits sum.splits)
qed

lemma boot_portal_keeps:
  assumes "world_inv w"
  shows "world_inv (fst (boot_portal b w))"
proof -
  obtain ret q k tr where q: "webportal_start True (b_web_task b) (b_web_start b) (b_readings b) (y_kernel (w_sys w)) (w_portal w) = (ret, q, k, tr)"
    by (metis prod_cases4)
  have "kernel_wf k \<and> portal_inv 0 q"
    using webportal_start_keeps [OF _ _ q] assms sys_invD(1) [of "w_sys w"] by (auto simp: world_inv_def)
  with assms q show ?thesis
    by (simp add: boot_portal_def world_inv_def sys_inv_updates Let_def)
qed

lemma boot_network_keeps:
  assumes "world_inv w" and "boot_network b w = Some (w', tr)"
  shows "world_inv w'"
proof -
  have s: "sys_inv (w_sys w)" using assms(1) by (simp add: world_inv_def)
  obtain ret n t1 where n: "os_net_init (b_net_ap b) (b_net b) (y_net (w_sys w)) = Some (ret, n, t1)"
    using assms(2) by (cases "os_net_init (b_net_ap b) (b_net b) (y_net (w_sys w))") (auto simp: boot_network_def)
  have "sys_inv ((w_sys w)\<lparr>y_net := n\<rparr>)" using os_net_init_ok [OF n] sys_invD(9) [OF s] sys_inv_updates(9) [OF s] by blast
  moreover from this have "sys_inv ((w_sys w)\<lparr>y_net := n, y_mqtt := fst (snd (os_mqtt_init lk (y_mqtt (w_sys w)))), y_ota := o'\<rparr>)"
    for lk o'
    using mqtt_keeps(6) [OF sys_invD(8) [OF s], of lk] by (simp add: sys_inv_updates)
  ultimately have inv: "world_inv (w\<lparr>w_sys := (w_sys w)\<lparr>y_net := n\<rparr>\<rparr>)"
      "world_inv (w\<lparr>w_sys := (w_sys w)\<lparr>y_net := n, y_mqtt := fst (snd (os_mqtt_init lk (y_mqtt (w_sys w)))), y_ota := o'\<rparr>\<rparr>)"
    for lk o'
    using assms(1) by (simp_all add: world_inv_def)
  show ?thesis
  proof (cases "ret = ESP_OK")
    case True
    then have "w' = fst (boot_portal b (w\<lparr>w_sys := (w_sys w)\<lparr>y_net := n,
        y_mqtt := fst (snd (os_mqtt_init (b_mqtt_lock b) (y_mqtt (w_sys w)))),
        y_ota := fst (snd (os_ota_init (b_ota_lock b) (b_running b) (b_img b) (y_ota (w_sys w))))\<rparr>\<rparr>))"
      using assms(2) n by (simp add: boot_network_def split_beta Let_def)
    then show ?thesis using boot_portal_keeps [OF inv(2)] by simp
  next
    case False
    then have "w' = w\<lparr>w_sys := (w_sys w)\<lparr>y_net := n\<rparr>\<rparr>"
      using assms(2) n by (simp add: boot_network_def split_beta Let_def)
    then show ?thesis using inv(1) by simp
  qed
qed

lemma boot_shell_keeps: "sys_inv s \<Longrightarrow> y_cmds s = [] \<Longrightarrow> sys_inv (fst (boot_shell b s))"
  by (simp add: boot_shell_def split_beta Let_def sys_inv_updates sys_invD kernel_keeps commands_ok_builtins)

lemma boot_cmds:
  "y_cmds (fst (boot_storage b s)) = y_cmds s" "y_cmds (fst (boot_services b s)) = y_cmds s"
  "y_cmds (w_sys (fst (boot_portal b w))) = y_cmds (w_sys w)"
  by (simp_all add: boot_storage_def boot_services_def boot_portal_def split_beta Let_def)

lemma boot_network_cmds: "boot_network b w = Some (w', tr) \<Longrightarrow> y_cmds (w_sys w') = y_cmds (w_sys w)"
  by (auto simp: boot_network_def split_beta Let_def boot_cmds split: option.splits if_splits)

text \<open>The states between the stages of a boot that is carried through.\<close>

lemma app_main_stages:
  assumes "app_main b w = (Booted w', tr)"
  obtains s1 lk s3 w4 t4 where "s1 = fst (boot_storage b (w_sys w))" and "b_kernel_lock b = Some lk \<or> k_initialised (y_kernel s1)"
    and "s3 = fst (boot_services b (s1\<lparr>y_kernel := fst (snd (os_kernel_init (b_kernel_lock b) (b_now b) (y_kernel s1)))\<rparr>))"
    and "boot_network b (w\<lparr>w_sys := s3\<rparr>) = Some (w4, t4)" and "w' = w4\<lparr>w_sys := fst (boot_shell b (w_sys w4))\<rparr>"
  using assms
  by (cases "b_kernel_lock b")
    (auto simp: app_main_def split_beta Let_def os_kernel_init_def split: if_splits option.splits)

lemma boot_inv:
  assumes "blob_ok (fst (snd (b_env_blob b)))" and "app_main b (sys_power_on v) = (Booted w, tr)"
  shows "world_inv w"
proof -
  from app_main_stages [OF assms(2)] obtain s1 s3 w4 t4 where s1: "s1 = fst (boot_storage b (w_sys (sys_power_on v)))"
    and s3: "s3 = fst (boot_services b (s1\<lparr>y_kernel := fst (snd (os_kernel_init (b_kernel_lock b) (b_now b) (y_kernel s1)))\<rparr>))"
    and w4: "boot_network b ((sys_power_on v)\<lparr>w_sys := s3\<rparr>) = Some (w4, t4)"
    and w: "w = w4\<lparr>w_sys := fst (boot_shell b (w_sys w4))\<rparr>"
    by metis
  note p = power_on_inv [of v]
  have "sys_inv s1" unfolding s1 using p by (simp add: world_inv_def boot_storage_keeps)
  then have "sys_inv (s1\<lparr>y_kernel := fst (snd (os_kernel_init (b_kernel_lock b) (b_now b) (y_kernel s1)))\<rparr>)"
    by (simp add: sys_inv_updates os_kernel_init_wf sys_invD)
  then have "sys_inv s3" unfolding s3 by (rule boot_services_keeps) (rule assms(1))
  then have "world_inv w4" using boot_network_keeps [OF _ w4] p by (simp add: world_inv_def)
  moreover have "y_cmds (w_sys w4) = []"
    using boot_network_cmds [OF w4] s3 s1 by (simp add: boot_cmds sys_power_on_def)
  ultimately show ?thesis unfolding w world_inv_def by (simp add: boot_shell_keeps)
qed

text \<open>Where the network's start fails a checked call, and which services are up after boot.\<close>

definition net_aborts :: "bool \<Rightarrow> net_init_answer \<Rightarrow> bool" where
  "net_aborts ap a \<longleftrightarrow>
     \<not> list_all (\<lambda>r. r = ESP_OK) (ni_checked a) \<or>
     ni_sta a \<noteq> None \<and> (\<not> ap \<or> ni_ap a \<noteq> None) \<and>
       (\<not> list_all (\<lambda>r. r = ESP_OK) (ni_wifi a) \<or>
        ni_nvs a \<and> (case ni_saved a of None \<Rightarrow> False | Some (ssid, _) \<Rightarrow> ssid \<noteq> []) \<and> ni_set_config a \<noteq> ESP_OK)"

definition local_services_up :: "'v boot_env \<Rightarrow> 'v \<Rightarrow> 'v sys \<Rightarrow> bool" where
  "local_services_up b v s \<longleftrightarrow>
     (lg_initialised (y_log s) \<longleftrightarrow> b_log_lock b \<noteq> None) \<and>
     (f_initialised (y_fs s) \<longleftrightarrow> fst (vfs_register (b_vfs b) v) = ESP_OK) \<and>
     (pw_initialized (y_pwm s) \<longleftrightarrow> b_pwm_lock b \<noteq> None) \<and>
     (ts_initialised (y_timer s) \<longleftrightarrow> b_timer_lock b \<noteq> None) \<and>
     (e_initialised (y_env s) \<longleftrightarrow> b_env_lock b \<noteq> None \<and> fst (b_env_nvs b) = ESP_OK) \<and>
     (s_initialised (y_sched s) \<longleftrightarrow> fst (b_sched b) \<noteq> None \<and> fst (snd (b_sched b)) \<noteq> None \<and> snd (snd (b_sched b)) \<noteq> None) \<and>
     (i_initialized (y_ipc s) \<longleftrightarrow> b_ipc_lock b \<noteq> None)"

definition net_services_up :: "'v boot_env \<Rightarrow> 'v world \<Rightarrow> bool" where
  "net_services_up b w \<longleftrightarrow>
     (let up = n_initialised (y_net (w_sys w))
      in (up \<longleftrightarrow> ni_sta (b_net b) \<noteq> None \<and> (\<not> b_net_ap b \<or> ni_ap (b_net b) \<noteq> None)) \<and>
         (mq_initialized (y_mqtt (w_sys w)) \<longleftrightarrow> up \<and> b_mqtt_lock b \<noteq> None) \<and>
         (o_initialized (y_ota (w_sys w)) \<longleftrightarrow> up \<and> b_ota_lock b \<noteq> None) \<and>
         (wp_server (w_portal w) \<noteq> None \<longleftrightarrow> up \<and> b_web b \<and> \<not> isl (b_web_start b)))"

lemma mkdir_initialised [simp]: "f_initialised (fst (snd (os_fs_mkdir V p s))) = f_initialised s"
  by (simp add: os_fs_mkdir_def split_beta Let_def split: option.split)

lemma log_write_initialised [simp]: "lg_initialised (fst (os_log_write g n l t m s)) = lg_initialised s"
  by (simp add: os_log_write_def os_log_write_v_def Let_def)

lemma log_init_initialised [simp]:
  "lg_initialised (fst (snd (os_log_init lk g n log_boot))) = (lk \<noteq> None)"
  "lg_initialised (fst (os_log_set_file_output f g n e s)) = lg_initialised s"
  "lg_initialised (os_log_set_level l s) = lg_initialised s"
  by (simp_all add: os_log_init_def os_log_set_file_output_def os_log_set_level_def split_beta Let_def log_boot_def split: option.split)

lemma boot_storage_up:
  assumes "s = fst (boot_storage b (w_sys (sys_power_on v)))"
  shows "lg_initialised (y_log s) = (b_log_lock b \<noteq> None)"
    and "f_initialised (y_fs s) = (fst (vfs_register (b_vfs b) v) = ESP_OK)"
    and "s = (w_sys (sys_power_on v))\<lparr>y_log := y_log s, y_fs := y_fs s\<rparr>"
  using assms
  by (simp_all add: boot_storage_def sys_power_on_def split_beta Let_def os_fs_init_def fs_boot_def)

lemma boot_services_up:
  assumes "s1 = (w_sys (sys_power_on v))\<lparr>y_log := l, y_fs := f, y_kernel := k\<rparr>" and "s3 = fst (boot_services b s1)"
    and "lg_initialised l = (b_log_lock b \<noteq> None)" and "f_initialised f = (fst (vfs_register (b_vfs b) v) = ESP_OK)"
  shows "local_services_up b v s3" and "y_kernel s3 = k" and "y_cmds s3 = []" and "y_net s3 = net_boot"
    and "y_mqtt s3 = mqtt_boot" and "y_ota s3 = ota_boot"
proof -
  have "pw_initialized (fst (snd (os_pwm_init lk pwm_boot))) = (lk \<noteq> None)" for lk
    by (simp add: os_pwm_init_def pwm_boot_def split: option.split)
  moreover have "ts_initialised (fst (snd (os_timer_init lk timer_boot))) = (lk \<noteq> None)" for lk
    by (simp add: os_timer_init_def timer_boot_def split: option.split)
  moreover have "e_initialised (fst (snd (os_env_init lk no ng env_boot))) = (lk \<noteq> None \<and> fst no = ESP_OK)" for lk no ng
    by (simp add: os_env_init_def env_boot_def env_load_locked_def split_beta Let_def split: option.split)
  moreover have "s_initialised (fst (snd (os_scheduler_init lk q th sched_boot))) = (lk \<noteq> None \<and> q \<noteq> None \<and> th \<noteq> None)" for lk q th
    by (simp add: os_scheduler_init_def sched_boot_def split_beta Let_def split: option.split)
  moreover have "i_initialized (fst (snd (os_ipc_init lk ipc_boot))) = (lk \<noteq> None)" for lk
    by (simp add: os_ipc_init_def ipc_boot_def split: option.split)
  ultimately show "local_services_up b v s3"
    using assms by (simp add: boot_services_def split_beta Let_def local_services_up_def sys_power_on_def)
qed (use assms in \<open>simp_all add: boot_services_def split_beta Let_def sys_power_on_def\<close>)

lemma os_wifi_connect_aborts:
  "os_wifi_connect c evs (Some n) pw s = None \<longleftrightarrow> n_initialised s \<and> c \<noteq> ESP_OK"
  by (simp add: os_wifi_connect_def split_beta Let_def)

lemma os_net_init_aborts: "os_net_init ap a net_boot = None \<longleftrightarrow> net_aborts ap a"
  by (auto simp: os_net_init_def net_aborts_def net_boot_def split_beta Let_def os_wifi_connect_aborts split: option.splits)

lemma os_net_init_up:
  assumes "os_net_init ap a net_boot = Some (ret, n, tr)"
  shows "n_initialised n \<longleftrightarrow> ni_sta a \<noteq> None \<and> (\<not> ap \<or> ni_ap a \<noteq> None)" and "ret = ESP_OK \<longleftrightarrow> n_initialised n"
  using assms
  apply (simp_all add: os_net_init_def Let_def net_boot_def split: if_split_asm option.split_asm prod.split_asm)
  apply (auto simp: net_ok_def WIFI_MAX_RETRY_def dest!: os_wifi_connect_ok [rotated])
  done

lemma list_at_initialised [simp]: "k_initialised (fst (snd (list_at r k))) = k_initialised k"
  by (simp add: list_at_def os_process_list_def refresh_entries_locked_def split_beta Let_def)

lemma webportal_start_up:
  "k_initialised (fst (snd (snd (webportal_start en task st r k q)))) = k_initialised k"
  "wp_server q = None \<Longrightarrow>
     wp_server (fst (snd (webportal_start True task st r k q))) \<noteq> None \<longleftrightarrow> \<not> isl st"
  by (cases st; simp add: webportal_start_def telemetry_capture_sample_def split_beta Let_def)+

lemma boot_portal_up:
  "w_sys (fst (boot_portal b w)) = (w_sys w)\<lparr>y_kernel := y_kernel (w_sys (fst (boot_portal b w)))\<rparr>"
  "k_initialised (y_kernel (w_sys (fst (boot_portal b w)))) = k_initialised (y_kernel (w_sys w))"
  "w_portal w = portal_boot \<Longrightarrow>
     wp_server (w_portal (fst (boot_portal b w))) \<noteq> None \<longleftrightarrow> b_web b \<and> \<not> isl (b_web_start b)"
  using webportal_start_up(2) [of "w_portal w"]
  by (simp_all add: boot_portal_def split_beta Let_def webportal_start_up(1) portal_boot_def)

lemma boot_network_up:
  assumes "boot_network b w = Some (w', tr)" and "y_net (w_sys w) = net_boot" and "y_mqtt (w_sys w) = mqtt_boot"
    and "y_ota (w_sys w) = ota_boot" and "w_portal w = portal_boot"
  shows "net_services_up b w'" and "local_services_up b v (w_sys w') = local_services_up b v (w_sys w)"
    and "k_initialised (y_kernel (w_sys w')) = k_initialised (y_kernel (w_sys w))"
proof -
  obtain ret n t1 where n: "os_net_init (b_net_ap b) (b_net b) net_boot = Some (ret, n, t1)"
    using assms(1,2) by (cases "os_net_init (b_net_ap b) (b_net b) net_boot") (auto simp: boot_network_def)
  have m: "mq_initialized (fst (snd (os_mqtt_init lk mqtt_boot))) = (lk \<noteq> None)" for lk
    by (simp add: os_mqtt_init_def mqtt_boot_def split: option.split)
  have o': "o_initialized (fst (snd (os_ota_init lk r i ota_boot))) = (lk \<noteq> None)" for lk r i
    by (simp add: os_ota_init_def ota_boot_def split_beta Let_def split: option.split)
  have "net_services_up b w' \<and> local_services_up b v (w_sys w') = local_services_up b v (w_sys w) \<and>
      k_initialised (y_kernel (w_sys w')) = k_initialised (y_kernel (w_sys w))"
  proof (cases "ret = ESP_OK")
    case True
    let ?s = "(w_sys w)\<lparr>y_net := n, y_mqtt := fst (snd (os_mqtt_init (b_mqtt_lock b) mqtt_boot)),
        y_ota := fst (snd (os_ota_init (b_ota_lock b) (b_running b) (b_img b) ota_boot))\<rparr>"
    let ?w = "w\<lparr>w_sys := ?s\<rparr>"
    have w': "w' = fst (boot_portal b ?w)"
      using True assms(1-4) n by (simp add: boot_network_def split_beta Let_def)
    have s: "w_sys w' = ?s\<lparr>y_kernel := y_kernel (w_sys w')\<rparr>"
      using boot_portal_up(1) [of b ?w] by (simp only: w') simp
    have "y_net (w_sys w') = n" "y_mqtt (w_sys w') = y_mqtt ?s" "y_ota (w_sys w') = y_ota ?s"
      using arg_cong [OF s, of y_net] arg_cong [OF s, of y_mqtt] arg_cong [OF s, of y_ota] by simp_all
    then have "net_services_up b w'"
      using boot_portal_up(3) [of ?w b] assms(5) m o' os_net_init_up [OF n] True
      unfolding net_services_up_def Let_def w' [symmetric] by simp
    moreover have "local_services_up b v (w_sys w') = local_services_up b v (w_sys w)"
      by (subst s) (simp add: local_services_up_def)
    ultimately show ?thesis using boot_portal_up(2) [of b ?w] by (simp add: w')
  next
    case False
    then have w': "w' = w\<lparr>w_sys := (w_sys w)\<lparr>y_net := n\<rparr>\<rparr>"
      using assms(1,2) n by (simp add: boot_network_def split_beta Let_def)
    then show ?thesis
      using False assms(3-5) os_net_init_up [OF n]
      by (auto simp: net_services_up_def local_services_up_def mqtt_boot_def ota_boot_def portal_boot_def)
  qed
  then show "net_services_up b w'" and "local_services_up b v (w_sys w') = local_services_up b v (w_sys w)"
    and "k_initialised (y_kernel (w_sys w')) = k_initialised (y_kernel (w_sys w))" by simp_all
qed

lemma boot_shell_up:
  "local_services_up b v (fst (boot_shell b s)) = local_services_up b v s"
  "net_services_up b (w\<lparr>w_sys := fst (boot_shell b (w_sys w))\<rparr>) = net_services_up b w"
  "y_cmds (fst (boot_shell b s)) = shell_commands_register_all (y_cmds s)"
  by (simp_all add: boot_shell_def split_beta Let_def local_services_up_def net_services_up_def)

lemma process_create_initialised [simp]:
  "k_initialised (fst (snd (os_process_create a c d e f g h i j k))) = k_initialised k"
  by (simp add: os_process_create_def split_beta Let_def split: option.split)

lemma boot_shell_kernel [simp]: "k_initialised (y_kernel (fst (boot_shell b s))) = k_initialised (y_kernel s)"
  by (simp add: boot_shell_def split_beta Let_def)

lemma app_main_outcome:
  "case fst (app_main b (sys_power_on v)) of
     Restarted \<Rightarrow> b_kernel_lock b = None
   | Aborted \<Rightarrow> b_kernel_lock b \<noteq> None \<and> net_aborts (b_net_ap b) (b_net b)
   | Booted w \<Rightarrow> b_kernel_lock b \<noteq> None \<and> \<not> net_aborts (b_net_ap b) (b_net b) \<and>
       k_initialised (y_kernel (w_sys w)) \<and> y_cmds (w_sys w) = shell_commands_register_all [] \<and>
       local_services_up b v (w_sys w) \<and> net_services_up b w"
proof (cases "b_kernel_lock b")
  case None
  then show ?thesis
    by (simp add: app_main_def boot_storage_def sys_power_on_def os_kernel_init_def kernel_boot_def split_beta Let_def)
next
  case (Some lk)
  let ?w0 = "sys_power_on v" and ?s1 = "fst (boot_storage b (w_sys (sys_power_on v)))"
  let ?k = "fst (snd (os_kernel_init (b_kernel_lock b) (b_now b) (y_kernel ?s1)))"
  let ?s2 = "?s1\<lparr>y_kernel := ?k\<rparr>"
  let ?s3 = "fst (boot_services b ?s2)"
  note s1 = boot_storage_up [OF refl, of b v]
  have kern: "y_kernel ?s1 = kernel_boot"
    using arg_cong [OF s1(3), of y_kernel] by (simp add: sys_power_on_def)
  have k: "fst (os_kernel_init (b_kernel_lock b) (b_now b) (y_kernel ?s1)) = ESP_OK" "k_initialised ?k"
    unfolding kern using Some by (simp_all add: os_kernel_init_def kernel_boot_def)
  have s2: "?s2 = (w_sys ?w0)\<lparr>y_log := y_log ?s1, y_fs := y_fs ?s1, y_kernel := ?k\<rparr>"
    using arg_cong [OF s1(3), of "\<lambda>s. s\<lparr>y_kernel := ?k\<rparr>"] by simp
  note s3 = boot_services_up [OF s2 refl s1(1,2)]
  have main: "fst (app_main b ?w0) = (case boot_network b (?w0\<lparr>w_sys := ?s3\<rparr>) of None \<Rightarrow> Aborted
      | Some (w4, t4) \<Rightarrow> Booted (w4\<lparr>w_sys := fst (boot_shell b (w_sys w4))\<rparr>))"
    using k(1) by (simp add: app_main_def split_beta Let_def split: option.split)
  have none: "boot_network b (?w0\<lparr>w_sys := ?s3\<rparr>) = None \<longleftrightarrow> net_aborts (b_net_ap b) (b_net b)"
    using s3(4) by (auto simp: boot_network_def os_net_init_aborts [symmetric] split_beta Let_def split: option.split)
  show ?thesis
  proof (cases "boot_network b (?w0\<lparr>w_sys := ?s3\<rparr>)")
    case None
    with main none Some show ?thesis by simp
  next
    case (Some x)
    obtain w4 t4 where x: "x = (w4, t4)" by (cases x)
    note w4 = boot_network_up [OF Some [unfolded x]]
    have "net_services_up b w4" "local_services_up b v (w_sys w4)" "k_initialised (y_kernel (w_sys w4))"
      using w4 s3 k(2) by (simp_all add: sys_power_on_def)
    moreover have "y_cmds (w_sys w4) = []" using boot_network_cmds [OF Some [unfolded x]] s3(3) by simp
    ultimately show ?thesis
      using main none Some x \<open>b_kernel_lock b = Some lk\<close> by (simp add: boot_shell_up)
  qed
qed



section \<open>Examples\<close>

text \<open>A device on which everything answers, with telnet and the web portal compiled in.\<close>

definition demo_readings :: readings where
  "demo_readings = \<lparr>rd_free = 100000, rd_min_free = 90000, rd_total = 200000, rd_largest = 50000, rd_now = 1000000,
     rd_stack_unit = 1, rd_probe = (\<lambda>_. (EReady, 5, 100))\<rparr>"

definition demo_boot :: "mem boot_env" where
  "demo_boot =
     \<lparr>b_nvs_worn = False, b_log_lock = Some 1, b_log_got = True, b_log_file = Some 2,
      b_chip = \<lparr>bc_model = CHIP_ESP32, bc_revision = 300, bc_cores = 2, bc_embedded = False, bc_flash = Some 4194304, bc_idf = ''v5.3''\<rparr>,
      b_heap = 200000, b_reset = ESP_RST_POWERON, b_vfs = mem_vfs, b_kernel_lock = Some 3, b_now = 1000,
      b_hal = (True, Some 4, Some 5, ESP_OK, ESP_OK), b_pwm_lock = Some 6, b_timer_lock = Some 7, b_env_lock = Some 8,
      b_env_nvs = (ESP_OK, 9), b_env_blob = (ESP_ERR_NOT_FOUND, \<lparr>blob_count = 0, blob_entries = replicate OS_ENV_MAX_VARS env_zero\<rparr>, 0),
      b_sched = (Some 10, Some 11, Some 12), b_ipc_lock = Some 13, b_net_ap = False,
      b_net = \<lparr>ni_checked = [ESP_OK, ESP_OK], ni_sta = Some 14, ni_ap = None, ni_wifi = [ESP_OK, ESP_OK, ESP_OK, ESP_OK],
        ni_group = Some 15, ni_nvs = False, ni_saved = None, ni_set_config = ESP_OK, ni_events = []\<rparr>,
      b_mqtt_lock = Some 16, b_ota_lock = Some 17, b_running = None, b_img = (\<lambda>_. (ESP_FAIL, ESP_OTA_IMG_OTHER 0)),
      b_web = True, b_web_task = True, b_web_start = Inr 18, b_readings = demo_readings, b_rssi = None, b_ap_ip = None,
      b_wdt = True, b_uart_task = True, b_telnet = True, b_credentials = (''admin'', ''secret''), b_telnet_task = True,
      b_monitor = (1, 0, Some 19)\<rparr>"

lemma demo_blob_ok: "blob_ok (fst (snd (b_env_blob demo_boot)))"
  by (simp add: demo_boot_def blob_ok_def list_all_iff)

lemma demo_boots: "\<exists>w tr. app_main demo_boot (sys_power_on (Map.empty, [])) = (Booted w, tr)"
proof -
  obtain r tr where r: "app_main demo_boot (sys_power_on (Map.empty, [])) = (r, tr)"
    by (cases "app_main demo_boot (sys_power_on (Map.empty, []))")
  have "b_kernel_lock demo_boot \<noteq> None" "\<not> net_aborts (b_net_ap demo_boot) (b_net demo_boot)"
    by (simp_all add: demo_boot_def net_aborts_def)
  then show ?thesis using app_main_outcome [of demo_boot "(Map.empty, [])"] r by (cases r) auto
qed

definition demo_platform :: "mem platform" where
  "demo_platform =
     \<lparr>pl_vfs = mem_vfs, pl_read = demo_readings, pl_ticks = (\<lambda>ms. ms), pl_err_name = (\<lambda>_. ''ESP_FAIL''),
      pl_chip = \<lparr>ch_model = 1, ch_wifi = True, ch_cores = 2, ch_idf = ''v5.3'', ch_flash = 4194304\<rparr>,
      pl_handle = Some 30, pl_done = True, pl_ret = ESP_OK, pl_ret2 = ESP_OK, pl_msg_id = 1, pl_mac = (1, 2, 3),
      pl_bits = 1, pl_text = [], pl_address = 64, pl_boot = None, pl_running = None,
      pl_img = (\<lambda>_. (ESP_FAIL, ESP_OTA_IMG_OTHER 0)), pl_events = [], pl_scan = (True, True, 0, True, \<lambda>_. []),
      pl_rssi = None, pl_ap_ip = None, pl_ping = (True, True, True, \<lambda>_. NoReply), pl_http = (True, True, \<lambda>_. None),
      pl_gpio_ok = (\<lambda>_. True), pl_level = (\<lambda>_. 0), pl_adc = (True, Some 4, Some 5), pl_adc_read = (\<lambda>_ _. Some 7),
      pl_adc_mv = (\<lambda>_ _. Some 8), pl_acks = (\<lambda>_. False), pl_bytes = [], pl_nvs = (\<lambda>_. None),
      pl_float = (\<lambda>_ _ _. ''0''), pl_now_us = 1000000, pl_logfile = None, pl_got = True, pl_stack = (1, 0)\<rparr>"

lemma execute_line_short:
  assumes "length line < SHELL_MAX_LINE_LEN - 1" and "nul \<notin> set line"
  shows "\<exists>ret s' texts. execute_line p fd (Some line) s = Some (ret, s', texts)"
  using shell_execute_defined [OF assms] by (auto simp: execute_line_def split: option.split)


end
