(* ===== verification/Scenarios.thy ===== *)
theory Scenarios
  imports Boot
begin

text \<open>
  Lines executed one after the other: how a written command reaches its function, and what two commands
  that share a component do together, from the text of the lines to what is written back; and a command that
  comes from the browser instead.
\<close>

section \<open>From a line to its command\<close>

lemma token_line: "line_text ts = concat (map token_text ts) @ [nul]"
  by (induction ts) simp_all

text \<open>A line given as tokens reaches the dispatcher with the values in place of the references.\<close>

lemma shell_execute_tokens:
  assumes "line_ok ts" and "raw = concat (map token_text ts)" and "raw \<noteq> []" and "hd raw \<noteq> CHR ''#''" and "nul \<notin> set raw"
    and "length raw < SHELL_MAX_LINE_LEN - 1"
    and "val = concat (map (token_value (env_value_of env)) ts)" and "length val < SHELL_MAX_LINE_LEN"
  shows "shell_execute run_handler cmds env fd (Some raw) =
    Some (shell_dispatch run_handler cmds fd (parse_args (trim_end val) SHELL_MAX_ARGS))"
proof -
  have "line_buffer raw = line_text ts @ replicate (SHELL_MAX_LINE_LEN - length raw - 1) nul"
    using line_buffer_short(1) [OF assms(6,5)] assms(2) by (simp add: token_line)
  then have "expand_loop (env_value_of env) SHELL_MAX_LINE_LEN (line_buffer raw) 0 [] = Some val"
    using expand_line_then [of 0 "line_buffer raw" ts _ "[]" SHELL_MAX_LINE_LEN "env_value_of env"] assms(1,7,8)
    by (simp add: SHELL_MAX_LINE_LEN_def)
  with assms(3,4,8) show ?thesis
    by (simp add: shell_execute_def os_env_expand_def SHELL_MAX_LINE_LEN_def)
qed

lemma dispatch_builtin:
  assumes "cmds = shell_commands_register_all []" and "h < 52" and "argv = builtin_names ! h # rest"
    and "rest = [] \<or> hd rest \<noteq> ''--help''"
  shows "shell_dispatch run_handler cmds fd argv = (fst (run_handler h fd argv), snd (run_handler h fd argv), Some (h, argv))"
proof -
  obtain c where "shell_find_command (builtin_names ! h) cmds = Some c" "cmd_handler c = h"
    using find_builtin [OF assms(2)] assms(1) by blast
  then show ?thesis using assms(3,4) by (cases rest) (auto simp: shell_dispatch_def split_beta)
qed

text \<open>The line of a built-in command runs its function on the arguments.\<close>

lemma execute_builtin:
  assumes "y_cmds s = shell_commands_register_all []" and "h < 52" and "argv = builtin_names ! h # rest"
    and "rest = [] \<or> hd rest \<noteq> ''--help''"
    and "\<And>rh. shell_execute rh (y_cmds s) (y_env s) fd (Some line) = Some (shell_dispatch rh (y_cmds s) fd argv)"
  shows "execute_line p fd (Some line) s =
    (case run_builtin p h fd argv s of (ret, s', outs) \<Rightarrow> Some (ret, s', said outs))"
  using assms(5) dispatch_builtin [OF assms(1-4)]
  by (simp add: execute_line_def builtin_handlers_def split_beta)

text \<open>The last argument of a line needs no blank after it.\<close>

definition quoted :: "string \<Rightarrow> string" where "quoted t = CHR 0x22 # t @ [CHR 0x22]"

lemma parse_last_quoted:
  assumes "CHR 0x22 \<notin> set t"
  shows "parse_loop (Suc n) (quoted t) = [t]"
proof -
  have "takeWhile (\<lambda>c. c \<noteq> CHR 0x22) (t @ [CHR 0x22]) = t" "dropWhile (\<lambda>c. c \<noteq> CHR 0x22) (t @ [CHR 0x22]) = [CHR 0x22]"
    using assms by (auto simp: takeWhile_append dropWhile_append)
  then show ?thesis by (cases n) (simp_all add: quoted_def blank_space)
qed

lemma parse_last_plain:
  assumes "plain t"
  shows "parse_loop (Suc n) t = [t]"
proof -
  obtain c cs where t: "t = c # cs" "\<not> is_space c" "c \<noteq> CHR 0x22" using assms by (cases t) (auto simp: plain_def)
  have "takeWhile (\<lambda>c. \<not> is_space c) cs = cs" "dropWhile (\<lambda>c. \<not> is_space c) cs = []"
    using assms t(1) by (auto simp: plain_def list_all_iff)
  with t show ?thesis by (cases n) (simp_all add: dropWhile_eq_Nil_conv [THEN iffD2])
qed

lemma trim_end_last: "xs \<noteq> [] \<Longrightarrow> \<not> is_space (last xs) \<Longrightarrow> trim_end xs = xs"
  by (cases xs rule: rev_cases) (simp_all add: trim_end_def)

lemma quoted_last: "quoted t \<noteq> []" "\<not> is_space (last (quoted t))"
  by (simp_all add: quoted_def blank_space)

lemma plain_last: "plain t \<Longrightarrow> t \<noteq> [] \<and> \<not> is_space (last t)"
  by (auto simp: plain_def list_all_iff)

lemma parse_first:
  assumes "plain c" and "r \<noteq> []" and "\<not> is_space (last r)"
  shows "parse_args (trim_end (c @ '' '' @ r)) SHELL_MAX_ARGS = c # parse_loop 14 r"
proof -
  have t: "trim_end (c @ '' '' @ r) = c @ '' '' @ r"
    using assms(2,3) by (intro trim_end_last) auto
  have "parse_loop (Suc 14) (show_arg c @ CHR '' '' # r) = c # parse_loop 14 r"
    using assms(1) by (intro parse_loop_arg) (simp add: arg_ok_def)
  then show ?thesis
    unfolding t using assms(1) by (simp add: parse_args_def SHELL_MAX_ARGS_def show_arg_def del: parse_loop.simps)
qed

text \<open>A command with one argument, written as it is or in quotes.\<close>

lemma parse_one_quoted:
  "plain c \<Longrightarrow> CHR 0x22 \<notin> set t \<Longrightarrow> parse_args (trim_end (c @ '' '' @ quoted t)) SHELL_MAX_ARGS = [c, t]"
  using parse_first [OF _ quoted_last] parse_last_quoted [of t 13] by simp

lemma parse_one_argument:
  "plain c \<Longrightarrow> arg_ok t \<Longrightarrow> parse_args (trim_end (c @ '' '' @ show_arg t)) SHELL_MAX_ARGS = [c, t]"
  using parse_one_quoted [of c t] parse_first [of c t] parse_last_plain [of t 13] plain_last [of t]
  by (auto simp: show_arg_def quoted_def arg_ok_def)

section \<open>A variable set and used\<close>

lemma ident_printable: "ident_char c \<Longrightarrow> c \<noteq> nul \<and> c \<noteq> CHR ''$'' \<and> c \<noteq> CHR ''='' \<and> c \<noteq> CHR 0x22 \<and> \<not> is_space c"
  by (auto simp: ident_char_def is_space_def nul_def)

lemma run_export: "run_builtin p 40 = cmd_export p" and run_echo: "run_builtin p 6 = cmd_echo p"
  by (simp_all add: fun_eq_iff run_builtin_def builtins_def)

lemma names_used: "builtin_names ! 40 = ''export''" "builtin_names ! 6 = ''echo''"
  by (simp_all add: builtin_names_eq)

text \<open>\<open>export NAME=VALUE\<close>, with the argument in quotes where it needs them.\<close>

lemma execute_export:
  assumes "y_cmds s = shell_commands_register_all []" and "n \<noteq> []" and "list_all ident_char n"
    and "CHR 0x22 \<notin> set v" and "CHR ''$'' \<notin> set v" and "nul \<notin> set v"
    and "length n + length v < 240"
  shows "execute_line p fd (Some (''export '' @ show_arg (n @ ''='' @ v))) s =
    (case cmd_export p fd [''export'', n @ ''='' @ v] s of (ret, s', outs) \<Rightarrow> Some (ret, s', said outs))"
proof -
  let ?a = "n @ ''='' @ v" let ?line = "''export '' @ show_arg ?a"
  have i: "\<forall>c \<in> set n. c \<noteq> nul \<and> c \<noteq> CHR ''$'' \<and> c \<noteq> CHR 0x22"
    using assms(3) ident_printable by (auto simp: list_all_iff)
  have ok: "arg_ok ?a" using assms(4) i by (auto simp: arg_ok_def)
  have "set ?line \<subseteq> set ''export '' \<union> set ?a \<union> {CHR 0x22}" by (auto simp: show_arg_def)
  moreover have "nul \<notin> set ''export ''" "CHR ''$'' \<notin> set ''export ''" by (simp_all add: nul_def)
  ultimately have "nul \<notin> set ?line" "CHR ''$'' \<notin> set ?line"
    using assms(5,6) i by (auto simp: nul_def)
  moreover have "length ?line < SHELL_MAX_LINE_LEN - 1" using assms(7) by (auto simp: show_arg_def SHELL_MAX_LINE_LEN_def)
  ultimately have "shell_execute rh (y_cmds s) (y_env s) fd (Some ?line) =
      Some (shell_dispatch rh (y_cmds s) fd (parse_args (trim_end ?line) SHELL_MAX_ARGS))" for rh
    by (intro shell_execute_plain) simp_all
  moreover have "plain ''export''" by code_simp
  ultimately have e: "shell_execute rh (y_cmds s) (y_env s) fd (Some ?line) = Some (shell_dispatch rh (y_cmds s) fd [''export'', ?a])" for rh
    using parse_one_argument [of "''export''" ?a] ok by simp
  have "?a \<noteq> ''--help''" using assms(2,3) by (cases n) (auto simp: ident_char_def)
  with execute_builtin [OF assms(1) _ _ _ e, of 40 "[?a]" p] show ?thesis by (simp add: names_used run_export)
qed

text \<open>\<open>echo "$NAME"\<close>.\<close>

lemma execute_echo_variable:
  assumes "y_cmds s = shell_commands_register_all []" and "n \<noteq> []" and "length n < OS_ENV_NAME_LEN" and "list_all ident_char n"
    and "env_value_of (y_env s) n = Some v" and "CHR 0x22 \<notin> set v" and "length v < 240" and "v \<noteq> ''--help''"
  shows "execute_line p fd (Some (''echo '' @ quoted (CHR ''$'' # n))) s = Some (SHELL_CMD_OK, s, [v, crlf])"
proof -
  let ?ts = "map Lit ''echo '' @ [Lit CHR 0x22, Ref n, Lit CHR 0x22]" let ?raw = "''echo '' @ quoted (CHR ''$'' # n)"
  let ?val = "''echo '' @ quoted v"
  have i: "nul \<notin> set n" using assms(4) ident_printable by (auto simp: list_all_iff)
  have "line_ok ?ts" using assms(2-4) by (simp add: nul_def ident_char_def)
  moreover have "?raw = concat (map token_text ?ts)" by (simp add: quoted_def)
  moreover have "hd ?raw \<noteq> CHR ''#''" "?raw \<noteq> []" "nul \<notin> set ?raw" using i by (auto simp: nul_def quoted_def)
  moreover have "length ?raw < SHELL_MAX_LINE_LEN - 1" using assms(3) by (simp add: SHELL_MAX_LINE_LEN_def quoted_def OS_ENV_NAME_LEN_def)
  moreover have "?val = concat (map (token_value (env_value_of (y_env s))) ?ts)" using assms(5) by (simp add: quoted_def)
  moreover have "length ?val < SHELL_MAX_LINE_LEN" using assms(7) by (simp add: SHELL_MAX_LINE_LEN_def quoted_def)
  ultimately have "shell_execute rh (y_cmds s) (y_env s) fd (Some ?raw) =
      Some (shell_dispatch rh (y_cmds s) fd (parse_args (trim_end ?val) SHELL_MAX_ARGS))" for rh
    by (intro shell_execute_tokens [where ts = ?ts])
  moreover have "plain ''echo''" by code_simp
  ultimately have e: "shell_execute rh (y_cmds s) (y_env s) fd (Some ?raw) = Some (shell_dispatch rh (y_cmds s) fd [''echo'', v])" for rh
    using parse_one_quoted [of "''echo''" v] assms(6) by simp
  with execute_builtin [OF assms(1) _ _ _ e, of 6 "[v]" p] assms(7,8) show ?thesis
    by (simp add: names_used run_echo cmd_echo_def succeeds_def said_def say_def)
qed

lemma split_assignment:
  assumes "list_all ident_char n"
  shows "takeWhile (\<lambda>c. c \<noteq> CHR ''='') (n @ ''='' @ v) = n" and "drop (length n + 1) (n @ ''='' @ v) = v"
proof -
  have "\<forall>c \<in> set n. c \<noteq> CHR ''=''" using assms ident_printable by (auto simp: list_all_iff)
  then show "takeWhile (\<lambda>c. c \<noteq> CHR ''='') (n @ ''='' @ v) = n" by (simp add: takeWhile_append)
qed simp

text \<open>What the store answers after a successful set.\<close>

lemma set_then_value:
  assumes "env_inv e" and "n \<noteq> []" and "length n < OS_ENV_NAME_LEN" and "length v < OS_ENV_VALUE_LEN"
    and "env_map e n \<noteq> None \<or> card (dom (env_map e)) < OS_ENV_MAX_VARS"
  shows "fst (os_env_set (Some n) (Some v) e) = ESP_OK"
    and "env_value_of (fst (snd (os_env_set (Some n) (Some v) e))) n = Some v"
proof -
  let ?e = "fst (snd (os_env_set (Some n) (Some v) e))"
  have m: "fst (os_env_set (Some n) (Some v) e) = ESP_OK" "env_map ?e = (env_map e)(n \<mapsto> v)"
    using env_set_sim(1) [OF assms(1-3), of v] assms(4,5) by (auto simp: spec_set_def)
  have "env_inv ?e"
    using store_step_sim [of "StoreSet n v" e] assms(1-3) by (simp add: split_beta Let_def)
  moreover have "0 < OS_ENV_VALUE_LEN" by (simp add: OS_ENV_VALUE_LEN_def)
  ultimately have g: "spec_get n OS_ENV_VALUE_LEN (env_map ?e) =
      (fst (os_env_get (Some n) True OS_ENV_VALUE_LEN ?e), fst (snd (os_env_get (Some n) True OS_ENV_VALUE_LEN ?e)))"
    by (rule env_get_sim)
  show "fst (os_env_set (Some n) (Some v) e) = ESP_OK" by (rule m(1))
  show "env_value_of ?e n = Some v"
    using g m(2) assms(4) by (simp add: spec_get_def env_value_of_def split_beta)
qed

text \<open>Claim C12: a variable set on one line is used on the next, in any session: while the store has the name or
  room for it, \<open>export NAME=VALUE\<close> (in quotes where the value has blanks) succeeds, prints the assignment and
  changes nothing but the store, and then \<open>echo "$NAME"\<close> writes exactly the value, for every value of up to 127
  characters without quotes, dollars or terminators, the empty one included.  The one exception is the
  value \<open>--help\<close>, which asks for the usage of \<open>echo\<close>.\<close>

theorem export_then_echo:
  assumes "y_cmds s = shell_commands_register_all []" and "env_inv (y_env s)"
    and "n \<noteq> []" and "length n < OS_ENV_NAME_LEN" and "list_all ident_char n"
    and "CHR 0x22 \<notin> set v" and "CHR ''$'' \<notin> set v" and "nul \<notin> set v" and "length v < OS_ENV_VALUE_LEN" and "v \<noteq> ''--help''"
    and "env_map (y_env s) n \<noteq> None \<or> card (dom (env_map (y_env s))) < OS_ENV_MAX_VARS"
    and "s' = s\<lparr>y_env := fst (snd (os_env_set (Some n) (Some v) (y_env s)))\<rparr>"
  shows "execute_line p fd (Some (''export '' @ show_arg (n @ ''='' @ v))) s = Some (SHELL_CMD_OK, s', [n @ ''='' @ v @ crlf]) \<and>
    execute_line p' fd' (Some (''echo '' @ quoted (CHR ''$'' # n))) s' = Some (SHELL_CMD_OK, s', [v, crlf])"
proof
  have len: "length n < 16" "length v < 128" using assms(4,9) by (simp_all add: OS_ENV_NAME_LEN_def OS_ENV_VALUE_LEN_def)
  note set_ok = set_then_value [OF assms(2-4,9,11)]
  have "cmd_export p fd [''export'', n @ ''='' @ v] s =
      (SHELL_CMD_OK, s', map DEnv (snd (snd (os_env_set (Some n) (Some v) (y_env s)))) @ [say (n @ ''='' @ v @ crlf)])"
    using set_ok(1) split_assignment [OF assms(5), of v] assms(3)
    by (simp add: cmd_export_def succeeds_def split_beta Let_def assms(12))
  moreover have "said (map DEnv tr @ [say (n @ ''='' @ v @ crlf)]) = [n @ ''='' @ v @ crlf]" for tr
    using len by (simp add: said_def say_def comp_def crlf_def)
  moreover have "length n + length v < 240" using len by simp
  ultimately show "execute_line p fd (Some (''export '' @ show_arg (n @ ''='' @ v))) s = Some (SHELL_CMD_OK, s', [n @ ''='' @ v @ crlf])"
    using execute_export [OF assms(1,3,5-8), of p fd] by simp
  show "execute_line p' fd' (Some (''echo '' @ quoted (CHR ''$'' # n))) s' = Some (SHELL_CMD_OK, s', [v, crlf])"
    by (rule execute_echo_variable) (use assms(1,3-6,10,12) set_ok(2) len in simp_all)
qed

text \<open>A system with the commands registered, an empty store and an empty file system.\<close>

definition demo_sys :: "mem sys" where
  "demo_sys = (w_sys (sys_power_on (Map.empty, [])))\<lparr>y_cmds := shell_commands_register_all [], y_env := env_started, y_fs := mem_fs\<rparr>"

theorem export_then_echo_witness:
  "\<exists>s'. execute_line demo_platform 0 (Some (''export '' @ quoted ''A=hi there'')) demo_sys = Some (SHELL_CMD_OK, s', [''A=hi there'' @ crlf]) \<and>
     execute_line demo_platform 1 (Some (''echo '' @ quoted ''$A'')) s' = Some (SHELL_CMD_OK, s', [''hi there'', crlf])"
proof -
  let ?s' = "demo_sys\<lparr>y_env := fst (snd (os_env_set (Some ''A'') (Some ''hi there'') (y_env demo_sys)))\<rparr>"
  have "\<not> plain ''A=hi there''" by code_simp
  then have q: "show_arg (''A'' @ ''='' @ ''hi there'') = quoted ''A=hi there''" by (simp add: show_arg_def quoted_def)
  have e: "y_env demo_sys = env_started" "y_cmds demo_sys = shell_commands_register_all []" by (simp_all add: demo_sys_def)
  have "env_map env_started = Map.empty"
    by (rule ext) (simp add: env_map_def tab_map_def env_started_def os_env_init_def env_load_locked_def tab_find_def env_boot_def find_idx_None)
  then have "execute_line demo_platform 0 (Some (''export '' @ show_arg (''A'' @ ''='' @ ''hi there''))) demo_sys =
        Some (SHELL_CMD_OK, ?s', [''A'' @ ''='' @ ''hi there'' @ crlf]) \<and>
      execute_line demo_platform 1 (Some (''echo '' @ quoted (CHR ''$'' # ''A''))) ?s' = Some (SHELL_CMD_OK, ?s', [''hi there'', crlf])"
    by (intro export_then_echo)
      (simp_all add: e env_started_inv OS_ENV_NAME_LEN_def OS_ENV_VALUE_LEN_def OS_ENV_MAX_VARS_def ident_char_def nul_def)
  then show ?thesis unfolding q by auto
qed

section \<open>A file written and printed\<close>

lemma run_write: "run_builtin p 19 = cmd_write p" and run_cat: "run_builtin p 18 = cmd_cat p"
  by (simp_all add: fun_eq_iff run_builtin_def builtins_def)

lemma file_names_used: "builtin_names ! 19 = ''write''" "builtin_names ! 18 = ''cat''"
  by (simp_all add: builtin_names_eq)

lemma parse_two:
  assumes "plain c" and "plain f" and "CHR 0x22 \<notin> set t"
  shows "parse_args (trim_end (c @ '' '' @ f @ '' '' @ quoted t)) SHELL_MAX_ARGS = [c, f, t]"
proof -
  have "parse_loop (Suc 13) (show_arg f @ CHR '' '' # quoted t) = f # parse_loop 13 (quoted t)"
    using assms(2) by (intro parse_loop_arg) (simp add: arg_ok_def)
  then have "parse_loop 14 (f @ '' '' @ quoted t) = [f, t]"
    using assms(2) parse_last_quoted [OF assms(3), of 12] by (simp add: show_arg_def)
  moreover have "last (f @ '' '' @ quoted t) = last (quoted t)" using quoted_last(1) by simp
  ultimately show ?thesis using parse_first [OF assms(1), of "f @ '' '' @ quoted t"] quoted_last(2) by simp
qed

text \<open>A line without references runs its command on its arguments.\<close>

lemma execute_plain_line:
  assumes "y_cmds s = shell_commands_register_all []" and "h < 52" and "parse_args (trim_end line) SHELL_MAX_ARGS = builtin_names ! h # rest"
    and "rest = [] \<or> hd rest \<noteq> ''--help''"
    and "line \<noteq> []" and "hd line \<noteq> CHR ''#''" and "CHR ''$'' \<notin> set line" and "nul \<notin> set line" and "length line < SHELL_MAX_LINE_LEN - 1"
  shows "execute_line p fd (Some line) s =
    (case run_builtin p h fd (builtin_names ! h # rest) s of (ret, s', outs) \<Rightarrow> Some (ret, s', said outs))"
  using execute_builtin [OF assms(1,2) refl assms(4), of fd line p] shell_execute_plain [OF assms(9,8,5,6,7)] assms(3) by simp

lemma said_fs [simp]: "said (map DFs tr) = []" "said (map DFs tr @ outs) = said outs"
  by (simp_all add: said_def comp_def)

lemma write_argument: "length t < 400 \<Longrightarrow> file_content [c, f, t] = Some (t @ [CHR 0x0A])"
  by (simp add: file_content_def cat_arg_def cat_end_def)

text \<open>Reading a file whose content is known.\<close>

lemma posix_open_read: "posix_files V cont \<Longrightarrow> vfs_fopen V p ''r'' v = (True, v') \<Longrightarrow> cont p v' = cont p v"
  unfolding posix_files_def by blast

lemma posix_fread: "posix_files V cont \<Longrightarrow> vfs_fread V p n v = (d, False) \<Longrightarrow> cont p v = Some c \<Longrightarrow> d = take n c"
  unfolding posix_files_def by blast

lemma read_file_cont:
  assumes "posix_files V cont" and "cont (abs_of path s) (f_vfs s) = Some d" and "os_fs_read_file V path sz s = (ESP_OK, r, s', tr)"
    and "length d \<le> unat (sz - 1)"
  shows "r = Some (d @ [nul], length d)"
proof -
  let ?p = "abs_of path s"
  obtain ok v where o: "vfs_fopen V ?p ''r'' (f_vfs s) = (ok, v)" by (cases "vfs_fopen V ?p ''r'' (f_vfs s)")
  obtain x e where f: "vfs_fread V ?p (unat (sz - 1)) v = (x, e)" by (cases "vfs_fread V ?p (unat (sz - 1)) v")
  have r: "ok" "\<not> e" "r = Some (x @ [nul], length x)"
    using assms(3) o f by (auto simp: os_fs_read_file_def Let_def split: if_splits)
  have c: "cont ?p v = Some d" using posix_open_read [OF assms(1), of ?p "f_vfs s" v] o r(1) assms(2) by simp
  have "vfs_fread V ?p (unat (sz - 1)) v = (x, False)" using f r by simp
  with posix_fread [OF assms(1) _ c] have "x = take (unat (sz - 1)) d" by simp
  with r(3) assms(4) show ?thesis by simp
qed

lemma execute_write:
  assumes "y_cmds s = shell_commands_register_all []" and "plain f" and "f \<noteq> ''--help''" and "CHR ''$'' \<notin> set f" and "nul \<notin> set f"
    and "CHR 0x22 \<notin> set t" and "CHR ''$'' \<notin> set t" and "nul \<notin> set t" and "length f + length t < 240"
  shows "execute_line p fd (Some (''write '' @ f @ '' '' @ quoted t)) s =
    (case cmd_write p fd [''write'', f, t] s of (ret, s', outs) \<Rightarrow> Some (ret, s', said outs))"
proof -
  have "plain ''write''" by code_simp
  then have "parse_args (trim_end (''write '' @ f @ '' '' @ quoted t)) SHELL_MAX_ARGS = builtin_names ! 19 # [f, t]"
    using parse_two [of "''write''" f t] assms(2,6) by (simp add: file_names_used)
  then have "execute_line p fd (Some (''write '' @ f @ '' '' @ quoted t)) s =
      (case run_builtin p 19 fd (builtin_names ! 19 # [f, t]) s of (ret, s', outs) \<Rightarrow> Some (ret, s', said outs))"
    by (intro execute_plain_line) (use assms in \<open>auto simp: quoted_def nul_def SHELL_MAX_LINE_LEN_def\<close>)
  then show ?thesis by (simp add: file_names_used run_write)
qed

lemma execute_cat:
  assumes "y_cmds s = shell_commands_register_all []" and "plain f" and "f \<noteq> ''--help''" and "CHR ''$'' \<notin> set f" and "nul \<notin> set f"
    and "length f < 240"
  shows "execute_line p fd (Some (''cat '' @ f)) s =
    (case cmd_cat p fd [''cat'', f] s of (ret, s', outs) \<Rightarrow> Some (ret, s', said outs))"
proof -
  have "plain ''cat''" by code_simp
  moreover have "show_arg f = f" "arg_ok f" using assms(2) by (simp_all add: show_arg_def arg_ok_def)
  ultimately have "parse_args (trim_end (''cat '' @ f)) SHELL_MAX_ARGS = builtin_names ! 18 # [f]"
    using parse_one_argument [of "''cat''" f] by (simp add: file_names_used)
  then have "execute_line p fd (Some (''cat '' @ f)) s =
      (case run_builtin p 18 fd (builtin_names ! 18 # [f]) s of (ret, s', outs) \<Rightarrow> Some (ret, s', said outs))"
    by (intro execute_plain_line) (use assms in \<open>auto simp: nul_def SHELL_MAX_LINE_LEN_def\<close>)
  then show ?thesis by (simp add: file_names_used run_cat)
qed



section \<open>A command from the browser\<close>

lemma request_body_short: "length line < 256 \<Longrightarrow> nul \<notin> set line \<Longrightarrow> request_body 256 line = line"
  unfolding request_body_def by (auto simp: takeWhile_eq_all_conv)

text \<open>Claim C24: a command sent by the browser is the same command typed on the console: a body of up to 255
  characters is executed as that line, the system ends in the state the console would have left, and the response
  is the console's text, cut to 2047 characters, or, when there is none, the value of the command; the capture
  is over then.  While another capture is going on the request is refused and the system stays as it was.\<close>

theorem browser_is_console:
  assumes "length line < 256" and "nul \<notin> set line" and "execute_line p (- 1) (Some line) (w_sys w) = Some (ret, s', texts)"
    and "out = take 2047 (concat texts)"
  shows "web_command p (Some line) w =
    (if cap_active (w_capture w) then Some (RespErr 500 (pl_err_name p ESP_ERR_INVALID_STATE), w)
     else Some (send_text (if out = [] then ''command returned '' @ dec_int ret @ '' but produced no text'' @ [CHR 0x0A] else out),
                w\<lparr>w_sys := s', w_capture := capture_zero\<rparr>))"
proof -
  let ?s = "w_sys w"
  obtain called where "shell_execute (builtin_handlers p ?s) (y_cmds ?s) (y_env ?s) (- 1) (Some line) = Some (ret, texts, called)"
    using assms(3) by (auto simp: execute_line_def split: option.splits)
  from shell_execute_capture_spec [OF _ this, of 2048 "w_capture w"]
  show ?thesis using assms(3,4) by (simp add: web_command_def handle_command_def request_body_short [OF assms(1,2)])
qed

theorem browser_is_console_witness:
  "web_command demo_platform (Some ''echo hi'') ((sys_power_on (Map.empty, []))\<lparr>w_sys := demo_sys\<rparr>) =
     Some (send_text (''hi'' @ crlf), (sys_power_on (Map.empty, []))\<lparr>w_sys := demo_sys, w_capture := capture_zero\<rparr>)"
proof -
  let ?w = "(sys_power_on (Map.empty, []))\<lparr>w_sys := demo_sys\<rparr>"
  have "plain ''echo''" by code_simp
  moreover have "show_arg ''hi'' = ''hi''" "arg_ok ''hi''" by code_simp+
  ultimately have "parse_args (trim_end ''echo hi'') SHELL_MAX_ARGS = builtin_names ! 6 # [''hi'']"
    using parse_one_argument [of "''echo''" "''hi''"] by (simp add: names_used)
  moreover have "y_cmds demo_sys = shell_commands_register_all []" by (simp add: demo_sys_def)
  ultimately have "execute_line demo_platform (- 1) (Some ''echo hi'') demo_sys =
      (case run_builtin demo_platform 6 (- 1) (builtin_names ! 6 # [''hi'']) demo_sys of (ret, s', outs) \<Rightarrow> Some (ret, s', said outs))"
    by (intro execute_plain_line) (simp_all add: nul_def SHELL_MAX_LINE_LEN_def)
  then have x: "execute_line demo_platform (- 1) (Some ''echo hi'') demo_sys = Some (SHELL_CMD_OK, demo_sys, [''hi'', crlf])"
    by (simp add: names_used run_echo cmd_echo_def succeeds_def said_def say_def)
  have "web_command demo_platform (Some ''echo hi'') ?w =
      (if cap_active (w_capture ?w) then Some (RespErr 500 (pl_err_name demo_platform ESP_ERR_INVALID_STATE), ?w)
       else Some (send_text (if take 2047 (concat [''hi'', crlf]) = [] then ''command returned '' @ dec_int SHELL_CMD_OK @ '' but produced no text'' @ [CHR 0x0A]
           else take 2047 (concat [''hi'', crlf])), ?w\<lparr>w_sys := demo_sys, w_capture := capture_zero\<rparr>))"
    by (rule browser_is_console [OF _ _ _ refl]) (simp_all add: nul_def x)
  then show ?thesis by (simp add: sys_power_on_def capture_zero_def crlf_def)
qed

end
