(* ===== verification/SensorLog.thy ===== *)
theory SensorLog
  imports Scenarios
begin

text \<open>
  The example application (\<^verbatim>\<open>examples/sensor_logger.c\<close>): a task that appends readings of the analog inputs to a
  file, and a command to print and remove the file, on top of the system.  \<^verbatim>\<open>cmd_sensorlog\<close> gets the first
  handler behind the built-in commands.
\<close>

section \<open>The task\<close>

definition LOG_FILE :: string where "LOG_FILE = ''/logs/sensor.csv''"
definition INTERVAL_MS :: "32 word" where "INTERVAL_MS = 5000"

definition csv_header :: string where
  "csv_header = ''timestamp_ms,ch0_mv,ch1_mv,ch2_mv'' @ [CHR 0x0A]"

text \<open>Before its loop the task writes 35 bytes of the header, which has 34 characters and a terminator.\<close>

definition sensor_start :: "'v platform \<Rightarrow> 'v sys \<Rightarrow> 'v sys \<times> boot_out list" where
  "sensor_start p s =
     (let t0 = [BLog OS_LOG_INFO ''Sensor logger started (interval=5000 ms)''] in
      if os_fs_exists (pl_vfs p) LOG_FILE (y_fs s) then (s, t0)
      else
        let (_, f, t1) = os_fs_write_file (pl_vfs p) LOG_FILE (take 35 (csv_header @ [nul])) False (y_fs s)
        in (s\<lparr>y_fs := f\<rparr>, t0 @ map (BSys \<circ> DFs) t1))"

definition sensor_text :: "64 word \<Rightarrow> int \<Rightarrow> int \<Rightarrow> int \<Rightarrow> string" where
  "sensor_text ts ch0 ch1 ch2 = dec (unat ts) @ '','' @ dec_int ch0 @ '','' @ dec_int ch1 @ '','' @ dec_int ch2 @ [CHR 0x0A]"

text \<open>
  One turn of the loop.  \<^verbatim>\<open>snprintf\<close> returns the length of the whole text, and so many bytes of the buffer of 80
  are written; \<open>sensor_text_fits\<close> shows that they are the text.  The result of writing is ignored.
\<close>

definition sensor_round :: "'v platform \<Rightarrow> 'v sys \<Rightarrow> 'v sys \<times> boot_out list" where
  "sensor_round p s =
     (let ts = word_of_nat (pl_now_us p) div 1000;
          (ch0, s0, t0) = adc_mv_at p 0 s;
          (ch1, s1, t1) = adc_mv_at p 1 s0;
          (ch2, s2, t2) = adc_mv_at p 2 s1;
          n = length (sensor_text ts ch0 ch1 ch2);
          line = cstr 80 (sensor_text ts ch0 ch1 ch2);
          (_, f, t3) = os_fs_write_file (pl_vfs p) LOG_FILE (take n line) True (y_fs s2)
      in (s2\<lparr>y_fs := f\<rparr>,
          map BSys (t0 @ t1 @ t2 @ map DFs t3) @
          [BLog OS_LOG_DEBUG (''ch0='' @ dec_int ch0 @ ''mV ch1='' @ dec_int ch1 @ ''mV ch2='' @ dec_int ch2 @ ''mV''),
           BSys (DPlat (PDelay (pl_ticks p INTERVAL_MS)))]))"

section \<open>The command and its registration\<close>

definition thin_rule :: string where
  "thin_rule = concat (replicate 37 [CHR 0xE2, CHR 0x94, CHR 0x80])"

definition cmd_sensorlog :: "'v cmd" where
  "cmd_sensorlog p fd args s =
     (if 2 \<le> length args \<and> args ! 1 = ''show''
      then
        let (ret, res, f, tr) = os_fs_read_file (pl_vfs p) LOG_FILE 2048 (y_fs s); s1 = s\<lparr>y_fs := f\<rparr>
        in if ret \<noteq> ESP_OK then fails (map DFs tr @ [Say (nl ''sensor log: file not found'')]) s1
           else
             case res of
               None \<Rightarrow> succeeds (map DFs tr) s1
             | Some (buf, rsz) \<Rightarrow>
                 succeeds (map DFs tr @
                   [Say (crlf @ nl ''timestamp_ms, ch0_mv, ch1_mv, ch2_mv''), Say (nl thin_rule),
                    Say (takeWhile (\<lambda>c. c \<noteq> nul) buf),
                    say (crlf @ nl (''('' @ dec rsz @ '' bytes)''))]) s1
      else if 2 \<le> length args \<and> args ! 1 = ''clear''
      then
        let (_, f, tr) = os_fs_remove (pl_vfs p) LOG_FILE (y_fs s)
        in succeeds (map DFs tr @ [Say (nl ''Sensor log cleared.'')]) (s\<lparr>y_fs := f\<rparr>)
      else fails [Say (nl ''Usage: sensorlog <show|clear>'')] s)"

definition sensorlog_handler :: nat where "sensorlog_handler = 52"

definition sensorlog_registration :: shell_registration where
  "sensorlog_registration =
     \<lparr>reg_name = Some ''sensorlog'', reg_description = Some ''View/clear sensor log file'',
      reg_usage = Some ''sensorlog <show|clear>'', reg_handler = Some sensorlog_handler\<rparr>"

text \<open>\<open>(stk, tick, task)\<close> is what creating the task finds; \<open>func\<close> stands for the address of its function.\<close>

definition sensor_logger_init :: "nat \<Rightarrow> 32 word \<times> 32 word \<times> nat option \<Rightarrow> 'v sys \<Rightarrow> 'v sys \<times> boot_out list" where
  "sensor_logger_init func create s =
     (let (_, cmds) = shell_register_command (Some sensorlog_registration) (y_cmds s);
          (stk, tick, task) = create;
          (_, k, t) = os_process_create stk tick task (Some ''sensor_log'') (Some func) 0 3072 3 False (y_kernel s)
      in (s\<lparr>y_cmds := cmds, y_kernel := k\<rparr>,
          map (BSys \<circ> DKernel) t @ [BLog OS_LOG_INFO (''Sensor logger initialised. Log: '' @ LOG_FILE)]))"

text \<open>Running a command of the extended table, and a line with it.\<close>

definition run_extended :: "'v platform \<Rightarrow> nat \<Rightarrow> int \<Rightarrow> string list \<Rightarrow> 'v sys \<Rightarrow> int \<times> 'v sys \<times> cmd_out list" where
  "run_extended p h = (if h = sensorlog_handler then cmd_sensorlog p else run_builtin p h)"

definition execute_extended :: "'v platform \<Rightarrow> int \<Rightarrow> string option \<Rightarrow> 'v sys \<Rightarrow> (int \<times> 'v sys \<times> string list) option" where
  "execute_extended p fd line s =
     (case shell_execute (\<lambda>h fd args. case run_extended p h fd args s of (ret, _, outs) \<Rightarrow> (ret, said outs))
         (y_cmds s) (y_env s) fd line of
        None \<Rightarrow> None
      | Some (ret, texts, called) \<Rightarrow>
          Some (ret, (case called of None \<Rightarrow> s | Some (h, args) \<Rightarrow> fst (snd (run_extended p h fd args s))), texts))"

section \<open>The invariant\<close>

lemma keeps_sensorlog: "keeps cmd_sensorlog"
  by (simp add: cmd_cases cmd_sensorlog_def sys_keep sys_invD split: option.split)

lemma sensor_round_keeps: "sys_inv s \<Longrightarrow> sys_inv (fst (sensor_round p s))"
  by (simp add: sensor_round_def split_beta Let_def sys_keep sys_invD)

lemma sensor_start_keeps: "sys_inv s \<Longrightarrow> sys_inv (fst (sensor_start p s))"
  by (simp add: sensor_start_def split_beta Let_def sys_keep sys_invD)

lemma sensor_logger_init_keeps: "sys_inv s \<Longrightarrow> sys_inv (fst (sensor_logger_init func create s))"
proof -
  assume s: "sys_inv s"
  have "fst (sensor_logger_init func create s) =
      s\<lparr>y_cmds := snd (shell_register_command (Some sensorlog_registration) (y_cmds s)),
        y_kernel := fst (snd (os_process_create (fst create) (fst (snd create)) (snd (snd create)) (Some ''sensor_log'')
          (Some func) 0 3072 3 False (y_kernel s)))\<rparr>"
    by (simp add: sensor_logger_init_def split_beta Let_def)
  then show ?thesis using s by (simp add: sys_inv_def register_ok kernel_keeps)
qed

interpretation sensor_task: guarded "\<lambda>p s. fst (sensor_round p s)" "\<lambda>_. True" sys_inv
  by unfold_locales (rule sensor_round_keeps)

section \<open>What is in the file and what is shown\<close>

lemma length_dec_int: "\<bar>i\<bar> < 2 ^ 31 \<Longrightarrow> length (dec_int i) \<le> 11"
proof -
  assume "\<bar>i\<bar> < 2 ^ 31"
  then have "nat (- i) < 10 ^ 10" "nat i < 10 ^ 10" by simp_all
  then have "length (dec (nat (- i))) \<le> 10" "length (dec (nat i)) \<le> 10" by (simp_all add: length_dec)
  then show ?thesis by (simp add: dec_int_def)
qed

text \<open>A line is never cut: of the 80 bytes at most 57 are used.\<close>

lemma sensor_text_fits:
  assumes "\<bar>ch0\<bar> < 2 ^ 31" and "\<bar>ch1\<bar> < 2 ^ 31" and "\<bar>ch2\<bar> < 2 ^ 31"
  shows "take (length (sensor_text ts ch0 ch1 ch2)) (cstr 80 (sensor_text ts ch0 ch1 ch2)) = sensor_text ts ch0 ch1 ch2"
proof -
  have "length (sensor_text ts ch0 ch1 ch2) \<le> 57"
    using assms [THEN length_dec_int] length_dec64 [of ts] by (simp add: sensor_text_def)
  then show ?thesis by (simp add: cstr_def)
qed

text \<open>The name is absolute: it means the same file whatever the working directory is.\<close>

lemma log_file_path: "abs_of LOG_FILE s = ''/spiffs/logs/sensor.csv''"
  by (simp add: abs_of_def os_fs_abspath_def LOG_FILE_def fs_consts mounted_def cstr_def)

text \<open>What POSIX says of appending, whether the calls succeed or not: what was in the file stays there.\<close>

definition posix_appends :: "'v vfs \<Rightarrow> (string \<Rightarrow> 'v \<Rightarrow> string option) \<Rightarrow> bool" where
  "posix_appends V cont \<longleftrightarrow>
     (\<forall>p v c. cont p v = Some c \<longrightarrow> cont p (snd (vfs_fopen V p ''a'' v)) = Some c) \<and>
     (\<forall>p d v c. cont p v = Some c \<longrightarrow> (\<exists>x. cont p (snd (snd (vfs_fwrite V p d v))) = Some (c @ x)))"

lemma append_keeps_prefix:
  assumes "posix_appends V cont" and "cont (abs_of path s) (f_vfs s) = Some c"
  shows "\<exists>x. cont (abs_of path s) (f_vfs (fst (snd (os_fs_write_file V path d True s)))) = Some (c @ x)"
proof -
  let ?p = "abs_of path s" let ?v = "snd (vfs_fopen V ?p ''a'' (f_vfs s))"
  have o: "cont ?p ?v = Some c" using assms unfolding posix_appends_def by blast
  then have "\<exists>x. cont ?p (snd (snd (vfs_fwrite V ?p d ?v))) = Some (c @ x)"
    using assms(1) unfolding posix_appends_def by blast
  moreover have "\<exists>x. cont ?p ?v = Some (c @ x)" using o by (intro exI [of _ "[]"]) simp
  ultimately show ?thesis by (simp add: os_fs_write_file_def split_beta Let_def)
qed

text \<open>The content of the log, over the file system it is in.\<close>

definition log_content :: "(string \<Rightarrow> 'v \<Rightarrow> string option) \<Rightarrow> 'v sys \<Rightarrow> string option" where
  "log_content cont s = cont (abs_of LOG_FILE (y_fs s)) (f_vfs (y_fs s))"

lemma adc_mv_fs: "y_fs (fst (snd (adc_mv_at p ch s))) = y_fs s"
  by (simp add: adc_mv_at_def split_beta Let_def)

lemma sensor_round_content:
  assumes "posix_appends (pl_vfs p) cont" and "log_content cont s = Some c"
  shows "\<exists>x. log_content cont (fst (sensor_round p s)) = Some (c @ x)"
proof -
  obtain d where "y_fs (fst (sensor_round p s)) = fst (snd (os_fs_write_file (pl_vfs p) LOG_FILE d True (y_fs s)))"
    by (simp add: sensor_round_def split_beta Let_def adc_mv_fs)
  with append_keeps_prefix [OF assms(1), of LOG_FILE "y_fs s" c d] assms(2) show ?thesis
    by (simp add: log_content_def log_file_path)
qed

lemma sensor_rounds_content:
  assumes "list_all (\<lambda>p. pl_vfs p = V) ps" and "posix_appends V cont" and "log_content cont s = Some c"
  shows "\<exists>x. log_content cont (run (\<lambda>p s. fst (sensor_round p s)) ps s) = Some (c @ x)"
  using assms(1,3)
proof (induction ps arbitrary: s c)
  case (Cons p ps)
  then obtain x where "log_content cont (fst (sensor_round p s)) = Some (c @ x)"
    using sensor_round_content [of p cont s c] assms(2) by auto
  with Cons obtain y where "log_content cont (run (\<lambda>p s. fst (sensor_round p s)) ps (fst (sensor_round p s))) = Some ((c @ x) @ y)"
    by fastforce
  then show ?case by auto
qed simp

lemma sensor_start_content:
  assumes "posix_files (pl_vfs p) cont" and "\<not> os_fs_exists (pl_vfs p) LOG_FILE (y_fs s)"
    and "fst (os_fs_write_file (pl_vfs p) LOG_FILE (csv_header @ [nul]) False (y_fs s)) = ESP_OK"
  shows "log_content cont (fst (sensor_start p s)) = Some (csv_header @ [nul])"
proof -
  have "take 35 (csv_header @ [nul]) = csv_header @ [nul]" by (simp add: csv_header_def)
  then have f: "y_fs (fst (sensor_start p s)) = fst (snd (os_fs_write_file (pl_vfs p) LOG_FILE (csv_header @ [nul]) False (y_fs s)))"
    using assms(2) by (simp add: sensor_start_def split_beta Let_def)
  have "os_fs_write_file (pl_vfs p) LOG_FILE (csv_header @ [nul]) False (y_fs s) =
      (ESP_OK, y_fs (fst (sensor_start p s)), snd (snd (os_fs_write_file (pl_vfs p) LOG_FILE (csv_header @ [nul]) False (y_fs s))))"
    unfolding f using assms(3) by (simp add: prod_eq_iff)
  from write_file_cont [OF assms(1) this] show ?thesis by (simp add: log_content_def log_file_path)
qed

text \<open>What the command shows of a file: its first bytes up to a terminator.\<close>

lemma sensorlog_show:
  assumes "posix_files (pl_vfs p) cont" and "log_content cont s = Some c"
    and "cmd_sensorlog p fd [''sensorlog'', ''show''] s = (SHELL_CMD_OK, s', outs)"
  shows "said outs = [crlf @ nl ''timestamp_ms, ch0_mv, ch1_mv, ch2_mv'', nl thin_rule,
    takeWhile (\<lambda>c. c \<noteq> nul) (take 2047 c), crlf @ nl (''('' @ dec (min 2047 (length c)) @ '' bytes)'')]"
proof -
  let ?V = "pl_vfs p" let ?p = "abs_of LOG_FILE (y_fs s)"
  have ok: "SHELL_CMD_OK \<noteq> SHELL_CMD_ERROR" by (simp add: SHELL_CMD_OK_def SHELL_CMD_ERROR_def)
  obtain ret r f tr where rd: "os_fs_read_file ?V LOG_FILE 2048 (y_fs s) = (ret, r, f, tr)"
    by (cases "os_fs_read_file ?V LOG_FILE 2048 (y_fs s)")
  have ret: "ret = ESP_OK"
  proof (rule ccontr)
    assume "ret \<noteq> ESP_OK"
    then have "fst (cmd_sensorlog p fd [''sensorlog'', ''show''] s) = SHELL_CMD_ERROR"
      using rd by (simp add: cmd_sensorlog_def fails_def)
    with assms(3) ok show False by simp
  qed
  obtain b v where o: "vfs_fopen ?V ?p ''r'' (f_vfs (y_fs s)) = (b, v)" by (cases "vfs_fopen ?V ?p ''r'' (f_vfs (y_fs s))")
  obtain x e where d: "vfs_fread ?V ?p 2047 v = (x, e)" by (cases "vfs_fread ?V ?p 2047 v")
  have r: "b" "\<not> e" "r = Some (x @ [nul], length x)"
    using rd ret o d by (auto simp: os_fs_read_file_def Let_def split: if_splits)
  have "cont ?p v = Some c" using posix_open_read [OF assms(1), of ?p "f_vfs (y_fs s)" v] o r(1) assms(2) by (simp add: log_content_def)
  moreover have "vfs_fread ?V ?p 2047 v = (x, False)" using d r(2) by simp
  ultimately have x: "x = take 2047 c" using posix_fread [OF assms(1)] by blast
  have "length (dec (min 2047 (length c))) \<le> 4" by (rule length_dec) simp_all
  then have "say (crlf @ nl (''('' @ dec (min 2047 (length c)) @ '' bytes)'')) = Say (crlf @ nl (''('' @ dec (min 2047 (length c)) @ '' bytes)''))"
    by (simp add: say_def cstr_def crlf_def)
  moreover have "takeWhile (\<lambda>c. c \<noteq> nul) (x @ [nul]) = takeWhile (\<lambda>c. c \<noteq> nul) x" by (simp add: takeWhile_append takeWhile_eq_all_conv [THEN iffD2])
  ultimately show ?thesis
    using assms(3) rd ret r(3) x by (auto simp: cmd_sensorlog_def succeeds_def said_def comp_def min.commute)
qed

text \<open>The terminator the task writes behind the header hides everything after it: whatever has been logged, in any
  number of turns, the command prints only the header again, and then the number of bytes it has read.\<close>

lemma sensorlog_shows_header:
  assumes "posix_files V cont" and "posix_appends V cont" and "pl_vfs p = V" and "list_all (\<lambda>p. pl_vfs p = V) ps" and "pl_vfs q = V"
    and "\<not> os_fs_exists V LOG_FILE (y_fs s)" and "fst (os_fs_write_file V LOG_FILE (csv_header @ [nul]) False (y_fs s)) = ESP_OK"
    and "s1 = run (\<lambda>p s. fst (sensor_round p s)) ps (fst (sensor_start p s))"
    and "cmd_sensorlog q fd [''sensorlog'', ''show''] s1 = (SHELL_CMD_OK, s2, outs)"
  shows "\<exists>n. said outs = [crlf @ nl ''timestamp_ms, ch0_mv, ch1_mv, ch2_mv'', nl thin_rule, csv_header, crlf @ nl (''('' @ dec n @ '' bytes)'')]"
proof -
  have "log_content cont (fst (sensor_start p s)) = Some (csv_header @ [nul])"
    by (rule sensor_start_content) (use assms(1,3,6,7) in simp_all)
  from sensor_rounds_content [OF assms(4,2) this] obtain x
    where c: "log_content cont s1 = Some ((csv_header @ [nul]) @ x)" unfolding assms(8) by blast
  have "takeWhile (\<lambda>c. c \<noteq> nul) (take 2047 ((csv_header @ [nul]) @ x)) = csv_header"
    by (simp add: csv_header_def nul_def)
  with sensorlog_show [OF _ c assms(9)] assms(1,5) show ?thesis by auto
qed

section \<open>The command in the table\<close>

text \<open>After the boot and the initialisation the extended table has 53 commands and the name is found.\<close>

lemma sensorlog_found:
  assumes "y_cmds s = shell_commands_register_all []"
  shows "y_cmds (fst (sensor_logger_init func create s)) = y_cmds s @ [the (registered sensorlog_registration)]"
    and "\<exists>c. shell_find_command ''sensorlog'' (y_cmds (fst (sensor_logger_init func create s))) = Some c \<and> cmd_handler c = sensorlog_handler"
proof -
  let ?b = "shell_commands_register_all []" let ?c = "the (registered sensorlog_registration)"
  have names: "map cmd_name ?b = builtin_names"
    unfolding registered_all
    by (rule nth_equalityI) (simp_all add: builtin_command_name builtin_names_def del: upt_rec_numeral)
  have len: "length ?b = 52" by (simp add: registered_all del: upt_rec_numeral)
  have "''sensorlog'' \<notin> set builtin_names" by (simp add: builtin_names_eq)
  then have new: "find_idx (\<lambda>d. cmd_name d = ''sensorlog'') ?b = None"
    unfolding names [symmetric] by (force simp: find_idx_None)
  have "length ?b < SHELL_MAX_COMMANDS" unfolding len by (simp add: SHELL_MAX_COMMANDS_def)
  with new assms show 1: "y_cmds (fst (sensor_logger_init func create s)) = y_cmds s @ [?c]"
    by (simp add: sensor_logger_init_def split_beta Let_def shell_register_command_def sensorlog_registration_def registered_def)
  have c: "cmd_name ?c = ''sensorlog''" "cmd_handler ?c = sensorlog_handler"
    by (simp_all add: registered_def sensorlog_registration_def)
  have "find_idx (\<lambda>d. cmd_name d = ''sensorlog'') (?b @ [?c]) = Some 52"
  proof (rule find_idx_unique)
    fix j assume "j < length (?b @ [?c])" "cmd_name ((?b @ [?c]) ! j) = ''sensorlog''"
    then show "j = 52" using new len by (cases "j < 52") (auto simp: find_idx_None nth_append)
  qed (use c len in \<open>simp_all add: nth_append\<close>)
  then show "\<exists>c. shell_find_command ''sensorlog'' (y_cmds (fst (sensor_logger_init func create s))) = Some c \<and> cmd_handler c = sensorlog_handler"
    unfolding 1 using c len assms by (simp add: shell_find_command_def nth_append)
qed

text \<open>The line \<open>sensorlog show\<close> runs the command.\<close>

lemma execute_sensorlog_show:
  assumes "y_cmds s = shell_commands_register_all []" and "i = fst (sensor_logger_init func create s)" and "y_cmds t = y_cmds i"
  shows "execute_extended p fd (Some ''sensorlog show'') t =
    (case cmd_sensorlog p fd [''sensorlog'', ''show''] t of (ret, s', outs) \<Rightarrow> Some (ret, s', said outs))"
proof -
  have "plain ''sensorlog''" "plain ''show''" by code_simp+
  moreover from this have "show_arg ''show'' = ''show''" "arg_ok ''show''" by (simp_all add: show_arg_def arg_ok_def)
  ultimately have args: "parse_args (trim_end ''sensorlog show'') SHELL_MAX_ARGS = [''sensorlog'', ''show'']"
    using parse_one_argument [of "''sensorlog''" "''show''"] by simp
  have "shell_execute rh (y_cmds t) (y_env t) fd (Some ''sensorlog show'') = Some (shell_dispatch rh (y_cmds t) fd [''sensorlog'', ''show''])" for rh
    using shell_execute_plain [of "''sensorlog show''"] args by (simp add: SHELL_MAX_LINE_LEN_def nul_def)
  moreover obtain c where "shell_find_command ''sensorlog'' (y_cmds t) = Some c" "cmd_handler c = sensorlog_handler"
    using sensorlog_found(2) [OF assms(1), of func create] assms(2,3) by auto
  ultimately show ?thesis
    by (simp add: execute_extended_def shell_dispatch_def run_extended_def split_beta)
qed

end
