(* ===== verification/Telnet.thy ===== *)
theory Telnet
  imports Shell
begin

text \<open>
  How the shell reads a character and what its two servers do around their sessions
  (\<^verbatim>\<open>src/components/os_shell/src/os_shell.c\<close>): \<open>shell_getchar\<close>, the set-up of the UART, and the telnet
  server with its accept loop.  What the calls of the socket library return are arguments; what they are
  called with is in the trace.
\<close>

section \<open>Reading a character\<close>

datatype input_call = UartRead int "32 word" | SelectRead int int int | RecvOne int

text \<open>\<open>uart\<close>, \<open>sel\<close> and \<open>rcv\<close> are the results of \<^verbatim>\<open>uart_read_bytes\<close>, \<^verbatim>\<open>select\<close> and \<^verbatim>\<open>recv\<close>; timeouts are not negative.\<close>

definition shell_getchar ::
  "(32 word \<Rightarrow> 32 word) \<Rightarrow> int \<Rightarrow> int \<Rightarrow> int \<Rightarrow> int \<Rightarrow> nat \<Rightarrow> int \<times> input_call list" where
  "shell_getchar ticks uart sel rcv fd timeout_ms =
     (if fd < 0 then (uart, [UartRead 1 (ticks (of_nat timeout_ms))])
      else
        let wait = SelectRead fd (int (timeout_ms div 1000)) (int (timeout_ms mod 1000) * 1000)
        in if sel \<le> 0 then (0, [wait]) else (rcv, [wait, RecvOne fd]))"

text \<open>The set-up of the UART before the session starts.\<close>

datatype uart_call = UartInstall nat nat | UartConfig nat

definition uart_setup :: "nat \<Rightarrow> uart_call list" where
  "uart_setup baud = [UartInstall 512 512, UartConfig baud]"

section \<open>The telnet server\<close>

definition TELNET_MAX_SESSIONS :: nat where "TELNET_MAX_SESSIONS = 3"
definition TELNET_STACK_SIZE :: nat where "TELNET_STACK_SIZE = 8192"
definition TELNET_PRIORITY :: nat where "TELNET_PRIORITY = 6"

datatype server_call =
    TvSocket | TvReuse | TvBind "16 word" | TvListen nat | TvAccept | TvClose int | TvDelay nat | TvTaskDelete
  | TvCreate string nat nat int string bool  \<comment> \<open>name, stack, priority, the argument (socket, address), success\<close>
  | TvLog os_log_level string

record accept_answer =
  ac_fd :: int
  ac_ip :: string
  ac_mem :: bool      \<comment> \<open>the argument block could be allocated\<close>
  ac_task :: bool     \<comment> \<open>\<^verbatim>\<open>xTaskCreate\<close> succeeds\<close>

text \<open>One round of the accept loop.\<close>

definition telnet_accept :: "accept_answer \<Rightarrow> server_call list" where
  "telnet_accept a =
     (if ac_fd a < 0 then [TvAccept, TvDelay 100]
      else
        let ip = cstr 20 (ac_ip a); hello = [TvAccept, TvLog OS_LOG_INFO (''Telnet connection from '' @ ip)]
        in if \<not> ac_mem a then hello @ [TvClose (ac_fd a)]
           else hello @ [TvCreate (cstr 24 (''telnet_'' @ take 15 ip)) TELNET_STACK_SIZE TELNET_PRIORITY (ac_fd a) ip (ac_task a)])"

text \<open>\<open>sock\<close> is the listening socket, or negative; the accept loop runs as long as there are connections.\<close>

definition telnet_server_task :: "int \<Rightarrow> bool \<Rightarrow> bool \<Rightarrow> 16 word \<Rightarrow> accept_answer list \<Rightarrow> server_call list" where
  "telnet_server_task sock bound listening port conns =
     (if sock < 0 then [TvSocket, TvLog OS_LOG_ERROR ''Telnet socket create failed'', TvTaskDelete]
      else if \<not> bound \<or> \<not> listening
      then [TvSocket, TvReuse, TvBind port] @ (if bound then [TvListen TELNET_MAX_SESSIONS] else []) @
           [TvLog OS_LOG_ERROR ''Telnet bind/listen failed'', TvClose sock, TvTaskDelete]
      else [TvSocket, TvReuse, TvBind port, TvListen TELNET_MAX_SESSIONS,
            TvLog OS_LOG_INFO (''Telnet server listening on port '' @ dec (unat port))] @
           concat (map telnet_accept conns))"

section \<open>What becomes of a connection\<close>

definition closed_by :: "server_call list \<Rightarrow> int list" where
  "closed_by cs = List.map_filter (\<lambda>c. case c of TvClose fd \<Rightarrow> Some fd | _ \<Rightarrow> None) cs"

definition served_by :: "server_call list \<Rightarrow> int list" where
  "served_by cs = List.map_filter (\<lambda>c. case c of TvCreate _ _ _ fd _ True \<Rightarrow> Some fd | _ \<Rightarrow> None) cs"

lemma closed_served [simp]:
  "closed_by [] = []" "served_by [] = []"
  "closed_by (a @ b) = closed_by a @ closed_by b" "served_by (a @ b) = served_by a @ served_by b"
  by (simp_all add: closed_by_def served_by_def map_filter_def)

lemma telnet_accept_ends:
  "closed_by (telnet_accept a) = (if 0 \<le> ac_fd a \<and> \<not> ac_mem a then [ac_fd a] else [])"
  "served_by (telnet_accept a) = (if 0 \<le> ac_fd a \<and> ac_mem a \<and> ac_task a then [ac_fd a] else [])"
  by (auto simp: telnet_accept_def closed_by_def served_by_def map_filter_def Let_def)

text \<open>
  A connection is served, or closed when the memory for its argument runs out, in the order in which they
  came.  A connection whose task could not be created is neither: its socket and its argument block
  stay allocated.  There is no limit on the number of sessions: \<open>TELNET_MAX_SESSIONS\<close> is only the length of the
  queue of \<^verbatim>\<open>listen\<close>.
\<close>

theorem telnet_connections:
  assumes "0 \<le> sock"
  shows "served_by (telnet_server_task sock True True port conns) =
      map ac_fd (filter (\<lambda>a. 0 \<le> ac_fd a \<and> ac_mem a \<and> ac_task a) conns)"
    and "closed_by (telnet_server_task sock True True port conns) =
      map ac_fd (filter (\<lambda>a. 0 \<le> ac_fd a \<and> \<not> ac_mem a) conns)"
proof -
  have "served_by (concat (map telnet_accept as)) = map ac_fd (filter (\<lambda>a. 0 \<le> ac_fd a \<and> ac_mem a \<and> ac_task a) as)"
    "closed_by (concat (map telnet_accept as)) = map ac_fd (filter (\<lambda>a. 0 \<le> ac_fd a \<and> \<not> ac_mem a) as)" for as
    by (induction as) (simp_all add: telnet_accept_ends)
  moreover have "served_by [TvSocket, TvReuse, TvBind port, TvListen TELNET_MAX_SESSIONS, TvLog l t] = []"
    "closed_by [TvSocket, TvReuse, TvBind port, TvListen TELNET_MAX_SESSIONS, TvLog l t] = []" for l t
    by (simp_all add: closed_by_def served_by_def map_filter_def)
  ultimately show "served_by (telnet_server_task sock True True port conns) =
      map ac_fd (filter (\<lambda>a. 0 \<le> ac_fd a \<and> ac_mem a \<and> ac_task a) conns)"
    "closed_by (telnet_server_task sock True True port conns) =
      map ac_fd (filter (\<lambda>a. 0 \<le> ac_fd a \<and> \<not> ac_mem a) conns)"
    using assms by (simp_all add: telnet_server_task_def del: append_Cons append.simps)
qed

text \<open>A pause looks like a closed connection: both give 0.\<close>

lemma pause_is_end: "fst (shell_getchar ticks u 0 r 5 100) = fst (shell_getchar ticks u 1 0 5 100)"
  by (simp add: shell_getchar_def)

end
