(* ===== verification/Progress.thy ===== *)
theory Progress
  imports Boot
begin

text \<open>
  Why no line gets the running system stuck: the values of the variables hold no terminators, so neither do
  the arguments of a command, so every command that is stored in the job table is again a line that fits.
\<close>

section \<open>What commands store\<close>

definition env_clean :: "env_state \<Rightarrow> bool" where
  "env_clean e \<longleftrightarrow> list_all (\<lambda>x. nul \<notin> set (e_value x)) (e_entries e)"

definition jobs_fit :: "sched_state \<Rightarrow> bool" where
  "jobs_fit w \<longleftrightarrow> list_all (\<lambda>j. line_fits (j_command j)) (s_jobs w)"

definition text_inv :: "'v sys \<Rightarrow> bool" where
  "text_inv s \<longleftrightarrow> env_clean (y_env s) \<and> jobs_fit (y_sched s)"

definition args_ok :: "string list \<Rightarrow> bool" where
  "args_ok args \<longleftrightarrow> list_all (\<lambda>a. nul \<notin> set a) args \<and> length (unwords args) < SHELL_MAX_LINE_LEN"

definition keeps_texts :: "'v cmd \<Rightarrow> bool" where
  "keeps_texts c \<longleftrightarrow> (\<forall>p fd args s. text_inv s \<longrightarrow> args_ok args \<longrightarrow> text_inv (fst (snd (c p fd args s))))"

named_theorems text_keep \<open>operations keep the stored texts as they should be\<close>

lemma text_inv_updates [text_keep]:
  "text_inv (s\<lparr>y_kernel := a1\<rparr>) = text_inv s" "text_inv (s\<lparr>y_fs := a2\<rparr>) = text_inv s"
  "text_inv (s\<lparr>y_timer := a3\<rparr>) = text_inv s" "text_inv (s\<lparr>y_ipc := a4\<rparr>) = text_inv s"
  "text_inv (s\<lparr>y_pwm := a5\<rparr>) = text_inv s" "text_inv (s\<lparr>y_mqtt := a6\<rparr>) = text_inv s"
  "text_inv (s\<lparr>y_ota := a7\<rparr>) = text_inv s" "text_inv (s\<lparr>y_net := a8\<rparr>) = text_inv s"
  "text_inv (s\<lparr>y_drv := a9\<rparr>) = text_inv s" "text_inv (s\<lparr>y_log := a10\<rparr>) = text_inv s"
  "text_inv (s\<lparr>y_cmds := a11\<rparr>) = text_inv s"
  by (simp_all add: text_inv_def)

lemma text_inv_env: "text_inv s \<Longrightarrow> env_clean e \<Longrightarrow> text_inv (s\<lparr>y_env := e\<rparr>)"
  and text_inv_sched: "text_inv s \<Longrightarrow> jobs_fit w \<Longrightarrow> text_inv (s\<lparr>y_sched := w\<rparr>)"
  by (simp_all add: text_inv_def)

lemma text_invD: "text_inv s \<Longrightarrow> env_clean (y_env s)" "text_inv s \<Longrightarrow> jobs_fit (y_sched s)"
  by (simp_all add: text_inv_def)

lemma clean_cstr: "nul \<notin> set t \<Longrightarrow> nul \<notin> set (cstr n t)"
  by (auto simp: cstr_def dest: in_set_takeD)

lemma env_zero_clean: "nul \<notin> set (e_value env_zero)" and job_zero_fits: "line_fits (j_command job_zero)"
  by (simp_all add: env_zero_def job_zero_def line_fits_def SHELL_MAX_LINE_LEN_def)

lemma env_set_clean:
  assumes "env_clean e" and "nul \<notin> set v"
  shows "env_clean (fst (snd (os_env_set (Some n) (Some v) e)))"
  using assms clean_cstr [OF assms(2)]
  by (auto simp: os_env_set_def env_clean_def Let_def list_all_update split: option.split)

lemma env_unset_clean: "env_clean e \<Longrightarrow> env_clean (fst (snd (os_env_unset n e)))"
  using env_zero_clean by (auto simp: os_env_unset_def env_clean_def Let_def list_all_update split: option.split)

lemma schedule_fits:
  assumes "jobs_fit w" and "line_fits c"
  shows "jobs_fit (fst (snd (os_scheduler_schedule ms h rc n (Some c) d r fd w)))"
proof -
  have "line_fits (cstr SHELL_MAX_LINE_LEN c)" using assms(2) clean_cstr [of c] by (simp add: line_fits_def cstr_def)
  then show ?thesis
    using assms(1) job_zero_fits
    by (auto simp: os_scheduler_schedule_def jobs_fit_def Let_def list_all_update split: option.split)
qed

lemma list_all_replicate: "P x \<Longrightarrow> list_all P (replicate n x)"
  by (simp add: list_all_iff)

lemma job_steps_fit:
  "jobs_fit w \<Longrightarrow> jobs_fit (fst (snd (os_scheduler_cancel n w)))"
  "jobs_fit w \<Longrightarrow> jobs_fit (fst (snd (os_scheduler_init lk q th w)))"
  using job_zero_fits list_all_replicate
  by (auto simp: os_scheduler_cancel_def os_scheduler_init_def jobs_fit_def Let_def list_all_update split: option.split)

lemma job_turns_fit:
  assumes "jobs_fit w"
  shows "jobs_fit (fst (sched_timer_callback i w))" "jobs_fit (fst (worker_done k w))"
proof -
  have nth: "line_fits (j_command (s_jobs w ! k))" if "k < length (s_jobs w)" for k
    using assms list_all_nth that by (auto simp: jobs_fit_def list_all_iff)
  have upd: "list_all (\<lambda>j. line_fits (j_command j)) ((s_jobs w)[k := x])" if "j_command x = j_command (s_jobs w ! k)" for k x
    using assms nth [of k] that by (cases "k < length (s_jobs w)") (simp_all add: jobs_fit_def list_all_update list_update_beyond)
  show "jobs_fit (fst (sched_timer_callback i w))" "jobs_fit (fst (worker_done k w))"
    using assms upd by (simp_all add: sched_timer_callback_def worker_done_def jobs_fit_def Let_def split: option.split)
qed

section \<open>Every command\<close>

lemma args_ok_nth: "args_ok args \<Longrightarrow> i < length args \<Longrightarrow> nul \<notin> set (args ! i)"
  using list_all_nth by (fastforce simp: args_ok_def)

lemma clean_unwords: "list_all (\<lambda>a. nul \<notin> set a) args \<Longrightarrow> nul \<notin> set (unwords args)"
  by (induction args rule: unwords.induct) (auto simp: nul_def)

text \<open>The command that \<open>at\<close> and \<open>every\<close> join from the third argument on is a line that fits.\<close>

lemma joined_fits:
  assumes "args_ok args" and "\<not> length args < 3" and "join_args SHELL_MAX_LINE_LEN (drop 2 args) [] = Some c"
  shows "line_fits c"
proof -
  obtain a b d as where args: "args = a # b # d # as"
    using assms(2) by (cases args rule: unwords.cases; cases "tl (tl args)") auto
  have l: "length (unwords (d # as)) + 2 \<le> 255"
    using assms(1) by (simp add: args_ok_def args SHELL_MAX_LINE_LEN_def)
  then have "c = unwords (d # as)"
    using assms(3) join_args_fits [of "[]" "d # as" SHELL_MAX_LINE_LEN] by (simp add: args SHELL_MAX_LINE_LEN_def)
  moreover have "nul \<notin> set (unwords (d # as))"
    using assms(1) clean_unwords [of "d # as"] by (simp add: args_ok_def args)
  ultimately show ?thesis using l by (simp add: line_fits_def SHELL_MAX_LINE_LEN_def)
qed

lemmas text_cases = keeps_texts_def split_beta Let_def

lemma texts_system:
  "keeps_texts cmd_help" "keeps_texts cmd_clear" "keeps_texts cmd_uname" "keeps_texts cmd_uptime" "keeps_texts cmd_free"
  "keeps_texts cmd_reboot" "keeps_texts cmd_echo" "keeps_texts cmd_exit" "keeps_texts cmd_history" "keeps_texts cmd_sleep"
  "keeps_texts cmd_ps" "keeps_texts cmd_top" "keeps_texts cmd_kill" "keeps_texts cmd_suspend" "keeps_texts cmd_resume"
  by (simp_all add: text_cases text_keep cmd_help_def cmd_clear_def cmd_uname_def cmd_uptime_def cmd_free_def cmd_reboot_def cmd_echo_def
      cmd_exit_def cmd_history_def cmd_sleep_def cmd_ps_def cmd_top_def cmd_kill_def cmd_suspend_def cmd_resume_def)

lemma texts_files:
  "keeps_texts cmd_ls" "keeps_texts cmd_pwd" "keeps_texts cmd_cd" "keeps_texts cmd_cat" "keeps_texts cmd_write" "keeps_texts cmd_append"
  "keeps_texts cmd_rm" "keeps_texts cmd_mkdir" "keeps_texts cmd_df" "keeps_texts cmd_mv" "keeps_texts cmd_dmesg"
  "keeps_texts cmd_loglevel" "keeps_texts cmd_logfile"
  by (simp_all add: text_cases text_keep cmd_ls_def cmd_pwd_def cmd_cd_def cmd_cat_def cmd_write_def cmd_append_def write_with_def cmd_rm_def
      cmd_mkdir_def cmd_df_def cmd_mv_def cmd_dmesg_def cmd_loglevel_def cmd_logfile_def split: option.split)

lemma texts_wifi: "keeps_texts wifi_scan" "keeps_texts wifi_connect" "keeps_texts wifi_disconnect" "keeps_texts wifi_status"
  by (simp_all add: text_cases text_keep wifi_scan_def wifi_connect_def wifi_disconnect_def wifi_status_def split: option.split)

lemma texts_net: "keeps_texts cmd_wifi" "keeps_texts cmd_ifconfig" "keeps_texts cmd_ping" "keeps_texts cmd_http"
proof -
  show "keeps_texts cmd_wifi"
    by (simp add: keeps_texts_def cmd_wifi_def texts_wifi [unfolded keeps_texts_def, rule_format])
qed (simp_all add: text_cases text_keep cmd_ifconfig_def cmd_ping_def cmd_http_def)

lemma texts_adc [text_keep]:
  "text_inv (fst (snd (adc_raw_at p ch s))) = text_inv s" "text_inv (fst (snd (adc_mv_at p ch s))) = text_inv s"
  by (simp_all add: adc_raw_at_def adc_mv_at_def split_beta Let_def text_keep)

lemma texts_adc_all [text_keep]: "text_inv (fst (adc_readall p chs s)) = text_inv s"
  by (induction chs arbitrary: s) (simp_all add: split_beta Let_def text_keep)

lemma texts_hardware: "keeps_texts cmd_gpio" "keeps_texts cmd_adc" "keeps_texts cmd_i2c" "keeps_texts cmd_nvs" "keeps_texts cmd_pwm"
  by (simp_all add: text_cases text_keep cmd_gpio_def cmd_adc_def cmd_i2c_def cmd_nvs_def cmd_pwm_def set_gpio_def
      del: adc_readall.simps upt_rec_numeral split: option.split)

lemma with_timer_texts [text_keep]: "text_inv (fst (snd (with_timer name what oper txt s))) = text_inv s"
  by (simp add: with_timer_def split_beta Let_def text_keep)

lemma texts_timer: "keeps_texts cmd_timer"
  by (simp add: text_cases text_keep cmd_timer_def)

lemma export_texts:
  assumes "text_inv s" and "args_ok args"
  shows "text_inv (fst (snd (cmd_export p fd args s)))"
proof (cases "length args < 2")
  case False
  then have "nul \<notin> set (drop n (args ! 1))" for n using args_ok_nth [OF assms(2), of 1] by (auto dest: in_set_dropD)
  then have "env_clean (fst (snd (os_env_set (Some name) (Some (drop n (args ! 1))) (y_env s))))" for n name
    using assms(1) by (intro env_set_clean) (simp_all add: text_inv_def)
  with assms(1) show ?thesis by (simp add: cmd_export_def split_beta Let_def text_inv_env)
qed (use assms(1) in \<open>simp add: cmd_export_def\<close>)

lemma texts_env: "keeps_texts cmd_env" "keeps_texts cmd_export" "keeps_texts cmd_unset" "keeps_texts cmd_printenv"
  by (simp_all add: text_cases cmd_env_def export_texts cmd_unset_def cmd_printenv_def text_inv_env text_invD env_unset_clean)

lemma schedule_texts:
  assumes "text_inv s" and "args_ok args" and "\<not> length args < 3"
  shows "text_inv (fst (snd (schedule_with r name succ p fd args s)))"
  using assms(1) joined_fits [OF assms(2,3)]
  by (auto simp: schedule_with_def split_beta Let_def text_inv_def schedule_fits split: option.split)

lemma texts_sched: "keeps_texts cmd_run" "keeps_texts cmd_at" "keeps_texts cmd_every" "keeps_texts cmd_jobs" "keeps_texts cmd_killjob"
  by (simp_all add: text_cases text_keep cmd_at_def cmd_every_def schedule_texts cmd_run_def cmd_jobs_def cmd_killjob_def
      text_inv_sched text_invD job_steps_fit split: option.split)

lemma texts_msgq: "keeps_texts msgq_send" "keeps_texts msgq_recv" "keeps_texts cmd_msgq" "keeps_texts cmd_event"
  by (simp_all add: text_cases text_keep msgq_send_def msgq_recv_def cmd_msgq_def cmd_event_def with_event_def)

lemma texts_mqtt: "keeps_texts cmd_mqtt" "keeps_texts cmd_ota" "keeps_texts cmd_test"
  by (simp_all add: text_cases text_keep cmd_mqtt_def after_mqtt_def cmd_ota_def ota_status_def cmd_test_def split: option.split)

lemmas texts_all = texts_system texts_files texts_net texts_hardware texts_timer texts_env texts_sched texts_msgq texts_mqtt

lemma builtins_keep_texts: "list_all (\<lambda>(_, _, _, c). keeps_texts c) builtins"
  by (simp add: builtins_def texts_all)

lemma run_builtin_texts: "text_inv s \<Longrightarrow> args_ok args \<Longrightarrow> text_inv (fst (snd (run_builtin p h fd args s)))"
proof -
  assume s: "text_inv s" and a: "args_ok args"
  have "keeps_texts (snd (snd (snd (builtins ! h :: string \<times> string \<times> string \<times> 'a cmd))))" if "h < 52"
    using list_all_nth [OF builtins_keep_texts, of h] that by (simp add: split_beta)
  with s a show ?thesis by (simp add: run_builtin_def keeps_texts_def)
qed

section \<open>Every line\<close>

lemma env_value_clean:
  assumes "env_clean e" and "env_value_of e n = Some v"
  shows "nul \<notin> set v"
proof -
  obtain i where i: "i < length (e_entries e)" "v = cstr OS_ENV_VALUE_LEN (e_value (e_entries e ! i))"
    using assms(2) by (auto simp: env_value_of_def os_env_get_def Let_def split: if_splits option.splits dest: env_slot_bounds(1))
  then have "nul \<notin> set (e_value (e_entries e ! i))"
    using assms(1) list_all_nth by (fastforce simp: env_clean_def)
  then show ?thesis using clean_cstr i(2) by simp
qed

lemma put_value_clean: "nul \<notin> set out \<Longrightarrow> nul \<notin> set v \<Longrightarrow> nul \<notin> set (put_value n out v)"
  by (induction v arbitrary: out) auto

lemma expand_loop_clean:
  assumes "\<And>n v. get n = Some v \<Longrightarrow> nul \<notin> set v"
  shows "nul \<notin> set out \<Longrightarrow> expand_loop get out_sz buf i out = Some r \<Longrightarrow> nul \<notin> set r"
  using assms
proof (induction get out_sz buf i out rule: expand_loop.induct)
  case (1 get out_sz buf i out)
  show ?case
  proof (cases "rd buf i")
    case None
    with "1.prems"(2) show ?thesis by (simp add: expand_loop.simps)
  next
    case (Some c)
    note step = "1.prems"(2) [unfolded expand_loop.simps [of get out_sz buf i out] Some option.case]
    show ?thesis
    proof (cases "c = nul \<or> \<not> length out + 1 < out_sz")
      case True
      with step "1.prems"(1) show ?thesis by simp
    next
      case room: False
      show ?thesis
      proof (cases "c = CHR ''$''")
        case False
        then show ?thesis using "1.IH"(1) [OF Some room] step room "1.prems" by (auto dest: sym [of nul])
      next
        case True
        note IH = "1.IH"(2-) [OF Some room, simplified True]
        show ?thesis
          using step room True IH "1.prems"(1,3)
          by (auto simp: nul_def split: option.splits dollar.splits dest: put_value_clean [unfolded nul_def, rotated])
      qed
    qed
  qed
qed

lemma in_set_tlD: "x \<in> set (tl xs) \<Longrightarrow> x \<in> set xs"
  by (cases xs) simp_all

lemma set_parse_loop: "a \<in> set (parse_loop n s) \<Longrightarrow> set a \<subseteq> set s"
proof (induction n s arbitrary: a rule: parse_loop.induct)
  case (2 n s)
  have sub: "set (tl (dropWhile P xs)) \<subseteq> set xs" "set (takeWhile P xs) \<subseteq> set xs" for P and xs :: string
    by (auto dest: set_takeWhileD set_dropWhileD in_set_tlD)
  show ?case
  proof (cases "dropWhile is_space s")
    case Nil
    with "2.prems" show ?thesis by simp
  next
    case (Cons c cs)
    have s: "set (c # cs) \<subseteq> set s" unfolding Cons [symmetric] by (auto dest: set_dropWhileD)
    show ?thesis
    proof (cases "c = CHR 0x22")
      case True
      then have "a = takeWhile (\<lambda>c. c \<noteq> CHR 0x22) cs \<or> a \<in> set (parse_loop n (tl (dropWhile (\<lambda>c. c \<noteq> CHR 0x22) cs)))"
        using "2.prems" Cons by simp
      then have "set a \<subseteq> set cs" using "2.IH"(1) [OF Cons True] sub by blast
      with s show ?thesis by auto
    next
      case False
      then have "a = takeWhile (\<lambda>c. \<not> is_space c) (c # cs) \<or> a \<in> set (parse_loop n (tl (dropWhile (\<lambda>c. \<not> is_space c) (c # cs))))"
        using "2.prems" Cons by (simp del: takeWhile.simps dropWhile.simps)
      then have "set a \<subseteq> set (c # cs)" using "2.IH"(2) [OF Cons False] sub by blast
      with s show ?thesis by blast
    qed
  qed
qed simp

text \<open>The arguments a command is called with are as it needs them.\<close>

lemma parsed_args_ok:
  assumes "nul \<notin> set l" and "length l < SHELL_MAX_LINE_LEN"
  shows "args_ok (parse_args (trim_end l) n)"
proof -
  have "set (trim_end l) \<subseteq> set l" by (auto simp: trim_end_def dest: set_dropWhileD)
  then have "\<forall>a \<in> set (parse_args (trim_end l) n). nul \<notin> set a"
    using set_parse_loop assms(1) unfolding parse_args_def by blast
  moreover have "length (trim_end l) \<le> length l" using length_dropWhile_le [of is_space "rev l"] by (simp add: trim_end_def)
  ultimately show ?thesis
    using parse_loop_pieces [of "n - 1" "trim_end l"] assms(2) by (simp add: args_ok_def list_all_iff parse_args_def)
qed

lemma called_args_ok:
  assumes "env_clean e" and "shell_execute rh cmds e fd line = Some (ret, texts, Some (h, args))"
  shows "args_ok args"
proof -
  obtain raw n x where x: "os_env_expand (Some (line_buffer raw)) True SHELL_MAX_LINE_LEN e = Some (n, Some x)"
    and d: "shell_dispatch rh cmds fd (parse_args (trim_end (cstr SHELL_MAX_LINE_LEN x)) SHELL_MAX_ARGS) = (ret, texts, Some (h, args))"
    using assms(2) by (auto simp: shell_execute_def split: option.splits if_splits)
  have "expand_loop (env_value_of e) SHELL_MAX_LINE_LEN (line_buffer raw) 0 [] = Some x"
    using x by (auto simp: os_env_expand_def SHELL_MAX_LINE_LEN_def)
  then have "nul \<notin> set x" using expand_loop_clean [of "env_value_of e" "[]"] env_value_clean [OF assms(1)] by auto
  then have "nul \<notin> set (cstr SHELL_MAX_LINE_LEN x)" by (rule clean_cstr)
  moreover have "length (cstr SHELL_MAX_LINE_LEN x) < SHELL_MAX_LINE_LEN" by (simp add: cstr_def SHELL_MAX_LINE_LEN_def)
  ultimately have "args_ok (parse_args (trim_end (cstr SHELL_MAX_LINE_LEN x)) SHELL_MAX_ARGS)" by (rule parsed_args_ok)
  moreover have "args = parse_args (trim_end (cstr SHELL_MAX_LINE_LEN x)) SHELL_MAX_ARGS"
    using d by (auto simp: shell_dispatch_def Let_def split: if_splits option.splits prod.splits)
  ultimately show ?thesis by simp
qed

lemma execute_line_texts:
  assumes "text_inv s" and "execute_line p fd line s = Some (ret, s', texts)"
  shows "text_inv s'"
  using assms(2) run_builtin_texts [OF assms(1)] called_args_ok [OF text_invD(1) [OF assms(1)]] assms(1)
  by (fastforce simp: execute_line_def split: option.splits)

section \<open>Every event\<close>

text \<open>An event that brings a line that fits; the worker is only handed entries of the table.\<close>

fun event_fits :: "'v sys_event \<Rightarrow> bool" where
  "event_fits (EvLine p fd line) = (case line of None \<Rightarrow> True | Some l \<Rightarrow> line_fits l)"
| "event_fits (EvWorker p i) = (i < OS_SCHED_MAX_JOBS)"
| "event_fits (EvWebCommand p recv) =
     (case recv of None \<Rightarrow> True | Some data \<Rightarrow> length (request_body 256 data) < SHELL_MAX_LINE_LEN - 1)"
| "event_fits _ = True"

lemma event_fits_ok:
  assumes "world_inv w" and "text_inv (w_sys w)" and "event_fits e"
  shows "event_ok e w"
proof (cases e)
  case (EvWorker p i)
  have "sched_wf (y_sched (w_sys w))" using assms(1) by (simp add: world_inv_def sys_invD)
  then have l: "i < length (s_jobs (y_sched (w_sys w)))" using EvWorker assms(3) by (simp add: sched_wf_def)
  then have "line_fits (j_command (s_jobs (y_sched (w_sys w)) ! i))"
    using assms(2) list_all_nth by (fastforce simp: text_inv_def jobs_fit_def)
  with l EvWorker show ?thesis by simp
qed (use assms(3) in simp_all)

lemma sys_step_texts:
  assumes "text_inv (w_sys w)" and "sys_step e w = Some w'"
  shows "text_inv (w_sys w')"
proof (cases e)
  case (EvLine p fd line)
  with assms show ?thesis by (auto simp: execute_line_texts)
next
  case (EvJobTimer i)
  with assms show ?thesis by (auto simp: on_sys_def text_inv_sched text_invD job_turns_fit)
next
  case (EvWorker p i)
  with assms obtain ret s1 texts
    where "execute_line p (j_fd (s_jobs (y_sched (w_sys w)) ! i)) (Some (j_command (s_jobs (y_sched (w_sys w)) ! i))) (w_sys w) = Some (ret, s1, texts)"
    and w': "w_sys w' = s1\<lparr>y_sched := fst (worker_done i (y_sched s1))\<rparr>"
    by (auto simp: sched_worker_def Let_def split: if_splits)
  with execute_line_texts [OF assms(1)] have "text_inv s1" by blast
  then show ?thesis unfolding w' by (simp add: text_inv_sched text_invD job_turns_fit)
next
  case (EvWebCommand p recv)
  with assms show ?thesis
    by (auto simp: web_command_def execute_line_texts split: option.splits bind_splits if_splits)
next
  case (EvSample r)
  with assms show ?thesis by (auto simp: text_keep split: prod.splits)
qed (use assms in \<open>auto simp: on_sys_def text_keep\<close>)

lemma sys_run_fits:
  assumes "world_inv w" and "text_inv (w_sys w)" and "list_all event_fits es"
  shows "\<exists>w'. sys_run es w = Some w' \<and> world_inv w'"
  using assms
proof (induction es arbitrary: w)
  case (Cons e es)
  then obtain w1 where w1: "sys_step e w = Some w1" using sys_step_defined [OF event_fits_ok [of w e]] by auto
  have "world_inv w1" "text_inv (w_sys w1)"
    using sys_step_keeps [OF Cons.prems(1) w1] sys_step_texts [OF Cons.prems(2) w1] by simp_all
  with Cons w1 show ?case by simp
qed simp

section \<open>From the boot on\<close>

text \<open>The variables read from the flash are C strings.\<close>

definition blob_texts :: "env_blob \<Rightarrow> bool" where
  "blob_texts b \<longleftrightarrow> list_all (\<lambda>x. nul \<notin> set (e_value x)) (blob_entries b)"

lemma env_init_clean:
  assumes "env_clean e" and "blob_ok (fst (snd g))" and "blob_texts (fst (snd g))"
  shows "env_clean (fst (snd (os_env_init lk r g e)))"
proof -
  have "nul \<notin> set (e_value (blob_entries (fst (snd g)) ! i))" if "i < unat (blob_count (fst (snd g)))" for i
    using assms(2,3) that list_all_nth [of _ "blob_entries (fst (snd g))" i] by (fastforce simp: blob_texts_def blob_ok_def)
  then have "env_clean (fst (env_load_locked (fst g) (fst (snd g)) (snd (snd g)) s))" for s
    using env_zero_clean by (auto simp: env_load_locked_def env_clean_def list_all_iff)
  then show ?thesis
    using assms(1) by (auto simp: os_env_init_def split_beta Let_def env_clean_def split: option.split)
qed

lemma boot_texts:
  assumes "blob_ok (fst (snd (b_env_blob b)))" and "blob_texts (fst (snd (b_env_blob b)))"
    and "app_main b (sys_power_on v) = (Booted w, tr)"
  shows "text_inv (w_sys w)"
proof -
  from app_main_stages [OF assms(3)] obtain s1 s3 w4 t4 where s1: "s1 = fst (boot_storage b (w_sys (sys_power_on v)))"
    and s3: "s3 = fst (boot_services b (s1\<lparr>y_kernel := fst (snd (os_kernel_init (b_kernel_lock b) (b_now b) (y_kernel s1)))\<rparr>))"
    and w4: "boot_network b ((sys_power_on v)\<lparr>w_sys := s3\<rparr>) = Some (w4, t4)"
    and w: "w = w4\<lparr>w_sys := fst (boot_shell b (w_sys w4))\<rparr>"
    by metis
  have "text_inv (w_sys (sys_power_on v))"
    using env_zero_clean
    by (simp add: sys_power_on_def text_inv_def env_clean_def jobs_fit_def env_boot_def sched_boot_def list_all_iff job_zero_fits)
  then have "text_inv s1" unfolding s1 by (simp add: boot_storage_def split_beta Let_def text_keep)
  then have "text_inv s3"
    using assms(1,2) unfolding s3
    by (simp add: boot_services_def split_beta Let_def text_inv_def env_init_clean job_steps_fit)
  moreover have "y_env (w_sys w4) = y_env s3" "y_sched (w_sys w4) = y_sched s3"
    using w4 by (auto simp: boot_network_def boot_portal_def split_beta Let_def split: option.splits if_splits)
  ultimately show ?thesis unfolding w by (simp add: text_inv_def boot_shell_def split_beta Let_def)
qed



end
