(* ===== verification/Deferred.thy ===== *)
theory Deferred
  imports Scenarios
begin

text \<open>
  Commands run later: what becomes of a line of \<^verbatim>\<open>at\<close> and \<^verbatim>\<open>every\<close> (\<^verbatim>\<open>shell_commands.c\<close>) on its way through the
  table of \<^verbatim>\<open>os_scheduler.c\<close>, the expiry of its timer and the worker, and how long a job keeps its place in
  that table.
\<close>

section \<open>Lines written from arguments\<close>

definition show_line :: "string list \<Rightarrow> string" where
  "show_line ts = unwords (map show_arg ts)"

definition clean_arg :: "string \<Rightarrow> bool" where
  "clean_arg t \<longleftrightarrow> arg_ok t \<and> CHR ''$'' \<notin> set t \<and> nul \<notin> set t"

lemma show_arg_last: "arg_ok t \<Longrightarrow> show_arg t \<noteq> [] \<and> \<not> is_space (last (show_arg t))"
  using plain_last [of t] quoted_last [of t] by (auto simp: show_arg_def quoted_def)

lemma show_line_last: "ts \<noteq> [] \<Longrightarrow> list_all arg_ok ts \<Longrightarrow> show_line ts \<noteq> [] \<and> \<not> is_space (last (show_line ts))"
  by (induction ts rule: unwords.induct) (auto simp: show_line_def show_arg_last)

lemma parse_last: "arg_ok t \<Longrightarrow> parse_loop (Suc n) (show_arg t) = [t]"
  using parse_last_plain [of t n] parse_last_quoted [of t n] by (auto simp: show_arg_def quoted_def arg_ok_def)

lemma parse_show_line: "list_all arg_ok ts \<Longrightarrow> ts \<noteq> [] \<Longrightarrow> parse_loop n (show_line ts) = take n ts"
proof (induction ts arbitrary: n)
  case (Cons t ts)
  show ?case
  proof (cases n)
    case (Suc m)
    show ?thesis
    proof (cases "ts = []")
      case True
      with Cons.prems show ?thesis by (simp add: Suc show_line_def parse_last del: parse_loop.simps)
    next
      case False
      then have "show_line (t # ts) = show_arg t @ CHR '' '' # show_line ts" by (simp add: show_line_def unwords_Cons)
      with Cons False show ?thesis by (simp add: Suc parse_loop_arg del: parse_loop.simps)
    qed
  qed simp
qed simp

lemma set_unwords: "set (unwords ts) \<subseteq> \<Union> (set ` set ts) \<union> {CHR '' ''}"
  by (induction ts rule: unwords.induct) auto

lemma set_show_line: "set (show_line ts) \<subseteq> \<Union> (set ` set ts) \<union> {CHR '' '', CHR 0x22}"
  by (induction ts rule: unwords.induct) (auto simp: show_line_def show_arg_def)

lemma length_show_line: "length (unwords ts) \<le> length (show_line ts)"
  by (induction ts rule: unwords.induct) (auto simp: show_line_def show_arg_def)

text \<open>A built-in command written with clean arguments runs its function on them.\<close>

lemma execute_show_line:
  assumes "y_cmds s = shell_commands_register_all []" and "h < 52" and "plain (builtin_names ! h)" and "hd (builtin_names ! h) \<noteq> CHR ''#''"
    and "list_all clean_arg (builtin_names ! h # rest)" and "length rest \<le> 14" and "rest = [] \<or> hd rest \<noteq> ''--help''"
    and "length (show_line (builtin_names ! h # rest)) < SHELL_MAX_LINE_LEN - 1"
  shows "execute_line p fd (Some (show_line (builtin_names ! h # rest))) s =
    (case run_builtin p h fd (builtin_names ! h # rest) s of (ret, s', outs) \<Rightarrow> Some (ret, s', said outs))"
proof -
  let ?ts = "builtin_names ! h # rest" let ?line = "show_line ?ts"
  have ok: "list_all arg_ok ?ts" using assms(5) by (auto simp: clean_arg_def list_all_iff)
  have l: "?line \<noteq> []" "\<not> is_space (last ?line)" using show_line_last [OF _ ok] by simp_all
  have "parse_args (trim_end ?line) SHELL_MAX_ARGS = ?ts"
    using trim_end_last [OF l] parse_show_line [OF ok] assms(6) by (simp add: parse_args_def SHELL_MAX_ARGS_def)
  moreover have "hd ?line \<noteq> CHR ''#''"
    using assms(3,4) by (cases rest) (auto simp: show_line_def show_arg_def plain_def hd_append)
  moreover have "CHR ''$'' \<notin> set ?line" "nul \<notin> set ?line"
    using set_show_line [of ?ts] assms(5) by (auto simp: clean_arg_def list_all_iff nul_def)
  ultimately show ?thesis using l(1) assms(1,2,7,8) by (intro execute_plain_line)
qed

section \<open>A scheduled line\<close>

lemma sys_run_nil [simp]: "Option.bind x (sys_run []) = x"
  by (cases x) simp_all

lemma sys_run_one: "sys_run [e] w = sys_step e w"
  by simp

definition new_job :: "nat \<Rightarrow> string \<Rightarrow> string \<Rightarrow> int \<Rightarrow> 32 word \<Rightarrow> bool \<Rightarrow> sched_job" where
  "new_job t name c fd d rep = job_zero\<lparr>j_name := name, j_command := c, j_fd := fd, j_delay_ms := d, j_repeat := rep,
     j_running := True, j_timer := Some t\<rparr>"

definition with_job :: "nat \<Rightarrow> sched_job \<Rightarrow> 'v sys \<Rightarrow> 'v sys" where
  "with_job i j s = s\<lparr>y_sched := (y_sched s)\<lparr>s_jobs := (s_jobs (y_sched s))[i := j]\<rparr>\<rparr>"

definition job_finished :: "nat \<Rightarrow> 'v sys \<Rightarrow> 'v sys" where
  "job_finished i s = s\<lparr>y_sched := fst (worker_done i (y_sched s))\<rparr>"

definition schedule_verb :: "bool \<Rightarrow> string" where
  "schedule_verb rep = (if rep then ''every'' else ''at'')"

definition schedule_note :: "bool \<Rightarrow> string \<Rightarrow> 32 word \<Rightarrow> string" where
  "schedule_note rep c ms =
     (if rep then ''Scheduled repeating job '' @ q1 c @ '' every '' @ pr_u32 ms @ '' ms''
      else ''Scheduled '' @ q1 c @ '' in '' @ pr_u32 ms @ '' ms'')"

lemma run_schedule: "run_builtin p (if rep then 45 else 44) = (if rep then cmd_every else cmd_at) p"
  by (simp add: fun_eq_iff run_builtin_def builtins_def)

lemma schedule_names: "builtin_names ! (if rep then 45 else 44) = schedule_verb rep"
  by (simp add: builtin_names_eq schedule_verb_def)

lemma schedule_verb_ok: "clean_arg (schedule_verb rep)" "plain (schedule_verb rep)" "hd (schedule_verb rep) \<noteq> CHR ''#''"
proof -
  have "plain ''every''" "plain ''at''" by code_simp+
  then show p: "plain (schedule_verb rep)" by (simp add: schedule_verb_def)
  then show "clean_arg (schedule_verb rep)" by (auto simp: clean_arg_def arg_ok_def schedule_verb_def nul_def)
  show "hd (schedule_verb rep) \<noteq> CHR ''#''" by (simp add: schedule_verb_def)
qed

lemma schedule_into_free_slot:
  assumes "s_initialised s" and "n \<noteq> []" and "length n < OS_SCHED_NAME_LEN" and "c \<noteq> []" and "length c < SHELL_MAX_LINE_LEN" and "d \<noteq> 0"
    and "find_job_locked n s = None" and "sched_find_free_slot s = Some i"
  shows "\<exists>tr. os_scheduler_schedule ms (Some t) True (Some n) (Some c) d rep fd s =
    (ESP_OK, s\<lparr>s_jobs := (s_jobs s)[i := new_job t n c fd d rep]\<rparr>, tr)"
  using assms by (simp add: os_scheduler_schedule_def new_job_def Let_def)

lemma length_pr_u32: "length (pr_u32 w) \<le> 10"
proof -
  have "unat w < 10 ^ 10" using unsigned_less [of w, where 'a = nat] by simp
  then show ?thesis unfolding pr_u32_def by (rule length_dec) simp
qed

lemma schedule_note_fits: "length c < SHELL_MAX_LINE_LEN \<Longrightarrow> length (nl (schedule_note rep c ms)) < 512"
  using length_pr_u32 [of ms] by (simp add: schedule_note_def q1_def quote_def crlf_def SHELL_MAX_LINE_LEN_def)

lemma job_label_ok: "job_label ''job_'' us \<noteq> []" "length (job_label ''job_'' us) < OS_SCHED_NAME_LEN"
  using cstr_fits [of OS_SCHED_NAME_LEN] by (simp_all add: job_label_def cstr_eq_Nil OS_SCHED_NAME_LEN_def del: length_cstr)

lemma no_help_delay: "atou32 d \<noteq> 0 \<Longrightarrow> d \<noteq> ''--help''"
proof -
  have "atou32 ''--help'' = 0" by code_simp
  then show "atou32 d \<noteq> 0 \<Longrightarrow> d \<noteq> ''--help''" by auto
qed

text \<open>Claim C13: a line \<open>at MS COMMAND\<close> or \<open>every MS COMMAND\<close> of at most 15 arguments is the command executed
  later.  While the scheduler runs, the label made of the clock is new and a slot and a timer are there, the line
  succeeds, writes its confirmation and changes nothing but one slot of the table of jobs; and when the timer of that
  slot has expired and the worker takes the job, the system does what it would have done had a session with
  the same output executed the arguments joined by blanks: a job of \<open>at\<close> is then marked done, a job of \<open>every\<close> stays
  as it is.\<close>

theorem scheduled_line_runs:
  assumes "y_cmds (w_sys w) = shell_commands_register_all []"
    and "sched_wf (y_sched (w_sys w))" and "s_initialised (y_sched (w_sys w))"
    and "find_job_locked (job_label ''job_'' (pl_now_us p)) (y_sched (w_sys w)) = None"
    and "sched_find_free_slot (y_sched (w_sys w)) = Some i" and "pl_handle p = Some t" and "pl_done p"
    and "list_all clean_arg (d # ws)" and "length ws \<le> 13" and "atou32 d \<noteq> 0" and "unwords ws \<noteq> []"
    and "line = show_line (schedule_verb rep # d # ws)" and "length line < SHELL_MAX_LINE_LEN - 1"
    and "job = new_job t (job_label ''job_'' (pl_now_us p)) (unwords ws) fd (atou32 d) rep"
  shows "execute_line p fd (Some line) (w_sys w) =
      Some (SHELL_CMD_OK, with_job i job (w_sys w), [nl (schedule_note rep (unwords ws) (atou32 d))]) \<and>
    sys_run [EvLine p fd (Some line), EvJobTimer (Some i), EvWorker p' i] w =
      map_option (on_sys (job_finished i))
        (sys_run [EvLine p' fd (Some (unwords ws))] (on_sys (with_job i (job\<lparr>j_fire_count := 1\<rparr>)) w))"
proof
  let ?s = "w_sys w" let ?b = "y_sched ?s" let ?h = "if rep then 45 else 44 :: nat" let ?c = "unwords ws"
  let ?n = "job_label ''job_'' (pl_now_us p)"
  have i: "i < length (s_jobs ?b)" using tab_freeD(1) assms(5) unfolding sched_find_free_slot_def by blast
  have ws: "ws \<noteq> []" using assms(11) by auto
  have c: "length ?c + 3 \<le> length line"
    using length_show_line [of "d # ws"] ws assms(12)
    by (cases ws) (auto simp: show_line_def schedule_verb_def show_arg_def unwords_Cons)
  then have cl: "length ?c + 2 \<le> SHELL_MAX_LINE_LEN" "length ?c < SHELL_MAX_LINE_LEN" using assms(13) by simp_all
  have "d \<noteq> ''--help''" using no_help_delay [OF assms(10)] .
  then have e: "execute_line p fd (Some line) ?s =
      (case (if rep then cmd_every else cmd_at) p fd (schedule_verb rep # d # ws) ?s of (ret, s', outs) \<Rightarrow> Some (ret, s', said outs))"
    using execute_show_line [OF assms(1), of ?h "d # ws" p fd] assms(8,9,12,13) schedule_verb_ok [of rep]
    by (simp add: schedule_names run_schedule)
  obtain tr where sch: "os_scheduler_schedule (pl_ticks p) (Some t) True (Some ?n) (Some ?c) (atou32 d) rep fd ?b =
      (ESP_OK, ?b\<lparr>s_jobs := (s_jobs ?b)[i := job]\<rparr>, tr)"
    using schedule_into_free_slot [OF assms(3) job_label_ok assms(11) cl(2) assms(10,4,5)] assms(14) by blast
  have "(if rep then cmd_every else cmd_at) p fd (schedule_verb rep # d # ws) ?s =
      (SHELL_CMD_OK, with_job i job ?s, map DSched tr @ [say (nl (schedule_note rep ?c (atou32 d)))])"
    using sch ws join_args_fits [of "[]" ws] cl(1) assms(6,7)
    by (cases ws; cases rep) (simp_all add: cmd_every_def cmd_at_def schedule_with_def schedule_note_def with_job_def succeeds_def Let_def)
  then show x: "execute_line p fd (Some line) ?s =
      Some (SHELL_CMD_OK, with_job i job ?s, [nl (schedule_note rep ?c (atou32 d))])"
    using schedule_note_fits [OF cl(2), of rep "atou32 d"] by (simp add: e said_def say_def comp_def)
  obtain q where q: "s_queue ?b = Some q" using assms(2,3) by (auto simp: sched_wf_def)
  let ?j = "job\<lparr>j_fire_count := 1\<rparr>"
  have "sys_step (EvJobTimer (Some i)) (on_sys (with_job i job) w) = Some (on_sys (with_job i ?j) w)"
    using i q by (simp add: on_sys_def with_job_def sched_timer_callback_def Let_def assms(14) new_job_def job_zero_def)
  moreover have "sys_step (EvWorker p' i) (on_sys (with_job i ?j) w) =
      map_option (on_sys (job_finished i)) (sys_run [EvLine p' fd (Some ?c)] (on_sys (with_job i ?j) w))"
    using i by (simp add: sys_run_one on_sys_def with_job_def sched_worker_def job_finished_def assms(14) new_job_def
        option.map_comp comp_def split_beta del: sys_run.simps)
  ultimately show "sys_run [EvLine p fd (Some line), EvJobTimer (Some i), EvWorker p' i] w =
      map_option (on_sys (job_finished i)) (sys_run [EvLine p' fd (Some ?c)] (on_sys (with_job i ?j) w))"
    using x by (simp add: on_sys_def bind_eq_Some_conv)
qed

text \<open>A system with its scheduler running.  The quotes of a scheduled command are lost on the way: what runs
  here is \<open>export A=hi there\<close>, which drops the second word.\<close>

definition demo_world :: "mem world" where
  "demo_world = (sys_power_on (Map.empty, []))\<lparr>w_sys := demo_sys\<lparr>y_sched := sched_started\<rparr>\<rparr>"

theorem scheduled_line_runs_witness:
  "\<exists>w'. sys_run [EvLine demo_platform 3 (Some (''at 500 export '' @ quoted ''A=hi there'')), EvJobTimer (Some 0), EvWorker demo_platform 0]
       demo_world = Some w' \<and> env_value_of (y_env (w_sys w')) ''A'' = Some ''hi'' \<and> j_completed (s_jobs (y_sched (w_sys w')) ! 0)"
proof -
  let ?p = "demo_platform :: mem platform" let ?ws = "[''export'', ''A=hi there'']" let ?args = "[''export'', ''A=hi'', ''there'']"
  let ?job = "new_job 30 (job_label ''job_'' 1000000) (unwords ?ws) 3 (atou32 ''500'') False"
  let ?w1 = "on_sys (with_job 0 (?job\<lparr>j_fire_count := 1\<rparr>)) demo_world"
  let ?e = "os_env_set (Some ''A'') (Some ''hi'') env_started"
  have s: "y_cmds (w_sys demo_world) = shell_commands_register_all []" "y_sched (w_sys demo_world) = sched_started" "y_env (w_sys demo_world) = env_started"
    by (simp_all add: demo_world_def demo_sys_def)
  have p: "pl_handle ?p = Some 30" "pl_done ?p" "pl_now_us ?p = 1000000" by (simp_all add: demo_platform_def)
  have d: "atou32 ''500'' \<noteq> 0" "list_all clean_arg (''500'' # ?ws)" "list_all clean_arg ?args" "plain ''export''" by code_simp+
  have l: "show_line (schedule_verb False # ''500'' # ?ws) = ''at 500 export '' @ quoted ''A=hi there''" by code_simp
  have "sched_find_free_slot sched_started = Some 0" by code_simp
  moreover have "sched_wf sched_started" "s_initialised sched_started" "find_job_locked n sched_started = None" for n
    by (simp_all add: sched_started_eq sched_wf_def list_all_iff find_job_locked_def tab_find_None OS_SCHED_MAX_JOBS_def)
  moreover have "length (show_line (schedule_verb False # ''500'' # ?ws)) < SHELL_MAX_LINE_LEN - 1"
    by (simp add: l quoted_def SHELL_MAX_LINE_LEN_def)
  ultimately have t: "sys_run [EvLine ?p 3 (Some (show_line (schedule_verb False # ''500'' # ?ws))), EvJobTimer (Some 0), EvWorker ?p 0] demo_world =
      map_option (on_sys (job_finished 0)) (sys_run [EvLine ?p 3 (Some (unwords ?ws))] ?w1)"
    using d(1,2) by (intro conjunct2 [OF scheduled_line_runs]) (simp_all only: s p, simp_all)
  have c: "show_line ?args = ''export A=hi there''" "unwords ?ws = ''export A=hi there''" by code_simp+
  have e: "fst ?e = ESP_OK" "env_value_of (fst (snd ?e)) ''A'' = Some ''hi''"
    by code_simp+
  let ?s = "with_job 0 (?job\<lparr>j_fire_count := 1\<rparr>) (w_sys demo_world)"
  have y: "y_env ?s = env_started" "y_cmds ?s = shell_commands_register_all []" by (simp_all add: with_job_def s)
  have "\<exists>outs. cmd_export ?p 3 ?args s = (SHELL_CMD_OK, s\<lparr>y_env := fst (snd ?e)\<rparr>, outs)" if "y_env s = env_started" for s
    using e(1) that by (simp add: cmd_export_def succeeds_def split_beta Let_def)
  from this [OF y(1)] obtain texts where "execute_line ?p 3 (Some ''export A=hi there'') ?s = Some (SHELL_CMD_OK, ?s\<lparr>y_env := fst (snd ?e)\<rparr>, texts)"
    using execute_show_line [OF y(2), of 40 "[''A=hi'', ''there'']" ?p 3] d(3,4)
    by (auto simp: names_used run_export c(1) SHELL_MAX_LINE_LEN_def)
  then have "sys_run [EvLine ?p 3 (Some (unwords ?ws))] ?w1 = Some (on_sys (\<lambda>_. ?s\<lparr>y_env := fst (snd ?e)\<rparr>) demo_world)"
    unfolding c(2) by (simp add: on_sys_def)
  then have run: "sys_run [EvLine ?p 3 (Some (''at 500 export '' @ quoted ''A=hi there'')), EvJobTimer (Some 0), EvWorker ?p 0] demo_world =
      Some (on_sys (\<lambda>_. job_finished 0 (?s\<lparr>y_env := fst (snd ?e)\<rparr>)) demo_world)"
    using t unfolding l by (simp only: on_sys_def option.map) simp
  have "y_env (job_finished 0 (?s\<lparr>y_env := fst (snd ?e)\<rparr>)) = fst (snd ?e)"
    "j_completed (s_jobs (y_sched (job_finished 0 (?s\<lparr>y_env := fst (snd ?e)\<rparr>))) ! 0)"
    by (simp_all add: job_finished_def with_job_def worker_done_def new_job_def job_zero_def Let_def s sched_started_eq OS_SCHED_MAX_JOBS_def)
  with run e(2) show ?thesis by (auto simp: on_sys_def)
qed

section \<open>How long a job keeps its slot\<close>

text \<open>Everything but cancelling a job and stopping the scheduler.\<close>

definition keeps_jobs :: "sched_op \<Rightarrow> bool" where
  "keeps_jobs x = (case x of SDeinit \<Rightarrow> False | SCancel _ \<Rightarrow> False | _ \<Rightarrow> True)"

definition op_accepted :: "sched_op \<Rightarrow> sched_state \<Rightarrow> bool" where
  "op_accepted x s =
     (case x of SSchedule ms h rc n c d r fd \<Rightarrow> fst (os_scheduler_schedule ms h rc n c d r fd s) = ESP_OK | _ \<Rightarrow> False)"

fun accepted :: "sched_op list \<Rightarrow> sched_state \<Rightarrow> nat" where
  "accepted [] s = 0"
| "accepted (x # xs) s = (if op_accepted x s then 1 else 0) + accepted xs (fst (sched_exec x s))"

abbreviation jobs_held :: "sched_state \<Rightarrow> nat" where "jobs_held s \<equiv> count_if job_used (s_jobs s)"

lemma count_update_mono: "(i < length xs \<Longrightarrow> P (xs ! i) \<Longrightarrow> P y) \<Longrightarrow> count_if P xs \<le> count_if P (xs[i := y])"
  using count_if_update [of i xs P y] by (cases "i < length xs") (auto simp: not_less list_update_beyond split: if_splits)

lemma free_slot_job: "sched_find_free_slot s = Some i \<Longrightarrow> i < length (s_jobs s) \<and> \<not> job_used (s_jobs s ! i)"
  unfolding sched_find_free_slot_def using tab_freeD [of job_used "s_jobs s" i] by simp

lemma exec_holds:
  assumes "s_initialised s" and "keeps_jobs x"
  shows "s_initialised (fst (sched_exec x s)) \<and>
    jobs_held s + (if op_accepted x s then 1 else 0) \<le> jobs_held (fst (sched_exec x s))"
proof (cases x)
  case (SInit lk q w)
  with assms(1) show ?thesis by (simp add: os_scheduler_init_def op_accepted_def)
next
  case (SSchedule ms h rc n c d r fd)
  show ?thesis
  proof (cases "n = None \<or> c = None")
    case True
    with SSchedule assms(1) show ?thesis by (auto simp: os_scheduler_schedule_def op_accepted_def split: option.split)
  next
    case False
    then obtain n' c' where nc: "n = Some n'" "c = Some c'" by auto
    obtain res s' tr where e: "os_scheduler_schedule ms h rc (Some n') (Some c') d r fd s = (res, s', tr)"
      by (metis prod_cases3)
    from e show ?thesis
    proof (cases rule: schedule_cases)
      case same
      with e assms(1) show ?thesis by (simp add: SSchedule nc op_accepted_def)
    next
      case (cleared i)
      with e assms(1) free_slot_job [OF cleared(2)] count_update_mono [of i "s_jobs s" job_used job_zero]
      show ?thesis by (simp add: SSchedule nc op_accepted_def)
    next
      case (added i t)
      have "jobs_held s' = Suc (jobs_held s)"
        using job_tab.count_fill [OF added(2) [unfolded sched_find_free_slot_def]] by (simp add: added(6) job_used_def)
      with e added(1,6) assms(1) show ?thesis by (simp add: SSchedule nc op_accepted_def)
    qed
  qed
next
  case (SFire i)
  have "jobs_held s \<le> count_if job_used ((s_jobs s)[k := (s_jobs s ! k)\<lparr>j_fire_count := f\<rparr>])" for k f
    by (rule count_update_mono) (simp add: job_used_def)
  with SFire assms(1) show ?thesis by (auto simp: sched_timer_callback_def op_accepted_def Let_def split: option.split)
next
  case (SDone i)
  have "jobs_held s \<le> count_if job_used ((s_jobs s)[i := (s_jobs s ! i)\<lparr>j_completed := True, j_running := False\<rparr>])"
    by (rule count_update_mono) (simp add: job_used_def)
  with SDone assms(1) show ?thesis by (simp add: worker_done_def op_accepted_def Let_def)
qed (use assms(2) in \<open>simp_all add: keeps_jobs_def\<close>)

lemma run_holds:
  "s_initialised s \<Longrightarrow> list_all keeps_jobs ops \<Longrightarrow>
   jobs_held s + accepted ops s \<le> jobs_held (run (\<lambda>x s. fst (sched_exec x s)) ops s)"
proof (induction ops arbitrary: s)
  case (Cons x ops)
  then have "jobs_held s + (if op_accepted x s then 1 else 0) \<le> jobs_held (fst (sched_exec x s))"
    "jobs_held (fst (sched_exec x s)) + accepted ops (fst (sched_exec x s)) \<le> jobs_held (run (\<lambda>x s. fst (sched_exec x s)) (x # ops) s)"
    using exec_holds [of s x] by simp_all
  then show ?case by simp
qed simp

text \<open>Claim C33: a job that is done keeps its slot: between two cancellations the scheduler accepts no more jobs than
  there were free slots, eight at most, whatever expiries and completions lie between them; and once eight have been
  accepted, one-shot jobs that have all long been run included, every further \<open>at\<close> and \<open>every\<close> is refused.\<close>

theorem done_jobs_keep_slots:
  assumes "sched_wf s" and "s_initialised s" and "list_all keeps_jobs ops"
    and "s' = run (\<lambda>x s. fst (sched_exec x s)) ops s"
  shows "jobs_held s + accepted ops s \<le> OS_SCHED_MAX_JOBS \<and>
    (jobs_held s + accepted ops s = OS_SCHED_MAX_JOBS \<longrightarrow> fst (os_scheduler_schedule ms h rc n c d r fd s') \<noteq> ESP_OK)"
proof -
  have "sched_wf s'" using sched_calls.run_inv [of ops s] assms(1,4) by (simp add: list_all_iff)
  then have l: "length (s_jobs s') = OS_SCHED_MAX_JOBS" by (simp add: sched_wf_def)
  then have le: "jobs_held s' \<le> OS_SCHED_MAX_JOBS" using count_if_le [of job_used "s_jobs s'"] by simp
  have r: "jobs_held s + accepted ops s \<le> jobs_held s'" using run_holds [OF assms(2,3)] assms(4) by simp
  moreover have "fst (os_scheduler_schedule ms h rc n c d r fd s') \<noteq> ESP_OK" if "jobs_held s + accepted ops s = OS_SCHED_MAX_JOBS"
  proof -
    have "jobs_held s' = length (s_jobs s')" using r le that l by simp
    then have "sched_find_free_slot s' = None" by (simp add: sched_find_free_slot_def tab_free_None)
    then show ?thesis by (simp add: os_scheduler_schedule_def Let_def split: option.split)
  qed
  ultimately show ?thesis using le by simp
qed

text \<open>Eight one-shot jobs, each expired and run.\<close>

definition one_shot :: "nat \<Rightarrow> sched_op list" where
  "one_shot k = [SSchedule (\<lambda>ms. ms) (Some (Suc k)) True (Some [char_of (65 + k)]) (Some ''free'') 5 False 0, SFire (Some k), SDone k]"

theorem done_jobs_keep_slots_witness:
  "fst (os_scheduler_schedule (\<lambda>ms. ms) (Some 9) True (Some ''Z'') (Some ''free'') 5 False 0
     (run (\<lambda>x s. fst (sched_exec x s)) (concat (map one_shot [0..<8])) sched_started)) \<noteq> ESP_OK"
proof -
  have "sched_wf sched_started" "s_initialised sched_started" by (simp_all add: sched_started_eq sched_wf_def list_all_iff OS_SCHED_MAX_JOBS_def)
  moreover have "list_all keeps_jobs (concat (map one_shot [0..<8]))" by (simp add: one_shot_def keeps_jobs_def list_all_iff)
  moreover have "jobs_held sched_started + accepted (concat (map one_shot [0..<8])) sched_started = OS_SCHED_MAX_JOBS" by code_simp
  ultimately show ?thesis using done_jobs_keep_slots [OF _ _ _ refl] by blast
qed

end
