(* ===== verification/Console.thy ===== *)
theory Console
  imports Scenarios
begin

text \<open>
  The console from the keys to the system: what the loop of the UART shell (\<^verbatim>\<open>uart_shell_task\<close>) executes, and that
  it is the sequence of line events of the running system.
\<close>

section \<open>Keys, answers and lines\<close>

text \<open>The bytes that arrive; on the console a timeout and an error are read over.\<close>

definition keys :: "input list \<Rightarrow> 8 word list" where
  "keys xs = concat (map (\<lambda>x. case x of Got c \<Rightarrow> [c] | _ \<Rightarrow> []) xs)"

definition returns :: "edit_result list \<Rightarrow> (int \<times> string option) list" where
  "returns rs = concat (map (\<lambda>r. case r of More \<Rightarrow> [] | Return n l \<Rightarrow> [(n, l)]) rs)"

definition lines_of :: "(int \<times> string option) list \<Rightarrow> string list" where
  "lines_of rs = map (\<lambda>(n, l). opt_text l) (filter (\<lambda>(n, l). 0 < n) rs)"

definition executed :: "session_event list \<Rightarrow> string list" where
  "executed tr = concat (map (\<lambda>x. case x of Exec l \<Rightarrow> [l] | _ \<Rightarrow> []) tr)"

text \<open>The lines of the abstract editor: what the zipper returns for the keys, without the empty ones.\<close>

definition typed_lines :: "8 word list \<Rightarrow> string list" where
  "typed_lines ks = lines_of (returns (fst (answers (zip_session (SHELL_MAX_LINE_LEN - 1)) ks (zip_new ([], None)))))"

lemma keys_simps [simp]: "keys [] = []" "keys (Got c # xs) = c # keys xs" "keys (Nothing # xs) = keys xs" "keys (Failed # xs) = keys xs"
  by (simp_all add: keys_def)

lemma returns_simps [simp]: "returns [] = []" "returns (More # rs) = returns rs" "returns (Return n l # rs) = (n, l) # returns rs"
  by (simp_all add: returns_def)

lemma lines_of_simps [simp]: "lines_of [] = []" "lines_of ((n, l) # rs) = (if 0 < n then [opt_text l] else []) @ lines_of rs"
  by (simp_all add: lines_of_def)

lemma executed_simps [simp]:
  "executed [] = []" "executed (x # tr) = (case x of Exec l \<Rightarrow> [l] | _ \<Rightarrow> []) @ executed tr"
  "executed (map Out outs @ tr) = executed tr"
  by (simp_all add: executed_def comp_def)

section \<open>Reading and executing\<close>

lemma readline_returns:
  assumes "readline_loop fd buf_sz xs e = (r, ys, h, o1)" and "fd < 0"
  shows "returns (fst (answers (session_key buf_sz) (keys xs) e)) =
    (case r of None \<Rightarrow> [] | Some nt \<Rightarrow> nt # returns (fst (answers (session_key buf_sz) (keys ys) (editor_new h))))"
  using assms
proof (induction fd buf_sz xs e arbitrary: o1 rule: readline_loop.induct)
  case (2 fd buf_sz c xs e)
  obtain q e' o2 where k: "edit_key buf_sz c e = (q, e', o2)" by (metis prod.collapse)
  show ?case
  proof (cases q)
    case More
    with "2.prems"(1) k obtain o3 where rest: "readline_loop fd buf_sz xs e' = (r, ys, h, o3)"
      by (auto simp: split_beta prod_eq_iff Let_def)
    have "session_key buf_sz c e = (More, e')" using k More by (simp add: session_key_def)
    with "2.IH" [OF k [symmetric] More refl rest "2.prems"(2)] show ?thesis by (simp add: split_beta Let_def)
  next
    case (Return n l)
    with k "2.prems"(1) have "r = Some (n, l)" "ys = xs" "h = ed_hist e'" by auto
    moreover have "session_key buf_sz c e = (Return n l, editor_new (ed_hist e'))" using k Return by (simp add: session_key_def)
    ultimately show ?thesis by (simp add: split_beta Let_def)
  qed
qed simp_all

lemma uart_loop_lines:
  "executed (fst (uart_loop exec xs h w)) = lines_of (returns (fst (answers (session_key SHELL_MAX_LINE_LEN) (keys xs) (editor_new h)))) \<and>
   snd (snd (uart_loop exec xs h w)) =
     fold (\<lambda>l w. snd (exec w l)) (lines_of (returns (fst (answers (session_key SHELL_MAX_LINE_LEN) (keys xs) (editor_new h))))) w"
proof (induction exec xs h w rule: uart_loop.induct)
  case (1 exec xs h w)
  obtain r ys h' o1 where l: "readline_loop (- 1) SHELL_MAX_LINE_LEN xs (editor_new h) = (r, ys, h', o1)" by (metis prod_cases4)
  then have s: "shell_readline (- 1) SHELL_MAX_LINE_LEN xs h = (r, ys, h', W SHELL_PROMPT # o1)" by (simp add: shell_readline_def)
  show ?case
  proof (cases r)
    case None
    with readline_returns [OF l] show ?thesis using executed_simps(3) [of "W SHELL_PROMPT # o1" "[]"]
      by (subst (1 2) uart_loop.simps) (simp add: s del: executed_simps(3))
  next
    case (Some nt)
    obtain n t where nt: "nt = (n, t)" by (cases nt)
    have k: "returns (fst (answers (session_key SHELL_MAX_LINE_LEN) (keys xs) (editor_new h))) =
        (n, t) # returns (fst (answers (session_key SHELL_MAX_LINE_LEN) (keys ys) (editor_new h')))"
      using readline_returns [OF l] Some nt by simp
    let ?w = "if n < 0 then w else if 0 < n then snd (exec w (opt_text t)) else w"
    obtain tr h2 w2 where u: "uart_loop exec ys h' ?w = (tr, h2, w2)" by (metis prod_cases3)
    have IH: "executed tr = lines_of (returns (fst (answers (session_key SHELL_MAX_LINE_LEN) (keys ys) (editor_new h'))))"
      "w2 = fold (\<lambda>l w. snd (exec w l)) (lines_of (returns (fst (answers (session_key SHELL_MAX_LINE_LEN) (keys ys) (editor_new h'))))) ?w"
      using 1 [OF s [symmetric] _ refl refl refl refl] Some nt u by (auto split: if_splits)
    have e: "uart_loop exec xs h w = (map Out (W SHELL_PROMPT # o1) @ (if n < 0 then [Wait] else if 0 < n then [Exec (opt_text t)] else []) @ tr, h2, w2)"
      using u Some nt s by (subst uart_loop.simps) (auto split: if_splits)
    show ?thesis using IH by (simp add: e k)
  qed
qed

section \<open>Lines typed as they are\<close>

definition typeable :: "string \<Rightarrow> bool" where
  "typeable l \<longleftrightarrow> length l < SHELL_MAX_LINE_LEN \<and> list_all (\<lambda>c. 32 \<le> (of_char c :: nat) \<and> (of_char c :: nat) < 127) l"

definition key_of :: "char \<Rightarrow> 8 word" where "key_of c = of_nat (of_char c)"

text \<open>Each line and the Return key.\<close>

definition typing :: "string list \<Rightarrow> 8 word list" where
  "typing ls = concat (map (\<lambda>l. map key_of l @ [13]) ls)"

lemma unat_key: "unat (key_of c) = of_char c"
  by (simp add: key_of_def unat_of_nat take_bit_eq_mod)

lemma zip_types:
  assumes "32 \<le> (of_char c :: nat)" and "(of_char c :: nat) < 127" and "length t < cap"
  shows "zip_session cap (key_of c) \<lparr>z_left = t, z_right = [], z_es = ES_NONE, z_hist = a\<rparr> =
    (More, \<lparr>z_left = t @ [c], z_right = [], z_es = ES_NONE, z_hist = a\<rparr>)"
proof -
  have b: "0x20 \<le> key_of c" "key_of c < 0x7F" using assms(1,2) by (simp_all add: word_le_nat_alt word_less_nat_alt unat_key)
  then have "key_of c \<notin> {0x1B, 0x0D, 0x0A, 0x7F, 0x08, 0x03, 0x15, 0x04, 0x01, 0x05}"
    by (auto simp: word_le_nat_alt word_less_nat_alt)
  then show ?thesis using b assms(3) by (simp add: zip_session_def zip_key_def zip_normal_def zip_text_def unat_key)
qed

lemma zip_enter:
  "zip_session cap 13 \<lparr>z_left = t, z_right = [], z_es = ES_NONE, z_hist = a\<rparr> =
    (Return (int (length t)) (Some t), zip_new (spec_add t a))"
  by (simp add: zip_session_def zip_key_def zip_normal_def zip_text_def)

lemma zip_types_line:
  "list_all (\<lambda>c. 32 \<le> (of_char c :: nat) \<and> (of_char c :: nat) < 127) l \<Longrightarrow> length t + length l \<le> cap \<Longrightarrow>
   returns (fst (answers (zip_session cap) (map key_of l @ 13 # ks) \<lparr>z_left = t, z_right = [], z_es = ES_NONE, z_hist = a\<rparr>)) =
   (int (length (t @ l)), Some (t @ l)) # returns (fst (answers (zip_session cap) ks (zip_new (spec_add (t @ l) a))))"
  by (induction l arbitrary: t) (simp_all add: zip_enter zip_types)

lemma zip_types_lines:
  "list_all typeable ls \<Longrightarrow>
   lines_of (returns (fst (answers (zip_session (SHELL_MAX_LINE_LEN - 1)) (typing ls) (zip_new a)))) = filter (\<lambda>l. l \<noteq> []) ls"
proof (induction ls arbitrary: a)
  case (Cons l ls)
  then have l: "list_all (\<lambda>c. 32 \<le> (of_char c :: nat) \<and> (of_char c :: nat) < 127) l" "length ([] :: string) + length l \<le> SHELL_MAX_LINE_LEN - 1"
    by (auto simp: typeable_def)
  have "typing (l # ls) = map key_of l @ 13 # typing ls" by (simp add: typing_def)
  with zip_types_line [OF l, of "typing ls" a] Cons show ?case
    by (simp add: zip_new_def [of a] opt_text_def del: answers_simps)
qed (simp add: typing_def)

section \<open>The console and the system\<close>

text \<open>\<^verbatim>\<open>shell_execute\<close> on the console, on a system that may be stuck.\<close>

definition console_exec :: "'v platform \<Rightarrow> 'v sys option \<Rightarrow> string \<Rightarrow> int \<times> 'v sys option" where
  "console_exec p o' l =
     (case Option.bind o' (execute_line p (- 1) (Some l)) of None \<Rightarrow> (0, None) | Some (ret, s, _) \<Rightarrow> (ret, Some s))"

lemma console_steps:
  "fold (\<lambda>l w. snd (console_exec p w l)) ls (Some (w_sys w)) = map_option w_sys (sys_run (map (\<lambda>l. EvLine p (- 1) (Some l)) ls) w)"
proof (induction ls arbitrary: w)
  case (Cons l ls)
  have n: "fold (\<lambda>l w. snd (console_exec p w l)) ks None = None" for ks
    by (induction ks) (simp_all add: console_exec_def)
  show ?case
  proof (cases "execute_line p (- 1) (Some l) (w_sys w)")
    case None
    then show ?thesis by (simp add: console_exec_def [of _ "Some _"] n)
  next
    case (Some x)
    obtain ret s texts where x: "x = (ret, s, texts)" by (cases x)
    from Some Cons [of "w\<lparr>w_sys := s\<rparr>"] show ?thesis by (simp add: x console_exec_def [of _ "Some _" l])
  qed
qed simp

text \<open>Claim C8: the console, from its keys to the system.  For any bytes, timeouts and errors the UART brings, the
  loop of the console executes exactly the lines that the zipper of the line editor returns for the bytes, without the
  empty ones, and it leaves the system in the state that these lines, as line events one after the
  other, lead to (stuck if one of them gets stuck).  For printable lines of up to 255 characters typed one after the
  other, each with Return, these are the lines.\<close>

theorem console_runs_typed_lines:
  shows "executed (fst (uart_shell_task (console_exec p) True xs (Some (w_sys w)))) = typed_lines (keys xs) \<and>
    snd (uart_shell_task (console_exec p) True xs (Some (w_sys w))) =
      map_option w_sys (sys_run (map (\<lambda>l. EvLine p (- 1) (Some l)) (typed_lines (keys xs))) w) \<and>
    (list_all typeable ls \<and> keys xs = typing ls \<longrightarrow> typed_lines (keys xs) = filter (\<lambda>l. l \<noteq> []) ls)"
proof -
  have i: "0 < SHELL_MAX_LINE_LEN" by (simp add: SHELL_MAX_LINE_LEN_def)
  have e: "ed_inv SHELL_MAX_LINE_LEN (editor_new history_new)" "ed_abs (editor_new history_new) = zip_new ([], None)"
    using editor_new_does [OF i order.refl history_new_ok(1)] history_new_ok by (simp_all add: ed_does_def)
  have "typed_lines (keys xs) = lines_of (returns (fst (answers (session_key SHELL_MAX_LINE_LEN) (keys xs) (editor_new history_new))))"
    using editor.answers_sim [where ops = "keys xs" and s = "editor_new history_new" and buf_sz = SHELL_MAX_LINE_LEN] e
    by (simp add: typed_lines_def list_all_iff)
  with uart_loop_lines [of "console_exec p" xs history_new "Some (w_sys w)"] console_steps [of p _ w] zip_types_lines [of ls "([], None)"]
  show ?thesis by (auto simp: uart_shell_task_def split_beta typed_lines_def)
qed

text \<open>Typing \<^verbatim>\<open>export A=5\<close>, a timeout, an empty line and \<^verbatim>\<open>free\<close>.\<close>

theorem console_runs_typed_lines_witness:
  "executed (fst (uart_shell_task (console_exec demo_platform) True
     (map Got (map key_of ''export A=5'') @ [Nothing, Got 13, Got 13] @ map Got (map key_of ''free'') @ [Failed, Got 13]) (Some demo_sys))) =
   [''export A=5'', ''free'']"
proof -
  let ?xs = "map Got (map key_of ''export A=5'') @ [Nothing, Got 13, Got 13] @ map Got (map key_of ''free'') @ [Failed, Got 13]"
  have t: "list_all typeable [''export A=5'', [], ''free'']" by code_simp
  have k: "keys ?xs = typing [''export A=5'', [], ''free'']" by (simp add: typing_def)
  show ?thesis
    using console_runs_typed_lines [of demo_platform ?xs "(sys_power_on (Map.empty, []))\<lparr>w_sys := demo_sys\<rparr>" "[''export A=5'', [], ''free'']"] t k
    by simp
qed

end
