(* ===== verification/Spec2Isabelle.thy ===== *)
theory Spec2Isabelle
  imports SensorLog Telnet Progress Deferred Console
begin

text \<open>
  ESP32OS is firmware that gives an ESP32 the feel of a small operating system: a process table over
  FreeRTOS, a file system, a log, an environment, timers, a job scheduler, message queues, peripherals,
  Wi-Fi, MQTT, updates over the air and a web dashboard, all driven by a command shell over the UART or
  telnet.  This development models the C code under \<^verbatim>\<open>src/\<close>, function by function, and proves what makes it
  correct.  Paths below are relative to \<^verbatim>\<open>src/components/\<close>.

  \<^bold>\<open>The parts and how they interact.\<close>  \<^verbatim>\<open>app_main\<close> initialises the services in a fixed order and starts the shells.
  A session reads a line with the line editor, expands \<^verbatim>\<open>$NAME\<close> from the environment store, splits it
  into arguments and calls the registered command, which calls the services.  The scheduler and the web
  dashboard execute lines in the same way, the first from a job table that timers and a worker
  task drive, the second with the output captured.  Each service keeps its state in static variables behind one
  mutex, mostly a table of named slots.

  \<^bold>\<open>Shared theories.\<close>
  \<^item> \<open>Prelude\<close>: result codes, log levels, C strings in a buffer, traces with the discipline of a mutex, the
    search of a table, and the contracts \<open>guarded\<close> (every operation keeps the invariant) and \<open>simulates\<close> (every
    operation answers as the specification does) as locales.
  \<^item> \<open>Fmt\<close>: \<^verbatim>\<open>printf\<close> of numbers and columns, \<^verbatim>\<open>atoi\<close>, \<^verbatim>\<open>strtoul\<close>, \<^verbatim>\<open>strtol\<close>.
  \<^item> \<open>SlotTable\<close>: a table of named slots as a finite map, the locale \<open>slot_table\<close>; \<open>Ring\<close>: a ring buffer as the
    last entries of a sequence, the locale \<open>ring\<close>.  The services interpret them on their own tables.

  \<^bold>\<open>The services\<close>, one theory each; a record holds the static variables, a definition with the name of the C
  function models the function, and the same name leads to its lemmas.
  \<^item> \<open>Env\<close>, \<open>EnvExpand\<close> (\<^verbatim>\<open>os_env\<close>): the store refines a map of at most 16 names, what is saved is loaded
    again, and expansion is compared with the values of a line given as tokens.
  \<^item> \<open>Kernel\<close> (\<^verbatim>\<open>os_kernel\<close>): a table of 20 processes; unique numbers, what a creation leaves, where killing and
    resuming leak.
  \<^item> \<open>Ipc\<close> (\<^verbatim>\<open>os_ipc\<close>): queues, event groups and shared memory refine three maps; nothing survives shutting down.
  \<^item> \<open>Timer\<close> (\<^verbatim>\<open>os_timer\<close>) and \<open>Scheduler\<close> (\<^verbatim>\<open>os_scheduler\<close>): the tables with the FreeRTOS timers, the queue and the
    worker as step relations, with invariants of all reachable states and a liveness theorem for the worker.
  \<^item> \<open>Logging\<close> (\<^verbatim>\<open>os_logging\<close>): the ring of the last 64 entries; \<open>Pwm\<close> (\<^verbatim>\<open>os_pwm\<close>): channels that share timers by
    reference counts, and conversions of the duty on machine words.
  \<^item> \<open>Mqtt\<close> (\<^verbatim>\<open>os_mqtt\<close>): the subscriptions refine a map and are asked for again on each connection.
  \<^item> \<open>Fs\<close> (\<^verbatim>\<open>os_fs\<close>): paths and the working directory, files written and read back.
  \<^item> \<open>Ota\<close> (\<^verbatim>\<open>os_ota\<close>): the update task and the aborting caller as two program counters; no restart without a
    verified image, no handle leaked or closed twice, an abort ends the task.
  \<^item> \<open>Net\<close> (\<^verbatim>\<open>os_networking\<close>), \<open>Drivers\<close> (\<^verbatim>\<open>os_drivers\<close>): connecting, the ping checksum and statistics; levels are
    set on output pins only.
  \<^item> \<open>WebPortal\<close> (\<^verbatim>\<open>webportal\<close>): telemetry in a ring, the form parser, the handlers; responses stay in their buffer.

  \<^bold>\<open>The shell\<close> (\<^verbatim>\<open>os_shell\<close>).
  \<^item> \<open>LineEdit\<close>: line history and line editor, which refines a zipper.
  \<^item> \<open>Shell\<close>: command table, arguments, execution, capture, the loops of the sessions and the login.
  \<^item> \<open>Telnet\<close>: reading a character, the UART and the telnet server around the sessions.
  \<^item> \<open>CmdBase\<close>: the state of the whole system (\<open>sys\<close>), the answers of the platform to a command (\<open>platform\<close>), and
    the helpers of \<^verbatim>\<open>shell_commands.c\<close>; \<open>CmdSystem\<close> and \<open>CmdServices\<close>: all 52 commands; \<open>CmdTable\<close>: their table
    and \<open>execute_line\<close>, which carries a line from its text to the new state of the system.

  \<^bold>\<open>The whole\<close> (\<^verbatim>\<open>src/main/main.c\<close> and the composition).
  \<^item> \<open>System\<close>: the invariant of all components, that every command keeps it, and the events of the running system
    as steps (\<open>sys_step\<close>, \<open>sys_run\<close>).
  \<^item> \<open>Boot\<close>: \<open>app_main\<close> by its stages; which failures stop it, that it establishes the invariant and that every event
    then keeps it.
  \<^item> \<open>Progress\<close>: after the boot no sequence of events whose lines fit gets the system stuck; what the commands store
    is again a line that fits.
  \<^item> \<open>Scenarios\<close>: lines executed after each other; a variable set on one line is used by the next, a file
    written by one line is printed by the next, and a command of the browser does what it does on the console.
  \<^item> \<open>Console\<close>: the loop of the console executes, for any input, the lines the zipper of the editor returns, and these are
    line events of \<open>sys_run\<close>.
  \<^item> \<open>Deferred\<close>: a line of \<^verbatim>\<open>at\<close> or \<^verbatim>\<open>every\<close> from its text through the job table, the expiry of its timer and the worker
    to what its command does then, and how long a job keeps its slot.
  \<^item> \<open>SensorLog\<close>: the example application \<^verbatim>\<open>src/examples/sensor_logger.c\<close>, its command added to the table.

  \<^bold>\<open>Conventions.\<close>  An operation takes what it reads from outside and its state and returns its result, the new
  state and a trace.  What FreeRTOS, ESP-IDF, POSIX and the socket library return is an argument, never
  assumed; where a property relies on documented behaviour of such a call (a POSIX file keeps what is written, a
  FreeRTOS timer runs after a start) it is a named hypothesis or a step of the relation.  The trace holds the
  calls, the lines logged and the taking and giving of the mutex.  A C string is the list of its characters before the
  terminator; a pointer that may be NULL is an option.  Integers whose width matters are words of that width, the
  others naturals or integers.  \<open>None\<close> as the result of a step stands for an access outside a buffer.
  Sections under one mutex are single steps; where the code works without it, as the worker, the update
  task and \<^verbatim>\<open>os_ota_abort\<close> do, the sections are separate steps that interleave.

  \<^bold>\<open>Bounds.\<close>  No definition uses fuel.  Loops over a buffer or an input recurse on what is left of it, with
  \<open>termination\<close> proved; loops over a table on the table; the bounded loops of the code (15 arguments, 6 attempts to
  connect, the polls of an abort) carry the code's own bound.  The sessions, the worker, the samplers and
  the monitor, which never return, are modelled by one turn, or by the turns that a finite input or sequence
  of events allows.

  \<^bold>\<open>Not modelled.\<close>
  \<^item> The prototypes and comments of the headers (their constants, enums and structures are), \<^verbatim>\<open>os_hal.h\<close>, which only
    includes \<^verbatim>\<open>os_drivers.h\<close>, and the preprocessor branches of the disabled web portal, which return constants.
  \<^item> The unit tests under \<^verbatim>\<open>*/test\<close>, of which the command \<open>test\<close> records the calls; the build files, scripts and
    documents; the page and script of the dashboard.
  \<^item> FreeRTOS, ESP-IDF, lwIP and the C library beyond the conversions in \<open>Fmt\<close>.
  \<^item> Races on data that the code shares without a lock (the telemetry ring, the network status): the
    functions that touch them are whole steps.  \<^verbatim>\<open>http_event_handler\<close> of the network code, whose body has no
    effect, and \<^verbatim>\<open>app_main\<close>'s endless feeding of the watchdog.
\<close>

end
